(* ===== verification/Prelude.thy ===== *)
theory Prelude
  imports Main "HOL-Library.Word" "HOL-Library.List_Lexorder" "HOL-Library.Char_ord"
    "HOL-Library.Multiset" "HOL-Library.Sublist"
begin

text \<open>
  What every theory of the development shares: the names of the Rust types it models
  (strings as byte lists, fixed-width integers as words, \<open>Result\<close> as a sum,
  \<open>BTreeMap\<close> as a key-sorted association list), the string operations of the Rust
  standard library the operator calls, and the stable sort behind \<open>slice::sort_by\<close>.
  The contract of a sorted map and of a stable sort are locales, interpreted here on the
  definitions that model them; the components use the interpretations' facts.
\<close>

named_theorems result_simps \<open>unfolding rules for fallible code\<close>

type_synonym u8 = "8 word"
type_synonym u16 = "16 word"
type_synonym ('e, 'a) result = "'e + 'a"

definition unwrap_or :: "'a option \<Rightarrow> 'a \<Rightarrow> 'a" where
  "unwrap_or v d = (case v of None \<Rightarrow> d | Some x \<Rightarrow> x)"

lemma unwrap_or_simps [simp]: "unwrap_or None d = d" "unwrap_or (Some x) d = x"
  by (simp_all add: unwrap_or_def)

lemma unwrap_or_eq_iff: "unwrap_or v d = x \<longleftrightarrow> v = Some x \<or> (v = None \<and> d = x)"
  by (cases v) auto

text \<open>\<open>Option::or\<close>: the first value if it is there, the second otherwise.\<close>

definition opt_or :: "'a option \<Rightarrow> 'a option \<Rightarrow> 'a option" where
  "opt_or a b = (case a of None \<Rightarrow> b | Some _ \<Rightarrow> a)"

lemma opt_or_simps [simp]: "opt_or None b = b" "opt_or (Some x) b = Some x" "opt_or a None = a"
  by (simp_all add: opt_or_def split: option.split)

lemma map_option_opt_or [simp]: "map_option f (opt_or a b) = opt_or (map_option f a) (map_option f b)"
  by (cases a) simp_all

definition result_bind :: "('e, 'a) result \<Rightarrow> ('a \<Rightarrow> ('e, 'b) result) \<Rightarrow> ('e, 'b) result" where
  "result_bind r f = (case r of Inl e \<Rightarrow> Inl e | Inr a \<Rightarrow> f a)"

lemma result_bind_simps [simp, result_simps]:
  "result_bind (Inl e) f = Inl e" "result_bind (Inr a) f = f a"
  by (simp_all add: result_bind_def)

lemma map_filter_mem: "y \<in> set (List.map_filter f xs) \<longleftrightarrow> (\<exists>x \<in> set xs. f x = Some y)"
  by (induction xs) (auto simp: map_filter_simps split: option.split)

subsection \<open>Strings\<close>

text \<open>
  \<open>str\<close> values are their bytes. Rust's \<open>trim\<close> removes Unicode white space; the
  model removes the ASCII part of it (tab, LF, VT, FF, CR, space), which is all of it for
  the ASCII names and subjects the admission layer lets through.
\<close>

definition is_ws :: "char \<Rightarrow> bool" where
  "is_ws c \<longleftrightarrow> c = CHR '' '' \<or> (9 \<le> (of_char c :: nat) \<and> (of_char c :: nat) \<le> 13)"

definition trim_start :: "string \<Rightarrow> string" where
  "trim_start s = dropWhile is_ws s"

definition str_trim :: "string \<Rightarrow> string" where
  "str_trim s = rev (trim_start (rev (trim_start s)))"

fun join :: "string \<Rightarrow> string list \<Rightarrow> string" where
  "join sep [] = []"
| "join sep [x] = x"
| "join sep (x # y # zs) = x @ sep @ join sep (y # zs)"

text \<open>
  \<open>{s:?}\<close>: the string in double quotes, with the escapes of \<open>char::escape_debug\<close> for ASCII
  characters. A byte of 128 or more is kept (Rust prints a printable character as it is).
\<close>

definition hex_lower :: "nat \<Rightarrow> char" where
  "hex_lower n = char_of (if n < 10 then 48 + n else 87 + n)"

definition escape_char :: "char \<Rightarrow> string" where
  "escape_char c =
     (let n = of_char c :: nat
      in if n = 34 then [char_of (92 :: nat), c]
         else if n = 92 then [c, c]
         else if n = 0 then [char_of (92 :: nat), CHR ''0'']
         else if n = 9 then [char_of (92 :: nat), CHR ''t'']
         else if n = 10 then [char_of (92 :: nat), CHR ''n'']
         else if n = 13 then [char_of (92 :: nat), CHR ''r'']
         else if n = 127 \<or> 16 \<le> n \<and> n < 32
           then [char_of (92 :: nat)] @ ''u{'' @ [hex_lower (n div 16), hex_lower (n mod 16)] @ ''}''
         else if n < 16 then [char_of (92 :: nat)] @ ''u{'' @ [hex_lower n] @ ''}''
         else [c])"

definition debug_str :: "string \<Rightarrow> string" where
  "debug_str s = [char_of (34 :: nat)] @ concat (map escape_char s) @ [char_of (34 :: nat)]"

text \<open>The part before the first \<open>c\<close> (\<open>s.split(c).next()\<close>): the whole string if there is none.\<close>

definition split_first :: "char \<Rightarrow> string \<Rightarrow> string" where
  "split_first c s = takeWhile (\<lambda>x. x \<noteq> c) s"

definition split_once :: "char \<Rightarrow> string \<Rightarrow> (string \<times> string) option" where
  "split_once c s =
     (if c \<in> set s then Some (takeWhile (\<lambda>x. x \<noteq> c) s, tl (dropWhile (\<lambda>x. x \<noteq> c) s)) else None)"

definition rsplit_once :: "char \<Rightarrow> string \<Rightarrow> (string \<times> string) option" where
  "rsplit_once c s = map_option (\<lambda>(a, b). (rev b, rev a)) (split_once c (rev s))"

fun split_on :: "char \<Rightarrow> string \<Rightarrow> string list" where
  "split_on c [] = [[]]"
| "split_on c (x # xs) =
     (if x = c then [] # split_on c xs
      else (case split_on c xs of [] \<Rightarrow> [[x]] | p # ps \<Rightarrow> (x # p) # ps))"

definition strip_prefix :: "string \<Rightarrow> string \<Rightarrow> string option" where
  "strip_prefix p s = (if prefix p s then Some (drop (length p) s) else None)"

definition is_ascii_digit :: "char \<Rightarrow> bool" where
  "is_ascii_digit c \<longleftrightarrow> 48 \<le> (of_char c :: nat) \<and> (of_char c :: nat) \<le> 57"

lemma split_once_None [simp]: "split_once c s = None \<longleftrightarrow> c \<notin> set s"
  by (simp add: split_once_def)

lemma takeWhile_sep [simp]: "c \<notin> set a \<Longrightarrow> takeWhile (\<lambda>x. x \<noteq> c) (a @ c # b) = a"
  by (induction a) auto

lemma dropWhile_sep [simp]: "c \<notin> set a \<Longrightarrow> dropWhile (\<lambda>x. x \<noteq> c) (a @ c # b) = c # b"
  by (induction a) auto

lemma split_once_sep [simp]: "c \<notin> set a \<Longrightarrow> split_once c (a @ c # b) = Some (a, b)"
  by (simp add: split_once_def)

lemma split_once_Some: "split_once c s = Some (a, b) \<Longrightarrow> s = a @ c # b \<and> c \<notin> set a"
proof -
  assume h: "split_once c s = Some (a, b)"
  then have c: "c \<in> set s" by (simp add: split_once_def split: if_splits)
  then obtain p q where s: "s = p @ c # q" and "c \<notin> set p"
    by (meson split_list_first)
  with h show ?thesis by simp
qed

lemma rsplit_once_sep [simp]: "c \<notin> set b \<Longrightarrow> rsplit_once c (a @ c # b) = Some (a, b)"
  by (simp add: rsplit_once_def)

lemma rsplit_once_Some: "rsplit_once c s = Some (a, b) \<Longrightarrow> s = a @ c # b \<and> c \<notin> set b"
proof -
  assume "rsplit_once c s = Some (a, b)"
  then have "split_once c (rev s) = Some (rev b, rev a)"
    by (auto simp: rsplit_once_def)
  then have "rev s = rev b @ c # rev a" and "c \<notin> set b"
    by (auto dest: split_once_Some)
  then have "rev (rev s) = rev (rev b @ c # rev a)" by simp
  with \<open>c \<notin> set b\<close> show ?thesis by simp
qed

lemma split_on_ne [simp]: "split_on c s \<noteq> []"
  by (induction s) (auto split: list.splits)

lemma strip_prefix_append [simp]: "strip_prefix p (p @ s) = Some s"
  by (simp add: strip_prefix_def)

lemma strip_prefix_Some: "strip_prefix p s = Some r \<longleftrightarrow> s = p @ r"
  by (auto simp: strip_prefix_def prefix_def)

subsection \<open>Decimal numbers\<close>

fun show_nat :: "nat \<Rightarrow> string" where
  "show_nat n = (if n < 10 then [char_of (48 + n)] else show_nat (n div 10) @ [char_of (48 + n mod 10)])"

declare show_nat.simps [simp del]

definition show_int :: "int \<Rightarrow> string" where
  "show_int i = (if i < 0 then CHR ''-'' # show_nat (nat (- i)) else show_nat (nat i))"

text \<open>The format \<open>{n:03}\<close>: padded with zeros to at least three digits.\<close>

definition pad3 :: "nat \<Rightarrow> string" where
  "pad3 n = replicate (3 - length (show_nat n)) (CHR ''0'') @ show_nat n"

lemma of_char_digit: "d < 10 \<Longrightarrow> (of_char (char_of (48 + d)) :: nat) = 48 + d"
  by (simp add: of_char_of)

lemma show_nat_digits: "\<forall>c \<in> set (show_nat n). is_ascii_digit c"
proof (induction n rule: show_nat.induct)
  case (1 n)
  show ?case
  proof (cases "n < 10")
    case True
    then show ?thesis
      by (subst show_nat.simps) (simp add: is_ascii_digit_def of_char_digit del: of_char_of)
  next
    case False
    have "n mod 10 < 10" by simp
    then have "is_ascii_digit (char_of (48 + n mod 10))"
      unfolding is_ascii_digit_def by (simp only: of_char_digit) simp
    with 1 False show ?thesis by (subst show_nat.simps) simp
  qed
qed

lemma show_nat_ne [simp]: "show_nat n \<noteq> []"
  by (subst show_nat.simps) simp

lemma show_nat_inj: "show_nat m = show_nat n \<Longrightarrow> m = n"
proof (induction m arbitrary: n rule: show_nat.induct)
  case (1 m)
  have last_digit: "(of_char (last (show_nat k)) :: nat) = 48 + k mod 10" for k
  proof (cases "k < 10")
    case True
    then show ?thesis by (subst show_nat.simps) (simp add: of_char_digit del: of_char_of)
  next
    case False
    have "k mod 10 < 10" by simp
    then show ?thesis using False
      by (subst show_nat.simps) (simp add: of_char_digit del: of_char_of)
  qed
  have init: "butlast (show_nat k) = (if k < 10 then [] else show_nat (k div 10))" for k
    by (subst show_nat.simps) (simp add: butlast_append)
  from "1.prems" have mod: "m mod 10 = n mod 10"
    using last_digit [of m] last_digit [of n] by simp
  from "1.prems" have but: "butlast (show_nat m) = butlast (show_nat n)" by simp
  show ?case
  proof (cases "m < 10")
    case True
    with but have "n < 10" by (metis init show_nat_ne)
    with True mod show ?thesis by simp
  next
    case False
    with but have "\<not> n < 10" by (metis init show_nat_ne)
    with False but have "show_nat (m div 10) = show_nat (n div 10)" by (simp add: init)
    with False have "m div 10 = n div 10" by (rule "1.IH")
    with mod show ?thesis by (metis div_mult_mod_eq)
  qed
qed

lemma pad3_digits: "\<forall>c \<in> set (pad3 n). is_ascii_digit c"
  using show_nat_digits by (auto simp: pad3_def is_ascii_digit_def)

lemma pad3_ne [simp]: "pad3 n \<noteq> []"
  by (simp add: pad3_def)

lemma digits_no_char: "\<forall>c \<in> set s. is_ascii_digit c \<Longrightarrow> \<not> is_ascii_digit x \<Longrightarrow> x \<notin> set s"
  by auto

subsection \<open>Ordered maps\<close>

text \<open>
  A \<open>BTreeMap<String, V>\<close> is its entries in key order. \<open>bt_insert\<close> is
  \<open>BTreeMap::insert\<close> (replace the value of an existing key, or add the entry at its
  place), \<open>map_of\<close> is \<open>get\<close>, and the iteration order is the list's.
\<close>

type_synonym 'v btreemap = "(string \<times> 'v) list"

fun bt_insert :: "string \<Rightarrow> 'v \<Rightarrow> 'v btreemap \<Rightarrow> 'v btreemap" where
  "bt_insert k v [] = [(k, v)]"
| "bt_insert k v ((a, b) # m) =
     (if k < a then (k, v) # (a, b) # m
      else if k = a then (k, v) # m
      else (a, b) # bt_insert k v m)"

definition bt_wf :: "'v btreemap \<Rightarrow> bool" where
  "bt_wf m \<longleftrightarrow> sorted_wrt (<) (map fst m)"

definition bt_extend :: "'v btreemap \<Rightarrow> 'v btreemap \<Rightarrow> 'v btreemap" where
  "bt_extend base ovr = foldl (\<lambda>m (k, v). bt_insert k v m) base ovr"

lemma bt_insert_keys: "set (map fst (bt_insert k v m)) = insert k (set (map fst m))"
  by (induction k v m rule: bt_insert.induct) auto

lemma bt_wf_Nil [simp]: "bt_wf []"
  by (simp add: bt_wf_def)

lemma bt_wf_Cons: "bt_wf ((k, v) # m) \<longleftrightarrow> (\<forall>a \<in> set (map fst m). k < a) \<and> bt_wf m"
  by (simp add: bt_wf_def)

lemma bt_wf_insert: "bt_wf m \<Longrightarrow> bt_wf (bt_insert k v m)"
proof (induction k v m rule: bt_insert.induct)
  case (1 k v)
  then show ?case by (simp add: bt_wf_Cons)
next
  case (2 k v a b m)
  consider "k < a" | "k = a" | "a < k" by fastforce
  then show ?case
  proof cases
    case 1
    with 2 show ?thesis by (auto simp: bt_wf_Cons)
  next
    case 2
    with "2.prems" show ?thesis by (simp add: bt_wf_Cons)
  next
    case 3
    with 2 have "bt_wf (bt_insert k v m)" by (simp add: bt_wf_Cons)
    with 3 "2.prems" show ?thesis
      using bt_insert_keys [of k v m] by (auto simp: bt_wf_Cons)
  qed
qed

lemma bt_get_insert: "map_of (bt_insert k v m) = (map_of m)(k \<mapsto> v)"
  by (induction k v m rule: bt_insert.induct) (auto simp: fun_eq_iff)

lemma bt_wf_distinct: "bt_wf m \<Longrightarrow> distinct (map fst m)"
  by (simp add: bt_wf_def strict_sorted_iff)

text \<open>The contract of a map, and what folding one map over another does to it.\<close>

locale ordered_map =
  fixes get :: "'m \<Rightarrow> string \<Rightarrow> 'v option"
    and ins :: "string \<Rightarrow> 'v \<Rightarrow> 'm \<Rightarrow> 'm"
    and inv :: "'m \<Rightarrow> bool"
  assumes get_ins: "get (ins k v m) = (get m)(k \<mapsto> v)"
    and inv_ins: "inv m \<Longrightarrow> inv (ins k v m)"
begin

lemma fold_inv: "inv m \<Longrightarrow> inv (foldl (\<lambda>m (k, v). ins k v m) m kvs)"
  by (induction kvs arbitrary: m) (auto simp: inv_ins)

lemma fold_get:
  "distinct (map fst kvs) \<Longrightarrow> get (foldl (\<lambda>m (k, v). ins k v m) m kvs) = get m ++ map_of kvs"
proof (induction kvs arbitrary: m)
  case Nil
  then show ?case by simp
next
  case (Cons kv kvs)
  obtain k v where kv: "kv = (k, v)" by (cases kv)
  with Cons.prems have fresh: "map_of kvs k = None" and d: "distinct (map fst kvs)"
    by (auto simp: map_of_eq_None_iff)
  have "get (foldl (\<lambda>m (k, v). ins k v m) m (kv # kvs)) = (get m)(k \<mapsto> v) ++ map_of kvs"
    using Cons.IH [OF d] by (simp add: kv get_ins fun_upd_def)
  also have "\<dots> = get m ++ map_of (kv # kvs)"
    using fresh by (auto simp: kv map_add_def fun_eq_iff split: option.splits)
  finally show ?case .
qed

end

interpretation bt: ordered_map map_of bt_insert bt_wf
  by unfold_locales (auto simp: bt_get_insert bt_wf_insert)

lemma bt_extend_get: "bt_wf ovr \<Longrightarrow> map_of (bt_extend base ovr) = map_of base ++ map_of ovr"
  by (simp add: bt_extend_def bt.fold_get bt_wf_distinct)

lemma bt_extend_wf: "bt_wf base \<Longrightarrow> bt_wf (bt_extend base ovr)"
  by (simp add: bt_extend_def bt.fold_inv)

subsection \<open>Stable sorting\<close>

text \<open>
  \<open>slice::sort_by\<close> is a stable sort by a comparison: inserting each element, from the
  last to the first, before the first element it does not exceed.
\<close>

fun insort_le :: "('a \<Rightarrow> 'a \<Rightarrow> bool) \<Rightarrow> 'a \<Rightarrow> 'a list \<Rightarrow> 'a list" where
  "insort_le le x [] = [x]"
| "insort_le le x (y # ys) = (if le x y then x # y # ys else y # insort_le le x ys)"

definition sort_le :: "('a \<Rightarrow> 'a \<Rightarrow> bool) \<Rightarrow> 'a list \<Rightarrow> 'a list" where
  "sort_le le xs = foldr (insort_le le) xs []"

lemma sort_le_simps [simp]:
  "sort_le le [] = []" "sort_le le (x # xs) = insort_le le x (sort_le le xs)"
  by (simp_all add: sort_le_def)

lemma mset_insort_le [simp]: "mset (insort_le le x ys) = add_mset x (mset ys)"
  by (induction ys) auto

lemma mset_sort_le [simp]: "mset (sort_le le xs) = mset xs"
  by (induction xs) auto

lemma set_sort_le [simp]: "set (sort_le le xs) = set xs"
  by (metis mset_sort_le set_mset_mset)

lemma length_sort_le [simp]: "length (sort_le le xs) = length xs"
  by (metis mset_sort_le size_mset)

lemma sort_le_Nil_iff [simp]: "sort_le le xs = [] \<longleftrightarrow> xs = []"
  by (metis length_0_conv length_sort_le)

locale total_preorder =
  fixes le :: "'a \<Rightarrow> 'a \<Rightarrow> bool"
  assumes le_total: "le a b \<or> le b a"
    and le_trans: "le a b \<Longrightarrow> le b c \<Longrightarrow> le a c"
begin

lemma sorted_insort: "sorted_wrt le ys \<Longrightarrow> sorted_wrt le (insort_le le x ys)"
proof (induction ys)
  case Nil
  then show ?case by simp
next
  case (Cons y ys)
  have set_ins: "set (insort_le le x ys) = insert x (set ys)"
    using mset_insort_le [of le x ys] by (metis set_mset_add_mset_insert set_mset_mset)
  from Cons show ?case
    using set_ins le_total le_trans by auto
qed

lemma sorted_sort: "sorted_wrt le (sort_le le xs)"
  by (induction xs) (simp_all add: sorted_insort)

lemma sort_head_least: "sort_le le xs = y # ys \<Longrightarrow> x \<in> set xs \<Longrightarrow> le y x"
proof -
  assume h: "sort_le le xs = y # ys" and x: "x \<in> set xs"
  have "sorted_wrt le (y # ys)" using sorted_sort [of xs] h by simp
  moreover from x have "x \<in> set (y # ys)" using h set_sort_le [of le xs] by simp
  ultimately show "le y x" using le_total by auto
qed

lemma sort_sorted_id: "sorted_wrt le xs \<Longrightarrow> sort_le le xs = xs"
proof (induction xs)
  case (Cons x xs)
  then show ?case by (cases xs) auto
qed simp

lemma sort_idem [simp]: "sort_le le (sort_le le xs) = sort_le le xs"
  by (rule sort_sorted_id) (rule sorted_sort)

end

locale total_order_on_keys = total_preorder +
  assumes le_antisym: "le a b \<Longrightarrow> le b a \<Longrightarrow> a = b"
begin

lemma sorted_mset_unique:
  "sorted_wrt le xs \<Longrightarrow> sorted_wrt le ys \<Longrightarrow> mset xs = mset ys \<Longrightarrow> xs = ys"
proof (induction xs arbitrary: ys)
  case Nil
  then show ?case by simp
next
  case (Cons x xs)
  then obtain y ys' where ys: "ys = y # ys'" by (cases ys) auto
  have "x \<in> set ys" "y \<in> set (x # xs)"
    using Cons.prems(3) ys by (metis list.set_intros(1) set_mset_mset)+
  then have "le y x" and "le x y"
    using Cons.prems(1,2) ys le_total by auto
  then have "x = y" by (simp add: le_antisym)
  then show ?case using Cons ys by auto
qed

lemma sort_perm_eq: "mset xs = mset ys \<Longrightarrow> sort_le le xs = sort_le le ys"
  by (rule sorted_mset_unique) (simp_all add: sorted_sort)

end

text \<open>\<open>sort\<close> and \<open>dedup\<close> of a list of strings, and \<open>Iterator::find_map\<close>.\<close>

definition sort_dedup :: "string list \<Rightarrow> string list" where
  "sort_dedup xs = remdups_adj (sort xs)"

lemma set_sort_dedup [simp]: "set (sort_dedup xs) = set xs"
  by (simp add: sort_dedup_def)

definition find_map :: "('a \<Rightarrow> 'b option) \<Rightarrow> 'a list \<Rightarrow> 'b option" where
  "find_map f xs = (case List.map_filter f xs of [] \<Rightarrow> None | y # _ \<Rightarrow> Some y)"

lemma find_map_simps [simp]:
  "find_map f [] = None" "find_map f (x # xs) = (case f x of None \<Rightarrow> find_map f xs | Some y \<Rightarrow> Some y)"
  by (simp_all add: find_map_def map_filter_simps split: option.split)

text \<open>Grouping into a map with \<open>entry(..).or_default()\<close>: each group folds its elements in order.\<close>

lemma bt_group_opt:
  fixes key :: "'a \<Rightarrow> string" and add :: "'g option \<Rightarrow> 'a \<Rightarrow> 'g"
  defines "grp \<equiv> \<lambda>xs. foldl (\<lambda>m x. bt_insert (key x) (add (map_of m (key x)) x) m) [] xs"
  shows "bt_wf (grp xs)"
    and "map_of (grp xs) k = foldl (\<lambda>g x. Some (add g x)) None (filter (\<lambda>x. key x = k) xs)"
proof -
  have "bt_wf (grp xs) \<and> map_of (grp xs) = (\<lambda>k. foldl (\<lambda>g x. Some (add g x)) None (filter (\<lambda>x. key x = k) xs))"
  proof (induction xs rule: rev_induct)
    case Nil
    then show ?case by (simp add: grp_def fun_eq_iff)
  next
    case (snoc x xs)
    have "grp (xs @ [x]) = bt_insert (key x) (add (map_of (grp xs) (key x)) x) (grp xs)"
      by (simp add: grp_def)
    with snoc show ?case by (auto simp: bt_get_insert bt_wf_insert fun_eq_iff)
  qed
  then show "bt_wf (grp xs)" "map_of (grp xs) k = foldl (\<lambda>g x. Some (add g x)) None (filter (\<lambda>x. key x = k) xs)"
    by auto
qed

lemma fold_option_Some: "foldl (\<lambda>g x. Some (add (unwrap_or g e) x)) g xs =
    (if xs = [] then g else Some (foldl add (unwrap_or g e) xs))"
  by (induction xs arbitrary: g) auto

lemma bt_group:
  fixes key :: "'a \<Rightarrow> string" and add :: "'g \<Rightarrow> 'a \<Rightarrow> 'g" and e :: 'g
  defines "grp \<equiv> \<lambda>xs. foldl (\<lambda>m x. bt_insert (key x) (add (unwrap_or (map_of m (key x)) e) x) m) [] xs"
  shows "bt_wf (grp xs)"
    and "map_of (grp xs) k = (if k \<in> key ` set xs then Some (foldl add e (filter (\<lambda>x. key x = k) xs)) else None)"
  unfolding grp_def bt_group_opt(2) [of key "\<lambda>g. add (unwrap_or g e)"] fold_option_Some
  using bt_group_opt(1) [of key "\<lambda>g. add (unwrap_or g e)"] by (auto simp: filter_empty_conv)

lemma sorted_wrt_before:
  assumes "sorted_wrt le (xs @ r # ys)" "distinct (xs @ r # ys)"
    and "\<And>a b. a \<in> set (xs @ r # ys) \<Longrightarrow> b \<in> set (xs @ r # ys) \<Longrightarrow> le a b \<Longrightarrow> le b a \<Longrightarrow> a = b"
  shows "set xs = {x \<in> set (xs @ r # ys). x \<noteq> r \<and> le x r}"
  using assms by (auto simp: sorted_wrt_append)

end
