(* ===== verification/Json.thy ===== *)
theory Json
  imports Prelude "HOL-Library.Countable"
begin

text \<open>
  JSON values as the operator sees them through \<open>serde_json::Value\<close>, and the accessors
  it uses on them. An object is a \<open>BTreeMap\<close> (key-sorted entries); a number is kept as
  its printed text, since no modelled code computes with a JSON number. The printer and
  the parser are the library's and stay parameters of the definitions that use them.
\<close>

datatype json =
    JNull
  | JBool bool
  | JNumber string
  | JString string
  | JArray "json list"
  | JObject "(string \<times> json) list"

instance json :: countable
  by countable_datatype

definition as_str :: "json \<Rightarrow> string option" where
  "as_str v = (case v of JString s \<Rightarrow> Some s | _ \<Rightarrow> None)"

definition as_object :: "json \<Rightarrow> json btreemap option" where
  "as_object v = (case v of JObject m \<Rightarrow> Some m | _ \<Rightarrow> None)"

definition as_array :: "json \<Rightarrow> json list option" where
  "as_array v = (case v of JArray xs \<Rightarrow> Some xs | _ \<Rightarrow> None)"

definition json_get :: "json \<Rightarrow> string \<Rightarrow> json option" where
  "json_get v k = Option.bind (as_object v) (\<lambda>m. map_of m k)"

text \<open>\<open>Value::pointer\<close> along object keys.\<close>

fun json_pointer :: "json \<Rightarrow> string list \<Rightarrow> json option" where
  "json_pointer v [] = Some v"
| "json_pointer v (k # ks) =
     (case json_get v k of None \<Rightarrow> None | Some w \<Rightarrow> json_pointer w ks)"

definition opt_json :: "json option \<Rightarrow> json" where
  "opt_json v = unwrap_or v JNull"

lemma as_str_simps [simp]:
  "as_str (JString s) = Some s" "as_str JNull = None" "as_str (JBool b) = None"
  "as_str (JNumber n) = None" "as_str (JArray xs) = None" "as_str (JObject m) = None"
  by (simp_all add: as_str_def)

lemma as_str_Some [simp]: "as_str v = Some s \<longleftrightarrow> v = JString s"
  by (cases v) auto

lemma as_object_simps [simp]:
  "as_object (JObject m) = Some m" "as_object (JString s) = None" "as_object JNull = None"
  "as_object (JBool b) = None" "as_object (JNumber n) = None" "as_object (JArray xs) = None"
  by (simp_all add: as_object_def)

lemma as_array_simps [simp]:
  "as_array (JArray xs) = Some xs" "as_array (JString s) = None" "as_array JNull = None"
  "as_array (JBool b) = None" "as_array (JNumber n) = None" "as_array (JObject m) = None"
  by (simp_all add: as_array_def)

lemma json_get_object [simp]: "json_get (JObject m) k = map_of m k"
  by (simp add: json_get_def)

lemma json_get_other [simp]: "json_get (JString s) k = None" "json_get JNull k = None"
  by (simp_all add: json_get_def)

end
