(* ===== verification/Migration_Types.thy ===== *)
theory Migration_Types
  imports Json
begin

text \<open>
  The \<open>MigrationPlan\<close> resource (\<open>operator-core/src/migration_plan.rs\<close>) and the
  vocabulary of detected changes with their approval hash
  (\<open>operator-core/src/migration.rs\<close>). The JSON printer (\<open>serde_json\<close>) and SHA-256
  (\<open>sha2\<close>) are parameters: \<open>to_str\<close> and \<open>sha256\<close>.
\<close>

subsection \<open>The resource\<close>

record object_meta =
  om_name :: "string option"
  om_namespace :: "string option"
  om_owner_references :: "(string \<times> string \<times> string \<times> string \<times> bool \<times> bool) list"
  om_labels :: "string btreemap"
  om_creation_timestamp :: "string option"

record application_ref =
  ref_name :: string
  ref_namespace :: string

record application_scope =
  as_ref :: application_ref
  as_environment :: string

record platform_scope =
  ps_components :: "string list"

record sourcecredential_scope =
  ss_ref :: application_ref

record plan_scope =
  sc_type :: string
  sc_application :: "application_scope option"
  sc_platform :: "platform_scope option"
  sc_sourcecredential :: "sourcecredential_scope option"

record migration_trigger =
  trig_type :: string
  trig_field :: string
  trig_from :: "json option"
  trig_to :: "json option"
  trig_hash :: "string option"

record migration_change =
  mc_trigger :: string
  mc_field :: string
  mc_classification :: string
  mc_severity :: nat
  mc_from :: "json option"
  mc_to :: "json option"

record migration_risks =
  risk_classification :: string
  risk_classifications :: "string list option"
  risk_estimated_downtime :: "string option"
  risk_data_volume :: "string option"
  risk_reversible :: "bool option"
  risk_requires_full_backup :: "bool option"

record migration_step =
  ms_step :: nat
  ms_action :: string
  ms_estimated_duration :: "string option"
  ms_reversible :: "bool option"

record migration_plan_spec =
  mp_scope :: plan_scope
  mp_trigger :: migration_trigger
  mp_risks :: "migration_risks option"
  mp_changes :: "migration_change list option"
  mp_plan :: "migration_step list option"
  mp_approvers :: "string list option"
  mp_snapshot :: "json option"

record executed_step =
  ex_step :: nat
  ex_started_at :: string
  ex_finished_at :: "string option"
  ex_outcome :: string
  ex_message :: "string option"

record migration_plan_status =
  st_phase :: "string option"
  st_approved_at :: "string option"
  st_approved_by :: "string option"
  st_executed_steps :: "executed_step list option"
  st_rejected_at :: "string option"

definition default_status :: migration_plan_status where
  "default_status = \<lparr>st_phase = None, st_approved_at = None, st_approved_by = None,
     st_executed_steps = None, st_rejected_at = None\<rparr>"

record migration_plan =
  mp_meta :: object_meta
  mp_spec :: migration_plan_spec
  mp_status :: "migration_plan_status option"

abbreviation plan_trigger :: "migration_plan \<Rightarrow> migration_trigger" where
  "plan_trigger p \<equiv> mp_trigger (mp_spec p)"

abbreviation plan_phase_opt :: "migration_plan \<Rightarrow> string option" where
  "plan_phase_opt p \<equiv> Option.bind (mp_status p) st_phase"

text \<open>The phase every reader of a plan falls back to when none is recorded.\<close>

definition plan_phase :: "migration_plan \<Rightarrow> string" where
  "plan_phase p = unwrap_or (plan_phase_opt p) ''pending-approval''"

subsection \<open>Detected changes\<close>

datatype step_outcome = Succeeded | Failed string | Skipped string

record destructive_change =
  dc_trigger_type :: string
  dc_field :: string
  dc_from :: "json option"
  dc_to :: "json option"
  dc_classification :: string

datatype migration_error =
    MErrKube string
  | NoSnapshot string
  | SnapshotShape string string
  | Backend string

definition classification_severity :: "string \<Rightarrow> nat" where
  "classification_severity c =
     (if c = ''security-boundary'' then 4
      else if c = ''data-migration'' then 3
      else if c = ''breaking'' then 2
      else if c = ''requires-restart'' then 1
      else 0)"

subsection \<open>The approval content hash\<close>

definition change_json :: "destructive_change \<Rightarrow> json" where
  "change_json c = JArray [JString (dc_trigger_type c), JString (dc_field c),
     opt_json (dc_from c), opt_json (dc_to c)]"

definition hex_digit :: "nat \<Rightarrow> char" where
  "hex_digit n = (if n < 10 then char_of (48 + n) else char_of (87 + n))"

definition hex_byte :: "u8 \<Rightarrow> string" where
  "hex_byte b = [hex_digit (unat b div 16), hex_digit (unat b mod 16)]"

definition hex_bytes :: "u8 list \<Rightarrow> string" where
  "hex_bytes bs = concat (map hex_byte bs)"

definition canonical_changes :: "(json \<Rightarrow> string) \<Rightarrow> destructive_change list \<Rightarrow> string" where
  "canonical_changes to_str cs = to_str (JArray (sort_key to_str (map change_json cs)))"

definition change_hash ::
  "(json \<Rightarrow> string) \<Rightarrow> (string \<Rightarrow> u8 list) \<Rightarrow> destructive_change list \<Rightarrow> string" where
  "change_hash to_str sha256 cs = hex_bytes (sha256 (canonical_changes to_str cs))"

lemma of_char_hex_digit: "n < 16 \<Longrightarrow> (of_char (hex_digit n) :: nat) = (if n < 10 then 48 + n else 87 + n)"
  by (simp add: hex_digit_def of_char_of)

lemma hex_digit_inj: "m < 16 \<Longrightarrow> n < 16 \<Longrightarrow> hex_digit m = hex_digit n \<Longrightarrow> m = n"
proof -
  assume b: "m < 16" "n < 16" and "hex_digit m = hex_digit n"
  then have "(of_char (hex_digit m) :: nat) = of_char (hex_digit n)" by simp
  with b show "m = n" by (simp add: of_char_hex_digit split: if_splits)
qed

lemma unat_u8_less: "unat (b :: u8) < 256"
  using unsigned_less [of b] by simp

lemma hex_byte_inj: "hex_byte a = hex_byte b \<Longrightarrow> a = b"
proof -
  assume "hex_byte a = hex_byte b"
  then have "hex_digit (unat a div 16) = hex_digit (unat b div 16)"
    and "hex_digit (unat a mod 16) = hex_digit (unat b mod 16)"
    by (simp_all add: hex_byte_def)
  moreover have "unat a div 16 < 16" "unat b div 16 < 16"
    using unat_u8_less [of a] unat_u8_less [of b] by auto
  ultimately have "unat a div 16 = unat b div 16" and "unat a mod 16 = unat b mod 16"
    by (auto intro: hex_digit_inj)
  then have "unat a = unat b" by (metis div_mult_mod_eq)
  then show "a = b" by (simp add: word_unat_eq_iff)
qed

lemma hex_bytes_inj: "hex_bytes as = hex_bytes bs \<Longrightarrow> as = bs"
proof (induction "as" arbitrary: bs)
  case Nil
  then show ?case by (cases bs) (auto simp: hex_bytes_def hex_byte_def)
next
  case (Cons a "as")
  then obtain b bs' where bs: "bs = b # bs'"
    by (cases bs) (auto simp: hex_bytes_def hex_byte_def)
  with Cons.prems have "hex_byte a = hex_byte b" and "hex_bytes as = hex_bytes bs'"
    by (auto simp: hex_bytes_def hex_byte_def)
  with Cons.IH bs show ?case by (auto dest: hex_byte_inj)
qed

lemma length_hex_bytes [simp]: "length (hex_bytes bs) = 2 * length bs"
  by (induction bs) (auto simp: hex_bytes_def hex_byte_def)

lemma mset_sort_key_eq:
  assumes "inj f" and "mset xs = mset ys"
  shows "sort_key f xs = sort_key f ys"
proof (rule properties_for_sort_key)
  show "mset (sort_key f ys) = mset xs" using assms(2) by simp
  show "sorted (map f (sort_key f ys))" by simp
  show "\<And>k. k \<in> set (sort_key f ys) \<Longrightarrow>
      filter (\<lambda>x. f k = f x) (sort_key f ys) = filter (\<lambda>x. f k = f x) xs"
  proof -
    fix k
    have sel: "filter (\<lambda>x. f k = f x) zs = replicate (count (mset zs) k) k" for zs
      using assms(1) by (induction zs) (auto simp: inj_eq)
    show "filter (\<lambda>x. f k = f x) (sort_key f ys) = filter (\<lambda>x. f k = f x) xs"
      by (simp add: sel assms(2))
  qed
qed

lemma canonical_changes_perm:
  "inj to_str \<Longrightarrow> mset cs = mset ds \<Longrightarrow> canonical_changes to_str cs = canonical_changes to_str ds"
proof -
  assume inj: "inj to_str" and "mset cs = mset ds"
  from \<open>mset cs = mset ds\<close> have "mset (map change_json cs) = mset (map change_json ds)"
    by simp
  with inj have "sort_key to_str (map change_json cs) = sort_key to_str (map change_json ds)"
    by (rule mset_sort_key_eq)
  then show ?thesis
    by (simp add: canonical_changes_def)
qed

lemma canonical_changes_inj:
  assumes "inj to_str" and "canonical_changes to_str cs = canonical_changes to_str ds"
  shows "mset (map change_json cs) = mset (map change_json ds)"
proof -
  from assms have "sort_key to_str (map change_json cs) = sort_key to_str (map change_json ds)"
    by (auto simp: canonical_changes_def dest: injD)
  then have "mset (sort_key to_str (map change_json cs)) = mset (sort_key to_str (map change_json ds))"
    by simp
  then show ?thesis by (simp only: mset_sort)
qed

end
