(* ===== verification/Migration_State.thy ===== *)
theory Migration_State
  imports Migration_Types
begin

text \<open>
  The gate's decision table (\<open>operator-core/src/migration_state.rs\<close>): a plan is
  bucketed against the change detected in this reconcile (\<open>plan_state\<close>), and the
  bucket decides what the reconcile does (\<open>decide\<close>). The properties say when a
  detected change may be applied at all, and what an approval is bound to.
\<close>

definition plan_is_blocking :: "migration_plan \<Rightarrow> bool" where
  "plan_is_blocking p = (\<not> (plan_phase p = ''completed'' \<or> plan_phase p = ''rejected''))"

datatype PlanState =
    NoPlan
  | BlockingMatch
  | BlockingMismatch
  | PlanFailed
  | CompletedMatch
  | Relic

datatype migration_decision =
    Render
  | CreatePlan
  | NoOp
  | DeleteThenCreate
  | ConsumeApply
  | DeleteThenRender
  | BlockFailed

fun decide :: "bool \<Rightarrow> PlanState \<Rightarrow> migration_decision" where
  "decide False NoPlan = Render"
| "decide False _ = DeleteThenRender"
| "decide True NoPlan = CreatePlan"
| "decide True BlockingMatch = NoOp"
| "decide True BlockingMismatch = DeleteThenCreate"
| "decide True PlanFailed = BlockFailed"
| "decide True CompletedMatch = ConsumeApply"
| "decide True Relic = DeleteThenCreate"

definition plan_hash_matches :: "migration_plan \<Rightarrow> string \<Rightarrow> bool" where
  "plan_hash_matches p current_hash =
     (case trig_hash (plan_trigger p) of
        Some h \<Rightarrow> (if h \<noteq> [] then h = current_hash else False)
      | None \<Rightarrow> False)"

definition trigger_matches :: "migration_plan \<Rightarrow> destructive_change \<Rightarrow> bool" where
  "trigger_matches p c \<longleftrightarrow>
     trig_type (plan_trigger p) = dc_trigger_type c \<and> trig_field (plan_trigger p) = dc_field c"

definition plan_state ::
  "(json \<Rightarrow> string) \<Rightarrow> (string \<Rightarrow> u8 list) \<Rightarrow>
   migration_plan option \<Rightarrow> destructive_change \<Rightarrow> destructive_change list \<Rightarrow> PlanState" where
  "plan_state to_str sha256 plan current current_changes =
     (case plan of
        None \<Rightarrow> NoPlan
      | Some p \<Rightarrow>
          (let phase = plan_phase p; matches = trigger_matches p current in
           if phase = ''failed'' then PlanFailed
           else if plan_is_blocking p then (if matches then BlockingMatch else BlockingMismatch)
           else if phase = ''completed'' \<and> matches then
             (if plan_hash_matches p (change_hash to_str sha256 current_changes)
              then CompletedMatch else Relic)
           else Relic))"

definition plan_state_no_change :: "migration_plan option \<Rightarrow> PlanState" where
  "plan_state_no_change plan = (case plan of None \<Rightarrow> NoPlan | Some _ \<Rightarrow> Relic)"

lemmas plan_state_defs =
  plan_state_def plan_is_blocking_def plan_hash_matches_def trigger_matches_def Let_def

lemma decide_ConsumeApply_iff [simp]:
  "decide has_change s = ConsumeApply \<longleftrightarrow> has_change \<and> s = CompletedMatch"
  by (cases has_change; cases s) auto

lemma decide_Render_iff [simp]: "decide has_change s = Render \<longleftrightarrow> \<not> has_change \<and> s = NoPlan"
  by (cases has_change; cases s) auto

lemma decide_DeleteThenRender_iff [simp]:
  "decide has_change s = DeleteThenRender \<longleftrightarrow> \<not> has_change \<and> s \<noteq> NoPlan"
  by (cases has_change; cases s) auto

lemma plan_hash_matches_iff:
  "plan_hash_matches p h \<longleftrightarrow> h \<noteq> [] \<and> trig_hash (plan_trigger p) = Some h"
  by (auto simp: plan_hash_matches_def split: option.splits)

lemma plan_state_CompletedMatch_iff:
  "plan_state to_str sha256 plan c cs = CompletedMatch \<longleftrightarrow>
     (\<exists>p. plan = Some p \<and> plan_phase p = ''completed'' \<and> trigger_matches p c \<and>
        change_hash to_str sha256 cs \<noteq> [] \<and>
        trig_hash (plan_trigger p) = Some (change_hash to_str sha256 cs))"
  by (auto simp: plan_state_def Let_def plan_is_blocking_def plan_hash_matches_iff split: option.splits)

text \<open>The decisions that let children be applied, and those that keep the edit paused.\<close>

definition applies_children :: "migration_decision \<Rightarrow> bool" where
  "applies_children d \<longleftrightarrow> d = Render \<or> d = ConsumeApply \<or> d = DeleteThenRender"

lemma applies_children_decide:
  "applies_children (decide has_change s) \<longleftrightarrow> (has_change \<longrightarrow> s = CompletedMatch)"
  by (cases has_change; cases s) (auto simp: applies_children_def)

text \<open>
  C2. The gate: with a detected change, the reconcile applies children exactly when the
  plan found is in phase \<open>completed\<close>, was cut for the same trigger type and field, and
  carries a non-empty approval hash equal to the hash of the full set of changes detected
  now. In every other case (no plan, a live or failed plan, a rejected one, a completed one
  for another change, another payload or without a hash) the edit stays paused.
\<close>

theorem gate_opens_only_for_the_approved_change:
  "applies_children (decide True (plan_state to_str sha256 plan c cs)) \<longleftrightarrow>
     (\<exists>p. plan = Some p \<and> plan_phase p = ''completed'' \<and>
        trig_type (plan_trigger p) = dc_trigger_type c \<and>
        trig_field (plan_trigger p) = dc_field c \<and>
        change_hash to_str sha256 cs \<noteq> [] \<and>
        trig_hash (plan_trigger p) = Some (change_hash to_str sha256 cs))"
  by (auto simp: applies_children_decide plan_state_CompletedMatch_iff trigger_matches_def)

text \<open>
  C3. An approval is not transferable: a completed plan whose hash was stamped over the
  changes \<open>cs\<close> opens the gate for the changes \<open>ds\<close> only if both sets are the same
  multiset of (trigger type, field, from, to) rows, provided the JSON printer is injective
  and SHA-256 does not collide on the two canonical texts. Order does not matter; adding,
  dropping or altering one change does.
\<close>

theorem approval_not_transferable:
  assumes "inj to_str"
    and "sha256 (canonical_changes to_str cs) = sha256 (canonical_changes to_str ds) \<longrightarrow>
         canonical_changes to_str cs = canonical_changes to_str ds"
    and "trig_hash (plan_trigger p) = Some (change_hash to_str sha256 cs)"
    and "applies_children (decide True (plan_state to_str sha256 (Some p) c ds))"
  shows "mset (map change_json cs) = mset (map change_json ds)"
proof -
  from assms(4) have "trig_hash (plan_trigger p) = Some (change_hash to_str sha256 ds)"
    by (auto simp: applies_children_decide plan_state_CompletedMatch_iff)
  with assms(3) have "hex_bytes (sha256 (canonical_changes to_str cs)) =
      hex_bytes (sha256 (canonical_changes to_str ds))"
    by (simp add: change_hash_def)
  then have "canonical_changes to_str cs = canonical_changes to_str ds"
    using assms(2) hex_bytes_inj by blast
  with assms(1) show ?thesis by (rule canonical_changes_inj)
qed

text \<open>
  The witness uses an injective printer (the Goedel number of the value in unary) and the
  identity on bytes as digest.
\<close>

definition unary_str :: "json \<Rightarrow> string" where
  "unary_str v = replicate (to_nat v) CHR ''1''"

lemma inj_unary_str: "inj unary_str"
  by (rule injI) (metis from_nat_to_nat length_replicate unary_str_def)

definition byte_digest :: "string \<Rightarrow> u8 list" where
  "byte_digest s = map (\<lambda>c. of_nat (of_char c)) s @ [0]"

lemma byte_digest_inj: "byte_digest a = byte_digest b \<Longrightarrow> a = b"
proof -
  have inj: "inj (\<lambda>c. of_nat (of_char c) :: u8)"
  proof (rule injI)
    fix x y :: char
    assume "(of_nat (of_char x) :: u8) = of_nat (of_char y)"
    then have "unat (of_nat (of_char x) :: u8) = unat (of_nat (of_char y) :: u8)" by simp
    then have "(of_char x :: nat) = of_char y"
      by (simp add: unat_of_nat)
    then show "x = y" by simp
  qed
  assume "byte_digest a = byte_digest b"
  then show "a = b" using inj by (simp add: byte_digest_def inj_map_eq_map)
qed

definition scale_change :: "string \<Rightarrow> destructive_change" where
  "scale_change from_r = \<lparr>dc_trigger_type = ''scale-to-zero'', dc_field = ''replicas'',
     dc_from = Some (JString from_r), dc_to = Some (JString ''0''),
     dc_classification = ''requires-restart''\<rparr>"

definition witness_plan :: "string \<Rightarrow> string option \<Rightarrow> migration_plan" where
  "witness_plan phase h =
     \<lparr>mp_meta = \<lparr>om_name = Some ''p'', om_namespace = Some ''demo'', om_owner_references = [],
        om_labels = [], om_creation_timestamp = None\<rparr>,
      mp_spec = \<lparr>mp_scope = \<lparr>sc_type = ''application'',
          sc_application = Some \<lparr>as_ref = \<lparr>ref_name = ''app'', ref_namespace = ''demo''\<rparr>,
            as_environment = ''''\<rparr>,
          sc_platform = None, sc_sourcecredential = None\<rparr>,
        mp_trigger = \<lparr>trig_type = ''scale-to-zero'', trig_field = ''replicas'',
          trig_from = Some (JString ''2''), trig_to = Some (JString ''0''), trig_hash = h\<rparr>,
        mp_risks = None, mp_changes = None, mp_plan = None, mp_approvers = None,
        mp_snapshot = None\<rparr>,
      mp_status = Some (default_status\<lparr>st_phase := Some phase\<rparr>)\<rparr>"

definition two_changes :: "destructive_change list" where
  "two_changes = [scale_change ''2'', scale_change ''1'']"

lemma witness_plan_opens:
  "applies_children (decide True (plan_state unary_str byte_digest
     (Some (witness_plan ''completed'' (Some (change_hash unary_str byte_digest two_changes))))
     (scale_change ''2'') (rev two_changes)))"
proof -
  have "canonical_changes unary_str (rev two_changes) = canonical_changes unary_str two_changes"
    by (rule canonical_changes_perm [OF inj_unary_str]) simp
  then show ?thesis
    by (simp add: applies_children_decide plan_state_CompletedMatch_iff witness_plan_def
        plan_phase_def trigger_matches_def scale_change_def default_status_def change_hash_def
        hex_bytes_def byte_digest_def hex_byte_def)
qed

theorem approval_not_transferable_witness:
  "inj unary_str \<and>
   applies_children (decide True (plan_state unary_str byte_digest
     (Some (witness_plan ''completed'' (Some (change_hash unary_str byte_digest two_changes))))
     (scale_change ''2'') (rev two_changes))) \<and>
   mset (map change_json two_changes) = mset (map change_json (rev two_changes))"
proof (intro conjI)
  show "inj unary_str" by (rule inj_unary_str)
  show open_gate: "applies_children (decide True (plan_state unary_str byte_digest
     (Some (witness_plan ''completed'' (Some (change_hash unary_str byte_digest two_changes))))
     (scale_change ''2'') (rev two_changes)))" by (rule witness_plan_opens)
  show "mset (map change_json two_changes) = mset (map change_json (rev two_changes))"
    by (rule approval_not_transferable [OF inj_unary_str _ _ open_gate])
       (auto dest: byte_digest_inj simp: witness_plan_def)
qed

text \<open>
  The approval hash does not depend on the order in which the changes were detected:
  any permutation of the candidate list hashes to the same string.
\<close>

lemma change_hash_order_independent:
  assumes "inj to_str" and "mset cs = mset ds"
  shows "change_hash to_str sha256 cs = change_hash to_str sha256 ds"
  using canonical_changes_perm [OF assms] by (simp add: change_hash_def)

end
