(* ===== verification/App_Types.thy ===== *)
theory App_Types
  imports Json
begin

text \<open>
  The \<open>Application\<close> resource as the operator reads it
  (\<open>operator-core/src/application.rs\<close>): the base spec, the per-environment override,
  the closed \<open>needs\<close> struct and its flattening, environment values, and the
  repository part of an image reference. An \<open>i32\<close> or \<open>i64\<close> field is an \<open>int\<close>: the
  operator compares and prints these values and does no arithmetic on them.
\<close>

datatype 'a one_or_many = One 'a | Many "'a list"

fun into_vec :: "'a one_or_many \<Rightarrow> 'a list" where
  "into_vec (One t) = [t]"
| "into_vec (Many v) = v"

record application_expose =
  xp_port :: int
  xp_network :: "string option"
  xp_hostname :: "string one_or_many option"
  xp_tls :: "bool option"

record expose_override =
  xo_port :: "int option"
  xo_network :: "string option"
  xo_hostname :: "string one_or_many option"
  xo_tls :: "bool option"

record app_resources =
  ar_requests :: "string btreemap option"
  ar_limits :: "string btreemap option"

record app_probe =
  pb_enabled :: "bool option"
  pb_path :: "string option"
  pb_port :: "int option"
  pb_scheme :: "string option"
  pb_headers :: "string btreemap option"
  pb_initial_delay_seconds :: "int option"
  pb_period_seconds :: "int option"
  pb_timeout_seconds :: "int option"
  pb_failure_threshold :: "int option"
  pb_success_threshold :: "int option"

record app_probes =
  pr_liveness :: "app_probe option"
  pr_readiness :: "app_probe option"
  pr_startup :: "app_probe option"

record pg_extension =
  pge_name :: string
  pge_version :: "string option"
  pge_schema :: "string option"

record service_need =
  sn_name :: "string option"
  sn_selector :: "string btreemap option"
  sn_size :: "string option"
  sn_persistent :: "bool option"
  sn_ref :: "string option"
  sn_access :: "string option"
  sn_extensions :: "pg_extension list option"

record disk_claim =
  dk_name :: "string option"
  dk_size :: "string option"
  dk_reference :: "string option"
  dk_mount_path :: string
  dk_class :: "string option"
  dk_read_only :: "bool option"

record jetstream_consumer_limits =
  jcl_inactive_threshold :: "string option"
  jcl_max_ack_pending :: "int option"

record jetstream_dead_letter =
  jdl_stream :: string
  jdl_max_bytes :: string
  jdl_max_age :: "string option"

record jetstream_stream =
  jss_name :: string
  jss_subjects :: "string list"
  jss_storage :: "string option"
  jss_retention :: "string option"
  jss_max_age :: "string option"
  jss_max_bytes :: string
  jss_allow_purge :: bool
  jss_max_msgs :: "int option"
  jss_max_msgs_per_subject :: "int option"
  jss_max_msg_size :: "int option"
  jss_max_consumers :: "int option"
  jss_discard :: "string option"
  jss_discard_per_subject :: "bool option"
  jss_duplicate_window :: "string option"
  jss_compression :: "string option"
  jss_allow_direct :: "bool option"
  jss_allow_rollup :: "bool option"
  jss_consumer_limits :: "jetstream_consumer_limits option"
  jss_description :: "string option"
  jss_sources :: "json btreemap list option"
  jss_mirror :: "json btreemap option"
  jss_republish :: "json btreemap option"
  jss_subject_transform :: "json btreemap option"
  jss_placement :: "json btreemap option"
  jss_replicas :: "int option"

record jetstream_consume =
  jsc_from :: "string option"
  jsc_stream :: string
  jsc_durable :: string
  jsc_ack_policy :: "string option"
  jsc_ack_wait :: "string option"
  jsc_max_deliver :: "int option"
  jsc_backoff :: "string list option"
  jsc_max_ack_pending :: "int option"
  jsc_filter_subject :: "string option"
  jsc_filter_subjects :: "string list option"
  jsc_deliver_policy :: "string option"
  jsc_opt_start_seq :: "int option"
  jsc_opt_start_time :: "string option"
  jsc_replay_policy :: "string option"
  jsc_max_waiting :: "int option"
  jsc_max_request_batch :: "int option"
  jsc_max_request_expires :: "string option"
  jsc_max_request_max_bytes :: "int option"
  jsc_inactive_threshold :: "string option"
  jsc_rate_limit_bps :: "int option"
  jsc_headers_only :: "bool option"
  jsc_mem_storage :: "bool option"
  jsc_sample_freq :: "string option"
  jsc_description :: "string option"
  jsc_dead_letter :: "jetstream_dead_letter option"
  jsc_deliver_subject :: "string option"
  jsc_deliver_group :: "string option"
  jsc_flow_control :: "bool option"
  jsc_heartbeat_interval :: "string option"
  jsc_replicas :: "int option"

record jetstream_need =
  jsn_selector :: "string btreemap option"
  jsn_size :: "string option"
  jsn_dynamic_streams :: bool
  jsn_streams :: "jetstream_stream list"
  jsn_consume :: "jetstream_consume list"
  jsn_name :: "string option"
  jsn_persistent :: "bool option"

record app_needs =
  nd_pg :: "service_need one_or_many option"
  nd_jetstream :: "jetstream_need option"
  nd_clickhouse :: "service_need one_or_many option"
  nd_redis :: "service_need one_or_many option"
  nd_s3 :: "service_need one_or_many option"
  nd_notifications :: "service_need one_or_many option"
  nd_disk :: "disk_claim one_or_many option"

definition default_needs :: app_needs where
  "default_needs = \<lparr>nd_pg = None, nd_jetstream = None, nd_clickhouse = None, nd_redis = None,
     nd_s3 = None, nd_notifications = None, nd_disk = None\<rparr>"

datatype env_ref = Claim string | Secret string

datatype env_value = Literal string | Ref env_ref

record image_policy =
  ip_resolve :: "string option"

record base_spec =
  ab_image :: "string option"
  ab_replicas :: "int option"
  ab_expose :: "application_expose option"
  ab_env :: "env_value btreemap option"
  ab_needs :: "app_needs option"
  ab_image_policy :: "image_policy option"
  ab_resources :: "app_resources option"
  ab_probes :: "app_probes option"

definition default_base_spec :: base_spec where
  "default_base_spec = \<lparr>ab_image = None, ab_replicas = None, ab_expose = None, ab_env = None,
     ab_needs = None, ab_image_policy = None, ab_resources = None, ab_probes = None\<rparr>"

record env_override =
  eo_image :: "string option"
  eo_replicas :: "int option"
  eo_expose :: "expose_override option"
  eo_env :: "env_value btreemap option"
  eo_needs :: "app_needs option"
  eo_image_policy :: "image_policy option"
  eo_resources :: "app_resources option"
  eo_probes :: "app_probes option"

record application_spec =
  asp_base :: "base_spec option"
  asp_environments :: "env_override btreemap option"
  asp_environment :: "string option"

subsection \<open>Flattening the needs\<close>

record need_entry =
  ne_name :: "string option"
  ne_service :: "service_need option"
  ne_disk :: "disk_claim option"

definition as_service_need :: "jetstream_need \<Rightarrow> service_need" where
  "as_service_need j = \<lparr>sn_name = None, sn_selector = jsn_selector j, sn_size = jsn_size j,
     sn_persistent = None, sn_ref = None, sn_access = None, sn_extensions = None\<rparr>"

definition service_entries :: "string \<Rightarrow> service_need list option \<Rightarrow> (string \<times> need_entry) list" where
  "service_entries ty slot =
     map (\<lambda>n. (ty, \<lparr>ne_name = sn_name n, ne_service = Some n, ne_disk = None\<rparr>)) (unwrap_or slot [])"

definition needs_entries :: "app_needs \<Rightarrow> (string \<times> need_entry) list" where
  "needs_entries n =
     service_entries ''pg'' (map_option into_vec (nd_pg n)) @
     service_entries ''jetstream'' (map_option (\<lambda>j. [as_service_need j]) (nd_jetstream n)) @
     service_entries ''clickhouse'' (map_option into_vec (nd_clickhouse n)) @
     service_entries ''redis'' (map_option into_vec (nd_redis n)) @
     service_entries ''s3'' (map_option into_vec (nd_s3 n)) @
     service_entries ''notifications'' (map_option into_vec (nd_notifications n)) @
     map (\<lambda>d. (''disk'', \<lparr>ne_name = dk_name d, ne_service = None, ne_disk = Some d\<rparr>))
       (unwrap_or (map_option into_vec (nd_disk n)) [])"

definition needs_is_empty :: "app_needs \<Rightarrow> bool" where
  "needs_is_empty n = (needs_entries n = [])"

lemma service_entries_service:
  "(ty, e) \<in> set (service_entries t slot) \<Longrightarrow> ty = t \<and> ne_disk e = None \<and> ne_service e \<noteq> None"
  by (auto simp: service_entries_def)

lemma needs_entries_exclusive:
  "(ty, e) \<in> set (needs_entries n) \<Longrightarrow> (ne_service e = None) = (ne_disk e \<noteq> None)"
  by (auto simp: needs_entries_def service_entries_def)

lemma needs_entries_default [simp]: "needs_entries default_needs = []"
  by (simp add: needs_entries_def default_needs_def service_entries_def)

subsection \<open>The repository of an image reference\<close>

definition rfind :: "char \<Rightarrow> string \<Rightarrow> nat option" where
  "rfind c s = map_option (\<lambda>(a, b). length a) (rsplit_once c s)"

definition image_repo :: "string \<Rightarrow> string" where
  "image_repo img =
     (let no_digest = split_first (CHR ''@'') img;
          last_slash = rfind (CHR ''/'') no_digest;
          tag_colon = rfind (CHR '':'') no_digest;
          cut = (case (last_slash, tag_colon) of
                   (Some ls, Some tc) \<Rightarrow> if tc > ls then Some tc else None
                 | (None, Some tc) \<Rightarrow> Some tc
                 | _ \<Rightarrow> None)
      in case cut of Some c \<Rightarrow> take c no_digest | None \<Rightarrow> no_digest)"

lemma rfind_sep: "c \<notin> set b \<Longrightarrow> rfind c (a @ c # b) = Some (length a)"
  by (simp add: rfind_def)

lemma rfind_None_iff [simp]: "rfind c s = None \<longleftrightarrow> c \<notin> set s"
  by (simp add: rfind_def rsplit_once_def)

lemma rfind_Some_less: "rfind c s = Some i \<Longrightarrow> i < length s"
  by (auto simp: rfind_def dest!: rsplit_once_Some)

lemma rfind_append_other:
  "c \<notin> set t \<Longrightarrow> rfind c (s @ t) = rfind c s"
proof (cases "c \<in> set s")
  case True
  then obtain a b where s: "s = a @ c # b" and b: "c \<notin> set b" by (meson split_list_last)
  assume "c \<notin> set t"
  with b have "rfind c (a @ c # (b @ t)) = Some (length a)" by (intro rfind_sep) simp
  with b show ?thesis by (simp add: s rfind_sep)
next
  case False
  assume "c \<notin> set t"
  with False show ?thesis by (metis Un_iff rfind_None_iff set_append)
qed

lemma image_repo_tag:
  assumes "CHR ''@'' \<notin> set r" and "set t \<inter> {CHR ''@'', CHR '':'', CHR ''/''} = {}"
  shows "image_repo (r @ CHR '':'' # t) = r"
proof -
  let ?s = "r @ CHR '':'' # t"
  have nd: "split_first (CHR ''@'') ?s = ?s"
    using assms by (auto simp: split_first_def takeWhile_eq_all_conv)
  have tc: "rfind (CHR '':'') ?s = Some (length r)"
    using assms by (intro rfind_sep) auto
  have "rfind (CHR ''/'') ?s = rfind (CHR ''/'') r"
    using assms by (intro rfind_append_other) auto
  then show ?thesis
    using tc by (auto simp: image_repo_def nd Let_def split: option.splits dest: rfind_Some_less)
qed

lemma image_repo_digest:
  assumes "CHR ''@'' \<notin> set r"
  shows "image_repo (r @ CHR ''@'' # d) = image_repo r"
proof -
  have all: "takeWhile (\<lambda>x. x \<noteq> CHR ''@'') r = r"
    using assms by (auto simp: takeWhile_eq_all_conv)
  have "split_first (CHR ''@'') (r @ CHR ''@'' # d) = split_first (CHR ''@'') r"
    using assms by (auto simp: split_first_def all)
  then show ?thesis by (simp add: image_repo_def)
qed

lemma image_repo_port:
  assumes "CHR ''@'' \<notin> set (h @ CHR ''/'' # p)" and "CHR '':'' \<notin> set p" and "CHR ''/'' \<notin> set p"
  shows "image_repo (h @ CHR ''/'' # p) = h @ CHR ''/'' # p"
proof -
  let ?s = "h @ CHR ''/'' # p"
  have nd: "split_first (CHR ''@'') ?s = ?s"
    using assms by (auto simp: split_first_def takeWhile_eq_all_conv)
  have ls: "rfind (CHR ''/'') ?s = Some (length h)"
    using assms(3) by (rule rfind_sep)
  have "rfind (CHR '':'') ?s = rfind (CHR '':'') h"
    using assms(2) by (intro rfind_append_other) auto
  then show ?thesis
    using ls by (auto simp: image_repo_def nd Let_def split: option.splits dest: rfind_Some_less)
qed

text \<open>
  The repository of a reference is found behind a tag, behind a digest (also after a
  tag), and a registry port is not mistaken for a tag: moving a tag or a digest never
  changes it.
\<close>

lemma image_repo_strips_tag_and_digest:
  assumes "CHR ''@'' \<notin> set host" and "set path \<inter> {CHR ''@'', CHR '':'', CHR ''/''} = {}"
    and "set tag \<inter> {CHR ''@'', CHR '':'', CHR ''/''} = {}"
  shows "image_repo (host @ ''/'' @ path) = host @ ''/'' @ path \<and>
    image_repo (host @ ''/'' @ path @ '':'' @ tag) = host @ ''/'' @ path \<and>
    image_repo (host @ ''/'' @ path @ ''@'' @ digest) = host @ ''/'' @ path \<and>
    image_repo (host @ ''/'' @ path @ '':'' @ tag @ ''@'' @ digest) = host @ ''/'' @ path"
proof -
  let ?r = "host @ CHR ''/'' # path"
  have at: "CHR ''@'' \<notin> set ?r" using assms(1,2) by auto
  have r: "image_repo ?r = ?r"
    using image_repo_port [of host path] at assms(2) by auto
  have tag_eq: "image_repo (?r @ CHR '':'' # tag) = ?r"
    using at assms(3) by (rule image_repo_tag)
  have "CHR ''@'' \<notin> set (?r @ CHR '':'' # tag)" using at assms(3) by auto
  from image_repo_digest [OF this, of digest] image_repo_digest [OF at, of digest] r tag_eq
  show ?thesis by simp
qed

end
