(* ===== verification/Migration_Detect.thy ===== *)
theory Migration_Detect
  imports Migration_Types App_Types
begin

text \<open>
  The classifier of Application edits
  (\<open>operator-controllers/migration/src/strategy.rs\<close>): every destructive candidate an
  edit of the effective spec produces, one definition per group of triggers in the order
  of \<open>detect_all\<close>, the canonical order of the candidates and the primary one. The lemmas
  characterise when no candidate is produced, show that a chain of ungated edits never
  widens what the application reaches, and that candidates never carry a literal value.
\<close>

subsection \<open>Helpers\<close>

definition needs_keys :: "app_needs option \<Rightarrow> string list" where
  "needs_keys needs = (case needs of
       None \<Rightarrow> []
     | Some n \<Rightarrow> map (\<lambda>(ty, entry). case ne_name entry of
           Some name \<Rightarrow> ''needs.'' @ ty @ ''.'' @ name
         | None \<Rightarrow> ''needs.'' @ ty) (needs_entries n))"

definition all_hostnames :: "base_spec \<Rightarrow> string list" where
  "all_hostnames s =
     filter (\<lambda>h. h \<noteq> [])
       (unwrap_or (map_option into_vec (Option.bind (ab_expose s) xp_hostname)) [])"

fun render_env_ref :: "env_ref \<Rightarrow> string" where
  "render_env_ref (Claim target) = ''claim.'' @ target"
| "render_env_ref (Secret target) = ''secret:'' @ target"

definition image_is_digest :: "string \<Rightarrow> bool" where
  "image_is_digest img = (case rsplit_once (CHR ''@'') img of
       None \<Rightarrow> False
     | Some (_, digest) \<Rightarrow> (case split_once (CHR '':'') digest of
           None \<Rightarrow> False
         | Some (algo, hex) \<Rightarrow> algo \<noteq> [] \<and> hex \<noteq> []))"

definition jetstream :: "base_spec \<Rightarrow> jetstream_need option" where
  "jetstream s = Option.bind (ab_needs s) nd_jetstream"

definition subject_first_token :: "string \<Rightarrow> string" where
  "subject_first_token subject = split_first (CHR ''.'') (str_trim subject)"

definition is_foreign_subject :: "string \<Rightarrow> string \<Rightarrow> bool" where
  "is_foreign_subject subject app_name \<longleftrightarrow> subject_first_token subject \<noteq> app_name"

definition subjects_joined :: "jetstream_stream \<Rightarrow> string" where
  "subjects_joined s = join '','' (filter (\<lambda>x. x \<noteq> []) (map str_trim (jss_subjects s)))"

definition push_new :: "'a list \<Rightarrow> 'a \<Rightarrow> 'a list" where
  "push_new out x = (if x \<in> set out then out else out @ [x])"

definition consume_share :: "string \<Rightarrow> jetstream_consume \<Rightarrow> (string \<times> string) option" where
  "consume_share app_name c = (case map_option str_trim (jsc_from c) of
       None \<Rightarrow> None
     | Some owner \<Rightarrow>
         if owner \<noteq> [] \<and> owner \<noteq> app_name then Some (owner, str_trim (jsc_stream c)) else None)"

definition foreign_consume_shares ::
  "jetstream_need option \<Rightarrow> string \<Rightarrow> (string \<times> string) list" where
  "foreign_consume_shares js app_name =
     foldl (\<lambda>out c. case consume_share app_name c of None \<Rightarrow> out | Some pair \<Rightarrow> push_new out pair)
       [] (unwrap_or (map_option jsn_consume js) [])"

text \<open>The \<open>(type, database, access)\<close> a need entry binds, if it binds one.\<close>

definition database_bind ::
  "string \<times> need_entry \<Rightarrow> (string \<times> string \<times> string) option" where
  "database_bind te = (case ne_service (snd te) of
       None \<Rightarrow> None
     | Some service \<Rightarrow> (case map_option str_trim (sn_ref service) of
           None \<Rightarrow> None
         | Some db \<Rightarrow>
             if db = [] then None
             else Some (fst te, db,
                    if map_option str_trim (sn_access service) = Some ''ro'' then ''ro'' else ''rw'')))"

fun push_bind ::
  "(string \<times> string \<times> string) list \<Rightarrow> string \<times> string \<times> string \<Rightarrow> (string \<times> string \<times> string) list" where
  "push_bind [] (ty, db, access) = [(ty, db, access)]"
| "push_bind ((t, d, a) # out) (ty, db, access) =
     (if t = ty \<and> d = db then (t, d, if access = ''rw'' then ''rw'' else a) # out
      else (t, d, a) # push_bind out (ty, db, access))"

definition shared_database_binds :: "base_spec \<Rightarrow> (string \<times> string \<times> string) list" where
  "shared_database_binds s = (case ab_needs s of
       None \<Rightarrow> []
     | Some needs \<Rightarrow>
         foldl (\<lambda>out te. case database_bind te of None \<Rightarrow> out | Some b \<Rightarrow> push_bind out b)
           [] (needs_entries needs))"

definition removed_needs_keys :: "app_needs option \<Rightarrow> app_needs option \<Rightarrow> string list" where
  "removed_needs_keys old new =
     (let new_keys = needs_keys new in filter (\<lambda>k. k \<notin> set new_keys) (needs_keys old))"

subsection \<open>The canonical order\<close>

definition cand_le :: "destructive_change \<Rightarrow> destructive_change \<Rightarrow> bool" where
  "cand_le a b =
     (let sa = classification_severity (dc_classification a);
          sb = classification_severity (dc_classification b)
      in if sa \<noteq> sb then sb < sa
         else if dc_trigger_type a \<noteq> dc_trigger_type b then dc_trigger_type a < dc_trigger_type b
         else dc_field a \<le> dc_field b)"

definition sort_candidates :: "destructive_change list \<Rightarrow> destructive_change list" where
  "sort_candidates v = sort_le cand_le v"

definition pick_primary :: "destructive_change list \<Rightarrow> destructive_change option" where
  "pick_primary v = (case sort_candidates v of [] \<Rightarrow> None | c # _ \<Rightarrow> Some c)"

interpretation cand: total_preorder cand_le
  by unfold_locales (auto simp: cand_le_def Let_def split: if_splits)

subsection \<open>The triggers\<close>

definition change :: "string \<Rightarrow> string \<Rightarrow> string \<Rightarrow> string \<Rightarrow> string \<Rightarrow> destructive_change" where
  "change trigger field from to classification =
     \<lparr>dc_trigger_type = trigger, dc_field = field, dc_from = Some (JString from),
      dc_to = Some (JString to), dc_classification = classification\<rparr>"

definition REPLICAS_RENDER_DEFAULT :: int where
  "REPLICAS_RENDER_DEFAULT = 1"

definition network_of :: "base_spec \<Rightarrow> string" where
  "network_of s = unwrap_or (Option.bind (ab_expose s) xp_network) ''internal''"

definition needs_removal :: "base_spec \<Rightarrow> base_spec \<Rightarrow> destructive_change list" where
  "needs_removal old new =
     map (\<lambda>key. change ''needs-removal'' key key ''(removed)'' ''data-migration'')
       (removed_needs_keys (ab_needs old) (ab_needs new))"

definition network_visibility_change :: "base_spec \<Rightarrow> base_spec \<Rightarrow> destructive_change list" where
  "network_visibility_change old new =
     (if network_of old = ''public'' \<and> network_of new \<noteq> ''public''
      then [change ''network-visibility-change'' ''expose.network'' ''public'' (network_of new)
              ''requires-restart'']
      else [])"

definition domain_change :: "base_spec \<Rightarrow> base_spec \<Rightarrow> destructive_change list" where
  "domain_change old new =
     (let lost_hosts = filter (\<lambda>h. h \<notin> set (all_hostnames new)) (all_hostnames old)
      in if network_of old = ''public'' \<and> lost_hosts \<noteq> []
         then [change ''domain-change'' ''expose.hostname'' (join '','' lost_hosts) ''(removed)''
                 ''requires-restart'']
         else [])"

definition network_visibility_escalation :: "base_spec \<Rightarrow> base_spec \<Rightarrow> destructive_change list" where
  "network_visibility_escalation old new =
     (if network_of old \<noteq> ''public'' \<and> network_of new = ''public''
      then [change ''network-visibility-escalation'' ''expose.network'' (network_of old) ''public''
              ''security-boundary'']
      else [])"

definition public_hostname_add :: "base_spec \<Rightarrow> base_spec \<Rightarrow> destructive_change list" where
  "public_hostname_add old new =
     (if network_of new = ''public'' then
        (let old_hosts = all_hostnames old;
             added = filter (\<lambda>h. h \<notin> set old_hosts) (all_hostnames new)
         in if added \<noteq> []
            then [change ''public-hostname-add'' ''expose.hostname''
                    (if old_hosts = [] then ''(none)'' else join '','' old_hosts)
                    (join '','' added) ''security-boundary'']
            else [])
      else [])"

definition public_port_retarget :: "base_spec \<Rightarrow> base_spec \<Rightarrow> destructive_change list" where
  "public_port_retarget old new =
     (if network_of new = ''public'' then
        (case (map_option xp_port (ab_expose old), map_option xp_port (ab_expose new)) of
           (Some op, Some np) \<Rightarrow>
             if op \<noteq> np
             then [change ''public-port-retarget'' ''expose.port'' (show_int op) (show_int np)
                     ''security-boundary'']
             else []
         | _ \<Rightarrow> [])
      else [])"

definition scale_to_zero :: "base_spec \<Rightarrow> base_spec \<Rightarrow> destructive_change list" where
  "scale_to_zero old new =
     (let old_r = unwrap_or (ab_replicas old) REPLICAS_RENDER_DEFAULT;
          new_r = unwrap_or (ab_replicas new) REPLICAS_RENDER_DEFAULT
      in if old_r > 0 \<and> new_r = 0
         then [change ''scale-to-zero'' ''replicas'' (show_int old_r) ''0'' ''requires-restart'']
         else [])"

definition image_path_change :: "base_spec \<Rightarrow> base_spec \<Rightarrow> destructive_change list" where
  "image_path_change old new =
     (case (ab_image old, ab_image new) of
        (Some old_img, Some new_img) \<Rightarrow>
          (let old_repo = image_repo old_img; new_repo = image_repo new_img
           in if old_repo \<noteq> new_repo
              then [change ''image-path-change'' ''spec.image'' old_repo new_repo ''security-boundary'']
              else [])
      | _ \<Rightarrow> [])"

definition resolve_of :: "base_spec \<Rightarrow> string" where
  "resolve_of s = unwrap_or (Option.bind (ab_image_policy s) ip_resolve) ''digest''"

definition image_policy_relaxation :: "base_spec \<Rightarrow> base_spec \<Rightarrow> destructive_change list" where
  "image_policy_relaxation old new =
     (if resolve_of old = ''off'' \<and> resolve_of new \<noteq> ''off'' then
        (let new_is_digest = unwrap_or (map_option image_is_digest (ab_image new)) False
         in if \<not> new_is_digest
            then [change ''image-policy-relaxation'' ''imagePolicy.resolve'' ''off'' (resolve_of new)
                    ''security-boundary'']
            else [])
      else [])"

definition env_of :: "base_spec \<Rightarrow> env_value btreemap" where
  "env_of s = unwrap_or (ab_env s) []"

fun env_key_removed :: "base_spec \<Rightarrow> string \<Rightarrow> env_value \<Rightarrow> destructive_change list" where
  "env_key_removed new key (Literal _) = []"
| "env_key_removed new key (Ref r) =
     (if key \<in> set (map fst (env_of new)) then []
      else [change ''env-ref-removal'' (''env.'' @ key) (render_env_ref r) ''(removed)''
              ''requires-restart''])"

definition env_ref_removal :: "base_spec \<Rightarrow> base_spec \<Rightarrow> destructive_change list" where
  "env_ref_removal old new = concat (map (\<lambda>(key, v). env_key_removed new key v) (env_of old))"

fun secret_add_from :: "env_value option \<Rightarrow> string option" where
  "secret_add_from None = Some ''(absent)''"
| "secret_add_from (Some (Literal _)) = Some ''(literal)''"
| "secret_add_from (Some (Ref (Claim t))) = Some (render_env_ref (Claim t))"
| "secret_add_from (Some (Ref (Secret _))) = None"

fun env_both_sides :: "string \<Rightarrow> env_value option \<Rightarrow> env_value \<Rightarrow> destructive_change list" where
  "env_both_sides key (Some (Ref old_r)) (Literal _) =
     [change ''env-ref-downgrade'' (''env.'' @ key) (render_env_ref old_r) ''(literal)''
        ''security-boundary'']"
| "env_both_sides key (Some (Ref (Secret a))) (Ref (Secret b)) =
     (if a \<noteq> b
      then [change ''env-secret-ref-retarget'' (''env.'' @ key) (render_env_ref (Secret a))
              (render_env_ref (Secret b)) ''security-boundary'']
      else [])"
| "env_both_sides key _ _ = []"

definition env_key_triggers :: "string \<Rightarrow> env_value option \<Rightarrow> env_value \<Rightarrow> destructive_change list" where
  "env_key_triggers key baseline new_val =
     (case (new_val, secret_add_from baseline) of
        (Ref (Secret t), Some from) \<Rightarrow>
          [change ''env-secret-ref-add'' (''env.'' @ key) from (render_env_ref (Secret t))
             ''security-boundary'']
      | _ \<Rightarrow> env_both_sides key baseline new_val)"

definition env_secret_triggers :: "base_spec \<Rightarrow> base_spec \<Rightarrow> destructive_change list" where
  "env_secret_triggers old new =
     concat (map (\<lambda>(key, new_val). env_key_triggers key (map_of (env_of old) key) new_val)
       (env_of new))"

definition consume_add :: "base_spec \<Rightarrow> base_spec \<Rightarrow> string \<Rightarrow> destructive_change list" where
  "consume_add old new app_name =
     (let old_shares = foreign_consume_shares (jetstream old) app_name
      in concat (map (\<lambda>(owner, stream).
           if (owner, stream) \<in> set old_shares then []
           else [change ''jetstream-consume-add''
                   (''needs.jetstream.consume.'' @ owner @ ''.'' @ stream) ''(none)''
                   (owner @ ''/'' @ stream) ''security-boundary''])
         (foreign_consume_shares (jetstream new) app_name)))"

definition find_bind ::
  "(string \<times> string \<times> string) list \<Rightarrow> string \<Rightarrow> string \<Rightarrow> string option" where
  "find_bind binds ty db = map_option (\<lambda>(_, _, a). a) (find (\<lambda>(t, d, _). t = ty \<and> d = db) binds)"

definition bind_triggers ::
  "string option \<Rightarrow> string \<Rightarrow> string \<Rightarrow> string \<Rightarrow> destructive_change list" where
  "bind_triggers previous ty db access = (case previous of
       Some a \<Rightarrow>
         if a = ''rw'' then []
         else if access \<noteq> ''rw'' then []
         else [change ''shared-database-access-widen'' (''needs.'' @ ty @ ''.ref.'' @ db) ''ro'' ''rw''
                 ''security-boundary'']
     | None \<Rightarrow>
         [change ''shared-database-bind'' (''needs.'' @ ty @ ''.ref.'' @ db) ''(none)''
            (db @ '' ('' @ access @ '')'') ''security-boundary''])"

definition shared_database_triggers :: "base_spec \<Rightarrow> base_spec \<Rightarrow> destructive_change list" where
  "shared_database_triggers old new =
     (let old_binds = shared_database_binds old
      in concat (map (\<lambda>(ty, db, access). bind_triggers (find_bind old_binds ty db) ty db access)
           (shared_database_binds new)))"

definition dynamic_streams_enable :: "base_spec \<Rightarrow> base_spec \<Rightarrow> destructive_change list" where
  "dynamic_streams_enable old new =
     (let old_dynamic = unwrap_or (map_option jsn_dynamic_streams (jetstream old)) False;
          new_dynamic = unwrap_or (map_option jsn_dynamic_streams (jetstream new)) False
      in if \<not> old_dynamic \<and> new_dynamic
         then [change ''jetstream-dynamic-streams-enable'' ''needs.jetstream.dynamicStreams''
                 ''false'' ''true'' ''security-boundary'']
         else [])"

definition streams_of :: "base_spec \<Rightarrow> jetstream_stream list" where
  "streams_of s = unwrap_or (map_option jsn_streams (jetstream s)) []"

definition foreign_subject_add ::
  "jetstream_stream option \<Rightarrow> jetstream_stream \<Rightarrow> string \<Rightarrow> destructive_change list" where
  "foreign_subject_add old_s s app_name =
     (let had = (\<lambda>subj. case old_s of None \<Rightarrow> False
                        | Some ov \<Rightarrow> list_ex (\<lambda>x. str_trim x = str_trim subj) (jss_subjects ov));
          added_foreign = map str_trim
            (filter (\<lambda>subj. \<not> had subj)
              (filter (\<lambda>subj. is_foreign_subject subj app_name) (jss_subjects s)));
          prev = (case map_option subjects_joined old_s of
                    None \<Rightarrow> ''(none)'' | Some p \<Rightarrow> if p = [] then ''(none)'' else p)
      in if added_foreign \<noteq> []
         then [change ''jetstream-foreign-subject''
                 (''needs.jetstream.streams.'' @ jss_name s @ ''.subjects'') prev
                 (join '','' added_foreign) ''security-boundary'']
         else [])"

definition foreign_purge_set ::
  "jetstream_stream option \<Rightarrow> jetstream_stream \<Rightarrow> string \<Rightarrow> destructive_change list" where
  "foreign_purge_set old_s s app_name =
     (let old_purge = unwrap_or (map_option jss_allow_purge old_s) False
      in if jss_allow_purge s \<and> \<not> old_purge \<and>
            list_ex (\<lambda>subj. is_foreign_subject subj app_name) (jss_subjects s)
         then [change ''jetstream-foreign-subject''
                 (''needs.jetstream.streams.'' @ jss_name s @ ''.allowPurge'') ''false'' ''true''
                 ''security-boundary'']
         else [])"

definition stream_triggers :: "base_spec \<Rightarrow> base_spec \<Rightarrow> string \<Rightarrow> destructive_change list" where
  "stream_triggers old new app_name =
     concat (map (\<lambda>s.
         let old_s = find (\<lambda>ov. jss_name ov = jss_name s) (streams_of old)
         in foreign_subject_add old_s s app_name @ foreign_purge_set old_s s app_name)
       (streams_of new))"

subsection \<open>Detection\<close>

definition candidates_of :: "base_spec \<Rightarrow> base_spec \<Rightarrow> string \<Rightarrow> destructive_change list" where
  "candidates_of old new app_name =
     needs_removal old new @
     network_visibility_change old new @
     domain_change old new @
     network_visibility_escalation old new @
     public_hostname_add old new @
     public_port_retarget old new @
     scale_to_zero old new @
     image_path_change old new @
     image_policy_relaxation old new @
     env_ref_removal old new @
     env_secret_triggers old new @
     consume_add old new app_name @
     shared_database_triggers old new @
     dynamic_streams_enable old new @
     stream_triggers old new app_name"

definition detect_all :: "base_spec \<Rightarrow> base_spec \<Rightarrow> string \<Rightarrow> destructive_change list" where
  "detect_all old new app_name = sort_candidates (candidates_of old new app_name)"

definition detect_destructive :: "base_spec \<Rightarrow> base_spec \<Rightarrow> string \<Rightarrow> destructive_change option" where
  "detect_destructive old new app_name = pick_primary (detect_all old new app_name)"

lemma set_detect_all [simp]: "set (detect_all old new app) = set (candidates_of old new app)"
  by (simp add: detect_all_def sort_candidates_def)

lemma detect_all_Nil_iff: "detect_all old new app = [] \<longleftrightarrow> candidates_of old new app = []"
  by (simp add: detect_all_def sort_candidates_def)

lemma pick_primary_None_iff [simp]: "pick_primary v = None \<longleftrightarrow> v = []"
  using sort_le_Nil_iff [of cand_le v]
  by (auto simp: pick_primary_def sort_candidates_def split: list.splits)

lemma pick_primary_Some:
  assumes "pick_primary v = Some c"
  shows "c \<in> set v" and "d \<in> set v \<Longrightarrow> cand_le c d"
proof -
  from assms obtain cs where s: "sort_le cand_le v = c # cs"
    by (auto simp: pick_primary_def sort_candidates_def split: list.splits)
  then show "c \<in> set v" using set_sort_le [of cand_le v] by auto
  show "d \<in> set v \<Longrightarrow> cand_le c d" using cand.sort_head_least [OF s] .
qed

lemma pick_primary_detect_all:
  "pick_primary (detect_all old new app) = pick_primary (candidates_of old new app)"
  by (simp add: pick_primary_def detect_all_def sort_candidates_def cand.sort_idem)

lemma cand_le_severity:
  "cand_le a b \<Longrightarrow>
   classification_severity (dc_classification b) \<le> classification_severity (dc_classification a)"
  by (auto simp: cand_le_def Let_def split: if_splits)

subsection \<open>When each trigger is silent\<close>

named_theorems silent \<open>when a trigger produces no candidate\<close>

lemma push_new_set [simp]: "set (push_new out x) = insert x (set out)"
  by (auto simp: push_new_def)

lemma concat_Nil_iff: "concat xss = [] \<longleftrightarrow> (\<forall>xs \<in> set xss. xs = [])"
  by (induction xss) auto

lemma needs_removal_silent [silent]:
  "needs_removal old new = [] \<longleftrightarrow> set (needs_keys (ab_needs old)) \<subseteq> set (needs_keys (ab_needs new))"
  by (auto simp: needs_removal_def removed_needs_keys_def Let_def filter_empty_conv)

lemma network_visibility_change_silent [silent]:
  "network_visibility_change old new = [] \<longleftrightarrow>
   (network_of old = ''public'' \<longrightarrow> network_of new = ''public'')"
  by (simp add: network_visibility_change_def)

lemma domain_change_silent [silent]:
  "domain_change old new = [] \<longleftrightarrow>
   (network_of old = ''public'' \<longrightarrow> set (all_hostnames old) \<subseteq> set (all_hostnames new))"
  by (auto simp: domain_change_def Let_def filter_empty_conv)

lemma network_visibility_escalation_silent [silent]:
  "network_visibility_escalation old new = [] \<longleftrightarrow>
   (network_of new = ''public'' \<longrightarrow> network_of old = ''public'')"
  by (auto simp: network_visibility_escalation_def)

lemma public_hostname_add_silent [silent]:
  "public_hostname_add old new = [] \<longleftrightarrow>
   (network_of new = ''public'' \<longrightarrow> set (all_hostnames new) \<subseteq> set (all_hostnames old))"
  by (auto simp: public_hostname_add_def Let_def filter_empty_conv)

lemma public_port_retarget_silent [silent]:
  "public_port_retarget old new = [] \<longleftrightarrow>
   (network_of new = ''public'' \<longrightarrow>
    (\<forall>x y. ab_expose old = Some x \<longrightarrow> ab_expose new = Some y \<longrightarrow> xp_port x = xp_port y))"
  by (auto simp: public_port_retarget_def split: option.splits)

lemma scale_to_zero_silent [silent]:
  "scale_to_zero old new = [] \<longleftrightarrow>
   (0 < unwrap_or (ab_replicas old) 1 \<longrightarrow> unwrap_or (ab_replicas new) 1 \<noteq> 0)"
  by (simp add: scale_to_zero_def REPLICAS_RENDER_DEFAULT_def Let_def)

lemma image_path_change_silent [silent]:
  "image_path_change old new = [] \<longleftrightarrow>
   (\<forall>x y. ab_image old = Some x \<longrightarrow> ab_image new = Some y \<longrightarrow> image_repo x = image_repo y)"
  by (auto simp: image_path_change_def Let_def split: option.splits)

lemma image_policy_relaxation_silent [silent]:
  "image_policy_relaxation old new = [] \<longleftrightarrow>
   (resolve_of old = ''off'' \<longrightarrow>
    resolve_of new = ''off'' \<or> pred_option image_is_digest (ab_image new) \<and> ab_image new \<noteq> None)"
  by (cases "ab_image new") (auto simp: image_policy_relaxation_def Let_def)

lemma env_key_removed_Nil:
  "env_key_removed new key v = [] \<longleftrightarrow> (\<forall>r. v = Ref r \<longrightarrow> key \<in> set (map fst (env_of new)))"
  by (cases v) simp_all

lemma env_ref_removal_silent [silent]:
  "env_ref_removal old new = [] \<longleftrightarrow>
   (\<forall>(key, v) \<in> set (env_of old). \<forall>r. v = Ref r \<longrightarrow> key \<in> set (map fst (env_of new)))"
  by (simp add: env_ref_removal_def concat_Nil_iff env_key_removed_Nil split_beta)

lemma env_key_triggers_Nil:
  "env_key_triggers key baseline v = [] \<longleftrightarrow>
   (\<forall>t. v = Ref (Secret t) \<longrightarrow> baseline = Some (Ref (Secret t))) \<and>
   (\<forall>l r. v = Literal l \<longrightarrow> baseline \<noteq> Some (Ref r))"
proof (cases v)
  case (Literal l)
  then show ?thesis
    by (cases "(key, baseline, v)" rule: env_both_sides.cases) (auto simp: env_key_triggers_def)
next
  case (Ref r)
  then show ?thesis
    by (cases r; cases "(key, baseline, v)" rule: env_both_sides.cases; cases baseline rule: secret_add_from.cases)
       (auto simp: env_key_triggers_def)
qed

lemma env_secret_triggers_silent [silent]:
  "env_secret_triggers old new = [] \<longleftrightarrow>
   (\<forall>(key, v) \<in> set (env_of new).
     (\<forall>t. v = Ref (Secret t) \<longrightarrow> map_of (env_of old) key = Some (Ref (Secret t))) \<and>
     (\<forall>l r. v = Literal l \<longrightarrow> map_of (env_of old) key \<noteq> Some (Ref r)))"
  by (simp add: env_secret_triggers_def concat_Nil_iff env_key_triggers_Nil split_beta)

lemma consume_add_silent [silent]:
  "consume_add old new app = [] \<longleftrightarrow>
   set (foreign_consume_shares (jetstream new) app) \<subseteq> set (foreign_consume_shares (jetstream old) app)"
  by (auto simp: consume_add_def Let_def concat_Nil_iff split: if_splits)

lemma bind_triggers_Nil:
  "bind_triggers previous ty db access = [] \<longleftrightarrow>
   (\<exists>a. previous = Some a \<and> (access = ''rw'' \<longrightarrow> a = ''rw''))"
  by (cases previous) (auto simp: bind_triggers_def)

lemma shared_database_silent [silent]:
  "shared_database_triggers old new = [] \<longleftrightarrow>
   (\<forall>(ty, db, access) \<in> set (shared_database_binds new).
     \<exists>a. find_bind (shared_database_binds old) ty db = Some a \<and> (access = ''rw'' \<longrightarrow> a = ''rw''))"
  by (simp add: shared_database_triggers_def Let_def concat_Nil_iff bind_triggers_Nil split_beta)

lemma dynamic_streams_silent [silent]:
  "dynamic_streams_enable old new = [] \<longleftrightarrow>
   (unwrap_or (map_option jsn_dynamic_streams (jetstream new)) False \<longrightarrow>
    unwrap_or (map_option jsn_dynamic_streams (jetstream old)) False)"
  by (auto simp: dynamic_streams_enable_def Let_def)

definition foreign_subjects :: "string \<Rightarrow> jetstream_stream \<Rightarrow> string list" where
  "foreign_subjects app s = map str_trim (filter (\<lambda>x. is_foreign_subject x app) (jss_subjects s))"

lemma is_foreign_trim: "str_trim x = str_trim y \<Longrightarrow> is_foreign_subject x app = is_foreign_subject y app"
  by (simp add: is_foreign_subject_def subject_first_token_def)

lemma foreign_subject_add_Nil:
  "foreign_subject_add old_s s app = [] \<longleftrightarrow>
   (\<forall>x \<in> set (foreign_subjects app s). \<exists>ov. old_s = Some ov \<and> x \<in> set (foreign_subjects app ov))"
proof (cases old_s)
  case None
  then show ?thesis
    by (auto simp: foreign_subject_add_def foreign_subjects_def Let_def filter_empty_conv)
next
  case (Some ov)
  have "foreign_subject_add old_s s app = [] \<longleftrightarrow>
      (\<forall>x \<in> set (jss_subjects s). is_foreign_subject x app \<longrightarrow>
        (\<exists>y \<in> set (jss_subjects ov). str_trim y = str_trim x))"
    by (auto simp: Some foreign_subject_add_def Let_def filter_empty_conv list_ex_iff)
  also have "\<dots> \<longleftrightarrow> (\<forall>x \<in> set (foreign_subjects app s). x \<in> set (foreign_subjects app ov))"
    by (auto simp: foreign_subjects_def image_iff) (metis is_foreign_trim)+
  finally show ?thesis by (simp add: Some)
qed

lemma foreign_purge_set_Nil:
  "foreign_purge_set old_s s app = [] \<longleftrightarrow>
   (jss_allow_purge s \<and> foreign_subjects app s \<noteq> [] \<longrightarrow>
    unwrap_or (map_option jss_allow_purge old_s) False)"
  by (auto simp: foreign_purge_set_def foreign_subjects_def Let_def list_ex_iff filter_empty_conv)

lemma stream_triggers_silent [silent]:
  "stream_triggers old new app = [] \<longleftrightarrow>
   (\<forall>s \<in> set (streams_of new).
     let old_s = find (\<lambda>ov. jss_name ov = jss_name s) (streams_of old)
     in (\<forall>x \<in> set (foreign_subjects app s). \<exists>ov. old_s = Some ov \<and> x \<in> set (foreign_subjects app ov)) \<and>
        (jss_allow_purge s \<and> foreign_subjects app s \<noteq> [] \<longrightarrow>
         unwrap_or (map_option jss_allow_purge old_s) False))"
  by (simp add: stream_triggers_def concat_Nil_iff Let_def foreign_subject_add_Nil foreign_purge_set_Nil)

subsection \<open>What an ungated edit keeps\<close>

lemma public_surface_conj:
  "(a \<longrightarrow> b) \<and> (a \<longrightarrow> X \<subseteq> Y) \<and> (b \<longrightarrow> a) \<and> (b \<longrightarrow> Y \<subseteq> X) \<and> (b \<longrightarrow> P) \<and> R \<longleftrightarrow>
   (a \<longleftrightarrow> b) \<and> (b \<longrightarrow> X = Y \<and> P) \<and> R"
  by blast

text \<open>
  C10. An edit needs no approval exactly when it removes no need, keeps the public surface
  (visibility, host names and port) as it was, does not scale a running application to
  zero, keeps the image repository, does not relax a verbatim image policy on a tag,
  removes no reference-valued variable, replaces none by a literal, gains or retargets no
  secret reference, and shares no further stream or database, no dynamic streams, no
  foreign subject and no purge of one.
\<close>

theorem edit_ungated_iff:
  "detect_all old new app = [] \<longleftrightarrow>
     set (needs_keys (ab_needs old)) \<subseteq> set (needs_keys (ab_needs new)) \<and>
     (network_of old = ''public'' \<longleftrightarrow> network_of new = ''public'') \<and>
     (network_of new = ''public'' \<longrightarrow>
        set (all_hostnames old) = set (all_hostnames new) \<and>
        (\<forall>x y. ab_expose old = Some x \<longrightarrow> ab_expose new = Some y \<longrightarrow> xp_port x = xp_port y)) \<and>
     (0 < unwrap_or (ab_replicas old) 1 \<longrightarrow> unwrap_or (ab_replicas new) 1 \<noteq> 0) \<and>
     (\<forall>x y. ab_image old = Some x \<longrightarrow> ab_image new = Some y \<longrightarrow> image_repo x = image_repo y) \<and>
     (resolve_of old = ''off'' \<longrightarrow>
        resolve_of new = ''off'' \<or> pred_option image_is_digest (ab_image new) \<and> ab_image new \<noteq> None) \<and>
     (\<forall>(key, v) \<in> set (env_of old). \<forall>r. v = Ref r \<longrightarrow> key \<in> set (map fst (env_of new))) \<and>
     (\<forall>(key, v) \<in> set (env_of new).
        (\<forall>t. v = Ref (Secret t) \<longrightarrow> map_of (env_of old) key = Some (Ref (Secret t))) \<and>
        (\<forall>l r. v = Literal l \<longrightarrow> map_of (env_of old) key \<noteq> Some (Ref r))) \<and>
     set (foreign_consume_shares (jetstream new) app) \<subseteq> set (foreign_consume_shares (jetstream old) app) \<and>
     (\<forall>(ty, db, access) \<in> set (shared_database_binds new).
        \<exists>a. find_bind (shared_database_binds old) ty db = Some a \<and> (access = ''rw'' \<longrightarrow> a = ''rw'')) \<and>
     (unwrap_or (map_option jsn_dynamic_streams (jetstream new)) False \<longrightarrow>
        unwrap_or (map_option jsn_dynamic_streams (jetstream old)) False) \<and>
     (\<forall>s \<in> set (streams_of new).
        let old_s = find (\<lambda>ov. jss_name ov = jss_name s) (streams_of old)
        in (\<forall>x \<in> set (foreign_subjects app s). \<exists>ov. old_s = Some ov \<and> x \<in> set (foreign_subjects app ov)) \<and>
           (jss_allow_purge s \<and> foreign_subjects app s \<noteq> [] \<longrightarrow>
            unwrap_or (map_option jss_allow_purge old_s) False))"
  unfolding detect_all_Nil_iff candidates_of_def append_is_Nil_conv silent public_surface_conj
  by (rule refl)

definition shop_spec :: "string list \<Rightarrow> string \<Rightarrow> base_spec" where
  "shop_spec hosts img = default_base_spec\<lparr>ab_image := Some img,
     ab_expose := Some \<lparr>xp_port = 80, xp_network = Some ''public'', xp_hostname = Some (Many hosts),
                        xp_tls = None\<rparr>,
     ab_env := Some [(''KEY'', Ref (Secret ''vault/key'')), (''LOG'', Literal ''info'')]\<rparr>"

theorem edit_ungated_iff_witness:
  "detect_all (shop_spec [''a.io''] ''reg/shop:v1'') (shop_spec [''a.io''] ''reg/shop:v2'') ''shop'' = [] \<and>
   detect_all (shop_spec [''a.io''] ''reg/shop:v1'') (shop_spec [''a.io'', ''b.io''] ''reg/shop:v1'') ''shop'' \<noteq> []"
proof
  have repo: "image_repo ''reg/shop:v1'' = image_repo ''reg/shop:v2''" by code_simp
  show "detect_all (shop_spec [''a.io''] ''reg/shop:v1'') (shop_spec [''a.io''] ''reg/shop:v2'') ''shop'' = []"
    unfolding edit_ungated_iff
    by (simp add: shop_spec_def default_base_spec_def network_of_def all_hostnames_def resolve_of_def
        env_of_def jetstream_def needs_keys_def shared_database_binds_def streams_of_def
        foreign_consume_shares_def repo)
  show "detect_all (shop_spec [''a.io''] ''reg/shop:v1'') (shop_spec [''a.io'', ''b.io''] ''reg/shop:v1'') ''shop'' \<noteq> []"
    unfolding edit_ungated_iff
    by (simp add: shop_spec_def default_base_spec_def network_of_def all_hostnames_def)
qed

subsection \<open>What an application reaches\<close>

datatype reach_item =
    RPublic | RHost string
  | RSecret string string
  | RConsume string string
  | RDatabase string string | RDatabaseWrite string string
  | RDynamicStreams
  | RForeignSubject string string | RForeignPurge string

fun secret_reach :: "string \<times> env_value \<Rightarrow> reach_item list" where
  "secret_reach (key, Ref (Secret t)) = [RSecret key t]"
| "secret_reach _ = []"

definition public_reach :: "base_spec \<Rightarrow> reach_item list" where
  "public_reach s = (if network_of s = ''public'' then RPublic # map RHost (all_hostnames s) else [])"

definition database_reach :: "string \<times> string \<times> string \<Rightarrow> reach_item list" where
  "database_reach b = (case b of (ty, db, access) \<Rightarrow>
     RDatabase ty db # (if access = ''rw'' then [RDatabaseWrite ty db] else []))"

definition dynamic_reach :: "base_spec \<Rightarrow> reach_item list" where
  "dynamic_reach s =
     (if unwrap_or (map_option jsn_dynamic_streams (jetstream s)) False then [RDynamicStreams] else [])"

definition stream_reach :: "string \<Rightarrow> jetstream_stream \<Rightarrow> reach_item list" where
  "stream_reach app s = map (RForeignSubject (jss_name s)) (foreign_subjects app s) @
     (if jss_allow_purge s \<and> foreign_subjects app s \<noteq> [] then [RForeignPurge (jss_name s)] else [])"

definition reach :: "string \<Rightarrow> base_spec \<Rightarrow> reach_item list" where
  "reach app s = public_reach s @ concat (map secret_reach (env_of s)) @
     map (\<lambda>(owner, stream). RConsume owner stream) (foreign_consume_shares (jetstream s) app) @
     concat (map database_reach (shared_database_binds s)) @ dynamic_reach s @
     concat (map (stream_reach app) (streams_of s))"

definition no_security_change :: "string \<Rightarrow> base_spec \<Rightarrow> base_spec \<Rightarrow> bool" where
  "no_security_change app old new \<longleftrightarrow>
     list_all (\<lambda>c. dc_classification c \<noteq> ''security-boundary'') (detect_all old new app)"

lemma change_classification [simp]: "dc_classification (change t f a b c) = c"
  by (simp add: change_def)

lemma all_not_security_Nil:
  "(\<forall>c \<in> set xs. dc_classification c = ''security-boundary'') \<Longrightarrow>
   (\<forall>c \<in> set xs. dc_classification c \<noteq> ''security-boundary'') \<longleftrightarrow> xs = []"
  by (cases xs) auto

lemma env_both_sides_security:
  "c \<in> set (env_both_sides key baseline v) \<Longrightarrow> dc_classification c = ''security-boundary''"
  by (induction key baseline v rule: env_both_sides.induct) (auto split: if_splits)

lemma env_key_triggers_security:
  "c \<in> set (env_key_triggers key baseline v) \<Longrightarrow> dc_classification c = ''security-boundary''"
  by (auto simp: env_key_triggers_def dest: env_both_sides_security
      split: env_value.splits env_ref.splits option.splits)

lemma bind_triggers_security:
  "c \<in> set (bind_triggers previous ty db access) \<Longrightarrow> dc_classification c = ''security-boundary''"
  by (auto simp: bind_triggers_def split: if_splits option.splits)

lemma network_visibility_escalation_security:
  "\<forall>c \<in> set (network_visibility_escalation old new). dc_classification c = ''security-boundary''"
  by (auto simp: network_visibility_escalation_def split: if_splits option.splits)

lemma public_hostname_add_security:
  "\<forall>c \<in> set (public_hostname_add old new). dc_classification c = ''security-boundary''"
  by (auto simp: public_hostname_add_def Let_def split: if_splits option.splits)

lemma env_secret_triggers_security:
  "\<forall>c \<in> set (env_secret_triggers old new). dc_classification c = ''security-boundary''"
  by (auto simp: env_secret_triggers_def dest: env_key_triggers_security)

lemma consume_add_security:
  "\<forall>c \<in> set (consume_add old new app). dc_classification c = ''security-boundary''"
  by (auto simp: consume_add_def Let_def split: if_splits option.splits)

lemma shared_database_triggers_security:
  "\<forall>c \<in> set (shared_database_triggers old new). dc_classification c = ''security-boundary''"
  by (auto simp: shared_database_triggers_def Let_def dest: bind_triggers_security)

lemma dynamic_streams_enable_security:
  "\<forall>c \<in> set (dynamic_streams_enable old new). dc_classification c = ''security-boundary''"
  by (auto simp: dynamic_streams_enable_def Let_def split: if_splits option.splits)

lemma stream_triggers_security:
  "\<forall>c \<in> set (stream_triggers old new app). dc_classification c = ''security-boundary''"
  by (auto simp: stream_triggers_def foreign_subject_add_def foreign_purge_set_def Let_def
      split: if_splits)

lemma candidates_parts:
  "set (network_visibility_escalation old new) \<subseteq> set (candidates_of old new app)"
  "set (public_hostname_add old new) \<subseteq> set (candidates_of old new app)"
  "set (env_secret_triggers old new) \<subseteq> set (candidates_of old new app)"
  "set (consume_add old new app) \<subseteq> set (candidates_of old new app)"
  "set (shared_database_triggers old new) \<subseteq> set (candidates_of old new app)"
  "set (dynamic_streams_enable old new) \<subseteq> set (candidates_of old new app)"
  "set (stream_triggers old new app) \<subseteq> set (candidates_of old new app)"
  unfolding candidates_of_def set_append by blast+

lemma no_security_change_silent:
  assumes "no_security_change app old new"
  shows "network_visibility_escalation old new = []" and "public_hostname_add old new = []"
    and "env_secret_triggers old new = []" and "consume_add old new app = []"
    and "shared_database_triggers old new = []" and "dynamic_streams_enable old new = []"
    and "stream_triggers old new app = []"
proof -
  have all: "\<forall>c \<in> set (candidates_of old new app). dc_classification c \<noteq> ''security-boundary''"
    using assms by (simp add: no_security_change_def list_all_iff)
  have empty: "xs = []"
    if "\<forall>c \<in> set xs. dc_classification c = ''security-boundary''"
      and "set xs \<subseteq> set (candidates_of old new app)" for xs
    using that all all_not_security_Nil [OF that(1)] by blast
  show "network_visibility_escalation old new = []" and "public_hostname_add old new = []"
    and "env_secret_triggers old new = []" and "consume_add old new app = []"
    and "shared_database_triggers old new = []" and "dynamic_streams_enable old new = []"
    and "stream_triggers old new app = []"
    by (rule empty [OF network_visibility_escalation_security candidates_parts(1)])
       (rule empty [OF public_hostname_add_security candidates_parts(2)],
        rule empty [OF env_secret_triggers_security candidates_parts(3)],
        rule empty [OF consume_add_security candidates_parts(4)],
        rule empty [OF shared_database_triggers_security candidates_parts(5)],
        rule empty [OF dynamic_streams_enable_security candidates_parts(6)],
        rule empty [OF stream_triggers_security candidates_parts(7)])
qed

lemma set_secret_reach:
  "r \<in> set (concat (map secret_reach env)) \<longleftrightarrow> (\<exists>k t. (k, Ref (Secret t)) \<in> set env \<and> r = RSecret k t)"
proof -
  have "set (secret_reach kv) = {RSecret k t | k t. kv = (k, Ref (Secret t))}" for kv
    by (cases kv rule: secret_reach.cases) auto
  then show ?thesis by auto
qed

lemma set_database_reach:
  "r \<in> set (concat (map database_reach bs)) \<longleftrightarrow>
   (\<exists>ty db a. (ty, db, a) \<in> set bs \<and> (r = RDatabase ty db \<or> a = ''rw'' \<and> r = RDatabaseWrite ty db))"
  by (fastforce simp: database_reach_def split: if_splits prod.splits)

lemma find_bind_Some: "find_bind bs ty db = Some a \<Longrightarrow> (ty, db, a) \<in> set bs"
  by (auto simp: find_bind_def find_Some_iff in_set_conv_nth)

lemma find_Some_in: "find P xs = Some x \<Longrightarrow> x \<in> set xs \<and> P x"
  by (auto simp: find_Some_iff)

lemma stream_reach_subset:
  assumes "old_s = find (\<lambda>ov. jss_name ov = jss_name s) (streams_of old)"
    and "\<forall>x \<in> set (foreign_subjects app s). \<exists>ov. old_s = Some ov \<and> x \<in> set (foreign_subjects app ov)"
    and "jss_allow_purge s \<and> foreign_subjects app s \<noteq> [] \<longrightarrow>
         unwrap_or (map_option jss_allow_purge old_s) False"
  shows "set (stream_reach app s) \<subseteq> set (concat (map (stream_reach app) (streams_of old)))"
proof (cases "foreign_subjects app s")
  case Nil
  then show ?thesis by (simp add: stream_reach_def)
next
  case (Cons x xs)
  with assms(2) obtain ov where ov: "old_s = Some ov" by auto
  from find_Some_in [of _ "streams_of old" ov] assms(1) ov
  have m: "ov \<in> set (streams_of old)" and n: "jss_name ov = jss_name s"
    by auto
  have "set (stream_reach app s) \<subseteq> set (stream_reach app ov)"
    using assms(2,3) ov n Cons by (auto simp: stream_reach_def)
  also have "\<dots> \<subseteq> set (concat (map (stream_reach app) (streams_of old)))"
    using m by auto
  finally show ?thesis .
qed

lemma no_security_change_reach:
  assumes "no_security_change app old new"
  shows "set (reach app new) \<subseteq> set (reach app old)"
proof -
  note quiet = no_security_change_silent [OF assms, unfolded silent]
  have "set (public_reach new) \<subseteq> set (public_reach old)"
    using quiet(1,2) by (auto simp: public_reach_def)
  moreover have "set (concat (map secret_reach (env_of new))) \<subseteq> set (concat (map secret_reach (env_of old)))"
    unfolding subset_iff set_secret_reach using quiet(3) by (fastforce dest: map_of_SomeD)
  moreover have "set (concat (map database_reach (shared_database_binds new)))
      \<subseteq> set (concat (map database_reach (shared_database_binds old)))"
    unfolding subset_iff set_database_reach using quiet(5) by (fastforce dest: find_bind_Some)
  moreover have "set (dynamic_reach new) \<subseteq> set (dynamic_reach old)"
    using quiet(6) by (auto simp: dynamic_reach_def)
  moreover have "set (concat (map (stream_reach app) (streams_of new)))
      \<subseteq> set (concat (map (stream_reach app) (streams_of old)))"
  proof -
    have "set (stream_reach app s) \<subseteq> set (concat (map (stream_reach app) (streams_of old)))"
      if "s \<in> set (streams_of new)" for s
      using quiet(7) that by (intro stream_reach_subset [OF refl]) (simp_all add: Let_def)
    then show ?thesis by fastforce
  qed
  ultimately show ?thesis
    using quiet(4) unfolding reach_def set_append set_map by (intro Un_mono image_mono)
qed

text \<open>
  C9. Edits that produce no security-boundary candidate never widen what the application
  reaches, however many of them follow each other: after any chain of such edits the
  public host names, the secrets, the streams and databases of others, the dynamic
  streams, the foreign subjects and their purging are among those the chain started with.
\<close>

theorem ungated_chain_never_widens_reach:
  assumes "(no_security_change app)\<^sup>*\<^sup>* s t"
  shows "set (reach app t) \<subseteq> set (reach app s)"
  using assms by (induction rule: rtranclp_induct) (auto dest: no_security_change_reach)

theorem ungated_chain_never_widens_reach_witness:
  "no_security_change ''shop'' (shop_spec [''a.io'', ''b.io''] ''reg/shop:v1'') (shop_spec [''a.io''] ''reg/shop:v2'') \<and>
   set (reach ''shop'' (shop_spec [''a.io''] ''reg/shop:v2''))
     \<subseteq> {RPublic, RHost ''a.io'', RHost ''b.io'', RSecret ''KEY'' ''vault/key''}"
proof
  show step: "no_security_change ''shop'' (shop_spec [''a.io'', ''b.io''] ''reg/shop:v1'')
      (shop_spec [''a.io''] ''reg/shop:v2'')" by code_simp
  have start: "reach ''shop'' (shop_spec [''a.io'', ''b.io''] ''reg/shop:v1'') =
      [RPublic, RHost ''a.io'', RHost ''b.io'', RSecret ''KEY'' ''vault/key'']" by code_simp
  show "set (reach ''shop'' (shop_spec [''a.io''] ''reg/shop:v2''))
     \<subseteq> {RPublic, RHost ''a.io'', RHost ''b.io'', RSecret ''KEY'' ''vault/key''}"
    using ungated_chain_never_widens_reach [OF r_into_rtranclp, OF step] start by simp
qed

text \<open>
  The headline of a plan is a detected change of the highest severity, it is the first
  of the sorted list, and there is a headline exactly when some change was detected.
\<close>

lemma headline_is_most_severe:
  "(detect_destructive old new app = None \<longleftrightarrow> detect_all old new app = []) \<and>
   (\<forall>c. detect_destructive old new app = Some c \<longrightarrow>
      (\<exists>rest. detect_all old new app = c # rest) \<and>
      (\<forall>d \<in> set (detect_all old new app).
         classification_severity (dc_classification d) \<le> classification_severity (dc_classification c)))"
proof -
  have hd: "\<exists>rest. detect_all old new app = c # rest"
    if "pick_primary (candidates_of old new app) = Some c" for c
    using that by (auto simp: pick_primary_def detect_all_def split: list.splits)
  show ?thesis
    unfolding detect_destructive_def pick_primary_detect_all set_detect_all
    using hd pick_primary_Some(2) cand_le_severity by (auto simp: detect_all_Nil_iff)
qed

subsection \<open>Literal values stay out of plans\<close>

fun mask_value :: "env_value \<Rightarrow> env_value" where
  "mask_value (Literal _) = Literal ''''"
| "mask_value (Ref r) = Ref r"

definition mask_literals :: "base_spec \<Rightarrow> base_spec" where
  "mask_literals s = s\<lparr>ab_env := map_option (map (\<lambda>(k, v). (k, mask_value v))) (ab_env s)\<rparr>"

lemma mask_fields [simp]:
  "ab_needs (mask_literals s) = ab_needs s" "ab_expose (mask_literals s) = ab_expose s"
  "ab_replicas (mask_literals s) = ab_replicas s" "ab_image (mask_literals s) = ab_image s"
  "ab_image_policy (mask_literals s) = ab_image_policy s"
  "env_of (mask_literals s) = map (\<lambda>(k, v). (k, mask_value v)) (env_of s)"
  by (cases "ab_env s"; simp add: mask_literals_def env_of_def)+

lemma mask_derived [simp]:
  "network_of (mask_literals s) = network_of s" "all_hostnames (mask_literals s) = all_hostnames s"
  "resolve_of (mask_literals s) = resolve_of s" "jetstream (mask_literals s) = jetstream s"
  "shared_database_binds (mask_literals s) = shared_database_binds s"
  "streams_of (mask_literals s) = streams_of s"
  by (simp_all add: network_of_def all_hostnames_def resolve_of_def jetstream_def
      shared_database_binds_def streams_of_def)

lemma map_of_mask: "map_of (map (\<lambda>(k, v). (k, mask_value v)) env) k = map_option mask_value (map_of env k)"
  by (induction env) auto

lemma env_key_triggers_mask:
  "env_key_triggers key (map_option mask_value baseline) (mask_value v) = env_key_triggers key baseline v"
proof -
  have "secret_add_from (map_option mask_value baseline) = secret_add_from baseline"
    by (cases baseline rule: secret_add_from.cases) auto
  moreover have "env_both_sides key (map_option mask_value baseline) (mask_value v) = env_both_sides key baseline v"
    by (cases "(key, baseline, v)" rule: env_both_sides.cases) auto
  ultimately show ?thesis
    by (cases v) (auto simp: env_key_triggers_def split: env_ref.split option.split)
qed

lemma env_key_removed_mask:
  "env_key_removed (mask_literals new) key (mask_value v) = env_key_removed new key v"
  by (cases v) (auto simp: image_iff split_beta)

lemma env_triggers_mask:
  "env_secret_triggers (mask_literals old) (mask_literals new) = env_secret_triggers old new"
  "env_ref_removal (mask_literals old) (mask_literals new) = env_ref_removal old new"
proof -
  have "(\<lambda>(key, v). env_key_triggers key (map_option mask_value (map_of (env_of old) key)) v) \<circ>
      (\<lambda>(k, v). (k, mask_value v)) =
      (\<lambda>(key, v). env_key_triggers key (map_of (env_of old) key) v)"
    by (auto simp: fun_eq_iff env_key_triggers_mask)
  then show "env_secret_triggers (mask_literals old) (mask_literals new) = env_secret_triggers old new"
    by (simp add: env_secret_triggers_def map_of_mask)
  have "(\<lambda>(key, v). env_key_removed (mask_literals new) key v) \<circ> (\<lambda>(k, v). (k, mask_value v)) =
      (\<lambda>(key, v). env_key_removed new key v)"
    by (auto simp only: fun_eq_iff comp_apply split_beta fst_conv snd_conv env_key_removed_mask)
  then show "env_ref_removal (mask_literals old) (mask_literals new) = env_ref_removal old new"
    by (simp add: env_ref_removal_def)
qed

text \<open>
  The literal values of environment variables do not flow into a plan: masking every
  literal of both specs changes no detected candidate.
\<close>

lemma candidates_ignore_literal_values:
  "detect_all (mask_literals old) (mask_literals new) app = detect_all old new app"
proof -
  have "candidates_of (mask_literals old) (mask_literals new) app = candidates_of old new app"
    unfolding candidates_of_def env_triggers_mask
    by (simp add: needs_removal_def network_visibility_change_def domain_change_def
        network_visibility_escalation_def public_hostname_add_def public_port_retarget_def
        scale_to_zero_def image_path_change_def image_policy_relaxation_def consume_add_def
        shared_database_triggers_def dynamic_streams_enable_def stream_triggers_def)
  then show ?thesis by (simp add: detect_all_def)
qed

end
