(* ===== verification/Migration_Strategy.thy ===== *)
theory Migration_Strategy
  imports Migration_Detect
begin

text \<open>
  Plans and strategies (\<open>operator-controllers/migration/src/strategy.rs\<close>): the body of a
  plan built from a set of candidates, the plans of the Application and SourceCredential
  scopes, the SourceCredential classifier, and the \<open>execute_step\<close>/\<open>reject\<close> pairs of the
  three strategies. The apiserver is a parameter: \<open>sa_get\<close> and \<open>sa_patch\<close> read and patch
  the \<open>PlatformStack\<close> of a world of any type. A panic is \<open>None\<close>. The debug print of an
  ill-typed snapshot pin at the end of the \<open>SnapshotShape\<close> message is left out.
\<close>

subsection \<open>Plans\<close>

definition class_le :: "string \<Rightarrow> string \<Rightarrow> bool" where
  "class_le a b =
     (if classification_severity a \<noteq> classification_severity b
      then classification_severity b < classification_severity a
      else a \<le> b)"

interpretation severity: total_order_on_keys class_le
  by unfold_locales (auto simp: class_le_def split: if_splits)

definition distinct_classifications :: "destructive_change list \<Rightarrow> string list" where
  "distinct_classifications candidates =
     sort_le class_le (foldl (\<lambda>out c. push_new out (dc_classification c)) [] candidates)"

definition change_row :: "destructive_change \<Rightarrow> migration_change" where
  "change_row c = \<lparr>mc_trigger = dc_trigger_type c, mc_field = dc_field c,
     mc_classification = dc_classification c,
     mc_severity = classification_severity (dc_classification c),
     mc_from = dc_from c, mc_to = dc_to c\<rparr>"

definition plan_body ::
  "(json \<Rightarrow> string) \<Rightarrow> (string \<Rightarrow> u8 list) \<Rightarrow> destructive_change list \<Rightarrow>
   (migration_trigger \<times> migration_risks \<times> migration_change list) option" where
  "plan_body to_str sha256 candidates = (case pick_primary candidates of
       None \<Rightarrow> None
     | Some primary \<Rightarrow>
         (let classes = distinct_classifications candidates;
              changes = map change_row (sort_candidates candidates);
              trigger = \<lparr>trig_type = dc_trigger_type primary, trig_field = dc_field primary,
                trig_from = dc_from primary, trig_to = dc_to primary,
                trig_hash = Some (change_hash to_str sha256 candidates)\<rparr>;
              risks = \<lparr>risk_classification = dc_classification primary,
                risk_classifications = (if classes \<noteq> [] then Some classes else None),
                risk_estimated_downtime = None, risk_data_volume = None, risk_reversible = None,
                risk_requires_full_backup = None\<rparr>
          in Some (trigger, risks, changes)))"

definition application_create_plan_for ::
  "(json \<Rightarrow> string) \<Rightarrow> (string \<Rightarrow> u8 list) \<Rightarrow> string \<Rightarrow> destructive_change list \<Rightarrow> string \<Rightarrow> string \<Rightarrow>
   string \<Rightarrow> string \<Rightarrow> string \<Rightarrow> migration_plan option" where
  "application_create_plan_for to_str sha256 now candidates plan_name application_namespace
       application_name environment app_uid =
     map_option (\<lambda>(trigger, risks, changes).
       \<lparr>mp_meta = \<lparr>om_name = Some plan_name, om_namespace = Some application_namespace,
          om_owner_references =
            [(''apprafter.io/v1alpha1'', ''Application'', application_name, app_uid, True, True)],
          om_labels = bt_extend []
            [(''apprafter.io/scope'', ''application''),
             (''apprafter.io/application'', application_name),
             (''apprafter.io/application-namespace'', application_namespace),
             (''apprafter.io/environment'', environment)],
          om_creation_timestamp = Some now\<rparr>,
        mp_spec = \<lparr>mp_scope = \<lparr>sc_type = ''application'',
            sc_application = Some \<lparr>as_ref = \<lparr>ref_name = application_name,
                                             ref_namespace = application_namespace\<rparr>,
                                   as_environment = environment\<rparr>,
            sc_platform = None, sc_sourcecredential = None\<rparr>,
          mp_trigger = trigger, mp_risks = Some risks, mp_changes = Some changes, mp_plan = None,
          mp_approvers = None, mp_snapshot = None\<rparr>,
        mp_status = None\<rparr>)
     (plan_body to_str sha256 candidates)"

definition sourcecredential_create_plan_for ::
  "(json \<Rightarrow> string) \<Rightarrow> (string \<Rightarrow> u8 list) \<Rightarrow> string \<Rightarrow> destructive_change list \<Rightarrow> string \<Rightarrow> string \<Rightarrow>
   string \<Rightarrow> string \<Rightarrow> migration_plan option" where
  "sourcecredential_create_plan_for to_str sha256 now candidates plan_name sc_namespace sc_name sc_uid =
     map_option (\<lambda>(trigger, risks, changes).
       \<lparr>mp_meta = \<lparr>om_name = Some plan_name, om_namespace = Some sc_namespace,
          om_owner_references =
            [(''apprafter.io/v1alpha1'', ''SourceCredential'', sc_name, sc_uid, True, True)],
          om_labels = bt_extend []
            [(''apprafter.io/scope'', ''sourcecredential''),
             (''apprafter.io/source-credential'', sc_name),
             (''apprafter.io/source-credential-namespace'', sc_namespace)],
          om_creation_timestamp = Some now\<rparr>,
        mp_spec = \<lparr>mp_scope = \<lparr>sc_type = ''sourcecredential'', sc_application = None,
            sc_platform = None,
            sc_sourcecredential =
              Some \<lparr>ss_ref = \<lparr>ref_name = sc_name, ref_namespace = sc_namespace\<rparr>\<rparr>\<rparr>,
          mp_trigger = trigger, mp_risks = Some risks, mp_changes = Some changes, mp_plan = None,
          mp_approvers = None, mp_snapshot = None\<rparr>,
        mp_status = None\<rparr>)
     (plan_body to_str sha256 candidates)"

subsection \<open>SourceCredential coverage\<close>

record sealed_secret_ref =
  ssr_name :: string
  ssr_namespace :: "string option"

record source_backend =
  sb_sealed_secret_ref :: "sealed_secret_ref option"
  sb_open_bao_path :: "string option"

record source_git =
  sg_backend :: source_backend
  sg_repo_prefixes :: "string list"

record source_registry =
  sr_backend :: source_backend
  sr_hosts :: "string list"

record source_credential_spec =
  scs_git :: "source_git option"
  scs_registry :: "source_registry option"

definition repo_prefixes :: "source_credential_spec \<Rightarrow> string list" where
  "repo_prefixes spec = unwrap_or (map_option sg_repo_prefixes (scs_git spec)) []"

definition registry_hosts :: "source_credential_spec \<Rightarrow> string list" where
  "registry_hosts spec = unwrap_or (map_option sr_hosts (scs_registry spec)) []"

definition removed :: "string list \<Rightarrow> string list \<Rightarrow> string list" where
  "removed old new = filter (\<lambda>x. x \<notin> set new) old"

definition json_strings :: "string list \<Rightarrow> json" where
  "json_strings xs = JArray (map JString xs)"

definition sourcecredential_detect_destructive ::
  "source_credential_spec option \<Rightarrow> source_credential_spec \<Rightarrow> destructive_change option" where
  "sourcecredential_detect_destructive old new = (case old of
       None \<Rightarrow> None
     | Some old \<Rightarrow>
         (let removed_prefixes = removed (repo_prefixes old) (repo_prefixes new);
              removed_hosts = removed (registry_hosts old) (registry_hosts new)
          in if removed_prefixes = [] \<and> removed_hosts = [] then None
             else
               (let field = (case (removed_prefixes = [], removed_hosts = []) of
                       (False, True) \<Rightarrow> ''spec.git.repoPrefixes''
                     | (True, False) \<Rightarrow> ''spec.registry.hosts''
                     | _ \<Rightarrow> ''spec.git.repoPrefixes,spec.registry.hosts'')
                in Some \<lparr>dc_trigger_type = ''coverage-removal'', dc_field = field,
                     dc_from = Some (JObject (bt_extend []
                       [(''removedRepoPrefixes'', json_strings removed_prefixes),
                        (''removedHosts'', json_strings removed_hosts)])),
                     dc_to = Some (JObject (bt_extend []
                       [(''repoPrefixes'', json_strings (repo_prefixes new)),
                        (''hosts'', json_strings (registry_hosts new))])),
                     dc_classification = ''breaking''\<rparr>)))"

subsection \<open>Strategies\<close>

datatype stack_patch = PatchApply json | PatchMerge json

record 'w stack_api =
  sa_get :: "'w \<Rightarrow> (string, json) result"
  sa_patch :: "stack_patch \<Rightarrow> 'w \<Rightarrow> (string, unit) result \<times> 'w"

definition pins_equal :: "json option \<Rightarrow> json option \<Rightarrow> bool" where
  "pins_equal current snapshot \<longleftrightarrow> Option.bind current as_str = Option.bind snapshot as_str"

definition stack_pin :: "json \<Rightarrow> json option" where
  "stack_pin stack_json = json_pointer stack_json [''spec'', ''pin'']"

definition plan_name_for_error :: "migration_plan \<Rightarrow> string" where
  "plan_name_for_error plan = unwrap_or (om_name (mp_meta plan)) ''(unnamed)''"

definition application_execute_step ::
  "migration_plan \<Rightarrow> migration_step \<Rightarrow> 'w \<Rightarrow> (migration_error, step_outcome) result \<times> 'w" where
  "application_execute_step plan step w = (Inr Succeeded, w)"

definition application_reject :: "migration_plan \<Rightarrow> 'w \<Rightarrow> (migration_error, unit) result \<times> 'w" where
  "application_reject plan w = (Inr (), w)"

definition sourcecredential_execute_step ::
  "migration_plan \<Rightarrow> migration_step \<Rightarrow> 'w \<Rightarrow> (migration_error, step_outcome) result \<times> 'w" where
  "sourcecredential_execute_step plan step w = (Inr Succeeded, w)"

definition sourcecredential_reject ::
  "migration_plan \<Rightarrow> 'w \<Rightarrow> (migration_error, unit) result \<times> 'w" where
  "sourcecredential_reject plan w = (Inr (), w)"

definition platform_execute_step ::
  "migration_plan \<Rightarrow> migration_step \<Rightarrow> 'w \<Rightarrow> (migration_error, step_outcome) result \<times> 'w" where
  "platform_execute_step plan step w = (Inr Succeeded, w)"

definition pin_apply_body :: "string \<Rightarrow> json" where
  "pin_apply_body v = JObject
     [(''apiVersion'', JString ''apprafter.io/v1alpha1''), (''kind'', JString ''PlatformStack''),
      (''metadata'', JObject [(''name'', JString ''default'')]),
      (''spec'', JObject [(''pin'', JString v)])]"

definition pin_clear_body :: json where
  "pin_clear_body = JObject [(''spec'', JObject [(''pin'', JNull)])]"

definition patch_stack ::
  "'w stack_api \<Rightarrow> stack_patch \<Rightarrow> 'w \<Rightarrow> (migration_error, unit) result \<times> 'w" where
  "patch_stack api patch w = (case sa_patch api patch w of
       (Inl e, w') \<Rightarrow> (Inl (MErrKube e), w')
     | (Inr u, w') \<Rightarrow> (Inr (), w'))"

definition platform_reject ::
  "'w stack_api \<Rightarrow> migration_plan \<Rightarrow> 'w \<Rightarrow> (migration_error, unit) result \<times> 'w" where
  "platform_reject api plan w =
     (let plan_name = plan_name_for_error plan
      in case mp_snapshot (mp_spec plan) of
           None \<Rightarrow> (Inl (NoSnapshot plan_name), w)
         | Some snapshot \<Rightarrow>
             (let snapshot_pin = json_get snapshot ''pin''
              in case sa_get api w of
                   Inl e \<Rightarrow> (Inl (MErrKube e), w)
                 | Inr stack_json \<Rightarrow>
                     (let current_pin = stack_pin stack_json
                      in if pins_equal current_pin snapshot_pin then (Inr (), w)
                         else (case snapshot_pin of
                             Some (JString v) \<Rightarrow> patch_stack api (PatchApply (pin_apply_body v)) w
                           | None \<Rightarrow> patch_stack api (PatchMerge pin_clear_body) w
                           | Some JNull \<Rightarrow> patch_stack api (PatchMerge pin_clear_body) w
                           | Some other \<Rightarrow>
                               (Inl (SnapshotShape plan_name
                                  ''previousSpecSnapshot.pin must be string or null''), w)))))"

subsection \<open>What a plan binds\<close>

lemma foldl_push_new_set [simp]:
  "set (foldl (\<lambda>out c. push_new out (f c)) out cs) = set out \<union> f ` set cs"
  by (induction cs arbitrary: out) auto

lemma distinct_foldl_push_new:
  "distinct out \<Longrightarrow> distinct (foldl (\<lambda>out c. push_new out (f c)) out cs)"
  by (induction cs arbitrary: out) (auto simp: push_new_def)

lemma set_distinct_classifications [simp]:
  "set (distinct_classifications cs) = dc_classification ` set cs"
  by (simp add: distinct_classifications_def)

lemma distinct_distinct_classifications: "distinct (distinct_classifications cs)"
  unfolding distinct_classifications_def
  by (metis distinct_foldl_push_new distinct.simps(1) mset_eq_imp_distinct_iff mset_sort_le)

lemma pick_primary_Nil [simp]: "pick_primary [] = None"
  by simp

lemma plan_body_None_iff: "plan_body to_str sha256 cs = None \<longleftrightarrow> cs = []"
  using pick_primary_None_iff [of cs] by (auto simp: plan_body_def Let_def split: option.splits)

lemma plan_body_Some:
  assumes "plan_body to_str sha256 cs = Some (t, r, rows)"
  obtains p where "pick_primary cs = Some p"
    and "t = \<lparr>trig_type = dc_trigger_type p, trig_field = dc_field p, trig_from = dc_from p,
              trig_to = dc_to p, trig_hash = Some (change_hash to_str sha256 cs)\<rparr>"
    and "risk_classification r = dc_classification p"
    and "risk_classifications r = Some (distinct_classifications cs)"
    and "rows = map change_row (sort_candidates cs)"
proof -
  from assms obtain p where p: "pick_primary cs = Some p"
    by (cases "pick_primary cs") (auto simp: plan_body_def)
  then have "distinct_classifications cs \<noteq> []"
    using pick_primary_Some(1) [OF p] set_distinct_classifications [of cs] by force
  with assms p show thesis by (intro that [OF p]) (auto simp: plan_body_def Let_def)
qed

text \<open>
  A plan can be built exactly when some change was detected. The plan shows every
  change (one row each, nothing left out, most severe first), its trigger is one of them
  with the highest severity, its risk classes are exactly the classes of the changes, and
  the approval hash it carries is the hash of the whole set.
\<close>

lemma created_plan_covers_every_change:
  "(application_create_plan_for to_str sha256 now cs n ns app env uid = None \<longleftrightarrow> cs = []) \<and>
   (\<forall>plan. application_create_plan_for to_str sha256 now cs n ns app env uid = Some plan \<longrightarrow>
      (\<exists>c \<in> set cs. plan_trigger plan = \<lparr>trig_type = dc_trigger_type c, trig_field = dc_field c,
           trig_from = dc_from c, trig_to = dc_to c, trig_hash = Some (change_hash to_str sha256 cs)\<rparr> \<and>
         map_option risk_classification (mp_risks (mp_spec plan)) = Some (dc_classification c) \<and>
         (\<forall>d \<in> set cs. classification_severity (dc_classification d) \<le>
                        classification_severity (dc_classification c))) \<and>
      (\<exists>rows. mp_changes (mp_spec plan) = Some rows \<and> mset rows = image_mset change_row (mset cs) \<and>
         sorted_wrt (\<ge>) (map mc_severity rows)) \<and>
      (\<exists>classes. Option.bind (mp_risks (mp_spec plan)) risk_classifications = Some classes \<and>
         distinct classes \<and> set classes = dc_classification ` set cs))"
proof (intro conjI allI impI)
  show "(application_create_plan_for to_str sha256 now cs n ns app env uid = None) = (cs = [])"
    by (simp add: application_create_plan_for_def plan_body_None_iff)
next
  fix plan assume "application_create_plan_for to_str sha256 now cs n ns app env uid = Some plan"
  then obtain t r rows where body: "plan_body to_str sha256 cs = Some (t, r, rows)"
    and spec: "plan_trigger plan = t" "mp_risks (mp_spec plan) = Some r" "mp_changes (mp_spec plan) = Some rows"
    by (auto simp: application_create_plan_for_def)
  from body obtain p where p: "pick_primary cs = Some p"
    and parts: "t = \<lparr>trig_type = dc_trigger_type p, trig_field = dc_field p, trig_from = dc_from p,
              trig_to = dc_to p, trig_hash = Some (change_hash to_str sha256 cs)\<rparr>"
      "risk_classification r = dc_classification p"
      "risk_classifications r = Some (distinct_classifications cs)"
      "rows = map change_row (sort_candidates cs)"
    by (rule plan_body_Some)
  show "\<exists>c \<in> set cs. plan_trigger plan = \<lparr>trig_type = dc_trigger_type c, trig_field = dc_field c,
           trig_from = dc_from c, trig_to = dc_to c, trig_hash = Some (change_hash to_str sha256 cs)\<rparr> \<and>
         map_option risk_classification (mp_risks (mp_spec plan)) = Some (dc_classification c) \<and>
         (\<forall>d \<in> set cs. classification_severity (dc_classification d) \<le>
                        classification_severity (dc_classification c))"
    using pick_primary_Some [OF p] spec parts cand_le_severity by (intro bexI [of _ p]) auto
  have "sorted_wrt cand_le (sort_candidates cs)"
    unfolding sort_candidates_def by (rule cand.sorted_sort)
  then have "sorted_wrt (\<ge>) (map mc_severity rows)"
    unfolding parts by (simp add: sorted_wrt_map change_row_def sorted_wrt_mono_rel [OF cand_le_severity])
  then show "\<exists>rows. mp_changes (mp_spec plan) = Some rows \<and> mset rows = image_mset change_row (mset cs) \<and>
         sorted_wrt (\<ge>) (map mc_severity rows)"
    using spec parts by (simp add: sort_candidates_def)
  show "\<exists>classes. Option.bind (mp_risks (mp_spec plan)) risk_classifications = Some classes \<and>
         distinct classes \<and> set classes = dc_classification ` set cs"
    using spec parts distinct_distinct_classifications by simp
qed

definition zero_and_drop :: "destructive_change list" where
  "zero_and_drop =
     [change ''scale-to-zero'' ''replicas'' ''2'' ''0'' ''requires-restart'',
      change ''needs-removal'' ''needs.pg'' ''needs.pg'' ''(removed)'' ''data-migration'']"

text \<open>
  A SourceCredential edit is gated exactly when it removes coverage: when a repository
  prefix or a registry host the previous spec covered is no longer covered. Creating a
  credential is never gated.
\<close>

lemma credential_edit_gated_iff:
  "sourcecredential_detect_destructive old new = None \<longleftrightarrow>
   (\<forall>prev. old = Some prev \<longrightarrow>
      set (repo_prefixes prev) \<subseteq> set (repo_prefixes new) \<and>
      set (registry_hosts prev) \<subseteq> set (registry_hosts new))"
  by (cases old)
     (auto simp: sourcecredential_detect_destructive_def removed_def Let_def filter_empty_conv)

definition git_spec :: "string list \<Rightarrow> source_credential_spec" where
  "git_spec ps = \<lparr>scs_git = Some \<lparr>sg_backend = \<lparr>sb_sealed_secret_ref = None,
       sb_open_bao_path = Some ''kv/git''\<rparr>, sg_repo_prefixes = ps\<rparr>, scs_registry = None\<rparr>"

subsection \<open>The strategy contract\<close>

text \<open>
  What the controller relies on: a successful \<open>reject\<close> leaves nothing to do, so running it
  again (after a crash before the plan was sealed) writes nothing.
\<close>

locale migration_strategy =
  fixes execute_step :: "migration_plan \<Rightarrow> migration_step \<Rightarrow> 'w \<Rightarrow> (migration_error, step_outcome) result \<times> 'w"
    and reject :: "migration_plan \<Rightarrow> 'w \<Rightarrow> (migration_error, unit) result \<times> 'w"
  assumes execute_succeeds: "fst (execute_step plan step w) = Inr Succeeded"
    and reject_settles: "reject plan w = (Inr (), w') \<Longrightarrow> snd (reject plan w') = w'"
begin

lemma reject_again_writes_nothing:
  assumes "reject plan w = (Inr (), w')"
  shows "((\<lambda>v. snd (reject plan v)) ^^ n) w' = w'"
  using reject_settles [OF assms] by (induction n) simp_all

end

interpretation app: migration_strategy application_execute_step application_reject
  by unfold_locales (simp_all add: application_execute_step_def application_reject_def)

interpretation srccred: migration_strategy sourcecredential_execute_step sourcecredential_reject
  by unfold_locales (simp_all add: sourcecredential_execute_step_def sourcecredential_reject_def)

text \<open>
  The documented behaviour of the apiserver the platform strategy relies on: after an
  accepted apply or merge patch of \<open>spec.pin\<close>, a read shows the pin that was set, and no
  pin after it was cleared.
\<close>

definition stack_api_ok :: "'w stack_api \<Rightarrow> bool" where
  "stack_api_ok api \<longleftrightarrow>
     (\<forall>v w w' obj. sa_patch api (PatchApply (pin_apply_body v)) w = (Inr (), w') \<longrightarrow>
        sa_get api w' = Inr obj \<longrightarrow> stack_pin obj = Some (JString v)) \<and>
     (\<forall>w w' obj. sa_patch api (PatchMerge pin_clear_body) w = (Inr (), w') \<longrightarrow>
        sa_get api w' = Inr obj \<longrightarrow> stack_pin obj = None)"

lemma patch_stack_ok: "patch_stack api p w = (Inr (), w') \<longleftrightarrow> sa_patch api p w = (Inr (), w')"
  by (auto simp: patch_stack_def split: prod.splits sum.splits)

lemma platform_reject_pin:
  assumes "stack_api_ok api" and "platform_reject api plan w = (Inr (), w')" and "sa_get api w' = Inr obj"
  obtains snapshot where "mp_snapshot (mp_spec plan) = Some snapshot"
    and "pins_equal (stack_pin obj) (json_get snapshot ''pin'')"
proof -
  from assms(2) obtain s where s: "mp_snapshot (mp_spec plan) = Some s"
    by (auto simp: platform_reject_def Let_def split: option.splits)
  from assms(2) s obtain cur where cur: "sa_get api w = Inr cur"
    by (auto simp: platform_reject_def Let_def split: sum.splits)
  show thesis
  proof (cases "pins_equal (stack_pin cur) (json_get s ''pin'')")
    case True
    with assms(2,3) s cur have "obj = cur" by (auto simp: platform_reject_def Let_def)
    with True s show thesis by (intro that) auto
  next
    case False
    with assms s cur have "pins_equal (stack_pin obj) (json_get s ''pin'')"
      by (auto simp: platform_reject_def Let_def patch_stack_ok stack_api_ok_def pins_equal_def
          split: option.splits json.splits)
    with s show thesis by (rule that)
  qed
qed

lemma platform_strategy:
  assumes "stack_api_ok api"
  shows "migration_strategy platform_execute_step (platform_reject api)"
proof unfold_locales
  show "fst (platform_execute_step plan step w) = Inr Succeeded" for plan step w
    by (simp add: platform_execute_step_def)
  show "snd (platform_reject api plan w') = w'" if r: "platform_reject api plan w = (Inr (), w')" for plan w w'
  proof (cases "sa_get api w'")
    case (Inl e)
    then show ?thesis by (auto simp: platform_reject_def Let_def split: option.splits)
  next
    case (Inr obj)
    from platform_reject_pin [OF assms r Inr] obtain s where
      "mp_snapshot (mp_spec plan) = Some s" "pins_equal (stack_pin obj) (json_get s ''pin'')"
      by metis
    with Inr show ?thesis by (simp add: platform_reject_def Let_def)
  qed
qed

text \<open>
  Rejecting a platform plan restores the pin: when it reports success, the stack's
  pin is the one of the plan's snapshot, and rejecting again any number of times (as after
  a crash before the plan was sealed) writes nothing more.
\<close>

lemma platform_reject_restores_pin_once:
  assumes "stack_api_ok api" and "platform_reject api plan w = (Inr (), w')"
  shows "(\<forall>obj. sa_get api w' = Inr obj \<longrightarrow>
            (\<exists>snapshot. mp_snapshot (mp_spec plan) = Some snapshot \<and>
               pins_equal (stack_pin obj) (json_get snapshot ''pin''))) \<and>
         ((\<lambda>v. snd (platform_reject api plan v)) ^^ n) w' = w'"
  using platform_reject_pin [OF assms]
    migration_strategy.reject_again_writes_nothing [OF platform_strategy [OF assms(1)] assms(2)]
  by metis

definition mem_stack :: "string option stack_api" where
  "mem_stack =
     \<lparr>sa_get = (\<lambda>pin. Inr (JObject [(''spec'', JObject
         (case pin of None \<Rightarrow> [] | Some v \<Rightarrow> [(''pin'', JString v)]))])),
      sa_patch = (\<lambda>patch pin. (Inr (), case patch of
           PatchApply body \<Rightarrow> Option.bind (stack_pin body) as_str
         | PatchMerge body \<Rightarrow> None))\<rparr>"

definition pinned_plan :: migration_plan where
  "pinned_plan = \<lparr>mp_meta = \<lparr>om_name = Some ''p'', om_namespace = None, om_owner_references = [],
       om_labels = [], om_creation_timestamp = None\<rparr>,
     mp_spec = \<lparr>mp_scope = \<lparr>sc_type = ''platform'', sc_application = None,
         sc_platform = Some \<lparr>ps_components = []\<rparr>, sc_sourcecredential = None\<rparr>,
       mp_trigger = \<lparr>trig_type = ''platform-classification'', trig_field = ''spec.pin'', trig_from = None,
         trig_to = None, trig_hash = None\<rparr>,
       mp_risks = None, mp_changes = None, mp_plan = None, mp_approvers = None,
       mp_snapshot = Some (JObject [(''pin'', JString ''0.1.5'')])\<rparr>,
     mp_status = None\<rparr>"

lemma stack_api_ok_mem: "stack_api_ok mem_stack"
  by (auto simp: stack_api_ok_def mem_stack_def stack_pin_def pin_apply_body_def json_get_def)

end
