(* ===== verification/Effective_Spec.thy ===== *)
theory Effective_Spec
  imports App_Types
begin

text \<open>
  The effective spec of one environment (\<open>operator-rendering/src/lib.rs\<close>): the base spec
  with the environment's override folded over it. The specification is leaf-wise: every
  leaf of the spec tree has the override's value where the override sets that leaf, and
  the base's value everywhere else.
\<close>

datatype effective_spec_error = ExposeMissingPort

subsection \<open>The merges\<close>

definition try_into_expose ::
  "expose_override \<Rightarrow> (effective_spec_error, application_expose) result" where
  "try_into_expose ovr = (case xo_port ovr of
       None \<Rightarrow> Inl ExposeMissingPort
     | Some p \<Rightarrow> Inr \<lparr>xp_port = p, xp_network = xo_network ovr, xp_hostname = xo_hostname ovr,
                       xp_tls = xo_tls ovr\<rparr>)"

definition merge_expose ::
  "application_expose option \<Rightarrow> expose_override option \<Rightarrow>
   (effective_spec_error, application_expose option) result" where
  "merge_expose base ovr = (case (base, ovr) of
       (b, None) \<Rightarrow> Inr b
     | (None, Some ov) \<Rightarrow> result_bind (try_into_expose ov) (\<lambda>e. Inr (Some e))
     | (Some b, Some ov) \<Rightarrow>
         (let b = (case xo_port ov of Some p \<Rightarrow> b\<lparr>xp_port := p\<rparr> | None \<Rightarrow> b);
              b = (if xo_network ov \<noteq> None then b\<lparr>xp_network := xo_network ov\<rparr> else b);
              b = (if xo_hostname ov \<noteq> None then b\<lparr>xp_hostname := xo_hostname ov\<rparr> else b);
              b = (if xo_tls ov \<noteq> None then b\<lparr>xp_tls := xo_tls ov\<rparr> else b)
          in Inr (Some b)))"

definition merge_image_policy ::
  "image_policy option \<Rightarrow> image_policy option \<Rightarrow> image_policy option" where
  "merge_image_policy base ovr = (case (base, ovr) of
       (b, None) \<Rightarrow> b
     | (None, ov) \<Rightarrow> ov
     | (Some b, Some ov) \<Rightarrow>
         Some (if ip_resolve ov \<noteq> None then b\<lparr>ip_resolve := ip_resolve ov\<rparr> else b))"

definition seed_app_resources :: app_resources where
  "seed_app_resources =
     \<lparr>ar_requests = Some [(''cpu'', ''25m''), (''memory'', ''32Mi'')],
      ar_limits = Some [(''memory'', ''512Mi'')]\<rparr>"

definition merge_map ::
  "string btreemap option \<Rightarrow> string btreemap option \<Rightarrow> string btreemap option" where
  "merge_map b ov = (case (b, ov) of
       (b, None) \<Rightarrow> b
     | (None, ov) \<Rightarrow> ov
     | (Some b, Some ov) \<Rightarrow> Some (bt_extend b ov))"

definition merge_resources ::
  "app_resources option \<Rightarrow> app_resources option \<Rightarrow>
   (effective_spec_error, app_resources option) result" where
  "merge_resources base ovr = (case (base, ovr) of
       (b, None) \<Rightarrow> Inr b
     | (None, ov) \<Rightarrow> Inr ov
     | (Some b, Some ov) \<Rightarrow>
         Inr (Some \<lparr>ar_requests = merge_map (ar_requests b) (ar_requests ov),
                    ar_limits = merge_map (ar_limits b) (ar_limits ov)\<rparr>))"

definition merge_probe :: "app_probe option \<Rightarrow> app_probe option \<Rightarrow> app_probe option" where
  "merge_probe base ovr = (case (base, ovr) of
       (b, None) \<Rightarrow> b
     | (None, ov) \<Rightarrow> ov
     | (Some b, Some ov) \<Rightarrow> Some
         \<lparr>pb_enabled = opt_or (pb_enabled ov) (pb_enabled b),
          pb_path = opt_or (pb_path ov) (pb_path b),
          pb_port = opt_or (pb_port ov) (pb_port b),
          pb_scheme = opt_or (pb_scheme ov) (pb_scheme b),
          pb_headers = opt_or (pb_headers ov) (pb_headers b),
          pb_initial_delay_seconds =
            opt_or (pb_initial_delay_seconds ov) (pb_initial_delay_seconds b),
          pb_period_seconds = opt_or (pb_period_seconds ov) (pb_period_seconds b),
          pb_timeout_seconds = opt_or (pb_timeout_seconds ov) (pb_timeout_seconds b),
          pb_failure_threshold = opt_or (pb_failure_threshold ov) (pb_failure_threshold b),
          pb_success_threshold = opt_or (pb_success_threshold ov) (pb_success_threshold b)\<rparr>)"

definition merge_probes :: "app_probes option \<Rightarrow> app_probes option \<Rightarrow> app_probes option" where
  "merge_probes base ovr = (case (base, ovr) of
       (b, None) \<Rightarrow> b
     | (None, ov) \<Rightarrow> ov
     | (Some b, Some ov) \<Rightarrow> Some
         \<lparr>pr_liveness = merge_probe (pr_liveness b) (pr_liveness ov),
          pr_readiness = merge_probe (pr_readiness b) (pr_readiness ov),
          pr_startup = merge_probe (pr_startup b) (pr_startup ov)\<rparr>)"

text \<open>The per-key replacement of \<open>needs\<close> inside \<open>effective_spec\<close>.\<close>

definition merge_needs :: "app_needs option \<Rightarrow> app_needs \<Rightarrow> app_needs" where
  "merge_needs base env_needs =
     (let merged = unwrap_or base default_needs;
          merged = (if nd_pg env_needs \<noteq> None
                    then merged\<lparr>nd_pg := nd_pg env_needs\<rparr> else merged);
          merged = (if nd_jetstream env_needs \<noteq> None
                    then merged\<lparr>nd_jetstream := nd_jetstream env_needs\<rparr> else merged);
          merged = (if nd_clickhouse env_needs \<noteq> None
                    then merged\<lparr>nd_clickhouse := nd_clickhouse env_needs\<rparr> else merged);
          merged = (if nd_redis env_needs \<noteq> None
                    then merged\<lparr>nd_redis := nd_redis env_needs\<rparr> else merged);
          merged = (if nd_s3 env_needs \<noteq> None
                    then merged\<lparr>nd_s3 := nd_s3 env_needs\<rparr> else merged);
          merged = (if nd_notifications env_needs \<noteq> None
                    then merged\<lparr>nd_notifications := nd_notifications env_needs\<rparr> else merged);
          merged = (if nd_disk env_needs \<noteq> None
                    then merged\<lparr>nd_disk := nd_disk env_needs\<rparr> else merged)
      in merged)"

definition apply_override ::
  "base_spec \<Rightarrow> env_override \<Rightarrow> (effective_spec_error, base_spec) result" where
  "apply_override base ovr =
     (let eff = base;
          eff = (if eo_image ovr \<noteq> None then eff\<lparr>ab_image := eo_image ovr\<rparr> else eff);
          eff = (if eo_replicas ovr \<noteq> None then eff\<lparr>ab_replicas := eo_replicas ovr\<rparr> else eff)
      in result_bind (merge_expose (ab_expose eff) (eo_expose ovr)) (\<lambda>expose.
         let eff = eff\<lparr>ab_expose := expose,
                       ab_image_policy := merge_image_policy (ab_image_policy eff) (eo_image_policy ovr)\<rparr>
         in result_bind (merge_resources (ab_resources eff) (eo_resources ovr)) (\<lambda>resources.
         let eff = eff\<lparr>ab_resources := resources,
                       ab_probes := merge_probes (ab_probes eff) (eo_probes ovr)\<rparr>;
             eff = (case eo_env ovr of
                      Some env_env \<Rightarrow>
                        eff\<lparr>ab_env := Some (bt_extend (unwrap_or (ab_env eff) []) env_env)\<rparr>
                    | None \<Rightarrow> eff);
             eff = (case eo_needs ovr of
                      Some env_needs \<Rightarrow> eff\<lparr>ab_needs := Some (merge_needs (ab_needs eff) env_needs)\<rparr>
                    | None \<Rightarrow> eff)
         in Inr eff)))"

definition effective_spec ::
  "application_spec \<Rightarrow> string option \<Rightarrow> (effective_spec_error, base_spec) result" where
  "effective_spec spec env_name =
     (let eff = unwrap_or (asp_base spec) default_base_spec
      in case env_name of
           None \<Rightarrow> Inr eff
         | Some name \<Rightarrow>
             (case Option.bind (asp_environments spec) (\<lambda>m. map_of m name) of
                None \<Rightarrow> Inr eff
              | Some env_override \<Rightarrow> apply_override eff env_override))"

subsection \<open>Leaf-wise specification\<close>

datatype leaf =
    LStr string | LInt int | LBool bool
  | LHosts "string one_or_many"
  | LHeaders "string btreemap"
  | LEnv env_value
  | LServices "service_need one_or_many"
  | LJetstream jetstream_need
  | LDisks "disk_claim one_or_many"

datatype probe_slot = Liveness | Readiness | Startup

datatype probe_field =
    PEnabled | PPath | PPort | PScheme | PHeaders
  | PInitialDelay | PPeriod | PTimeout | PFailureThreshold | PSuccessThreshold

datatype need_key = NPg | NJetstream | NClickhouse | NRedis | NS3 | NNotifications | NDisk

datatype expose_field = XPort | XNetwork | XHostname | XTls

datatype leaf_path =
    PathImage | PathReplicas
  | PathExpose expose_field
  | PathResolve
  | PathRequest string | PathLimit string
  | PathProbe probe_slot probe_field
  | PathEnv string
  | PathNeed need_key

fun expose_leaf :: "application_expose \<Rightarrow> expose_field \<Rightarrow> leaf option" where
  "expose_leaf e XPort = Some (LInt (xp_port e))"
| "expose_leaf e XNetwork = map_option LStr (xp_network e)"
| "expose_leaf e XHostname = map_option LHosts (xp_hostname e)"
| "expose_leaf e XTls = map_option LBool (xp_tls e)"

fun expose_override_leaf :: "expose_override \<Rightarrow> expose_field \<Rightarrow> leaf option" where
  "expose_override_leaf e XPort = map_option LInt (xo_port e)"
| "expose_override_leaf e XNetwork = map_option LStr (xo_network e)"
| "expose_override_leaf e XHostname = map_option LHosts (xo_hostname e)"
| "expose_override_leaf e XTls = map_option LBool (xo_tls e)"

fun probe_leaf :: "app_probe \<Rightarrow> probe_field \<Rightarrow> leaf option" where
  "probe_leaf p PEnabled = map_option LBool (pb_enabled p)"
| "probe_leaf p PPath = map_option LStr (pb_path p)"
| "probe_leaf p PPort = map_option LInt (pb_port p)"
| "probe_leaf p PScheme = map_option LStr (pb_scheme p)"
| "probe_leaf p PHeaders = map_option LHeaders (pb_headers p)"
| "probe_leaf p PInitialDelay = map_option LInt (pb_initial_delay_seconds p)"
| "probe_leaf p PPeriod = map_option LInt (pb_period_seconds p)"
| "probe_leaf p PTimeout = map_option LInt (pb_timeout_seconds p)"
| "probe_leaf p PFailureThreshold = map_option LInt (pb_failure_threshold p)"
| "probe_leaf p PSuccessThreshold = map_option LInt (pb_success_threshold p)"

fun probe_of :: "app_probes \<Rightarrow> probe_slot \<Rightarrow> app_probe option" where
  "probe_of p Liveness = pr_liveness p"
| "probe_of p Readiness = pr_readiness p"
| "probe_of p Startup = pr_startup p"

definition probes_leaf :: "app_probes option \<Rightarrow> probe_slot \<Rightarrow> probe_field \<Rightarrow> leaf option" where
  "probes_leaf ps sl f = Option.bind (Option.bind ps (\<lambda>p. probe_of p sl)) (\<lambda>p. probe_leaf p f)"

fun need_leaf :: "app_needs \<Rightarrow> need_key \<Rightarrow> leaf option" where
  "need_leaf n NPg = map_option LServices (nd_pg n)"
| "need_leaf n NJetstream = map_option LJetstream (nd_jetstream n)"
| "need_leaf n NClickhouse = map_option LServices (nd_clickhouse n)"
| "need_leaf n NRedis = map_option LServices (nd_redis n)"
| "need_leaf n NS3 = map_option LServices (nd_s3 n)"
| "need_leaf n NNotifications = map_option LServices (nd_notifications n)"
| "need_leaf n NDisk = map_option LDisks (nd_disk n)"

definition map_leaf :: "('v \<Rightarrow> leaf) \<Rightarrow> 'v btreemap option \<Rightarrow> string \<Rightarrow> leaf option" where
  "map_leaf f m k = map_option f (Option.bind m (\<lambda>m. map_of m k))"

fun base_leaf :: "base_spec \<Rightarrow> leaf_path \<Rightarrow> leaf option" where
  "base_leaf s PathImage = map_option LStr (ab_image s)"
| "base_leaf s PathReplicas = map_option LInt (ab_replicas s)"
| "base_leaf s (PathExpose f) = Option.bind (ab_expose s) (\<lambda>e. expose_leaf e f)"
| "base_leaf s PathResolve = map_option LStr (Option.bind (ab_image_policy s) ip_resolve)"
| "base_leaf s (PathRequest k) = map_leaf LStr (Option.bind (ab_resources s) ar_requests) k"
| "base_leaf s (PathLimit k) = map_leaf LStr (Option.bind (ab_resources s) ar_limits) k"
| "base_leaf s (PathProbe sl f) = probes_leaf (ab_probes s) sl f"
| "base_leaf s (PathEnv k) = map_leaf LEnv (ab_env s) k"
| "base_leaf s (PathNeed k) = Option.bind (ab_needs s) (\<lambda>n. need_leaf n k)"

fun override_leaf :: "env_override \<Rightarrow> leaf_path \<Rightarrow> leaf option" where
  "override_leaf s PathImage = map_option LStr (eo_image s)"
| "override_leaf s PathReplicas = map_option LInt (eo_replicas s)"
| "override_leaf s (PathExpose f) = Option.bind (eo_expose s) (\<lambda>e. expose_override_leaf e f)"
| "override_leaf s PathResolve = map_option LStr (Option.bind (eo_image_policy s) ip_resolve)"
| "override_leaf s (PathRequest k) = map_leaf LStr (Option.bind (eo_resources s) ar_requests) k"
| "override_leaf s (PathLimit k) = map_leaf LStr (Option.bind (eo_resources s) ar_limits) k"
| "override_leaf s (PathProbe sl f) = probes_leaf (eo_probes s) sl f"
| "override_leaf s (PathEnv k) = map_leaf LEnv (eo_env s) k"
| "override_leaf s (PathNeed k) = Option.bind (eo_needs s) (\<lambda>n. need_leaf n k)"

text \<open>The maps of an override are maps: their keys are in order and appear once.\<close>

definition override_wf :: "env_override \<Rightarrow> bool" where
  "override_wf ovr \<longleftrightarrow> pred_option bt_wf (eo_env ovr) \<and>
     pred_option (\<lambda>r. pred_option bt_wf (ar_requests r) \<and> pred_option bt_wf (ar_limits r))
       (eo_resources ovr)"

lemma merge_expose_leaf:
  "merge_expose b ov = Inr e \<Longrightarrow>
   Option.bind e (\<lambda>e. expose_leaf e f) =
   opt_or (Option.bind ov (\<lambda>v. expose_override_leaf v f)) (Option.bind b (\<lambda>e. expose_leaf e f))"
  by (cases b; cases ov; cases f)
     (auto simp: merge_expose_def try_into_expose_def Let_def split: option.splits)

lemma merge_expose_error:
  "merge_expose b ov = Inl err \<longleftrightarrow> b = None \<and> (\<exists>v. ov = Some v \<and> xo_port v = None)"
  by (cases b; cases ov; cases err)
     (auto simp: merge_expose_def try_into_expose_def Let_def split: option.splits)

lemma merge_image_policy_leaf:
  "Option.bind (merge_image_policy b ov) ip_resolve =
   opt_or (Option.bind ov ip_resolve) (Option.bind b ip_resolve)"
  by (cases b; cases ov) (auto simp: merge_image_policy_def)

lemma map_leaf_merge_map:
  "pred_option bt_wf ov \<Longrightarrow>
   map_leaf f (merge_map b ov) k = opt_or (map_leaf f ov k) (map_leaf f b k)"
  by (cases b; cases ov)
     (auto simp: merge_map_def map_leaf_def bt_extend_get map_add_def split: option.splits)

lemma map_leaf_extend:
  "bt_wf e \<Longrightarrow> map_leaf f (Some (bt_extend (unwrap_or b []) e)) k =
   opt_or (map_leaf f (Some e) k) (map_leaf f b k)"
  by (cases b) (auto simp: map_leaf_def bt_extend_get map_add_def split: option.splits)

lemma merge_resources_ok: "\<exists>r. merge_resources b ov = Inr r"
  by (cases b; cases ov) (auto simp: merge_resources_def)

lemma merge_resources_parts:
  assumes "merge_resources b ov = Inr r"
  shows "Option.bind r ar_requests =
           merge_map (Option.bind b ar_requests) (Option.bind ov ar_requests)"
    and "Option.bind r ar_limits =
           merge_map (Option.bind b ar_limits) (Option.bind ov ar_limits)"
  using assms by (cases b; cases ov; auto simp: merge_resources_def merge_map_def split: option.splits)+

lemma merge_probe_leaf:
  "Option.bind (merge_probe b ov) (\<lambda>p. probe_leaf p f) =
   opt_or (Option.bind ov (\<lambda>p. probe_leaf p f)) (Option.bind b (\<lambda>p. probe_leaf p f))"
  by (cases b; cases ov; cases f) (simp_all add: merge_probe_def)

lemma merge_probes_slot:
  "Option.bind (merge_probes b ov) (\<lambda>p. probe_of p sl) =
   merge_probe (Option.bind b (\<lambda>p. probe_of p sl)) (Option.bind ov (\<lambda>p. probe_of p sl))"
  by (cases b; cases ov; cases sl) (simp_all add: merge_probes_def merge_probe_def split: option.split)

lemma merge_probes_leaf:
  "probes_leaf (merge_probes b ov) sl f = opt_or (probes_leaf ov sl f) (probes_leaf b sl f)"
  by (simp add: probes_leaf_def merge_probes_slot merge_probe_leaf)

lemma need_leaf_default [simp]: "need_leaf default_needs k = None"
  by (cases k) (simp_all add: default_needs_def)

lemma merge_needs_leaf:
  "need_leaf (merge_needs b n) k =
   opt_or (need_leaf n k) (Option.bind b (\<lambda>n. need_leaf n k))"
proof -
  have "need_leaf (merge_needs b n) k = opt_or (need_leaf n k) (need_leaf (unwrap_or b default_needs) k)"
    by (cases k) (simp_all add: merge_needs_def Let_def opt_or_def split: option.split)
  then show ?thesis by (cases b) simp_all
qed

lemma set_field_or_keep:
  "(if x \<noteq> None then b\<lparr>ab_image := x\<rparr> else b) = b\<lparr>ab_image := opt_or x (ab_image b)\<rparr>"
  "(if y \<noteq> None then b\<lparr>ab_replicas := y\<rparr> else b) = b\<lparr>ab_replicas := opt_or y (ab_replicas b)\<rparr>"
  by (simp_all add: opt_or_def split: option.split)

definition overlay ::
  "base_spec \<Rightarrow> env_override \<Rightarrow> application_expose option \<Rightarrow> app_resources option \<Rightarrow> base_spec" where
  "overlay b ov e r = \<lparr>ab_image = opt_or (eo_image ov) (ab_image b),
      ab_replicas = opt_or (eo_replicas ov) (ab_replicas b), ab_expose = e,
      ab_env = (case eo_env ov of None \<Rightarrow> ab_env b
                | Some m \<Rightarrow> Some (bt_extend (unwrap_or (ab_env b) []) m)),
      ab_needs = (case eo_needs ov of None \<Rightarrow> ab_needs b
                  | Some n \<Rightarrow> Some (merge_needs (ab_needs b) n)),
      ab_image_policy = merge_image_policy (ab_image_policy b) (eo_image_policy ov),
      ab_resources = r, ab_probes = merge_probes (ab_probes b) (eo_probes ov)\<rparr>"

lemma apply_override_overlay:
  "apply_override b ov =
     result_bind (merge_expose (ab_expose b) (eo_expose ov)) (\<lambda>e.
     result_bind (merge_resources (ab_resources b) (eo_resources ov)) (\<lambda>r. Inr (overlay b ov e r)))"
  unfolding apply_override_def Let_def set_field_or_keep
  by (cases "merge_expose (ab_expose b) (eo_expose ov)";
      cases "merge_resources (ab_resources b) (eo_resources ov)";
      cases "eo_env ov"; cases "eo_needs ov")
     (simp_all add: overlay_def)

lemma apply_override_error:
  "apply_override b ov = Inl err \<longleftrightarrow>
   ab_expose b = None \<and> (\<exists>v. eo_expose ov = Some v \<and> xo_port v = None)"
proof -
  obtain r where "merge_resources (ab_resources b) (eo_resources ov) = Inr r"
    using merge_resources_ok by blast
  then show ?thesis
    using merge_expose_error [of "ab_expose b" "eo_expose ov" err]
    by (cases "merge_expose (ab_expose b) (eo_expose ov)") (auto simp: apply_override_overlay)
qed

lemma apply_override_ok:
  assumes "apply_override b ov = Inr eff"
  obtains e r where "merge_expose (ab_expose b) (eo_expose ov) = Inr e"
    and "merge_resources (ab_resources b) (eo_resources ov) = Inr r" and "eff = overlay b ov e r"
  using assms
  by (cases "merge_expose (ab_expose b) (eo_expose ov)";
      cases "merge_resources (ab_resources b) (eo_resources ov)")
     (simp_all add: apply_override_overlay)

lemma apply_override_leaf:
  assumes "apply_override b ov = Inr eff" and "override_wf ov"
  shows "base_leaf eff p = opt_or (override_leaf ov p) (base_leaf b p)"
proof -
  from assms(1) obtain e r where e: "merge_expose (ab_expose b) (eo_expose ov) = Inr e"
    and r: "merge_resources (ab_resources b) (eo_resources ov) = Inr r"
    and eff: "eff = overlay b ov e r"
    by (rule apply_override_ok)
  note eff = eff [unfolded overlay_def]
  have env: "\<And>m. eo_env ov = Some m \<Longrightarrow> bt_wf m"
    and res: "pred_option bt_wf (Option.bind (eo_resources ov) ar_requests)"
             "pred_option bt_wf (Option.bind (eo_resources ov) ar_limits)"
    using assms(2) by (simp_all add: override_wf_def) (cases "eo_resources ov"; simp)+
  show ?thesis
  proof (cases p)
    case (PathEnv k)
    then show ?thesis using env
      by (cases "eo_env ov") (simp_all add: eff map_leaf_extend, simp add: map_leaf_def)
  next
    case (PathNeed k)
    then show ?thesis by (cases "eo_needs ov") (simp_all add: eff merge_needs_leaf)
  qed (simp_all add: eff merge_expose_leaf [OF e] merge_image_policy_leaf merge_probes_leaf
         merge_resources_parts [OF r] map_leaf_merge_map res)
qed

text \<open>
  C39. The effective spec is the leaf-wise overlay of the environment's override on the
  base: image, replicas, each field of \<open>expose\<close>, the image policy, each request and limit
  key, each field of each probe, each environment variable and each kind of need comes
  from the override exactly where the override sets it and from the base otherwise.
\<close>

theorem effective_spec_overlays_leafwise:
  assumes "asp_environments spec = Some envs" and "map_of envs name = Some ovr"
    and "override_wf ovr"
    and "effective_spec spec (Some name) = Inr eff"
  shows "base_leaf eff p =
    opt_or (override_leaf ovr p) (base_leaf (unwrap_or (asp_base spec) default_base_spec) p)"
  using assms by (intro apply_override_leaf) (simp_all add: effective_spec_def)

definition witness_expose :: application_expose where
  "witness_expose = \<lparr>xp_port = 8080, xp_network = Some ''private'', xp_hostname = None, xp_tls = None\<rparr>"

definition witness_override :: env_override where
  "witness_override = \<lparr>eo_image = None, eo_replicas = Some 3,
     eo_expose = Some \<lparr>xo_port = None, xo_network = Some ''public'', xo_hostname = None, xo_tls = None\<rparr>,
     eo_env = Some [(''LOG'', Literal ''debug'')], eo_needs = None, eo_image_policy = None,
     eo_resources = None, eo_probes = None\<rparr>"

definition witness_spec :: application_spec where
  "witness_spec = \<lparr>asp_base = Some (default_base_spec\<lparr>ab_image := Some ''app:v1'',
       ab_expose := Some witness_expose,
       ab_env := Some [(''DSN'', Ref (Claim ''pg.dsn'')), (''LOG'', Literal ''info'')]\<rparr>),
     asp_environments = Some [(''prod'', witness_override)], asp_environment = Some ''prod''\<rparr>"

definition witness_effective :: base_spec where
  "witness_effective = default_base_spec\<lparr>ab_image := Some ''app:v1'', ab_replicas := Some 3,
     ab_expose := Some (witness_expose\<lparr>xp_network := Some ''public''\<rparr>),
     ab_env := Some [(''DSN'', Ref (Claim ''pg.dsn'')), (''LOG'', Literal ''debug'')]\<rparr>"

lemma witness_spec_effective: "effective_spec witness_spec (Some ''prod'') = Inr witness_effective"
  by (simp add: effective_spec_def witness_spec_def witness_override_def witness_effective_def
      witness_expose_def default_base_spec_def apply_override_def merge_expose_def
      merge_image_policy_def merge_resources_def merge_probes_def bt_extend_def Let_def)

theorem effective_spec_overlays_leafwise_witness:
  "base_leaf witness_effective (PathExpose XNetwork) = Some (LStr ''public'') \<and>
   base_leaf witness_effective (PathExpose XPort) = Some (LInt 8080) \<and>
   base_leaf witness_effective (PathEnv ''LOG'') = Some (LEnv (Literal ''debug''))"
proof -
  have wf: "override_wf witness_override"
    by (simp add: override_wf_def witness_override_def bt_wf_def)
  note overlay = effective_spec_overlays_leafwise [OF _ _ wf witness_spec_effective]
  show ?thesis
    using overlay [where p = "PathExpose XNetwork"] overlay [where p = "PathExpose XPort"]
      overlay [where p = "PathEnv ''LOG''"]
    by (simp add: witness_spec_def witness_override_def witness_expose_def map_leaf_def)
qed

text \<open>
  Computing the effective spec fails in exactly one case: the selected environment
  has an override that exposes the application without a port, and the base exposes
  nothing the port could be inherited from.
\<close>

lemma effective_spec_fails_iff:
  "effective_spec spec env_name = Inl err \<longleftrightarrow>
   (\<exists>name envs ovr expose. env_name = Some name \<and> asp_environments spec = Some envs \<and>
      map_of envs name = Some ovr \<and> eo_expose ovr = Some expose \<and> xo_port expose = None \<and>
      Option.bind (asp_base spec) ab_expose = None)"
  by (cases "asp_base spec"; cases "asp_environments spec"; cases env_name)
     (auto simp: effective_spec_def Let_def apply_override_error default_base_spec_def
        split: option.splits)

end
