(* ===== verification/Names.thy ===== *)
theory Names
  imports Prelude
begin

text \<open>
  The folding of tenant-chosen names into Kubernetes object names and Postgres identifiers,
  which \<open>plan_name\<close>, \<open>claim_name\<close>, \<open>k8s_name\<close> and \<open>pg_identifier\<close> share in the source as
  a repeated loop. Names are ASCII here (the admission layer only lets DNS-1123 names
  through), so a character is a byte.
\<close>

definition is_ascii_alphanumeric :: "char \<Rightarrow> bool" where
  "is_ascii_alphanumeric c =
     (let n = of_char c :: nat
      in 48 \<le> n \<and> n \<le> 57 \<or> 65 \<le> n \<and> n \<le> 90 \<or> 97 \<le> n \<and> n \<le> 122)"

definition to_ascii_lowercase :: "char \<Rightarrow> char" where
  "to_ascii_lowercase c =
     (let n = of_char c :: nat in if 65 \<le> n \<and> n \<le> 90 then char_of (n + 32) else c)"

text \<open>Every character that is not alphanumeric becomes \<open>sep\<close>, the others lower case.\<close>

definition fold_name :: "char \<Rightarrow> string \<Rightarrow> string" where
  "fold_name sep raw = map (\<lambda>ch. if is_ascii_alphanumeric ch then to_ascii_lowercase ch else sep) raw"

abbreviation fold_dns :: "string \<Rightarrow> string" where
  "fold_dns \<equiv> fold_name CHR ''-''"

text \<open>\<open>while out.ends_with('-') { out.pop(); }\<close>\<close>

definition trim_end_dash :: "string \<Rightarrow> string" where
  "trim_end_dash s = rev (dropWhile (\<lambda>c. c = CHR ''-'') (rev s))"

definition dns_label :: "string \<Rightarrow> string" where
  "dns_label raw = trim_end_dash (take 63 (fold_dns raw))"

text \<open>A DNS-1123 label, the check of the apiserver on object names.\<close>

definition is_dns_char :: "char \<Rightarrow> bool" where
  "is_dns_char c = (let n = of_char c :: nat in 48 \<le> n \<and> n \<le> 57 \<or> 97 \<le> n \<and> n \<le> 122 \<or> n = 45)"

definition is_dns_label :: "string \<Rightarrow> bool" where
  "is_dns_label s \<longleftrightarrow> s \<noteq> [] \<and> length s \<le> 63 \<and> (\<forall>c \<in> set s. is_dns_char c) \<and>
     hd s \<noteq> CHR ''-'' \<and> last s \<noteq> CHR ''-''"

lemma fold_name_digits: "\<forall>c \<in> set s. is_ascii_digit c \<Longrightarrow> fold_name sep s = s"
  unfolding fold_name_def
  by (rule map_idI) (auto simp: is_ascii_alphanumeric_def to_ascii_lowercase_def is_ascii_digit_def Let_def)

lemma fold_name_append [simp]:
  "fold_name sep (a @ b) = fold_name sep a @ fold_name sep b" "length (fold_name sep a) = length a"
  "fold_name sep [] = []" "fold_name sep a = [] \<longleftrightarrow> a = []"
  by (simp_all add: fold_name_def)

lemma fold_name_Cons:
  "fold_name sep (c # s) = (if is_ascii_alphanumeric c then to_ascii_lowercase c else sep) # fold_name sep s"
  by (simp add: fold_name_def)

lemma lowercase_alnum: "is_ascii_alphanumeric c \<Longrightarrow>
    is_dns_char (to_ascii_lowercase c) \<and> to_ascii_lowercase c \<noteq> CHR ''-'' \<and> to_ascii_lowercase c \<noteq> CHR ''_''"
proof -
  assume h: "is_ascii_alphanumeric c"
  let ?n = "of_char c :: nat"
  have up: "(of_char (char_of (?n + 32)) :: nat) = ?n + 32" if "?n \<le> 90" using that by (simp add: of_char_of)
  have "(of_char (to_ascii_lowercase c) :: nat) = (if 65 \<le> ?n \<and> ?n \<le> 90 then ?n + 32 else ?n)"
    using up by (simp add: to_ascii_lowercase_def Let_def)
  moreover have "(of_char CHR ''-'' :: nat) = 45" "(of_char CHR ''_'' :: nat) = 95" by code_simp+
  ultimately show ?thesis using h by (auto simp: is_dns_char_def is_ascii_alphanumeric_def Let_def split: if_splits)
qed

lemma fold_dns_chars: "c \<in> set (fold_dns s) \<Longrightarrow> is_dns_char c"
proof -
  have "is_dns_char CHR ''-''" by code_simp
  then show "c \<in> set (fold_dns s) \<Longrightarrow> is_dns_char c"
    using lowercase_alnum by (auto simp: fold_name_def)
qed

lemma lowercase_dns: "is_dns_char c \<Longrightarrow> c \<noteq> CHR ''-'' \<Longrightarrow> is_ascii_alphanumeric c \<and> to_ascii_lowercase c = c"
proof -
  assume h: "is_dns_char c" "c \<noteq> CHR ''-''"
  have "(of_char CHR ''-'' :: nat) = 45" by code_simp
  then have "(of_char c :: nat) \<noteq> 45" using h(2) by (metis of_char_eq_iff)
  with h(1) show ?thesis by (auto simp: is_dns_char_def is_ascii_alphanumeric_def to_ascii_lowercase_def Let_def)
qed

text \<open>A valid name passes through the folding unchanged.\<close>

lemma fold_dns_id: "\<forall>c \<in> set s. is_dns_char c \<Longrightarrow> fold_dns s = s"
proof -
  have dash: "\<not> is_ascii_alphanumeric CHR ''-''" by code_simp
  have "(if is_ascii_alphanumeric c then to_ascii_lowercase c else CHR ''-'') = c" if "is_dns_char c" for c
    by (cases "c = CHR ''-''") (simp_all add: dash lowercase_dns [OF that])
  then show "\<forall>c \<in> set s. is_dns_char c \<Longrightarrow> fold_dns s = s"
    unfolding fold_name_def by (intro map_idI) blast
qed

lemma trim_end_dash_prefix: "\<exists>t. s = trim_end_dash s @ t \<and> set t \<subseteq> {CHR ''-''}"
proof -
  have "s = rev (takeWhile (\<lambda>c. c = CHR ''-'') (rev s) @ dropWhile (\<lambda>c. c = CHR ''-'') (rev s))" by simp
  then have "s = trim_end_dash s @ rev (takeWhile (\<lambda>c. c = CHR ''-'') (rev s))"
    by (simp only: rev_append trim_end_dash_def)
  moreover have "set (rev (takeWhile (\<lambda>c. c = CHR ''-'') (rev s))) \<subseteq> {CHR ''-''}"
    using set_takeWhileD by fastforce
  ultimately show ?thesis by blast
qed

lemma trim_end_dash_set: "set (trim_end_dash s) \<subseteq> set s" "length (trim_end_dash s) \<le> length s"
  using trim_end_dash_prefix [of s] by (metis Un_upper1 set_append, metis le_add1 length_append)

lemma trim_end_dash_last: "trim_end_dash s \<noteq> [] \<Longrightarrow> last (trim_end_dash s) \<noteq> CHR ''-''"
  using hd_dropWhile [of "\<lambda>c. c = CHR ''-''" "rev s"] by (simp add: trim_end_dash_def last_rev)

lemma trim_end_dash_hd: "s \<noteq> [] \<Longrightarrow> hd s \<noteq> CHR ''-'' \<Longrightarrow> trim_end_dash s \<noteq> [] \<and> hd (trim_end_dash s) = hd s"
proof -
  assume h: "s \<noteq> []" "hd s \<noteq> CHR ''-''"
  obtain t where t: "s = trim_end_dash s @ t" "set t \<subseteq> {CHR ''-''}" using trim_end_dash_prefix by blast
  have "trim_end_dash s \<noteq> []"
  proof
    assume "trim_end_dash s = []"
    with t have "set s \<subseteq> {CHR ''-''}" by simp
    with h show False by (cases s) auto
  qed
  with t(1) show ?thesis by (metis hd_append2)
qed

lemma trim_end_dash_id: "s \<noteq> [] \<Longrightarrow> last s \<noteq> CHR ''-'' \<Longrightarrow> trim_end_dash s = s"
  by (cases s rule: rev_cases) (simp_all add: trim_end_dash_def)

lemma dns_label_valid:
  assumes "raw \<noteq> []" and "is_ascii_alphanumeric (hd raw)"
  shows "is_dns_label (dns_label raw)"
proof -
  obtain c s where raw: "raw = c # s" using assms(1) by (cases raw) auto
  let ?t = "take 63 (fold_dns raw)"
  have t: "?t \<noteq> []" "hd ?t \<noteq> CHR ''-''"
    using assms raw lowercase_alnum by (simp_all add: fold_name_Cons)
  have sub: "set (dns_label raw) \<subseteq> set (fold_dns raw)"
    unfolding dns_label_def using trim_end_dash_set(1) set_take_subset by (metis subset_trans)
  have "length (dns_label raw) \<le> 63"
    unfolding dns_label_def using trim_end_dash_set(2) [of ?t] by simp
  with trim_end_dash_hd [OF t] trim_end_dash_last [of ?t] t(2) sub fold_dns_chars
  show ?thesis unfolding is_dns_label_def dns_label_def by fastforce
qed

lemma dns_label_id: "is_dns_label s \<Longrightarrow> dns_label s = s"
  by (simp add: dns_label_def is_dns_label_def fold_dns_id trim_end_dash_id)

end
