(* ===== verification/App_Gate.thy ===== *)
theory App_Gate
  imports Migration_State Migration_Strategy Effective_Spec Names
begin

text \<open>
  The migration gate of the Application controller
  (\<open>operator-controllers/application/src/lib.rs\<close>): finding the plan of an application, the
  statuses of the paused arms, and one pass of \<open>reconcile\<close> as the sequence of effects it
  asks of the apiserver, from the deletion check to the deletion of a consumed plan. What
  lies between the gate and the baseline stamp (claims pruned and applied, rendering,
  children applied) is the single effect \<open>ERender\<close>: it stands for the first of those writes,
  so a pass that holds there for unready claims or missing Secrets has it too. The
  status of a completed render is the parameter \<open>ge_ready\<close>. A pass can stop after any
  effect: that is a failed call or a crash.
\<close>

subsection \<open>The Application object\<close>

record application_condition =
  ac_type :: string
  ac_status :: string
  ac_last_transition_time :: string
  ac_reason :: string
  ac_message :: string
  ac_observed_generation :: "int option"

record env_config_status =
  ec_digest :: "string option"
  ec_changed_at :: "string option"

record status_image_previous =
  sip_resolved :: "string option"
  sip_tag :: "string option"
  sip_resolved_at :: "string option"

record status_image_pin =
  spn_resolved :: "string option"
  spn_at :: "string option"

record status_image =
  si_tag :: "string option"
  si_resolved :: "string option"
  si_resolved_at :: "string option"
  si_previous :: "status_image_previous option"
  si_pinned :: "status_image_pin option"

record container_recommendation =
  cr_target :: "string btreemap option"
  cr_uncapped_target :: "string btreemap option"

record recommended_resources =
  rr_container_name :: "string option"
  rr_recommendation :: "container_recommendation option"
  rr_not_applied :: "string option"

record application_status =
  ast_phase :: "string option"
  ast_observed_generation :: "int option"
  ast_conditions :: "application_condition list option"
  ast_endpoint_url :: "string option"
  ast_image :: "status_image option"
  ast_env_config :: "env_config_status option"
  ast_environment :: "string option"
  ast_last_applied_spec :: "application_spec option"
  ast_recommended_resources :: "recommended_resources option"
  ast_recent_problems :: "json list"

record app_object =
  ao_name :: string
  ao_namespace :: "string option"
  ao_uid :: "string option"
  ao_annotations :: "string btreemap option"
  ao_generation :: "int option"
  ao_deletion_timestamp :: "string option"
  ao_spec :: application_spec
  ao_status :: "application_status option"

subsection \<open>Statuses\<close>

definition existing_env_config :: "app_object \<Rightarrow> env_config_status option" where
  "existing_env_config app = Option.bind (ao_status app) ast_env_config"

definition existing_image :: "app_object \<Rightarrow> status_image option" where
  "existing_image app = Option.bind (ao_status app) ast_image"

definition existing_baseline :: "app_object \<Rightarrow> application_spec option" where
  "existing_baseline app = Option.bind (ao_status app) ast_last_applied_spec"

definition previous_conditions :: "app_object \<Rightarrow> application_condition list" where
  "previous_conditions app = unwrap_or (Option.bind (ao_status app) ast_conditions) []"

definition transition_time ::
  "string \<Rightarrow> string \<Rightarrow> string \<Rightarrow> application_condition list \<Rightarrow> string" where
  "transition_time now ty status previous =
     unwrap_or (map_option ac_last_transition_time
       (find (\<lambda>c. ac_type c = ty \<and> ac_status c = status) previous)) now"

definition ready_condition ::
  "string \<Rightarrow> string \<Rightarrow> string \<Rightarrow> string \<Rightarrow> application_condition list \<Rightarrow> application_condition" where
  "ready_condition now status reason message previous =
     \<lparr>ac_type = ''Ready'', ac_status = status,
      ac_last_transition_time = transition_time now ''Ready'' status previous,
      ac_reason = reason, ac_message = message, ac_observed_generation = None\<rparr>"

definition migration_pending_condition ::
  "string \<Rightarrow> string \<Rightarrow> string \<Rightarrow> application_condition list \<Rightarrow> application_condition" where
  "migration_pending_condition now plan_ns plan_name previous =
     \<lparr>ac_type = ''MigrationPending'', ac_status = ''True'',
      ac_last_transition_time = transition_time now ''MigrationPending'' ''True'' previous,
      ac_reason = ''MigrationPlanPending'',
      ac_message = ''MigrationPlan '' @ plan_ns @ ''/'' @ plan_name @ '' is awaiting approval'',
      ac_observed_generation = None\<rparr>"

definition migration_failed_condition ::
  "string \<Rightarrow> string \<Rightarrow> application_condition list \<Rightarrow> application_condition" where
  "migration_failed_condition now plan_name previous =
     \<lparr>ac_type = ''MigrationFailed'', ac_status = ''True'',
      ac_last_transition_time = transition_time now ''MigrationFailed'' ''True'' previous,
      ac_reason = ''MigrationPlanFailed'',
      ac_message = ''MigrationPlan '' @ plan_name @
        '' failed - manual delete required to unblock the Application'',
      ac_observed_generation = None\<rparr>"

definition paused_with ::
  "app_object \<Rightarrow> string \<Rightarrow> application_condition list \<Rightarrow> application_status" where
  "paused_with app phase conditions =
     \<lparr>ast_phase = Some phase, ast_observed_generation = ao_generation app,
      ast_conditions = Some conditions,
      ast_endpoint_url = Option.bind (ao_status app) ast_endpoint_url,
      ast_image = existing_image app, ast_env_config = existing_env_config app,
      ast_environment = asp_environment (ao_spec app),
      ast_last_applied_spec = existing_baseline app,
      ast_recommended_resources = None, ast_recent_problems = []\<rparr>"

definition build_paused_status :: "string \<Rightarrow> app_object \<Rightarrow> string \<Rightarrow> string \<Rightarrow> application_status" where
  "build_paused_status now app plan_ns plan_name =
     (let previous = previous_conditions app;
          ready = ready_condition now ''False'' ''MigrationPending''
            (''paused awaiting approval of MigrationPlan '' @ plan_ns @ ''/'' @ plan_name) previous;
          pending = migration_pending_condition now plan_ns plan_name previous
      in paused_with app ''AwaitingMigrationApproval'' [ready, pending])"

definition build_migration_failed_status :: "string \<Rightarrow> app_object \<Rightarrow> string \<Rightarrow> application_status" where
  "build_migration_failed_status now app plan_name =
     (let previous = previous_conditions app;
          ready = ready_condition now ''False'' ''MigrationFailed''
            (''paused: MigrationPlan '' @ plan_name @ '' failed - manual delete required'') previous;
          failed = migration_failed_condition now plan_name previous
      in paused_with app ''AwaitingMigrationApproval'' [ready, failed])"

definition build_invalid_effective_spec_status ::
  "string \<Rightarrow> app_object \<Rightarrow> string \<Rightarrow> application_status" where
  "build_invalid_effective_spec_status now app message =
     (let previous = previous_conditions app;
          ready = ready_condition now ''False'' ''InvalidEffectiveSpec'' message previous
      in paused_with app ''InvalidEffectiveSpec'' [ready])"

definition resource_claim_pending_condition ::
  "string \<Rightarrow> string list \<Rightarrow> application_condition list \<Rightarrow> application_condition" where
  "resource_claim_pending_condition now unready previous =
     \<lparr>ac_type = ''ResourceClaimPending'', ac_status = ''True'',
      ac_last_transition_time = transition_time now ''ResourceClaimPending'' ''True'' previous,
      ac_reason = ''ResourceClaimPending'',
      ac_message = ''awaiting ResourceClaim(s): '' @ join '', '' unready,
      ac_observed_generation = None\<rparr>"

definition build_resource_claim_paused_status ::
  "string \<Rightarrow> app_object \<Rightarrow> string list \<Rightarrow> application_status" where
  "build_resource_claim_paused_status now app unready =
     (let previous = previous_conditions app;
          ready = ready_condition now ''False'' ''ResourceClaimPending''
            (''paused awaiting ResourceClaim provisioning: '' @ join '', '' unready) previous;
          pending = resource_claim_pending_condition now unready previous
      in paused_with app ''AwaitingResourceClaim'' [ready, pending])"

definition build_env_secret_missing_status ::
  "string \<Rightarrow> app_object \<Rightarrow> string list \<Rightarrow> application_status" where
  "build_env_secret_missing_status now app messages =
     (let previous = previous_conditions app;
          ready = ready_condition now ''False'' ''EnvSecretMissing'' (join ''; '' messages) previous
      in paused_with app ''EnvSecretMissing'' [ready])"

definition build_status ::
  "app_object \<Rightarrow> string \<Rightarrow> application_condition list \<Rightarrow> string option \<Rightarrow> application_status" where
  "build_status app phase conditions endpoint_url =
     \<lparr>ast_phase = Some phase, ast_observed_generation = ao_generation app,
      ast_conditions = Some conditions, ast_endpoint_url = endpoint_url,
      ast_image = None, ast_env_config = existing_env_config app,
      ast_environment = asp_environment (ao_spec app),
      ast_last_applied_spec = None,
      ast_recommended_resources = None, ast_recent_problems = []\<rparr>"

definition with_stamped_baseline ::
  "application_status \<Rightarrow> application_spec \<Rightarrow> application_status" where
  "with_stamped_baseline base spec =
     base\<lparr>ast_env_config := ast_env_config base, ast_last_applied_spec := Some spec\<rparr>"

subsection \<open>Plans of an application\<close>

definition plan_scope_matches ::
  "migration_plan \<Rightarrow> string \<Rightarrow> string \<Rightarrow> string option \<Rightarrow> bool" where
  "plan_scope_matches plan app_name app_namespace environment =
     (if sc_type (mp_scope (mp_spec plan)) \<noteq> ''application'' then False
      else (case sc_application (mp_scope (mp_spec plan)) of
              None \<Rightarrow> False
            | Some app_scope \<Rightarrow>
                if ref_name (as_ref app_scope) \<noteq> app_name \<or> ref_namespace (as_ref app_scope) \<noteq> app_namespace
                then False
                else (case environment of Some e \<Rightarrow> as_environment app_scope = e | None \<Rightarrow> True)))"

definition pick_any_key_plan ::
  "migration_plan list \<Rightarrow> string \<Rightarrow> string \<Rightarrow> string option \<Rightarrow> migration_plan option" where
  "pick_any_key_plan plans app_name app_namespace environment =
     find (\<lambda>plan. plan_scope_matches plan app_name app_namespace environment) plans"

datatype regate_reason_kind = HashMissing | HashMismatch

fun as_reason :: "regate_reason_kind \<Rightarrow> string" where
  "as_reason HashMissing = ''HashMissing''"
| "as_reason HashMismatch = ''HashMismatch''"

definition regate_reason :: "migration_plan \<Rightarrow> regate_reason_kind" where
  "regate_reason plan =
     (if (case trig_hash (plan_trigger plan) of None \<Rightarrow> True | Some h \<Rightarrow> h = [])
      then HashMissing else HashMismatch)"

definition is_hash_regate :: "migration_plan \<Rightarrow> destructive_change \<Rightarrow> bool" where
  "is_hash_regate plan current \<longleftrightarrow> plan_phase plan = ''completed'' \<and> trigger_matches plan current"

definition plan_name :: "string \<Rightarrow> string \<Rightarrow> int \<Rightarrow> string" where
  "plan_name app env secs =
     (let raw = (if env = [] then app @ ''-migration-'' @ show_int secs
                 else app @ ''-'' @ env @ ''-migration-'' @ show_int secs)
      in dns_label raw)"

definition effective_baseline :: "application_spec \<Rightarrow> base_spec option" where
  "effective_baseline baseline_spec =
     (case effective_spec baseline_spec (asp_environment baseline_spec) of
        Inl e \<Rightarrow> None | Inr eff \<Rightarrow> Some eff)"

definition plans_to_delete ::
  "migration_plan list \<Rightarrow> string \<Rightarrow> string \<Rightarrow> string option \<Rightarrow> string list" where
  "plans_to_delete plans app_name env keep =
     filter (\<lambda>name. Some name \<noteq> keep)
       (List.map_filter (\<lambda>plan. om_name (mp_meta plan))
         (filter (\<lambda>plan.
             if sc_type (mp_scope (mp_spec plan)) \<noteq> ''application'' then False
             else (case sc_application (mp_scope (mp_spec plan)) of
                     None \<Rightarrow> False
                   | Some app_scope \<Rightarrow>
                       ref_name (as_ref app_scope) = app_name \<and> as_environment app_scope = env))
           plans))"

subsection \<open>One pass\<close>

datatype effect =
    EApplyStatus application_status
  | EApplyPlan migration_plan
  | EDeletePlan string
  | ERender base_spec

datatype gate_error = MissingUid string | Panicked

fun effective_spec_error_text :: "effective_spec_error \<Rightarrow> string" where
  "effective_spec_error_text ExposeMissingPort =
     ''effective expose has no port (env-only expose override without a port, and no base.expose)''"

definition delete_all_key_plans_except ::
  "migration_plan list \<Rightarrow> string \<times> string \<Rightarrow> string option \<Rightarrow> effect list" where
  "delete_all_key_plans_except plans key keep =
     map EDeletePlan (plans_to_delete plans (fst key) (snd key) keep)"

text \<open>
  What a pass reads besides the objects: printer and digest, the clock, whether the claims
  or the Secrets of the environment hold it back, and the status of the finished render.
\<close>

datatype gate_hold = ClaimsUnready "string list" | EnvSecretsMissing "string list"

record gate_env =
  ge_to_str :: "json \<Rightarrow> string"
  ge_sha256 :: "string \<Rightarrow> u8 list"
  ge_now :: string
  ge_secs :: int
  ge_hold :: "gate_hold option"
  ge_ready :: application_status

definition create_and_pause ::
  "gate_env \<Rightarrow> app_object \<Rightarrow> destructive_change list \<Rightarrow> effect list \<times> (gate_error, nat option) result" where
  "create_and_pause ge app candidates =
     (let namespace = unwrap_or (ao_namespace app) '''';
          env = unwrap_or (asp_environment (ao_spec app)) ''''
      in case ao_uid app of
           None \<Rightarrow> ([], Inl (MissingUid (ao_name app)))
         | Some uid \<Rightarrow>
             (case application_create_plan_for (ge_to_str ge) (ge_sha256 ge) (ge_now ge) candidates
                     (plan_name (ao_name app) env (ge_secs ge)) namespace (ao_name app) env uid of
                None \<Rightarrow> ([], Inl Panicked)
              | Some mp \<Rightarrow>
                  ([EApplyPlan mp,
                    EApplyStatus (build_paused_status (ge_now ge) app namespace
                      (unwrap_or (om_name (mp_meta mp)) ''''))],
                   Inr (Some 30))))"

fun hold_status :: "string \<Rightarrow> app_object \<Rightarrow> gate_hold \<Rightarrow> application_status" where
  "hold_status now app (ClaimsUnready names) = build_resource_claim_paused_status now app names"
| "hold_status now app (EnvSecretsMissing msgs) = build_env_secret_missing_status now app msgs"

definition render_and_stamp ::
  "gate_env \<Rightarrow> app_object \<Rightarrow> base_spec \<Rightarrow> effect list \<Rightarrow> effect list \<times> (gate_error, nat option) result" where
  "render_and_stamp ge app new_eff consume =
     (case ge_hold ge of
        Some h \<Rightarrow> ([ERender new_eff, EApplyStatus (hold_status (ge_now ge) app h)], Inr (Some 30))
      | None \<Rightarrow> ([ERender new_eff, EApplyStatus (with_stamped_baseline (ge_ready ge) (ao_spec app))] @ consume,
                 Inr (Some 60)))"

definition plan_name_or :: "migration_plan option \<Rightarrow> string" where
  "plan_name_or plan = unwrap_or (Option.bind plan (\<lambda>p. om_name (mp_meta p))) ''''"

definition act_on ::
  "gate_env \<Rightarrow> app_object \<Rightarrow> migration_plan list \<Rightarrow> base_spec \<Rightarrow> destructive_change list \<Rightarrow>
   migration_plan option \<Rightarrow> migration_decision \<Rightarrow> effect list \<times> (gate_error, nat option) result" where
  "act_on ge app plans new_eff candidates plan decision =
     (let namespace = unwrap_or (ao_namespace app) '''';
          key = (ao_name app, unwrap_or (asp_environment (ao_spec app)) '''');
          cleanup = delete_all_key_plans_except plans key None
      in case decision of
           Render \<Rightarrow> render_and_stamp ge app new_eff []
         | CreatePlan \<Rightarrow> create_and_pause ge app candidates
         | NoOp \<Rightarrow> ([EApplyStatus (build_paused_status (ge_now ge) app namespace (plan_name_or plan))],
                    Inr (Some 30))
         | DeleteThenCreate \<Rightarrow>
             (let (effects, outcome) = create_and_pause ge app candidates
              in (cleanup @ effects, outcome))
         | ConsumeApply \<Rightarrow>
             render_and_stamp ge app new_eff
               (if Option.bind plan (\<lambda>p. om_name (mp_meta p)) \<noteq> None then cleanup else [])
         | DeleteThenRender \<Rightarrow>
             (let (effects, outcome) = render_and_stamp ge app new_eff []
              in (cleanup @ effects, outcome))
         | BlockFailed \<Rightarrow>
             ([EApplyStatus (build_migration_failed_status (ge_now ge) app (plan_name_or plan))],
              Inr (Some 30)))"

definition candidates_for :: "app_object \<Rightarrow> base_spec \<Rightarrow> destructive_change list option" where
  "candidates_for app new_eff = (case existing_baseline app of
       None \<Rightarrow> Some []
     | Some baseline \<Rightarrow> map_option (\<lambda>old_eff. detect_all old_eff new_eff (ao_name app))
         (effective_baseline baseline))"

text \<open>
  One pass over an Application. The write of the recorded problems at its top
  (\<open>flush_problems\<close>) touches \<open>status.recentProblems\<close> only and is left out.
\<close>

definition gate_pass ::
  "gate_env \<Rightarrow> app_object \<Rightarrow> migration_plan list \<Rightarrow> effect list \<times> (gate_error, nat option) result" where
  "gate_pass ge app plans =
     (if ao_deletion_timestamp app \<noteq> None then ([], Inr None)
      else (case effective_spec (ao_spec app) (asp_environment (ao_spec app)) of
          Inl e \<Rightarrow>
            ([EApplyStatus (build_invalid_effective_spec_status (ge_now ge) app (effective_spec_error_text e))],
             Inr (Some 60))
        | Inr new_eff \<Rightarrow> (case candidates_for app new_eff of
              None \<Rightarrow> ([], Inl Panicked)
            | Some candidates \<Rightarrow>
                (let plan = pick_any_key_plan plans (ao_name app) (unwrap_or (ao_namespace app) '''')
                              (asp_environment (ao_spec app));
                     state = (case candidates of
                        c # _ \<Rightarrow> plan_state (ge_to_str ge) (ge_sha256 ge) plan c candidates
                      | [] \<Rightarrow> plan_state_no_change plan)
                 in act_on ge app plans new_eff candidates plan (decide (candidates \<noteq> []) state)))))"

subsection \<open>Names of plans\<close>

definition plan_prefix :: "string \<Rightarrow> string \<Rightarrow> string" where
  "plan_prefix app env = (if env = [] then app else app @ ''-'' @ env) @ ''-migration-''"

lemma plan_name_prefix:
  "plan_name app env secs =
     trim_end_dash (take 63 (fold_dns (plan_prefix app env @ show_int secs)))"
  by (simp add: plan_name_def plan_prefix_def dns_label_def Let_def del: fold_name_append)

lemma plan_name_short:
  assumes "0 \<le> secs" and "length (plan_prefix app env) + length (show_int secs) \<le> 63"
  shows "plan_name app env secs = fold_dns (plan_prefix app env) @ show_int secs"
proof -
  have digits: "\<forall>c \<in> set (show_int secs). is_ascii_digit c" and ne: "show_int secs \<noteq> []"
    using assms(1) show_nat_digits by (auto simp: show_int_def)
  then obtain ds d where d: "show_int secs = ds @ [d]" and "is_ascii_digit d"
    by (metis append_butlast_last_id last_in_set)
  then have "d \<noteq> CHR ''-''" by (auto simp: is_ascii_digit_def)
  moreover have "fold_dns (show_int secs) = show_int secs" using digits by (rule fold_name_digits)
  ultimately show ?thesis using assms(2) d by (simp add: plan_name_prefix trim_end_dash_def)
qed

lemma plan_name_distinct:
  assumes "0 \<le> s" "0 \<le> s'" "length (plan_prefix app env) + length (show_int s) \<le> 63"
    "length (plan_prefix app env) + length (show_int s') \<le> 63"
  shows "plan_name app env s = plan_name app env s' \<longleftrightarrow> s = s'"
proof -
  have "show_int s = show_int s' \<longleftrightarrow> s = s'"
    using assms(1,2) show_nat_inj [of "nat s" "nat s'"] by (auto simp: show_int_def)
  then show ?thesis using assms by (simp add: plan_name_short)
qed

lemma plan_name_truncated:
  assumes "63 \<le> length (plan_prefix app env)"
  shows "plan_name app env s = plan_name app env s'"
  using assms by (simp add: plan_name_prefix)

text \<open>
  While the name fits into the 63 bytes of a label, plans created at different seconds
  have different names; once application and environment fill the label, the timestamp is cut
  off and every plan of that application gets the same name.
\<close>

lemma plan_name_fresh_while_it_fits:
  "(0 \<le> s \<and> 0 \<le> s' \<and> length (plan_prefix app env) + length (show_int s) \<le> 63 \<and>
      length (plan_prefix app env) + length (show_int s') \<le> 63 \<longrightarrow>
      (plan_name app env s = plan_name app env s' \<longleftrightarrow> s = s')) \<and>
   (63 \<le> length (plan_prefix app env) \<longrightarrow> plan_name app env s = plan_name app env s')"
  using plan_name_distinct plan_name_truncated by blast

subsection \<open>What a status write keeps\<close>

definition keeps_record :: "app_object \<Rightarrow> application_status \<Rightarrow> bool" where
  "keeps_record app st \<longleftrightarrow>
     ast_last_applied_spec st = existing_baseline app \<and> ast_image st = existing_image app \<and>
     ast_env_config st = existing_env_config app \<and>
     ast_endpoint_url st = Option.bind (ao_status app) ast_endpoint_url"

lemma paused_with_keeps [simp]: "keeps_record app (paused_with app phase conds)"
  by (simp add: keeps_record_def paused_with_def)

lemma pauses_keep [simp]:
  "keeps_record app (build_paused_status now app ns n)"
  "keeps_record app (build_migration_failed_status now app n)"
  "keeps_record app (build_invalid_effective_spec_status now app m)"
  by (simp_all add: build_paused_status_def build_migration_failed_status_def
      build_invalid_effective_spec_status_def Let_def)

lemma hold_keeps [simp]: "keeps_record app (hold_status now app h)"
  by (cases h) (simp_all add: build_resource_claim_paused_status_def build_env_secret_missing_status_def Let_def)

lemma create_status:
  "EApplyStatus st \<in> set (fst (create_and_pause ge app cs)) \<Longrightarrow> keeps_record app st"
  by (auto simp: create_and_pause_def Let_def split: option.splits)

lemma cleanup_no_status [simp]:
  "EApplyStatus st \<notin> set (delete_all_key_plans_except plans key keep)"
  "ERender new \<notin> set (delete_all_key_plans_except plans key keep)"
  by (auto simp: delete_all_key_plans_except_def)

lemma act_on_status:
  assumes "EApplyStatus st \<in> set (fst (act_on ge app plans new cs plan d))"
  shows "st = with_stamped_baseline (ge_ready ge) (ao_spec app) \<and> ge_hold ge = None \<and>
           ERender new \<in> set (fst (act_on ge app plans new cs plan d)) \<or> keeps_record app st"
  using assms
  by (cases d) (auto simp: act_on_def Let_def render_and_stamp_def case_prod_beta dest: create_status
      split: option.splits if_splits)

text \<open>
  C13. A status is applied whole, so a field that a write leaves out is pruned. Every status a
  pass writes without having rendered to the end carries the baseline, the resolved image, the
  configuration digest and the endpoint of the object on; only the stamp after a finished
  render replaces the baseline, by the spec that was rendered.
\<close>

theorem status_writes_keep_the_record:
  assumes "EApplyStatus st \<in> set (fst (gate_pass ge app plans))"
  shows "st = with_stamped_baseline (ge_ready ge) (ao_spec app) \<and> ge_hold ge = None \<and>
           (\<exists>new. ERender new \<in> set (fst (gate_pass ge app plans))) \<or>
         keeps_record app st"
  using assms act_on_status by (fastforce simp: gate_pass_def Let_def split: if_splits sum.splits option.splits)

end
