(* ===== verification/Migration_Webhook.thy ===== *)
theory Migration_Webhook
  imports Migration_Types
begin

text \<open>
  Admission of MigrationPlan writes
  (\<open>admission-webhook/src/validator_migrationplan.rs\<close>, the identity checks of
  \<open>validator.rs\<close> and the MigrationPlan arm of \<open>server.rs\<close>): who may write which status
  field, the scope rules, and the phase machine. Objects are the JSON the apiserver
  sends; \<open>de_spec\<close>, the derived deserialiser of the typed spec, is a parameter. Arrows and
  section signs in messages are written in ASCII.
\<close>

record validation_error =
  ve_field :: string
  ve_message :: string

definition verr :: "string \<Rightarrow> string \<Rightarrow> validation_error" where
  "verr field msg = \<lparr>ve_field = field, ve_message = msg\<rparr>"

subsection \<open>Identity\<close>

definition is_operator :: "json \<Rightarrow> string \<Rightarrow> bool" where
  "is_operator user_info expected_sa \<longleftrightarrow>
     Option.bind (json_get user_info ''username'') as_str = Some expected_sa"

definition is_operator_or_admin :: "json \<Rightarrow> string \<Rightarrow> bool" where
  "is_operator_or_admin user_info expected_sa =
     (if is_operator user_info expected_sa then True
      else (case Option.bind (json_get user_info ''groups'') as_array of
              None \<Rightarrow> False
            | Some groups \<Rightarrow> list_ex (\<lambda>g. as_str g = Some ''system:masters'' \<or>
                                          as_str g = Some ''kubeadm:cluster-admins'') groups))"

definition application_status_write_allowed :: "json \<Rightarrow> string \<Rightarrow> bool" where
  "application_status_write_allowed user_info expected_sa = is_operator_or_admin user_info expected_sa"

definition non_empty :: "string option \<Rightarrow> string option" where
  "non_empty v = (case v of Some s \<Rightarrow> if s = [] then None else Some s | None \<Rightarrow> None)"

definition environment_update_allowed :: "string option \<Rightarrow> string option \<Rightarrow> bool" where
  "environment_update_allowed old_env new_env =
     (let old = non_empty old_env; new = non_empty new_env
      in case old of None \<Rightarrow> True | Some v \<Rightarrow> new = Some v)"

subsection \<open>External status writes\<close>

definition changed_fields :: "json btreemap \<Rightarrow> json btreemap \<Rightarrow> string list" where
  "changed_fields old_map new_map =
     foldl (\<lambda>changed key.
         if key \<in> set changed then changed
         else if unwrap_or (map_of old_map key) JNull \<noteq> unwrap_or (map_of new_map key) JNull
           then changed @ [key] else changed)
       [] (map fst old_map @ map fst new_map)"

definition phase_in :: "json btreemap \<Rightarrow> string" where
  "phase_in m = unwrap_or (Option.bind (map_of m ''phase'') as_str) ''''"

definition migrationplan_status_write_allowed ::
  "json \<Rightarrow> string \<Rightarrow> json \<Rightarrow> json \<Rightarrow> (string, unit) result" where
  "migrationplan_status_write_allowed user_info expected_sa old_status new_status =
     (if is_operator_or_admin user_info expected_sa then Inr ()
      else
       (let username = unwrap_or (Option.bind (json_get user_info ''username'') as_str) ''<unknown>'';
            old_map = unwrap_or (as_object old_status) [];
            new_map = unwrap_or (as_object new_status) [];
            changed = changed_fields old_map new_map;
            only_phase_changed = (changed = [''phase'']);
            old_phase = phase_in old_map;
            new_phase = phase_in new_map;
            is_approval_signal = (old_phase = ''pending-approval'' \<and> new_phase = ''approved'')
        in if only_phase_changed \<and> is_approval_signal then Inr ()
           else
             (let detail =
                    (if only_phase_changed
                     then ''status.phase '' @ debug_str old_phase @ ''->'' @ debug_str new_phase
                     else ''status fields ['' @ join '', '' (filter (\<lambda>f. f \<noteq> ''phase'') changed) @ '']'')
              in Inl (''external approval may only set status.phase pending-approval->approved; ''
                   @ ''rejected write to '' @ detail @ '' by '' @ debug_str username
                   @ '' (only the operator ServiceAccount ''
                   @ ''may write other MigrationPlan.status fields)''))))"

subsection \<open>Scope rules\<close>

definition is_emailish :: "string \<Rightarrow> bool" where
  "is_emailish s =
     (let local = split_first (CHR ''@'') s;
          domain = (case split_once (CHR ''@'') s of None \<Rightarrow> [] | Some (_, d) \<Rightarrow> d)
      in if length (filter (\<lambda>c. c = CHR ''@'') s) \<noteq> 1 \<or> local = [] \<or> domain = [] then False
         else (let domain_labels = split_on (CHR ''.'') domain
               in length domain_labels \<ge> 2 \<and> list_all (\<lambda>l. l \<noteq> []) domain_labels))"

definition contains_key :: "json btreemap \<Rightarrow> string \<Rightarrow> bool" where
  "contains_key m k \<longleftrightarrow> map_of m k \<noteq> None"

definition ref_errors :: "string \<Rightarrow> string \<Rightarrow> string \<Rightarrow> validation_error list" where
  "ref_errors at name namespace =
     (if name = [] then [verr (at @ ''.ref.name'') ''name is required''] else []) @
     (if namespace = [] then [verr (at @ ''.ref.namespace'') ''namespace is required''] else [])"

definition raw_ref_errors :: "string \<Rightarrow> json btreemap \<Rightarrow> validation_error list" where
  "raw_ref_errors at raw = (case Option.bind (map_of raw ''ref'') as_object of
       None \<Rightarrow> [verr (at @ ''.ref'') ''ref is required (name + namespace)'']
     | Some r \<Rightarrow> ref_errors at
         (unwrap_or (Option.bind (map_of r ''name'') as_str) '''')
         (unwrap_or (Option.bind (map_of r ''namespace'') as_str) ''''))"

definition validate_application_scope ::
  "json btreemap \<Rightarrow> plan_scope option \<Rightarrow> validation_error list" where
  "validate_application_scope scope typed =
     (let platform_present = (case typed of Some s \<Rightarrow> sc_platform s \<noteq> None
                              | None \<Rightarrow> contains_key scope ''platform'');
          mismatch = (if platform_present
            then [verr ''spec.scope.platform''
                    ''platform block must not be set when scope.type is application'']
            else []);
          typed_app = Option.bind typed sc_application;
          raw_app = Option.bind (map_of scope ''application'') as_object
      in mismatch @
         (case (typed_app, raw_app) of
            (None, None) \<Rightarrow> [verr ''spec.scope.application''
               ''scope.application is required when scope.type is application'']
          | (Some app, _) \<Rightarrow> ref_errors ''spec.scope.application''
               (ref_name (as_ref app)) (ref_namespace (as_ref app))
          | (None, Some app) \<Rightarrow> raw_ref_errors ''spec.scope.application'' app))"

definition component_errors :: "(nat \<times> bool) list \<Rightarrow> validation_error list" where
  "component_errors cs = concat (map (\<lambda>(i, bad). if bad
       then [verr (''spec.scope.platform.components['' @ show_nat i @ '']'')
               ''component name must be a non-empty string'']
       else []) cs)"

definition validate_platform_scope ::
  "json btreemap \<Rightarrow> plan_scope option \<Rightarrow> validation_error list" where
  "validate_platform_scope scope typed =
     (let application_present = (case typed of Some s \<Rightarrow> sc_application s \<noteq> None
                                 | None \<Rightarrow> contains_key scope ''application'');
          mismatch = (if application_present
            then [verr ''spec.scope.application''
                    ''application block must not be set when scope.type is platform'']
            else []);
          none_named = verr ''spec.scope.platform.components'' ''components must be non-empty''
      in mismatch @
         (case Option.bind typed sc_platform of
            Some platform \<Rightarrow>
              (if ps_components platform = [] then [none_named] else []) @
              component_errors (enumerate 0 (map (\<lambda>n. n = []) (ps_components platform)))
          | None \<Rightarrow>
              (case Option.bind (map_of scope ''platform'') as_object of
                 None \<Rightarrow> [verr ''spec.scope.platform''
                    ''scope.platform is required when scope.type is platform'']
               | Some platform \<Rightarrow>
                   (case Option.bind (map_of platform ''components'') as_array of
                      None \<Rightarrow> [verr ''spec.scope.platform.components''
                         ''components is required (non-empty list of component names)'']
                    | Some arr \<Rightarrow>
                        if arr = [] then [none_named]
                        else component_errors
                          (enumerate 0 (map (\<lambda>v. unwrap_or (as_str v) [] = []) arr))))))"

definition validate_sourcecredential_scope ::
  "json btreemap \<Rightarrow> plan_scope option \<Rightarrow> validation_error list" where
  "validate_sourcecredential_scope scope typed =
     (let application_present = (case typed of Some s \<Rightarrow> sc_application s \<noteq> None
                                 | None \<Rightarrow> contains_key scope ''application'');
          platform_present = (case typed of Some s \<Rightarrow> sc_platform s \<noteq> None
                              | None \<Rightarrow> contains_key scope ''platform'');
          mismatch =
            (if application_present then [verr ''spec.scope.application''
                ''application block must not be set when scope.type is sourcecredential''] else []) @
            (if platform_present then [verr ''spec.scope.platform''
                ''platform block must not be set when scope.type is sourcecredential''] else []);
          typed_sc = Option.bind typed sc_sourcecredential;
          raw_sc = Option.bind (map_of scope ''sourcecredential'') as_object
      in mismatch @
         (case (typed_sc, raw_sc) of
            (None, None) \<Rightarrow> [verr ''spec.scope.sourcecredential''
               ''scope.sourcecredential is required when scope.type is sourcecredential'']
          | (Some sc, _) \<Rightarrow> ref_errors ''spec.scope.sourcecredential''
               (ref_name (ss_ref sc)) (ref_namespace (ss_ref sc))
          | (None, Some sc) \<Rightarrow> raw_ref_errors ''spec.scope.sourcecredential'' sc))"

subsection \<open>The phase machine\<close>

definition is_allowed_phase_transition :: "string \<Rightarrow> string \<Rightarrow> string \<Rightarrow> bool" where
  "is_allowed_phase_transition old_phase new_phase scope_type =
     (if new_phase = ''rejected'' \<and> (scope_type = ''application'' \<or> scope_type = ''sourcecredential'')
      then False
      else if old_phase = ''''
      then new_phase \<in> set [''pending-approval'', ''approved'', ''executing'', ''completed'', ''failed'', ''rejected'']
      else if old_phase \<in> set [''completed'', ''failed'', ''rejected''] then False
      else if old_phase = ''pending-approval'' \<and> new_phase = ''approved'' then True
      else if old_phase = ''pending-approval'' \<and> new_phase = ''rejected'' then scope_type = ''platform''
      else if old_phase = ''approved'' \<and> new_phase = ''executing'' then True
      else if old_phase = ''executing'' \<and> new_phase = ''completed'' then True
      else if old_phase = ''executing'' \<and> new_phase = ''failed'' then True
      else False)"

definition object_phase :: "json \<Rightarrow> string" where
  "object_phase obj = unwrap_or (Option.bind (json_pointer obj [''status'', ''phase'']) as_str) ''''"

definition object_scope_type :: "json \<Rightarrow> string" where
  "object_scope_type obj =
     unwrap_or (Option.bind (json_pointer obj [''spec'', ''scope'', ''type'']) as_str) ''''"

definition transition_reason :: "string \<Rightarrow> string \<Rightarrow> string \<Rightarrow> string" where
  "transition_reason scope_type old_phase new_phase =
     (if scope_type = ''application'' \<and> new_phase = ''rejected''
      then ''application-scope MigrationPlans cannot be rejected; ''
         @ ''revert the Git commit in your application repo and let ''
         @ ''the Application reconciler supersede this plan (ADR 0027)''
      else if scope_type = ''sourcecredential'' \<and> new_phase = ''rejected''
      then ''sourcecredential-scope MigrationPlans cannot be rejected; ''
         @ ''re-widen the SourceCredential coverage in your spec and let ''
         @ ''the SourceCredential reconciler supersede this plan (ADR 0039). ''
         @ ''sourcecredential-scope plans are approve-only''
      else ''illegal status.phase transition '' @ debug_str old_phase @ '' -> '' @ debug_str new_phase
         @ '' for scope.type='' @ debug_str scope_type @ ''; see spec.md 3.8 for the legal FSM'')"

definition validate_phase_transition :: "json \<Rightarrow> json \<Rightarrow> validation_error list" where
  "validate_phase_transition object old_object =
     (let old_phase = object_phase old_object; new_phase = object_phase object
      in if old_phase = new_phase then []
         else
           (let scope_type = object_scope_type object
            in if \<not> is_allowed_phase_transition old_phase new_phase scope_type
               then [verr ''status.phase'' (transition_reason scope_type old_phase new_phase)]
               else []))"

subsection \<open>The validator\<close>

definition approver_error :: "nat \<Rightarrow> string \<Rightarrow> validation_error list" where
  "approver_error i email =
     (if is_emailish email then []
      else [verr (''spec.approvers['' @ show_nat i @ '']'')
              (debug_str email @ '' is not a valid email address'')])"

definition validate_approvers ::
  "migration_plan_spec option \<Rightarrow> json btreemap \<Rightarrow> validation_error list" where
  "validate_approvers typed spec = (case typed of
       Some t \<Rightarrow> (case mp_approvers t of
           Some approvers \<Rightarrow> concat (map (\<lambda>(i, email). approver_error i email) (enumerate 0 approvers))
         | None \<Rightarrow> [])
     | None \<Rightarrow> (case Option.bind (map_of spec ''approvers'') as_array of
           Some approvers \<Rightarrow> concat (map (\<lambda>(i, v). case as_str v of
                 None \<Rightarrow> [verr (''spec.approvers['' @ show_nat i @ '']'') ''approver must be a string email'']
               | Some email \<Rightarrow> approver_error i email) (enumerate 0 approvers))
         | None \<Rightarrow> []))"

definition validate_scope ::
  "string \<Rightarrow> json btreemap \<Rightarrow> plan_scope option \<Rightarrow> validation_error list" where
  "validate_scope scope_type scope typed_scope =
     (if scope_type = ''application'' then validate_application_scope scope typed_scope
      else if scope_type = ''platform'' then validate_platform_scope scope typed_scope
      else if scope_type = ''sourcecredential'' then validate_sourcecredential_scope scope typed_scope
      else if scope_type = '''' then [verr ''spec.scope.type''
         ''scope.type is required (one of application|platform|sourcecredential)'']
      else [verr ''spec.scope.type''
         (''scope.type must be application|platform|sourcecredential (got '' @ debug_str scope_type @ '')'')])"

definition validate_update :: "json \<Rightarrow> json option \<Rightarrow> validation_error list" where
  "validate_update object old_object = (case old_object of
       None \<Rightarrow> []
     | Some old \<Rightarrow>
         (let old_scope = json_pointer old [''spec'', ''scope''];
              new_scope = json_pointer object [''spec'', ''scope'']
          in (if old_scope \<noteq> None \<and> old_scope \<noteq> new_scope
              then [verr ''spec.scope''
                     (''spec.scope is immutable after MigrationPlan creation; ''
                      @ ''create a new MigrationPlan instead of mutating an existing one'')]
              else []) @ validate_phase_transition object old))"

definition validate_migrationplan ::
  "(json \<Rightarrow> migration_plan_spec option) \<Rightarrow> json \<Rightarrow> json option \<Rightarrow> validation_error list" where
  "validate_migrationplan de_spec object old_object = (case as_object object of
       None \<Rightarrow> [verr ''object'' ''MigrationPlan object must be a JSON object'']
     | Some obj \<Rightarrow> (case Option.bind (map_of obj ''spec'') as_object of
           None \<Rightarrow> [verr ''spec'' ''spec is required'']
         | Some spec \<Rightarrow>
             (let typed = de_spec (JObject spec)
              in case Option.bind (map_of spec ''scope'') as_object of
                   None \<Rightarrow> [verr ''spec.scope'' ''scope is required'']
                 | Some scope \<Rightarrow>
                     (let scope_type = (case typed of
                            Some t \<Rightarrow> sc_type (mp_scope t)
                          | None \<Rightarrow> unwrap_or (Option.bind (map_of scope ''type'') as_str) '''')
                      in validate_scope scope_type scope (map_option mp_scope typed) @
                         validate_approvers typed spec @
                         validate_update object old_object))))"

datatype admission = Allowed | Denied nat string

definition render_error_message :: "string \<Rightarrow> validation_error list \<Rightarrow> string" where
  "render_error_message kind errors =
     kind @ '' is invalid: '' @ join ''; '' (map (\<lambda>e. ve_field e @ '': '' @ ve_message e) errors)"

definition admit_migrationplan ::
  "(json \<Rightarrow> migration_plan_spec option) \<Rightarrow> json \<Rightarrow> string \<Rightarrow> string option \<Rightarrow> json \<Rightarrow> json option \<Rightarrow> admission" where
  "admit_migrationplan de_spec user_info expected_sa sub_resource object old_object =
     (let guard = (if sub_resource = Some ''status''
            then migrationplan_status_write_allowed user_info expected_sa
              (opt_json (Option.bind old_object (\<lambda>ov. json_get ov ''status'')))
              (opt_json (json_get object ''status''))
            else Inr ())
      in case guard of
           Inl msg \<Rightarrow> Denied 403 msg
         | Inr _ \<Rightarrow>
             (let errors = validate_migrationplan de_spec object old_object
              in if errors = [] then Allowed
                 else Denied 400 (render_error_message ''MigrationPlan'' errors)))"

subsection \<open>What an external writer may do\<close>

definition field_of :: "json btreemap \<Rightarrow> string \<Rightarrow> json" where
  "field_of m k = unwrap_or (map_of m k) JNull"

lemma foldl_changed:
  "set (foldl (\<lambda>changed key. if key \<in> set changed then changed
        else if f key then changed @ [key] else changed) acc keys) = set acc \<union> {k \<in> set keys. f k}"
  by (induction keys arbitrary: acc) auto

lemma distinct_foldl_changed:
  "distinct acc \<Longrightarrow> distinct (foldl (\<lambda>changed key. if key \<in> set changed then changed
        else if f key then changed @ [key] else changed) acc keys)"
  by (induction keys arbitrary: acc) auto

lemma set_changed_fields:
  "set (changed_fields old new) = {k. field_of old k \<noteq> field_of new k}"
proof -
  have "field_of old k = field_of new k" if "k \<notin> set (map fst old @ map fst new)" for k
    using that by (auto simp: field_of_def map_of_eq_None_iff [THEN iffD2])
  then show ?thesis
    unfolding changed_fields_def foldl_changed field_of_def by auto
qed

lemma singleton_listI: "set xs = {k} \<Longrightarrow> distinct xs \<Longrightarrow> xs = [k]"
proof (cases xs)
  case (Cons a ys)
  assume "set xs = {k}" and "distinct xs"
  with Cons show ?thesis by (cases ys) auto
qed simp

lemma changed_only_iff:
  "changed_fields old new = [k] \<longleftrightarrow> {j. field_of old j \<noteq> field_of new j} = {k}"
proof
  assume "changed_fields old new = [k]"
  then show "{j. field_of old j \<noteq> field_of new j} = {k}"
    using set_changed_fields [of old new] by simp
next
  assume "{j. field_of old j \<noteq> field_of new j} = {k}"
  then have "set (changed_fields old new) = {k}" by (simp add: set_changed_fields)
  moreover have "distinct (changed_fields old new)"
    unfolding changed_fields_def by (rule distinct_foldl_changed) simp
  ultimately show "changed_fields old new = [k]"
    by (rule singleton_listI)
qed

lemma phase_in_field: "phase_in m = unwrap_or (as_str (field_of m ''phase'')) ''''"
  by (cases "map_of m ''phase''") (simp_all add: phase_in_def field_of_def)

text \<open>
  C38. A writer that is neither the operator nor a cluster administrator can write a
  plan's status in one way only: move the phase from \<open>pending-approval\<close> to \<open>approved\<close> and
  leave every other field (the approver's name, the executed steps, the seals) as it was. In
  particular such a writer cannot reject a plan, of whatever scope, although two comments of
  the validator and the CLI reference say that a platform plan can be rejected that way.
\<close>

theorem external_status_write_iff:
  assumes "\<not> is_operator_or_admin user sa"
  shows "migrationplan_status_write_allowed user sa (JObject old) (JObject new) = Inr () \<longleftrightarrow>
    field_of old ''phase'' = JString ''pending-approval'' \<and>
    field_of new ''phase'' = JString ''approved'' \<and>
    (\<forall>k. k \<noteq> ''phase'' \<longrightarrow> field_of old k = field_of new k)"
proof -
  have "migrationplan_status_write_allowed user sa (JObject old) (JObject new) = Inr () \<longleftrightarrow>
      changed_fields old new = [''phase''] \<and> phase_in old = ''pending-approval'' \<and> phase_in new = ''approved''"
    using assms by (simp add: migrationplan_status_write_allowed_def Let_def)
  also have "\<dots> \<longleftrightarrow> {j. field_of old j \<noteq> field_of new j} = {''phase''} \<and>
      field_of old ''phase'' = JString ''pending-approval'' \<and> field_of new ''phase'' = JString ''approved''"
    by (auto simp: changed_only_iff phase_in_field unwrap_or_eq_iff)
  also have "\<dots> \<longleftrightarrow> field_of old ''phase'' = JString ''pending-approval'' \<and>
      field_of new ''phase'' = JString ''approved'' \<and>
      (\<forall>k. k \<noteq> ''phase'' \<longrightarrow> field_of old k = field_of new k)"
    by auto
  finally show ?thesis .
qed

theorem external_status_write_iff_witness:
  "migrationplan_status_write_allowed (JObject [(''username'', JString ''ann'')]) ''op''
     (JObject [(''phase'', JString ''pending-approval'')]) (JObject [(''phase'', JString ''approved'')]) = Inr () \<and>
   migrationplan_status_write_allowed (JObject [(''username'', JString ''ann'')]) ''op''
     (JObject [(''phase'', JString ''pending-approval'')])
     (JObject [(''approvedBy'', JString ''bob''), (''phase'', JString ''approved'')]) \<noteq> Inr ()"
proof -
  have ext: "\<not> is_operator_or_admin (JObject [(''username'', JString ''ann'')]) ''op''" by code_simp
  let ?pending = "[(''phase'', JString ''pending-approval'')]"
  let ?forged = "[(''approvedBy'', JString ''bob''), (''phase'', JString ''approved'')]"
  have same: "field_of ?pending k = field_of [(''phase'', JString ''approved'')] k"
    if "k \<noteq> ''phase''" for k using that by (simp add: field_of_def)
  have "field_of ?pending ''approvedBy'' \<noteq> field_of ?forged ''approvedBy''"
    by (simp add: field_of_def)
  then have forged: "\<not> (\<forall>k. k \<noteq> ''phase'' \<longrightarrow> field_of ?pending k = field_of ?forged k)"
    by (intro notI) (drule spec [of _ "''approvedBy''"], simp)
  have phases: "field_of ?pending ''phase'' = JString ''pending-approval''"
    "field_of [(''phase'', JString ''approved'')] ''phase'' = JString ''approved''"
    by (simp_all add: field_of_def)
  show ?thesis
    unfolding external_status_write_iff [OF ext] using same forged phases by blast
qed

subsection \<open>Accepted histories\<close>

definition accepted_update :: "(json \<Rightarrow> migration_plan_spec option) \<Rightarrow> json \<Rightarrow> json \<Rightarrow> bool" where
  "accepted_update de_spec old new \<longleftrightarrow> validate_migrationplan de_spec new (Some old) = []"

definition sealed_phases :: "string list" where
  "sealed_phases = [''completed'', ''failed'', ''rejected'']"

lemma accepted_validate_update:
  "accepted_update de_spec old new \<Longrightarrow> validate_update new (Some old) = []"
  by (simp add: accepted_update_def validate_migrationplan_def Let_def split: option.splits)

lemma accepted_scope:
  assumes "accepted_update de_spec old new"
  shows "json_pointer old [''spec'', ''scope''] = Some s \<Longrightarrow> json_pointer new [''spec'', ''scope''] = Some s"
    and "object_phase old = object_phase new \<or>
         is_allowed_phase_transition (object_phase old) (object_phase new) (object_scope_type new)"
  using accepted_validate_update [OF assms]
  unfolding validate_update_def validate_phase_transition_def Let_def option.case append_is_Nil_conv
  by (simp_all only: not_None_eq split: if_splits) auto

lemma object_scope_type_eq:
  "json_pointer a [''spec'', ''scope''] = json_pointer b [''spec'', ''scope''] \<Longrightarrow>
   object_scope_type a = object_scope_type b"
  by (auto simp: object_scope_type_def split: option.splits)

lemma sealed_no_transition:
  "p \<in> set sealed_phases \<Longrightarrow> \<not> is_allowed_phase_transition p q t"
  by (auto simp: sealed_phases_def is_allowed_phase_transition_def)

lemma no_reject_transition:
  "t = ''application'' \<or> t = ''sourcecredential'' \<Longrightarrow> \<not> is_allowed_phase_transition p ''rejected'' t"
  by (auto simp: is_allowed_phase_transition_def)

text \<open>
  C37. Through any sequence of updates the webhook accepts, a plan that has a scope keeps
  it, a sealed plan (completed, failed or rejected) keeps its phase, and a plan of the
  application or SourceCredential scope that is not rejected never becomes rejected.
\<close>

theorem accepted_history_invariants:
  assumes "(accepted_update de_spec)\<^sup>*\<^sup>* old new" and "json_pointer old [''spec'', ''scope''] = Some s"
  shows "json_pointer new [''spec'', ''scope''] = Some s \<and>
    (object_phase old \<in> set sealed_phases \<longrightarrow> object_phase new = object_phase old) \<and>
    (object_scope_type old = ''application'' \<or> object_scope_type old = ''sourcecredential'' \<longrightarrow>
       object_phase old \<noteq> ''rejected'' \<longrightarrow> object_phase new \<noteq> ''rejected'')"
  using assms
proof (induction rule: rtranclp_induct)
  case base
  then show ?case by simp
next
  case (step mid new)
  then have scope: "json_pointer mid [''spec'', ''scope''] = Some s"
    and scope': "json_pointer new [''spec'', ''scope''] = Some s"
    using accepted_scope(1) by blast+
  have type: "object_scope_type new = object_scope_type old"
    using scope' step.prems by (intro object_scope_type_eq) simp
  from accepted_scope(2) [OF step.hyps(2)] have "object_phase mid = object_phase new \<or>
      is_allowed_phase_transition (object_phase mid) (object_phase new) (object_scope_type old)"
    by (simp add: type)
  then show ?case
    using step.IH [OF step.prems] scope' sealed_no_transition no_reject_transition by metis
qed

definition plan_object :: "string \<Rightarrow> json" where
  "plan_object phase = JObject
     [(''spec'', JObject [(''scope'', JObject
         [(''application'', JObject [(''environment'', JString ''''),
            (''ref'', JObject [(''name'', JString ''shop''), (''namespace'', JString ''demo'')])]),
          (''type'', JString ''application'')])]),
      (''status'', JObject [(''phase'', JString phase)])]"

theorem accepted_history_invariants_witness:
  "accepted_update (\<lambda>_. None) (plan_object ''pending-approval'') (plan_object ''approved'') \<and>
   json_pointer (plan_object ''approved'') [''spec'', ''scope''] =
     json_pointer (plan_object ''pending-approval'') [''spec'', ''scope''] \<and>
   object_phase (plan_object ''approved'') \<noteq> ''rejected''"
proof -
  have step: "accepted_update (\<lambda>_. None) (plan_object ''pending-approval'') (plan_object ''approved'')"
    by code_simp
  obtain s where s: "json_pointer (plan_object ''pending-approval'') [''spec'', ''scope''] = Some s"
    by (simp add: plan_object_def)
  have start: "object_scope_type (plan_object ''pending-approval'') = ''application''"
    "object_phase (plan_object ''pending-approval'') \<noteq> ''rejected''"
    by code_simp+
  from accepted_history_invariants [OF r_into_rtranclp [of "accepted_update (\<lambda>_. None)", OF step] s] step s start
  show ?thesis by simp
qed

text \<open>
  The validator of the application scope looks for a stray \<open>platform\<close> block only: a plan of
  the application scope that also carries a \<open>sourcecredential\<close> block is accepted.
\<close>

lemma application_scope_accepts_sourcecredential_block:
  "validate_migrationplan (\<lambda>_. None) (JObject [(''spec'', JObject [(''scope'', JObject
     [(''application'', JObject [(''ref'', JObject [(''name'', JString ''shop''), (''namespace'', JString ''demo'')])]),
      (''sourcecredential'', JObject [(''ref'', JObject [(''name'', JString ''c''), (''namespace'', JString ''demo'')])]),
      (''type'', JString ''application'')])])]) None = []"
  by code_simp

end
