(* ===== verification/Migration_Controller.thy ===== *)
theory Migration_Controller
  imports Migration_Strategy Migration_Webhook
begin

text \<open>
  The reconcile loop of MigrationPlans
  (\<open>operator-controllers/migration/src/reconcile.rs\<close>): dispatch on scope and phase, step
  execution with \<open>executedSteps\<close> as the progress marker, the one-shot reject, and the
  status writes. The apiserver is the parameter \<open>kube\<close>; \<open>clock\<close> gives the successive
  readings of the wall clock. Abandoning a pass at its deadline is the same as the failure
  of the call it was waiting for and is not a separate branch.
\<close>

datatype ctl_error =
    CErrKube string
  | CErrStrategy migration_error
  | CErrMissingField string
  | CErrUnknownScope string
  | CErrUnknownPhase string
  | CErrTimedOut

datatype action = AwaitChange | Requeue nat

datatype strategy_key = KeyApplication | KeyPlatform | KeySourceCredential

record 'w kube =
  k_stack :: "'w stack_api"
  k_write_status :: "string \<Rightarrow> string \<Rightarrow> migration_plan_status \<Rightarrow> 'w \<Rightarrow> (string, unit) result \<times> 'w"

definition RECONCILE_REQUEUE_AFTER_PROGRESS :: nat where
  "RECONCILE_REQUEUE_AFTER_PROGRESS = 1"

definition ERROR_REQUEUE_AFTER :: nat where
  "ERROR_REQUEUE_AFTER = 15"

definition error_policy :: "ctl_error \<Rightarrow> nat \<Rightarrow> action \<times> nat" where
  "error_policy err reconcile_timeouts =
     (Requeue ERROR_REQUEUE_AFTER,
      if err = CErrTimedOut then reconcile_timeouts + 1 else reconcile_timeouts)"

definition pick_strategy_key :: "string \<Rightarrow> (ctl_error, strategy_key) result" where
  "pick_strategy_key scope_type =
     (if scope_type = ''application'' then Inr KeyApplication
      else if scope_type = ''platform'' then Inr KeyPlatform
      else if scope_type = ''sourcecredential'' then Inr KeySourceCredential
      else Inl (CErrUnknownScope scope_type))"

fun strategy_execute_step ::
  "strategy_key \<Rightarrow> migration_plan \<Rightarrow> migration_step \<Rightarrow> 'w \<Rightarrow> (migration_error, step_outcome) result \<times> 'w" where
  "strategy_execute_step KeyApplication = application_execute_step"
| "strategy_execute_step KeyPlatform = platform_execute_step"
| "strategy_execute_step KeySourceCredential = sourcecredential_execute_step"

fun strategy_reject ::
  "strategy_key \<Rightarrow> 'w stack_api \<Rightarrow> migration_plan \<Rightarrow> 'w \<Rightarrow> (migration_error, unit) result \<times> 'w" where
  "strategy_reject KeyApplication api = application_reject"
| "strategy_reject KeyPlatform api = platform_reject api"
| "strategy_reject KeySourceCredential api = sourcecredential_reject"

definition with_phase :: "migration_plan_status option \<Rightarrow> string \<Rightarrow> migration_plan_status" where
  "with_phase prior phase = (unwrap_or prior default_status)\<lparr>st_phase := Some phase\<rparr>"

definition write_status ::
  "'w kube \<Rightarrow> string \<Rightarrow> string \<Rightarrow> migration_plan_status \<Rightarrow> action \<Rightarrow> 'w \<Rightarrow> (ctl_error, action) result \<times> 'w" where
  "write_status k namespace name st next w = (case k_write_status k namespace name st w of
       (Inl e, w') \<Rightarrow> (Inl (CErrKube e), w')
     | (Inr u, w') \<Rightarrow> (Inr next, w'))"

fun outcome_fields :: "step_outcome \<Rightarrow> string \<times> string option" where
  "outcome_fields Succeeded = (''succeeded'', None)"
| "outcome_fields (Failed msg) = (''failed'', Some msg)"
| "outcome_fields (Skipped reason) = (''skipped'', Some reason)"

fun is_failed :: "step_outcome \<Rightarrow> bool" where
  "is_failed (Failed _) = True"
| "is_failed _ = False"

definition executed_of :: "migration_plan \<Rightarrow> executed_step list" where
  "executed_of plan = unwrap_or (Option.bind (mp_status plan) st_executed_steps) []"

definition steps_of :: "migration_plan \<Rightarrow> migration_step list" where
  "steps_of plan = unwrap_or (mp_plan (mp_spec plan)) []"

definition execute_next_step ::
  "'w kube \<Rightarrow> (nat \<Rightarrow> string) \<Rightarrow> strategy_key \<Rightarrow> migration_plan \<Rightarrow> string \<Rightarrow> string \<Rightarrow> 'w \<Rightarrow>
   (ctl_error, action) result \<times> 'w" where
  "execute_next_step k clock strategy plan namespace name w =
     (let executed = executed_of plan; steps = steps_of plan
      in if length executed \<ge> length steps
         then write_status k namespace name (with_phase (mp_status plan) ''completed'') AwaitChange w
         else
           (let next_step = steps ! length executed
            in case strategy_execute_step strategy plan next_step w of
                 (Inl e, w1) \<Rightarrow> (Inl (CErrStrategy e), w1)
               | (Inr outcome, w1) \<Rightarrow>
                   (let (outcome_str, message) = outcome_fields outcome;
                        new_executed = executed @ [\<lparr>ex_step = ms_step next_step, ex_started_at = clock 0,
                          ex_finished_at = Some (clock 1), ex_outcome = outcome_str, ex_message = message\<rparr>];
                        next_phase = (if is_failed outcome then ''failed''
                                      else if length new_executed \<ge> length steps then ''completed''
                                      else ''executing'');
                        new_status = (unwrap_or (mp_status plan) default_status)
                          \<lparr>st_phase := Some next_phase, st_executed_steps := Some new_executed\<rparr>
                    in write_status k namespace name new_status
                         (if next_phase = ''executing'' then Requeue RECONCILE_REQUEUE_AFTER_PROGRESS
                          else AwaitChange) w1)))"

definition reconcile_rejected ::
  "'w kube \<Rightarrow> (nat \<Rightarrow> string) \<Rightarrow> strategy_key \<Rightarrow> migration_plan \<Rightarrow> string \<Rightarrow> string \<Rightarrow> 'w \<Rightarrow>
   (ctl_error, action) result \<times> 'w" where
  "reconcile_rejected k clock strategy plan namespace name w =
     (if Option.bind (mp_status plan) st_rejected_at \<noteq> None then (Inr AwaitChange, w)
      else (case strategy_reject strategy (k_stack k) plan w of
              (Inl e, w1) \<Rightarrow> (Inl (CErrStrategy e), w1)
            | (Inr u, w1) \<Rightarrow>
                (let sealed = (unwrap_or (mp_status plan) default_status)\<lparr>st_rejected_at := Some (clock 0)\<rparr>
                 in write_status k namespace name sealed AwaitChange w1)))"

definition plan_namespace :: "migration_plan \<Rightarrow> string" where
  "plan_namespace plan = unwrap_or (om_namespace (mp_meta plan)) ''apprafter-system''"

definition plan_name_any :: "migration_plan \<Rightarrow> string" where
  "plan_name_any plan = unwrap_or (om_name (mp_meta plan)) ''''"

definition reconcile ::
  "'w kube \<Rightarrow> (nat \<Rightarrow> string) \<Rightarrow> migration_plan \<Rightarrow> 'w \<Rightarrow> (ctl_error, action) result \<times> 'w" where
  "reconcile k clock plan w =
     (let name = plan_name_any plan; namespace = plan_namespace plan; phase = plan_phase plan
      in case pick_strategy_key (sc_type (mp_scope (mp_spec plan))) of
           Inl e \<Rightarrow> (Inl e, w)
         | Inr strategy \<Rightarrow>
             if phase = ''pending-approval'' then (Inr AwaitChange, w)
             else if phase = ''approved''
             then write_status k namespace name (with_phase (mp_status plan) ''executing'')
                    (Requeue RECONCILE_REQUEUE_AFTER_PROGRESS) w
             else if phase = ''executing'' then execute_next_step k clock strategy plan namespace name w
             else if phase = ''rejected'' then reconcile_rejected k clock strategy plan namespace name w
             else if phase = ''completed'' \<or> phase = ''failed'' then (Inr AwaitChange, w)
             else (Inl (CErrUnknownPhase phase), w))"

subsection \<open>What the controller writes\<close>

definition tracks :: "migration_step list \<Rightarrow> executed_step list \<Rightarrow> bool" where
  "tracks steps executed \<longleftrightarrow> map ex_step executed = take (length executed) (map ms_step steps)"

text \<open>
  A status write that respects the webhook's phase machine, keeps the approval fields,
  only appends to the executed steps and keeps them in step with the plan.
\<close>

definition legal_write :: "migration_plan \<Rightarrow> migration_plan_status \<Rightarrow> bool" where
  "legal_write plan st \<longleftrightarrow>
     (let old_phase = unwrap_or (plan_phase_opt plan) ''''; new_phase = unwrap_or (st_phase st) ''''
      in (old_phase = new_phase \<or>
          is_allowed_phase_transition old_phase new_phase (sc_type (mp_scope (mp_spec plan)))) \<and>
         st_approved_at st = Option.bind (mp_status plan) st_approved_at \<and>
         st_approved_by st = Option.bind (mp_status plan) st_approved_by \<and>
         prefix (executed_of plan) (unwrap_or (st_executed_steps st) []) \<and>
         (tracks (steps_of plan) (executed_of plan) \<longrightarrow>
            tracks (steps_of plan) (unwrap_or (st_executed_steps st) [])))"

definition guarded :: "migration_plan \<Rightarrow> 'w kube \<Rightarrow> 'w kube" where
  "guarded plan k = k\<lparr>k_write_status := (\<lambda>ns name st w.
     if legal_write plan st then k_write_status k ns name st w else (Inl ''denied'', w))\<rparr>"

lemma write_status_guarded:
  "legal_write plan st \<Longrightarrow> write_status (guarded plan k) ns n st a w = write_status k ns n st a w"
  by (simp add: write_status_def guarded_def)

lemma plan_phase_opt_eq:
  "plan_phase plan = p \<Longrightarrow> p \<noteq> ''pending-approval'' \<Longrightarrow> plan_phase_opt plan = Some p"
  by (auto simp: plan_phase_def unwrap_or_eq_iff)

lemma status_of_phase: "plan_phase_opt plan = Some p \<Longrightarrow> \<exists>st. mp_status plan = Some st"
  by (cases "mp_status plan") auto

lemma legal_with_phase:
  assumes "plan_phase_opt plan = Some p" and "is_allowed_phase_transition p q (sc_type (mp_scope (mp_spec plan)))"
  shows "legal_write plan (with_phase (mp_status plan) q)"
proof -
  obtain st where "mp_status plan = Some st" using status_of_phase [OF assms(1)] ..
  with assms show ?thesis by (simp add: legal_write_def with_phase_def executed_of_def Let_def)
qed

lemma executing_transitions:
  "is_allowed_phase_transition ''approved'' ''executing'' t"
  "is_allowed_phase_transition ''executing'' ''completed'' t"
  "is_allowed_phase_transition ''executing'' ''failed'' t"
  by (simp_all add: is_allowed_phase_transition_def)

lemma tracks_snoc:
  "tracks steps ex \<Longrightarrow> length ex < length steps \<Longrightarrow> ex_step e = ms_step (steps ! length ex) \<Longrightarrow>
   tracks steps (ex @ [e])"
  by (simp add: tracks_def take_Suc_conv_app_nth)

lemma legal_step:
  assumes "plan_phase_opt plan = Some ''executing''" and "length (executed_of plan) < length (steps_of plan)"
    and "ex_step e = ms_step (steps_of plan ! length (executed_of plan))"
    and "q = ''executing'' \<or> q = ''completed'' \<or> q = ''failed''"
  shows "legal_write plan ((unwrap_or (mp_status plan) default_status)
           \<lparr>st_phase := Some q, st_executed_steps := Some (executed_of plan @ [e])\<rparr>)"
proof -
  obtain st where "mp_status plan = Some st" using status_of_phase [OF assms(1)] ..
  with assms show ?thesis
    using executing_transitions tracks_snoc [OF _ assms(2,3)] by (auto simp: legal_write_def Let_def)
qed

lemma execute_next_step_guarded:
  assumes "plan_phase_opt plan = Some ''executing''"
  shows "execute_next_step (guarded plan k) clock s plan ns n w = execute_next_step k clock s plan ns n w"
proof (cases "length (executed_of plan) \<ge> length (steps_of plan)")
  case True
  then show ?thesis
    by (simp add: execute_next_step_def write_status_guarded legal_with_phase [OF assms] executing_transitions)
next
  case False
  then have "length (executed_of plan) < length (steps_of plan)" by simp
  note legal = legal_step [OF assms this]
  from False show ?thesis
    by (auto simp: execute_next_step_def Let_def write_status_guarded legal
        split: prod.split sum.split)
qed

lemma reconcile_rejected_guarded:
  assumes "plan_phase_opt plan = Some ''rejected''"
  shows "reconcile_rejected (guarded plan k) clock s plan ns n w = reconcile_rejected k clock s plan ns n w"
proof -
  obtain st where st: "mp_status plan = Some st" using status_of_phase [OF assms] ..
  have "legal_write plan (st\<lparr>st_rejected_at := Some (clock 0)\<rparr>)"
    using assms by (simp add: legal_write_def executed_of_def st Let_def)
  moreover have "k_stack (guarded plan k) = k_stack k" by (simp add: guarded_def)
  ultimately show ?thesis
    by (simp add: reconcile_rejected_def Let_def write_status_guarded st split: prod.split sum.split)
qed

text \<open>
  C11. Every status the controller writes is one the admission webhook's phase machine
  allows, keeps \<open>approvedAt\<close> and \<open>approvedBy\<close> as they were, and only appends to the executed
  steps, whose numbers stay a prefix of the plan's: refusing every other write would change
  nothing about any reconcile pass.
\<close>

theorem controller_writes_are_legal:
  "reconcile (guarded plan k) clock plan w = reconcile k clock plan w"
proof -
  have "write_status (guarded plan k) ns n (with_phase (mp_status plan) ''executing'') a w =
        write_status k ns n (with_phase (mp_status plan) ''executing'') a w"
    if "plan_phase plan = ''approved''" for ns n a
    using legal_with_phase [OF plan_phase_opt_eq [OF that] executing_transitions(1)]
    by (simp add: write_status_guarded)
  then show ?thesis
    by (simp add: reconcile_def Let_def execute_next_step_guarded reconcile_rejected_guarded
        plan_phase_opt_eq split: sum.split)
qed

text \<open>
  A plan that is waiting for approval, completed or failed, and a rejected plan that
  has been sealed, is left alone: a pass over it calls nothing and changes nothing, so a
  restart that replays every plan is harmless. A plan of an unknown scope is reported and
  left alone too.
\<close>

lemma settled_plan_is_left_alone:
  assumes "plan_phase plan \<in> {''pending-approval'', ''completed'', ''failed''} \<or>
           plan_phase plan = ''rejected'' \<and> Option.bind (mp_status plan) st_rejected_at \<noteq> None"
  shows "reconcile k clock plan w =
    (case pick_strategy_key (sc_type (mp_scope (mp_spec plan))) of
       Inl e \<Rightarrow> (Inl e, w) | Inr s \<Rightarrow> (Inr AwaitChange, w))"
  using assms by (auto simp: reconcile_def reconcile_rejected_def Let_def split: sum.split)

subsection \<open>Completion\<close>

text \<open>
  What completion needs of the apiserver: status writes to the plan are accepted, and the
  plan read after one is the plan with that status.
\<close>

definition store_ok :: "'w kube \<Rightarrow> ('w \<Rightarrow> migration_plan) \<Rightarrow> string \<Rightarrow> string \<Rightarrow> bool" where
  "store_ok k read namespace name \<longleftrightarrow>
     (\<forall>st w. \<exists>w'. k_write_status k namespace name st w = (Inr (), w') \<and>
        read w' = (read w)\<lparr>mp_status := Some st\<rparr>)"

definition pass :: "'w kube \<Rightarrow> (nat \<Rightarrow> string) \<Rightarrow> ('w \<Rightarrow> migration_plan) \<Rightarrow> 'w \<Rightarrow> 'w" where
  "pass k clock read w = snd (reconcile k clock (read w) w)"

text \<open>A plan whose metadata and spec are those of \<open>plan0\<close>, of a known scope.\<close>

definition same_plan :: "migration_plan \<Rightarrow> migration_plan \<Rightarrow> bool" where
  "same_plan plan0 plan \<longleftrightarrow> mp_meta plan = mp_meta plan0 \<and> mp_spec plan = mp_spec plan0"

definition known_scope :: "migration_plan \<Rightarrow> bool" where
  "known_scope plan \<longleftrightarrow> sc_type (mp_scope (mp_spec plan)) \<in> {''application'', ''platform'', ''sourcecredential''}"

lemma known_scope_key: "known_scope plan \<Longrightarrow> \<exists>s. pick_strategy_key (sc_type (mp_scope (mp_spec plan))) = Inr s"
  by (auto simp: known_scope_def pick_strategy_key_def)

lemma same_plan_steps: "same_plan p q \<Longrightarrow> steps_of q = steps_of p \<and> plan_namespace q = plan_namespace p \<and>
    plan_name_any q = plan_name_any p \<and> known_scope q = known_scope p"
  by (simp add: same_plan_def steps_of_def plan_namespace_def plan_name_any_def known_scope_def)

lemma strategy_execute_succeeds: "strategy_execute_step s plan step w = (Inr Succeeded, w)"
  by (cases s) (simp_all add: application_execute_step_def platform_execute_step_def
      sourcecredential_execute_step_def)

lemma write_status_ok:
  assumes "store_ok k read ns n"
  obtains w' where "write_status k ns n st a w = (Inr a, w')" and "read w' = (read w)\<lparr>mp_status := Some st\<rparr>"
  using assms unfolding store_ok_def write_status_def by (metis (mono_tags, lifting) case_prod_conv old.sum.simps(6))

definition progress :: "migration_plan \<Rightarrow> nat \<Rightarrow> migration_plan \<Rightarrow> bool" where
  "progress plan0 i plan \<longleftrightarrow> same_plan plan0 plan \<and> tracks (steps_of plan0) (executed_of plan) \<and>
     length (executed_of plan) = i \<and> (\<forall>e \<in> set (executed_of plan). ex_outcome e = ''succeeded'')"

lemma pass_approved:
  assumes "store_ok k read (plan_namespace p0) (plan_name_any p0)" and "known_scope p0"
    and "progress p0 i (read w)" and "plan_phase (read w) = ''approved''"
  shows "progress p0 i (read (pass k clock read w)) \<and> plan_phase (read (pass k clock read w)) = ''executing''"
proof -
  have same: "same_plan p0 (read w)" using assms(3) by (simp add: progress_def)
  note s = same_plan_steps [OF same]
  obtain key where key: "pick_strategy_key (sc_type (mp_scope (mp_spec (read w)))) = Inr key"
    using known_scope_key s assms(2) by blast
  obtain w' where w': "write_status k (plan_namespace p0) (plan_name_any p0)
      (with_phase (mp_status (read w)) ''executing'') (Requeue RECONCILE_REQUEUE_AFTER_PROGRESS) w =
      (Inr (Requeue RECONCILE_REQUEUE_AFTER_PROGRESS), w')"
    and r: "read w' = (read w)\<lparr>mp_status := Some (with_phase (mp_status (read w)) ''executing'')\<rparr>"
    using write_status_ok [OF assms(1)] by blast
  have "pass k clock read w = w'"
    using key assms(4) w' s by (simp add: pass_def reconcile_def Let_def)
  moreover have "executed_of (read w') = executed_of (read w)"
    by (cases "mp_status (read w)") (simp_all add: r executed_of_def with_phase_def default_status_def)
  ultimately show ?thesis
    using assms(3) same by (simp add: progress_def same_plan_def r plan_phase_def with_phase_def)
qed

lemma pass_executing:
  assumes "store_ok k read (plan_namespace p0) (plan_name_any p0)" and "known_scope p0"
    and "progress p0 i (read w)" and "plan_phase (read w) = ''executing''"
  shows "(if i < length (steps_of p0) then progress p0 (Suc i) (read (pass k clock read w))
          else progress p0 i (read (pass k clock read w))) \<and>
    plan_phase (read (pass k clock read w)) = (if Suc i < length (steps_of p0) then ''executing'' else ''completed'')"
proof -
  have same: "same_plan p0 (read w)" and i: "length (executed_of (read w)) = i"
    using assms(3) by (simp_all add: progress_def)
  note s = same_plan_steps [OF same]
  obtain key where key: "pick_strategy_key (sc_type (mp_scope (mp_spec (read w)))) = Inr key"
    using known_scope_key s assms(2) by blast
  let ?e = "\<lparr>ex_step = ms_step (steps_of p0 ! i), ex_started_at = clock 0, ex_finished_at = Some (clock 1),
             ex_outcome = ''succeeded'', ex_message = None\<rparr>"
  let ?ph = "if Suc i < length (steps_of p0) then ''executing'' else ''completed''"
  define st where "st = (if i < length (steps_of p0)
      then (unwrap_or (mp_status (read w)) default_status)
             \<lparr>st_phase := Some ?ph, st_executed_steps := Some (executed_of (read w) @ [?e])\<rparr>
      else with_phase (mp_status (read w)) ''completed'')"
  define a where "a = (if Suc i < length (steps_of p0) then Requeue RECONCILE_REQUEUE_AFTER_PROGRESS
      else AwaitChange)"
  have exec: "execute_next_step k clock key (read w) (plan_namespace p0) (plan_name_any p0) w =
      write_status k (plan_namespace p0) (plan_name_any p0) st a w"
    using s i by (simp add: execute_next_step_def Let_def strategy_execute_succeeds st_def a_def)
  obtain w' where w': "write_status k (plan_namespace p0) (plan_name_any p0) st a w = (Inr a, w')"
    and r: "read w' = (read w)\<lparr>mp_status := Some st\<rparr>"
    using write_status_ok [OF assms(1)] by blast
  have "pass k clock read w = w'"
    using key assms(4) w' exec s by (simp add: pass_def reconcile_def Let_def)
  moreover have "executed_of (read w') = (if i < length (steps_of p0) then executed_of (read w) @ [?e]
      else executed_of (read w))"
    by (cases "mp_status (read w)") (simp_all add: r executed_of_def st_def with_phase_def default_status_def)
  moreover have "i < length (steps_of p0) \<Longrightarrow> tracks (steps_of p0) (executed_of (read w) @ [?e])"
    using assms(3) i by (intro tracks_snoc) (simp_all add: progress_def)
  ultimately show ?thesis
    using assms(3) same i
    by (auto simp: progress_def same_plan_def r plan_phase_def with_phase_def st_def)
qed

lemma pass_completed:
  assumes "known_scope p0" and "progress p0 i (read w)" and "plan_phase (read w) = ''completed''"
  shows "pass k clock read w = w"
proof -
  have "known_scope (read w)" using assms same_plan_steps by (auto simp: progress_def)
  then obtain key where "pick_strategy_key (sc_type (mp_scope (mp_spec (read w)))) = Inr key"
    using known_scope_key by blast
  with assms(3) show ?thesis by (simp add: pass_def reconcile_def Let_def)
qed

lemma passes_from_executing:
  assumes "store_ok k read (plan_namespace p0) (plan_name_any p0)" and "known_scope p0"
    and "progress p0 i (read w)" and "plan_phase (read w) = ''executing''" and "i \<le> length (steps_of p0)"
    and "length (steps_of p0) - i < n"
  shows "progress p0 (length (steps_of p0)) (read ((pass k clock read ^^ n) w)) \<and>
         plan_phase (read ((pass k clock read ^^ n) w)) = ''completed''"
  using assms(3-6)
proof (induction n arbitrary: i w)
  case 0
  then show ?case by simp
next
  case (Suc n)
  let ?w = "pass k clock read w"
  note step = pass_executing [OF assms(1,2) Suc.prems(1,2), of clock]
  have unfold: "(pass k clock read ^^ Suc n) w = (pass k clock read ^^ n) ?w"
    by (simp add: funpow_swap1)
  show ?case
  proof (cases "Suc i < length (steps_of p0)")
    case True
    with step Suc.prems show ?thesis unfolding unfold by (intro Suc.IH [of "Suc i"]) auto
  next
    case False
    then have last: "progress p0 (length (steps_of p0)) (read ?w)" "plan_phase (read ?w) = ''completed''"
      using step Suc.prems(3) by (cases "i < length (steps_of p0)"; auto simp: le_Suc_eq not_less dest: le_antisym)+
    then have "(pass k clock read ^^ n) ?w = ?w" for n
      using pass_completed [of p0 "length (steps_of p0)" read ?w k clock] assms(2) last
      by (induction n) simp_all
    with last show ?thesis unfolding unfold by simp
  qed
qed

text \<open>
  C36. Every approved plan completes: on an apiserver that accepts the status writes, after
  two passes more than the plan has steps the plan is completed, with exactly the plan's
  steps recorded, in order, each of them succeeded.
\<close>

theorem approved_plan_completes:
  assumes "store_ok k read (plan_namespace (read w)) (plan_name_any (read w))"
    and "known_scope (read w)" and "plan_phase (read w) = ''approved''" and "executed_of (read w) = []"
    and "length (steps_of (read w)) + 2 \<le> n"
  shows "plan_phase (read ((pass k clock read ^^ n) w)) = ''completed'' \<and>
    map ex_step (executed_of (read ((pass k clock read ^^ n) w))) = map ms_step (steps_of (read w)) \<and>
    (\<forall>e \<in> set (executed_of (read ((pass k clock read ^^ n) w))). ex_outcome e = ''succeeded'')"
proof -
  let ?p = "read w" and ?w = "pass k clock read w"
  obtain m where n: "n = Suc m" "length (steps_of ?p) < m" using assms(5) by (cases n) auto
  have "progress ?p 0 ?p" using assms(4) by (simp add: progress_def same_plan_def tracks_def)
  from pass_approved [OF assms(1,2) this assms(3), of clock]
  have "progress ?p 0 (read ?w)" "plan_phase (read ?w) = ''executing''" by simp_all
  from passes_from_executing [OF assms(1,2) this, of m clock] n
  have "progress ?p (length (steps_of ?p)) (read ((pass k clock read ^^ n) w))"
    and "plan_phase (read ((pass k clock read ^^ n) w)) = ''completed''"
    by (simp_all add: funpow_swap1)
  then show ?thesis by (simp add: progress_def tracks_def)
qed

definition mem_kube :: "migration_plan kube" where
  "mem_kube = \<lparr>k_stack = \<lparr>sa_get = (\<lambda>_. Inl ''unused''), sa_patch = (\<lambda>_ w. (Inl ''unused'', w))\<rparr>,
     k_write_status = (\<lambda>ns name st plan. (Inr (), plan\<lparr>mp_status := Some st\<rparr>))\<rparr>"

definition two_step_plan :: migration_plan where
  "two_step_plan = pinned_plan
     \<lparr>mp_spec := (mp_spec pinned_plan)\<lparr>mp_plan := Some
        [\<lparr>ms_step = 1, ms_action = ''drain'', ms_estimated_duration = None, ms_reversible = None\<rparr>,
         \<lparr>ms_step = 2, ms_action = ''upgrade'', ms_estimated_duration = None, ms_reversible = None\<rparr>]\<rparr>,
      mp_status := Some (default_status\<lparr>st_phase := Some ''approved'', st_approved_by := Some ''ann''\<rparr>)\<rparr>"

theorem approved_plan_completes_witness:
  "plan_phase ((pass mem_kube (\<lambda>_. ''t'') (\<lambda>p. p) ^^ 4) two_step_plan) = ''completed'' \<and>
   map ex_step (executed_of ((pass mem_kube (\<lambda>_. ''t'') (\<lambda>p. p) ^^ 4) two_step_plan)) = [1, 2]"
proof -
  have plan: "steps_of two_step_plan = [\<lparr>ms_step = 1, ms_action = ''drain'', ms_estimated_duration = None,
        ms_reversible = None\<rparr>, \<lparr>ms_step = 2, ms_action = ''upgrade'', ms_estimated_duration = None, ms_reversible = None\<rparr>]"
    "known_scope two_step_plan" "plan_phase two_step_plan = ''approved''" "executed_of two_step_plan = []"
    by code_simp+
  have "store_ok mem_kube (\<lambda>p. p) ns name" for ns name
    by (simp add: store_ok_def mem_kube_def)
  from approved_plan_completes [OF this, where n = 4 and w = two_step_plan and clock = "\<lambda>_. ''t''"] plan
  show ?thesis by simp
qed

end
