(* ===== verification/Gate_System.thy ===== *)
theory Gate_System
  imports App_Gate Migration_Controller
begin

text \<open>
  The migration gate as a system of interleaved actors around one Application: the user
  edits the spec, the Application controller runs passes whose effects reach the apiserver
  one by one and may stop anywhere, an approver approves plans, and the MigrationPlan
  controller reconciles them. The state keeps two histories that no actor reads: the
  objects whose children were applied and the plan specs that were approved.

  The environment is modelled as far as the gate depends on it: applying a plan under a
  name in use keeps the status and is refused when it would change \<open>spec.scope\<close> (the
  webhook's rule), plan specs are otherwise not edited, and a controller acts on the plan
  as it is stored.
\<close>

record sys =
  s_app :: app_object
  s_plans :: "migration_plan list"
  s_pass :: app_object
  s_todo :: "effect list"
  s_renders :: "app_object list"
  s_approved :: "migration_plan_spec list"

definition plan_key :: "migration_plan \<Rightarrow> string option \<times> plan_scope" where
  "plan_key p = (om_name (mp_meta p), mp_scope (mp_spec p))"

definition apply_plan :: "migration_plan \<Rightarrow> migration_plan list \<Rightarrow> migration_plan list option" where
  "apply_plan mp plans =
     (if list_ex (\<lambda>p. om_name (mp_meta p) = om_name (mp_meta mp)) plans
      then (if list_ex (\<lambda>p. om_name (mp_meta p) = om_name (mp_meta mp) \<and>
                            mp_scope (mp_spec p) \<noteq> mp_scope (mp_spec mp)) plans
            then None
            else Some (map (\<lambda>p. if om_name (mp_meta p) = om_name (mp_meta mp)
                               then p\<lparr>mp_meta := mp_meta mp, mp_spec := mp_spec mp\<rparr> else p) plans))
      else Some (plans @ [mp\<lparr>mp_status := None\<rparr>]))"

fun apply_effect :: "sys \<Rightarrow> effect \<Rightarrow> sys option" where
  "apply_effect s (EApplyStatus st) = Some (s\<lparr>s_app := (s_app s)\<lparr>ao_status := Some st\<rparr>\<rparr>)"
| "apply_effect s (EApplyPlan mp) = map_option (\<lambda>ps. s\<lparr>s_plans := ps\<rparr>) (apply_plan mp (s_plans s))"
| "apply_effect s (EDeletePlan n) =
     Some (s\<lparr>s_plans := filter (\<lambda>p. om_name (mp_meta p) \<noteq> Some n) (s_plans s)\<rparr>)"
| "apply_effect s (ERender eff) = Some (s\<lparr>s_renders := s_renders s @ [s_pass s]\<rparr>)"

definition self_kube :: "migration_plan kube" where
  "self_kube = \<lparr>k_stack = \<lparr>sa_get = (\<lambda>_. Inl ''no stack''), sa_patch = (\<lambda>_ w. (Inl ''no stack'', w))\<rparr>,
     k_write_status = (\<lambda>ns name st plan. (Inr (), plan\<lparr>mp_status := Some st\<rparr>))\<rparr>"

definition controller_pass :: "(nat \<Rightarrow> string) \<Rightarrow> migration_plan \<Rightarrow> migration_plan" where
  "controller_pass clock p = snd (reconcile self_kube clock p p)"

definition approve :: "migration_plan \<Rightarrow> migration_plan" where
  "approve p = p\<lparr>mp_status := Some (with_phase (mp_status p) ''approved'')\<rparr>"

inductive step :: "(json \<Rightarrow> string) \<Rightarrow> (string \<Rightarrow> u8 list) \<Rightarrow> sys \<Rightarrow> sys \<Rightarrow> bool"
  for to_str sha256 where
  edit: "step to_str sha256 s (s\<lparr>s_app := (s_app s)\<lparr>ao_spec := spec, ao_generation := g, ao_deletion_timestamp := d\<rparr>\<rparr>)"
| start: "s_todo s = [] \<Longrightarrow> ge_to_str ge = to_str \<Longrightarrow> ge_sha256 ge = sha256 \<Longrightarrow>
    step to_str sha256 s (s\<lparr>s_pass := s_app s, s_todo := fst (gate_pass ge (s_app s) (s_plans s))\<rparr>)"
| call: "s_todo s = e # es \<Longrightarrow> apply_effect s e = Some s' \<Longrightarrow> step to_str sha256 s (s'\<lparr>s_todo := es\<rparr>)"
| stop: "step to_str sha256 s (s\<lparr>s_todo := []\<rparr>)"
| approval: "i < length (s_plans s) \<Longrightarrow> p = s_plans s ! i \<Longrightarrow>
    is_allowed_phase_transition (unwrap_or (plan_phase_opt p) '''') ''approved'' (sc_type (mp_scope (mp_spec p))) \<Longrightarrow>
    step to_str sha256 s (s\<lparr>s_plans := (s_plans s)[i := approve p], s_approved := mp_spec p # s_approved s\<rparr>)"
| controller: "i < length (s_plans s) \<Longrightarrow>
    step to_str sha256 s (s\<lparr>s_plans := (s_plans s)[i := controller_pass clock (s_plans s ! i)]\<rparr>)"


inductive reachable :: "(json \<Rightarrow> string) \<Rightarrow> (string \<Rightarrow> u8 list) \<Rightarrow> sys \<Rightarrow> bool"
  for to_str sha256 where
  init: "ao_status app = None \<Longrightarrow> reachable to_str sha256
    \<lparr>s_app = app, s_plans = [], s_pass = app, s_todo = [], s_renders = [], s_approved = []\<rparr>"
| next_state: "reachable to_str sha256 s \<Longrightarrow> step to_str sha256 s t \<Longrightarrow> reachable to_str sha256 t"

subsection \<open>Plans and approvals\<close>

definition beyond_approval :: "migration_plan \<Rightarrow> bool" where
  "beyond_approval p \<longleftrightarrow> plan_phase p \<in> {''approved'', ''executing'', ''completed''}"

text \<open>The changes a plan spec shows, and the hash it carries, are those of one set of changes.\<close>

definition displays :: "(json \<Rightarrow> string) \<Rightarrow> (string \<Rightarrow> u8 list) \<Rightarrow> migration_plan_spec \<Rightarrow> destructive_change list \<Rightarrow> bool" where
  "displays to_str sha256 sp cs \<longleftrightarrow> mp_changes sp = Some (map change_row (sort_candidates cs)) \<and>
     trig_hash (mp_trigger sp) = Some (change_hash to_str sha256 cs)"

definition plans_ok :: "(json \<Rightarrow> string) \<Rightarrow> (string \<Rightarrow> u8 list) \<Rightarrow> sys \<Rightarrow> bool" where
  "plans_ok to_str sha256 s \<longleftrightarrow>
     (\<forall>p \<in> set (s_plans s). (beyond_approval p \<longrightarrow> mp_spec p \<in> set (s_approved s)) \<and>
                             (\<exists>cs. displays to_str sha256 (mp_spec p) cs)) \<and>
     (\<forall>sp \<in> set (s_approved s). \<exists>cs. displays to_str sha256 sp cs)"

lemma self_write_status: "write_status self_kube ns n st a p = (Inr a, p\<lparr>mp_status := Some st\<rparr>)"
  by (simp add: write_status_def self_kube_def)

lemma self_reject: "snd (strategy_reject key (k_stack self_kube) p w) = w"
  by (cases key) (auto simp: application_reject_def sourcecredential_reject_def platform_reject_def
      patch_stack_def self_kube_def Let_def split: option.splits sum.splits json.splits)

lemma self_reject_pair: "strategy_reject key (k_stack self_kube) p w = (r, w') \<Longrightarrow> w' = w"
  using self_reject [of key p w] by simp

lemma execute_self:
  "\<exists>st. snd (execute_next_step self_kube clock key p ns n p) = p\<lparr>mp_status := Some st\<rparr>"
  by (auto simp: execute_next_step_def Let_def strategy_execute_succeeds self_write_status)

lemma rejected_self:
  "snd (reconcile_rejected self_kube clock key p ns n p) = p \<or>
   (\<exists>st. snd (reconcile_rejected self_kube clock key p ns n p) = p\<lparr>mp_status := Some st\<rparr> \<and>
         st_phase st = st_phase (unwrap_or (mp_status p) default_status))"
  by (auto simp: reconcile_rejected_def Let_def self_write_status split: prod.splits sum.splits
      dest: self_reject_pair)

text \<open>A controller pass keeps the spec, and moves on only a plan that was approved.\<close>

lemma controller_pass_cases:
  "controller_pass clock p = p \<or>
   (\<exists>st. controller_pass clock p = p\<lparr>mp_status := Some st\<rparr> \<and>
     (plan_phase p \<in> {''approved'', ''executing''} \<or> plan_phase p = ''rejected'' \<and> st_phase st = Some ''rejected''))"
proof (cases "pick_strategy_key (sc_type (mp_scope (mp_spec p)))")
  case (Inl e)
  then show ?thesis by (simp add: controller_pass_def reconcile_def)
next
  case (Inr key)
  consider "plan_phase p = ''approved''" | "plan_phase p = ''executing''" | "plan_phase p = ''rejected''"
    | "plan_phase p \<notin> {''approved'', ''executing'', ''rejected''}" by blast
  then show ?thesis
  proof cases
    case 1
    with Inr show ?thesis by (auto simp: controller_pass_def reconcile_def Let_def self_write_status)
  next
    case 2
    with Inr show ?thesis
      using execute_self [of clock key p "plan_namespace p" "plan_name_any p"]
      by (auto simp: controller_pass_def reconcile_def Let_def)
  next
    case 3
    with plan_phase_opt_eq [of p "''rejected''"]
    have "st_phase (unwrap_or (mp_status p) default_status) = Some ''rejected''"
      by (cases "mp_status p") auto
    with 3 Inr show ?thesis
      using rejected_self [of clock key p "plan_namespace p" "plan_name_any p"]
      by (auto simp: controller_pass_def reconcile_def Let_def)
  next
    case 4
    with Inr show ?thesis by (auto simp: controller_pass_def reconcile_def Let_def)
  qed
qed

lemma controller_pass_spec [simp]:
  "mp_spec (controller_pass clock p) = mp_spec p" "mp_meta (controller_pass clock p) = mp_meta p"
  using controller_pass_cases [of clock p] by auto

lemma controller_pass_beyond: "beyond_approval (controller_pass clock p) \<Longrightarrow> beyond_approval p"
  using controller_pass_cases [of clock p] by (auto simp: beyond_approval_def plan_phase_def)

lemma approve_spec [simp]: "mp_spec (approve p) = mp_spec p" "mp_meta (approve p) = mp_meta p"
  by (simp_all add: approve_def)

subsection \<open>The effects of a pass\<close>

text \<open>No plan is applied over a plan with the same name and scope that is still there.\<close>

fun todo_ok :: "(string option \<times> plan_scope) set \<Rightarrow> effect list \<Rightarrow> bool" where
  "todo_ok ks [] = True"
| "todo_ok ks (EApplyPlan mp # es) = (plan_key mp \<notin> ks \<and> todo_ok (insert (plan_key mp) ks) es)"
| "todo_ok ks (EDeletePlan n # es) = todo_ok {k \<in> ks. fst k \<noteq> Some n} es"
| "todo_ok ks (EApplyStatus st # es) = todo_ok ks es"
| "todo_ok ks (ERender eff # es) = todo_ok ks es"

lemma todo_ok_deletes:
  "todo_ok ks (map EDeletePlan ns @ es) = todo_ok {k \<in> ks. \<forall>n \<in> set ns. fst k \<noteq> Some n} es"
proof (induction ns arbitrary: ks)
  case (Cons n ns)
  have "{k \<in> {k \<in> ks. fst k \<noteq> Some n}. \<forall>n \<in> set ns. fst k \<noteq> Some n} =
        {k \<in> ks. \<forall>m \<in> set (n # ns). fst k \<noteq> Some m}" by auto
  with Cons show ?case by simp
qed simp

lemma todo_ok_only_deletes: "todo_ok ks (map EDeletePlan ns)"
  by (induction ns arbitrary: ks) simp_all

definition baseline_ok :: "application_spec option \<Rightarrow> bool" where
  "baseline_ok ob \<longleftrightarrow> (\<forall>b. ob = Some b \<longrightarrow> effective_baseline b \<noteq> None)"

definition authorised ::
  "(json \<Rightarrow> string) \<Rightarrow> (string \<Rightarrow> u8 list) \<Rightarrow> migration_plan_spec list \<Rightarrow> app_object \<Rightarrow> bool" where
  "authorised to_str sha256 approved a \<longleftrightarrow>
     (\<exists>new. effective_spec (ao_spec a) (asp_environment (ao_spec a)) = Inr new \<and>
       (\<forall>b. existing_baseline a = Some b \<longrightarrow>
         (\<exists>old. effective_baseline b = Some old \<and>
           (detect_all old new (ao_name a) = [] \<or>
            (\<exists>sp \<in> set approved. \<exists>cs. displays to_str sha256 sp cs \<and>
               change_hash to_str sha256 cs = change_hash to_str sha256 (detect_all old new (ao_name a)))))))"

lemma authorised_mono:
  "authorised to_str sha256 approved a \<Longrightarrow> set approved \<subseteq> set approved' \<Longrightarrow> authorised to_str sha256 approved' a"
  unfolding authorised_def by blast

definition own_scope :: "string \<Rightarrow> string \<Rightarrow> string \<Rightarrow> plan_scope" where
  "own_scope app ns env = \<lparr>sc_type = ''application'',
     sc_application = Some \<lparr>as_ref = \<lparr>ref_name = app, ref_namespace = ns\<rparr>, as_environment = env\<rparr>,
     sc_platform = None, sc_sourcecredential = None\<rparr>"

definition gate_scope :: "app_object \<Rightarrow> plan_scope" where
  "gate_scope app = own_scope (ao_name app) (unwrap_or (ao_namespace app) [])
     (unwrap_or (asp_environment (ao_spec app)) [])"

lemma created_plan:
  assumes "application_create_plan_for to_str sha256 now cs n ns app env uid = Some mp"
  shows "displays to_str sha256 (mp_spec mp) cs" and "mp_status mp = None"
    and "plan_key mp = (Some n, own_scope app ns env)"
proof -
  from assms obtain t r rows where body: "plan_body to_str sha256 cs = Some (t, r, rows)"
    by (auto simp: application_create_plan_for_def)
  with assms show "mp_status mp = None"
    and "plan_key mp = (Some n, own_scope app ns env)"
    by (auto simp: application_create_plan_for_def plan_key_def own_scope_def)
  from body have "trig_hash t = Some (change_hash to_str sha256 cs)" "rows = map change_row (sort_candidates cs)"
    by (auto elim: plan_body_Some)
  with assms body show "displays to_str sha256 (mp_spec mp) cs"
    by (auto simp: application_create_plan_for_def displays_def)
qed

lemma paused_baseline [simp]:
  "ast_last_applied_spec (build_paused_status now app ns n) = existing_baseline app"
  "ast_last_applied_spec (build_migration_failed_status now app n) = existing_baseline app"
  "ast_last_applied_spec (build_invalid_effective_spec_status now app m) = existing_baseline app"
  "ast_last_applied_spec (hold_status now app h) = existing_baseline app"
  by (simp_all add: build_paused_status_def build_migration_failed_status_def
      build_invalid_effective_spec_status_def paused_with_def Let_def)
    (cases h; simp add: build_resource_claim_paused_status_def
      build_env_secret_missing_status_def paused_with_def Let_def)

text \<open>The plans a cleanup removes are all that could stand in the way of the new plan.\<close>

lemma cleanup_clears:
  assumes "p \<in> set plans" and "plan_key p = (Some n, own_scope app ns env)"
  shows "n \<in> set (plans_to_delete plans app env None)"
  using assms by (force simp: plan_key_def plans_to_delete_def List.map_filter_def own_scope_def)

lemma same_scope_matches:
  assumes "plan_key p = (Some n, own_scope app ns (unwrap_or env ''''))"
  shows "plan_scope_matches p app ns env"
  using assms by (cases env) (auto simp: plan_key_def plan_scope_matches_def own_scope_def)

lemma create_effects:
  assumes "create_and_pause ge app cs = (effs, r)" and "cs \<noteq> []"
  shows "r \<noteq> Inl Panicked"
    and "effs = [] \<or> (\<exists>mp st. effs = [EApplyPlan mp, EApplyStatus st] \<and>
           displays (ge_to_str ge) (ge_sha256 ge) (mp_spec mp) cs \<and>
           ast_last_applied_spec st = existing_baseline app \<and>
           (\<exists>n. plan_key mp = (Some n, gate_scope app)))"
proof -
  have some: "(application_create_plan_for to_str sha256 now cs n ns a env uid = None) = False"
    for to_str sha256 now n ns a env uid
    using assms(2) by (simp add: application_create_plan_for_def plan_body_None_iff)
  show "r \<noteq> Inl Panicked"
    using assms(1) by (auto simp: create_and_pause_def Let_def some split: option.splits)
  show "effs = [] \<or> (\<exists>mp st. effs = [EApplyPlan mp, EApplyStatus st] \<and>
           displays (ge_to_str ge) (ge_sha256 ge) (mp_spec mp) cs \<and>
           ast_last_applied_spec st = existing_baseline app \<and>
           (\<exists>n. plan_key mp = (Some n, gate_scope app)))"
    using assms(1) created_plan
    by (auto simp: create_and_pause_def Let_def gate_scope_def split: option.splits)
qed

text \<open>What the effects of a pass over \<open>app\<close> and \<open>plans\<close> guarantee.\<close>

definition pass_ok ::
  "(json \<Rightarrow> string) \<Rightarrow> (string \<Rightarrow> u8 list) \<Rightarrow> app_object \<Rightarrow> (string option \<times> plan_scope) set \<Rightarrow>
   migration_plan_spec list \<Rightarrow> effect list \<Rightarrow> bool" where
  "pass_ok to_str sha256 app ks approved effs \<longleftrightarrow>
     todo_ok ks effs \<and>
     (\<forall>mp. EApplyPlan mp \<in> set effs \<longrightarrow> (\<exists>cs. displays to_str sha256 (mp_spec mp) cs)) \<and>
     (\<forall>eff. ERender eff \<in> set effs \<longrightarrow> authorised to_str sha256 approved app) \<and>
     (\<forall>st. EApplyStatus st \<in> set effs \<longrightarrow> baseline_ok (ast_last_applied_spec st))"

lemma create_pass_ok:
  assumes "create_and_pause ge app cs = (effs, r)" and "cs \<noteq> []" and "baseline_ok (existing_baseline app)"
    and clear: "\<And>n. (Some n, gate_scope app) \<notin> ks"
  shows "pass_ok (ge_to_str ge) (ge_sha256 ge) app ks approved effs"
  using create_effects(2) [OF assms(1,2)] assms(3) clear by (auto simp: pass_ok_def)

lemma pass_ok_cleanup:
  assumes "pass_ok to_str sha256 app {k \<in> ks. \<forall>n \<in> set ns. fst k \<noteq> Some n} approved effs"
  shows "pass_ok to_str sha256 app ks approved (map EDeletePlan ns @ effs)"
  using assms by (auto simp: pass_ok_def todo_ok_deletes)

lemma pass_ok_render:
  assumes "effective_spec (ao_spec app) (asp_environment (ao_spec app)) = Inr new"
    and "authorised to_str sha256 approved app" and "baseline_ok (existing_baseline app)"
  shows "pass_ok to_str sha256 app ks approved (fst (render_and_stamp ge app new (map EDeletePlan ns)))"
  using assms
  by (auto simp: pass_ok_def render_and_stamp_def todo_ok_only_deletes baseline_ok_def
      with_stamped_baseline_def effective_baseline_def split: option.splits)

lemma render_outcome: "snd (render_and_stamp ge app new es) \<noteq> Inl e"
  by (simp add: render_and_stamp_def split: option.splits)

lemma pass_ok_status:
  "baseline_ok (ast_last_applied_spec st) \<Longrightarrow> pass_ok to_str sha256 app ks approved [EApplyStatus st]"
  by (simp add: pass_ok_def)

lemma act_on_ok:
  assumes eff: "effective_spec (ao_spec app) (asp_environment (ao_spec app)) = Inr new"
    and base: "baseline_ok (existing_baseline app)"
    and plan: "plan = pick_any_key_plan plans (ao_name app) (unwrap_or (ao_namespace app) '''') (asp_environment (ao_spec app))"
    and auth: "applies_children d \<Longrightarrow> authorised (ge_to_str ge) (ge_sha256 ge) approved app"
    and create: "d = CreatePlan \<Longrightarrow> plan = None \<and> cs \<noteq> []" "d = DeleteThenCreate \<Longrightarrow> cs \<noteq> []"
  shows "pass_ok (ge_to_str ge) (ge_sha256 ge) app (plan_key ` set plans) approved
           (fst (act_on ge app plans new cs plan d)) \<and> snd (act_on ge app plans new cs plan d) \<noteq> Inl Panicked"
proof -
  let ?del = "plans_to_delete plans (ao_name app) (unwrap_or (asp_environment (ao_spec app)) '''') None"
  obtain effs r where c: "create_and_pause ge app cs = (effs, r)" by (cases "create_and_pause ge app cs")
  note render = pass_ok_render [OF eff _ base, of "ge_to_str ge" "ge_sha256 ge" approved _ ge]
  show ?thesis
  proof (cases d)
    case CreatePlan
    have "plan_key p \<noteq> (Some n, gate_scope app)" if "p \<in> set plans" for p n
      using create(1) [OF CreatePlan] plan that same_scope_matches
      by (auto simp: pick_any_key_plan_def find_None_iff gate_scope_def)
    then have "(Some n, gate_scope app) \<notin> plan_key ` set plans" for n by (metis imageE)
    with create_pass_ok [OF c _ base] create(1) [OF CreatePlan]
    have "pass_ok (ge_to_str ge) (ge_sha256 ge) app (plan_key ` set plans) approved effs" by blast
    with CreatePlan show ?thesis
      using create_effects(1) [OF c] create by (simp add: act_on_def c)
  next
    case DeleteThenCreate
    have "pass_ok (ge_to_str ge) (ge_sha256 ge) app
        {k \<in> plan_key ` set plans. \<forall>n \<in> set ?del. fst k \<noteq> Some n} approved effs"
    proof (rule create_pass_ok [OF c create(2) [OF DeleteThenCreate] base], rule notI)
      fix n
      assume k: "(Some n, gate_scope app)
         \<in> {k \<in> plan_key ` set plans. \<forall>n \<in> set ?del. fst k \<noteq> Some n}"
      then have "(Some n, gate_scope app) \<in> plan_key ` set plans" by blast
      then obtain p where "p \<in> set plans" and "plan_key p = (Some n, gate_scope app)" by (metis imageE)
      from cleanup_clears [OF this [unfolded gate_scope_def]] k show False by auto
    qed
    with DeleteThenCreate show ?thesis
      using create_effects(1) [OF c] create
      by (simp add: act_on_def Let_def c delete_all_key_plans_except_def pass_ok_cleanup)
  next
    case DeleteThenRender
    with auth have "authorised (ge_to_str ge) (ge_sha256 ge) approved app" by (simp add: applies_children_def)
    from render [OF this, of _ "[]"] DeleteThenRender show ?thesis
      by (simp add: act_on_def Let_def delete_all_key_plans_except_def pass_ok_cleanup render_outcome
          case_prod_beta)
  next
    case ConsumeApply
    with auth have "authorised (ge_to_str ge) (ge_sha256 ge) approved app" by (simp add: applies_children_def)
    from render [OF this, of _ "[]"] render [OF this, of _ ?del] ConsumeApply show ?thesis
      by (simp add: act_on_def Let_def delete_all_key_plans_except_def render_outcome)
  next
    case Render
    with auth have "authorised (ge_to_str ge) (ge_sha256 ge) approved app" by (simp add: applies_children_def)
    from render [OF this, of _ "[]"] Render show ?thesis by (simp add: act_on_def Let_def render_outcome)
  qed (use base in \<open>simp_all add: act_on_def Let_def pass_ok_status\<close>)
qed

lemma gate_pass_ok:
  assumes plans: "\<forall>p \<in> set plans. (beyond_approval p \<longrightarrow> mp_spec p \<in> set approved) \<and>
                     (\<exists>cs. displays (ge_to_str ge) (ge_sha256 ge) (mp_spec p) cs)"
    and base: "baseline_ok (existing_baseline app)"
  shows "pass_ok (ge_to_str ge) (ge_sha256 ge) app (plan_key ` set plans) approved
           (fst (gate_pass ge app plans)) \<and> snd (gate_pass ge app plans) \<noteq> Inl Panicked"
proof (cases "ao_deletion_timestamp app \<noteq> None")
  case True
  then show ?thesis by (simp add: gate_pass_def pass_ok_def)
next
  case False
  show ?thesis
  proof (cases "effective_spec (ao_spec app) (asp_environment (ao_spec app))")
    case (Inl e)
    with False base show ?thesis by (simp add: gate_pass_def pass_ok_status)
  next
    case (Inr new)
    have "candidates_for app new \<noteq> None"
      using base by (cases "existing_baseline app") (simp_all add: candidates_for_def baseline_ok_def)
    then obtain cs where cs: "candidates_for app new = Some cs" by blast
    let ?plan = "pick_any_key_plan plans (ao_name app) (unwrap_or (ao_namespace app) '''') (asp_environment (ao_spec app))"
    let ?state = "case cs of c # _ \<Rightarrow> plan_state (ge_to_str ge) (ge_sha256 ge) ?plan c cs | [] \<Rightarrow> plan_state_no_change ?plan"
    have auth: "authorised (ge_to_str ge) (ge_sha256 ge) approved app"
      if "applies_children (decide (cs \<noteq> []) ?state)"
    proof (cases "existing_baseline app")
      case None
      with Inr show ?thesis by (simp add: authorised_def)
    next
      case (Some b)
      with cs obtain old where old: "effective_baseline b = Some old" and cs': "cs = detect_all old new (ao_name app)"
        by (auto simp: candidates_for_def)
      have "cs = [] \<or> (\<exists>sp \<in> set approved. \<exists>ds. displays (ge_to_str ge) (ge_sha256 ge) sp ds \<and>
          change_hash (ge_to_str ge) (ge_sha256 ge) ds = change_hash (ge_to_str ge) (ge_sha256 ge) cs)"
      proof (cases cs)
        case (Cons c rest)
        with that obtain p where p: "?plan = Some p" "plan_phase p = ''completed''"
          "trig_hash (plan_trigger p) = Some (change_hash (ge_to_str ge) (ge_sha256 ge) cs)"
          by (auto simp: applies_children_decide plan_state_CompletedMatch_iff)
        then have "p \<in> set plans" using find_Some_in by (fastforce simp: pick_any_key_plan_def)
        with plans p(2) have "mp_spec p \<in> set approved"
          and "\<exists>ds. displays (ge_to_str ge) (ge_sha256 ge) (mp_spec p) ds"
          by (auto simp: beyond_approval_def)
        then obtain ds where ds: "displays (ge_to_str ge) (ge_sha256 ge) (mp_spec p) ds" by blast
        with p(3) have "change_hash (ge_to_str ge) (ge_sha256 ge) ds = change_hash (ge_to_str ge) (ge_sha256 ge) cs"
          by (simp add: displays_def)
        with ds \<open>mp_spec p \<in> set approved\<close> show ?thesis by blast
      qed simp
      with Inr Some old cs' show ?thesis by (simp add: authorised_def)
    qed
    have none: "?state = NoPlan \<Longrightarrow> ?plan = None"
      by (cases cs) (auto simp: plan_state_def plan_state_no_change_def Let_def split: option.splits if_splits)
    have create: "decide (cs \<noteq> []) ?state = CreatePlan \<Longrightarrow> ?plan = None \<and> cs \<noteq> []"
      "decide (cs \<noteq> []) ?state = DeleteThenCreate \<Longrightarrow> cs \<noteq> []"
      using none by (cases "cs \<noteq> []"; cases ?state; simp)+
    have "gate_pass ge app plans = act_on ge app plans new cs ?plan (decide (cs \<noteq> []) ?state)"
      using False Inr cs by (simp add: gate_pass_def Let_def)
    with act_on_ok [OF Inr base refl auth create] show ?thesis by simp
  qed
qed

subsection \<open>The invariant\<close>

definition gate_inv :: "(json \<Rightarrow> string) \<Rightarrow> (string \<Rightarrow> u8 list) \<Rightarrow> sys \<Rightarrow> bool" where
  "gate_inv to_str sha256 s \<longleftrightarrow>
     plans_ok to_str sha256 s \<and>
     pass_ok to_str sha256 (s_pass s) (plan_key ` set (s_plans s)) (s_approved s) (s_todo s) \<and>
     baseline_ok (existing_baseline (s_app s)) \<and>
     (\<forall>a \<in> set (s_renders s). authorised to_str sha256 (s_approved s) a)"

lemma pass_ok_mono:
  "pass_ok to_str sha256 app ks approved effs \<Longrightarrow> set approved \<subseteq> set approved' \<Longrightarrow>
   pass_ok to_str sha256 app ks approved' effs"
  unfolding pass_ok_def using authorised_mono by blast

lemma set_update_key:
  "i < length ps \<Longrightarrow> mp_spec q = mp_spec (ps ! i) \<Longrightarrow> mp_meta q = mp_meta (ps ! i) \<Longrightarrow>
   plan_key ` set (ps[i := q]) = plan_key ` set ps"
proof -
  assume "i < length ps" and q: "mp_spec q = mp_spec (ps ! i)" "mp_meta q = mp_meta (ps ! i)"
  then have "map plan_key (ps[i := q]) = map plan_key ps"
    by (simp add: map_update plan_key_def) (metis (no_types, lifting) list_update_id map_update plan_key_def)
  then show ?thesis by (metis list.set_map)
qed

lemma plans_ok_update:
  assumes "plans_ok to_str sha256 s" and "i < length (s_plans s)" and "mp_spec q = mp_spec (s_plans s ! i)"
    and "beyond_approval q \<Longrightarrow> beyond_approval (s_plans s ! i) \<or> mp_spec q \<in> set approved"
    and "set (s_approved s) \<subseteq> set approved" and "set approved \<subseteq> insert (mp_spec q) (set (s_approved s))"
  shows "plans_ok to_str sha256 (s\<lparr>s_plans := (s_plans s)[i := q], s_approved := approved\<rparr>)"
proof -
  have old: "s_plans s ! i \<in> set (s_plans s)" using assms(2) by simp
  have sub: "set ((s_plans s)[i := q]) \<subseteq> insert q (set (s_plans s))" by (rule set_update_subset_insert)
  have "beyond_approval p \<longrightarrow> mp_spec p \<in> set approved" "\<exists>cs. displays to_str sha256 (mp_spec p) cs"
    if p: "p \<in> set ((s_plans s)[i := q])" for p
  proof -
    consider "p = q" | "p \<in> set (s_plans s)" using p sub by blast
    then show "beyond_approval p \<longrightarrow> mp_spec p \<in> set approved" and "\<exists>cs. displays to_str sha256 (mp_spec p) cs"
      using assms old unfolding plans_ok_def by (cases; metis subsetD)+
  qed
  moreover have "\<exists>cs. displays to_str sha256 sp cs" if "sp \<in> set approved" for sp
    using that assms(1,3,6) old unfolding plans_ok_def by (metis insertE subsetD)
  ultimately show ?thesis unfolding plans_ok_def by simp
qed

lemma apply_plan_fresh:
  assumes "apply_plan mp plans = Some ps" and "plan_key mp \<notin> plan_key ` set plans"
  shows "ps = plans @ [mp\<lparr>mp_status := None\<rparr>]"
  using assms by (auto simp: apply_plan_def list_ex_iff plan_key_def image_iff split: if_splits)

lemma inv_call:
  assumes inv: "gate_inv to_str sha256 s" and todo: "s_todo s = e # es" and call: "apply_effect s e = Some s'"
  shows "gate_inv to_str sha256 (s'\<lparr>s_todo := es\<rparr>)"
proof (cases e)
  case (EApplyStatus st)
  with assms show ?thesis
    by (auto simp: gate_inv_def plans_ok_def pass_ok_def existing_baseline_def)
next
  case (EDeletePlan n)
  have keys: "plan_key ` {p \<in> set (s_plans s). om_name (mp_meta p) \<noteq> Some n} =
      {k \<in> plan_key ` set (s_plans s). fst k \<noteq> Some n}"
    by (auto simp: plan_key_def image_iff)
  have s': "s' = s\<lparr>s_plans := filter (\<lambda>p. om_name (mp_meta p) \<noteq> Some n) (s_plans s)\<rparr>"
    using call EDeletePlan by simp
  show ?thesis
    using inv todo EDeletePlan unfolding s' gate_inv_def pass_ok_def
    by (simp add: keys) (simp add: plans_ok_def)
next
  case (ERender eff)
  with assms have "authorised to_str sha256 (s_approved s) (s_pass s)"
    by (auto simp: gate_inv_def pass_ok_def)
  with assms ERender show ?thesis
    by (auto simp: gate_inv_def plans_ok_def pass_ok_def)
next
  case (EApplyPlan mp)
  with inv todo have fresh: "plan_key mp \<notin> plan_key ` set (s_plans s)"
    and shown: "\<exists>cs. displays to_str sha256 (mp_spec mp) cs"
    and rest: "todo_ok (insert (plan_key mp) (plan_key ` set (s_plans s))) es"
    by (auto simp: gate_inv_def pass_ok_def)
  let ?mp = "mp\<lparr>mp_status := None\<rparr>"
  have s': "s' = s\<lparr>s_plans := s_plans s @ [?mp]\<rparr>"
    using call EApplyPlan apply_plan_fresh [OF _ fresh] by auto
  have key: "plan_key ?mp = plan_key mp" by (simp add: plan_key_def)
  have "\<not> beyond_approval ?mp" by (simp add: beyond_approval_def plan_phase_def)
  with inv shown have "plans_ok to_str sha256 (s\<lparr>s_plans := s_plans s @ [?mp]\<rparr>)"
    by (auto simp: gate_inv_def plans_ok_def)
  with inv todo rest EApplyPlan show ?thesis
    unfolding s' gate_inv_def pass_ok_def by (auto simp: key plans_ok_def)
qed

lemma inv_step:
  assumes "gate_inv to_str sha256 s" and "step to_str sha256 s t"
  shows "gate_inv to_str sha256 t"
  using assms(2)
proof (cases rule: step.cases)
  case (edit spec g d)
  with assms(1) show ?thesis by (auto simp: gate_inv_def plans_ok_def existing_baseline_def)
next
  case (start ge)
  have "pass_ok (ge_to_str ge) (ge_sha256 ge) (s_app s) (plan_key ` set (s_plans s)) (s_approved s)
          (fst (gate_pass ge (s_app s) (s_plans s)))"
    using gate_pass_ok [of "s_plans s" "s_approved s" ge "s_app s"] assms(1) start
    by (simp add: gate_inv_def plans_ok_def)
  with assms(1) start show ?thesis by (simp add: gate_inv_def plans_ok_def)
next
  case (call e es s')
  with assms(1) show ?thesis using inv_call by blast
next
  case stop
  with assms(1) show ?thesis by (simp add: gate_inv_def plans_ok_def pass_ok_def)
next
  case (approval i p)
  have "plans_ok to_str sha256 t"
    unfolding approval(1) using assms(1) approval
    by (intro plans_ok_update) (auto simp: gate_inv_def)
  moreover have "plan_key ` set (s_plans t) = plan_key ` set (s_plans s)"
    using approval by (simp add: set_update_key)
  ultimately show ?thesis
    using assms(1) approval pass_ok_mono authorised_mono
    unfolding gate_inv_def by (auto 0 3 intro: pass_ok_mono authorised_mono)
next
  case (controller i clock)
  have "plans_ok to_str sha256 (s\<lparr>s_plans := (s_plans s)[i := controller_pass clock (s_plans s ! i)], s_approved := s_approved s\<rparr>)"
    using assms(1) controller controller_pass_beyond by (intro plans_ok_update) (auto simp: gate_inv_def)
  moreover have "plan_key ` set (s_plans t) = plan_key ` set (s_plans s)"
    using controller by (simp add: set_update_key)
  ultimately show ?thesis using assms(1) controller by (simp add: gate_inv_def plans_ok_def)
qed

lemma reachable_inv: "reachable to_str sha256 s \<Longrightarrow> gate_inv to_str sha256 s"
proof (induction rule: reachable.induct)
  case (init app)
  then show ?case by (simp add: gate_inv_def plans_ok_def pass_ok_def existing_baseline_def baseline_ok_def)
next
  case (next_state s t)
  then show ?case using inv_step by blast
qed

text \<open>
  C1. End to end, whatever the interleaving of edits, passes that stop anywhere, approvals
  and controller runs: children are applied only for an object that differs from its
  stamped baseline by no destructive change, or for which a plan was approved that shows a
  set of changes with exactly the hash of the changes between baseline and object (or that
  has no baseline yet).
\<close>

theorem no_destructive_change_without_approval:
  assumes "reachable to_str sha256 s" and "a \<in> set (s_renders s)" and "existing_baseline a = Some b"
  shows "\<exists>old new. effective_baseline b = Some old \<and>
    effective_spec (ao_spec a) (asp_environment (ao_spec a)) = Inr new \<and>
    (detect_all old new (ao_name a) = [] \<or>
     (\<exists>sp \<in> set (s_approved s). \<exists>cs. mp_changes sp = Some (map change_row (sort_candidates cs)) \<and>
        trig_hash (mp_trigger sp) = Some (change_hash to_str sha256 cs) \<and>
        change_hash to_str sha256 cs = change_hash to_str sha256 (detect_all old new (ao_name a))))"
  using reachable_inv [OF assms(1)] assms(2,3)
  unfolding gate_inv_def authorised_def displays_def by blast

text \<open>
  The baseline a pass diffs against was always produced by a spec the renderer
  accepted, so the reconstruction of the effective baseline never fails and no reachable
  pass panics.
\<close>

lemma baseline_reconstruction_never_panics:
  assumes "reachable to_str sha256 s" and "ge_to_str ge = to_str" and "ge_sha256 ge = sha256"
  shows "snd (gate_pass ge (s_app s) (s_plans s)) \<noteq> Inl Panicked"
  using gate_pass_ok [of "s_plans s" "s_approved s" ge "s_app s"] reachable_inv [OF assms(1)] assms(2,3)
  by (simp add: gate_inv_def plans_ok_def)

subsection \<open>An approval takes effect\<close>

lemma detect_all_head: "detect_all old new app = c # rest \<Longrightarrow> pick_primary (detect_all old new app) = Some c"
  unfolding pick_primary_detect_all by (simp add: pick_primary_def detect_all_def)

lemma controller_completes_stepless:
  assumes "sc_type (mp_scope (mp_spec p)) = ''application''" and "mp_plan (mp_spec p) = None"
  shows "plan_phase (controller_pass c2 (controller_pass c1 (approve p))) = ''completed''"
proof -
  have k: "pick_strategy_key ''application'' = Inr KeyApplication" by (simp add: pick_strategy_key_def)
  have "controller_pass c1 (approve p) = p\<lparr>mp_status := Some (with_phase (mp_status p) ''executing'')\<rparr>"
    using assms by (simp add: controller_pass_def reconcile_def approve_def plan_phase_def with_phase_def
        k Let_def self_write_status)
  then show ?thesis
    using assms by (simp add: controller_pass_def reconcile_def plan_phase_def with_phase_def k Let_def
        execute_next_step_def steps_of_def self_write_status)
qed

lemma create_and_pause_created:
  assumes "cs \<noteq> []" and "ao_uid app = Some uid"
  obtains mp st where "create_and_pause ge app cs = ([EApplyPlan mp, EApplyStatus st], Inr (Some 30))"
    and "ast_last_applied_spec st = existing_baseline app"
    and "application_create_plan_for (ge_to_str ge) (ge_sha256 ge) (ge_now ge) cs
           (plan_name (ao_name app) (unwrap_or (asp_environment (ao_spec app)) '''') (ge_secs ge))
           (unwrap_or (ao_namespace app) '''') (ao_name app) (unwrap_or (asp_environment (ao_spec app)) '''') uid = Some mp"
proof -
  obtain mp where mp: "application_create_plan_for (ge_to_str ge) (ge_sha256 ge) (ge_now ge) cs
           (plan_name (ao_name app) (unwrap_or (asp_environment (ao_spec app)) '''') (ge_secs ge))
           (unwrap_or (ao_namespace app) '''') (ao_name app) (unwrap_or (asp_environment (ao_spec app)) '''') uid = Some mp"
    using assms(1) by (cases "plan_body (ge_to_str ge) (ge_sha256 ge) cs")
      (auto simp: application_create_plan_for_def plan_body_None_iff)
  with assms(2) show thesis by (intro that) (auto simp: create_and_pause_def Let_def)
qed

lemma created_plan_trigger:
  assumes "application_create_plan_for to_str sha256 now cs n ns app env uid = Some mp"
    and "pick_primary cs = Some c"
  shows "trigger_matches mp c" and "mp_plan (mp_spec mp) = None"
    and "trig_hash (plan_trigger mp) = Some (change_hash to_str sha256 cs)"
proof -
  from assms obtain t r rows where body: "plan_body to_str sha256 cs = Some (t, r, rows)"
    and mp: "plan_trigger mp = t" "mp_plan (mp_spec mp) = None"
    by (auto simp: application_create_plan_for_def)
  from body assms(2) have "trig_type t = dc_trigger_type c" "trig_field t = dc_field c"
    "trig_hash t = Some (change_hash to_str sha256 cs)"
    by (auto elim!: plan_body_Some)
  with mp show "trigger_matches mp c" and "mp_plan (mp_spec mp) = None"
    and "trig_hash (plan_trigger mp) = Some (change_hash to_str sha256 cs)"
    by (simp_all add: trigger_matches_def)
qed

text \<open>
  C12. An approval takes effect: when an edit is gated, the first pass creates a plan and
  pauses; once that plan is approved and the MigrationPlan controller has passed over it
  twice, the next pass over the same edit, if the claims and Secrets of the application do
  not hold it back, applies the children and stamps the new baseline.
\<close>

theorem approved_edit_is_applied:
  assumes "ao_deletion_timestamp app = None" and "ao_uid app = Some uid"
    and eff: "effective_spec (ao_spec app) (asp_environment (ao_spec app)) = Inr new"
    and base: "existing_baseline app = Some b" "effective_baseline b = Some old"
    and change: "detect_all old new (ao_name app) \<noteq> []"
    and none: "pick_any_key_plan plans (ao_name app) (unwrap_or (ao_namespace app) '''') (asp_environment (ao_spec app)) = None"
    and hash: "change_hash (ge_to_str ge) (ge_sha256 ge) (detect_all old new (ao_name app)) \<noteq> []"
    and free: "ge_hold ge = None"
  shows "\<exists>mp st consume. gate_pass ge app plans = ([EApplyPlan mp, EApplyStatus st], Inr (Some 30)) \<and>
    gate_pass ge (app\<lparr>ao_status := Some st\<rparr>)
       (plans @ [controller_pass c2 (controller_pass c1 (approve mp))]) =
    (ERender new # EApplyStatus (with_stamped_baseline (ge_ready ge) (ao_spec app)) # map EDeletePlan consume,
     Inr (Some 60))"
proof -
  let ?cs = "detect_all old new (ao_name app)"
  obtain c rest where cs: "?cs = c # rest" using change by (cases ?cs) auto
  have cands: "candidates_for app' new = Some ?cs"
    if "existing_baseline app' = Some b" "ao_name app' = ao_name app" for app'
    using that base(2) by (simp add: candidates_for_def)
  obtain mp st where create: "create_and_pause ge app ?cs = ([EApplyPlan mp, EApplyStatus st], Inr (Some 30))"
    and st: "ast_last_applied_spec st = existing_baseline app"
    and mp: "application_create_plan_for (ge_to_str ge) (ge_sha256 ge) (ge_now ge) ?cs
           (plan_name (ao_name app) (unwrap_or (asp_environment (ao_spec app)) '''') (ge_secs ge))
           (unwrap_or (ao_namespace app) '''') (ao_name app) (unwrap_or (asp_environment (ao_spec app)) '''') uid = Some mp"
    using create_and_pause_created [OF change assms(2)] by blast
  note trig = created_plan_trigger [OF mp detect_all_head [OF cs]]
  define p where "p = controller_pass c2 (controller_pass c1 (approve mp))"
  have key: "plan_key mp = (Some (plan_name (ao_name app) (unwrap_or (asp_environment (ao_spec app)) '''') (ge_secs ge)),
      own_scope (ao_name app) (unwrap_or (ao_namespace app) '''') (unwrap_or (asp_environment (ao_spec app)) ''''))"
    by (rule created_plan(3) [OF mp])
  have p_spec: "mp_spec p = mp_spec mp" "mp_meta p = mp_meta mp" by (simp_all add: p_def)
  have "plan_phase p = ''completed''"
    using key trig(2) unfolding p_def by (intro controller_completes_stepless) (simp_all add: plan_key_def own_scope_def)
  then have state: "plan_state (ge_to_str ge) (ge_sha256 ge) (Some p) c ?cs = CompletedMatch"
    using trig hash p_spec by (auto simp: plan_state_CompletedMatch_iff trigger_matches_def)
  have found: "pick_any_key_plan (plans @ [p]) (ao_name app) (unwrap_or (ao_namespace app) '''') (asp_environment (ao_spec app)) = Some p"
  proof -
    have "plan_scope_matches p (ao_name app) (unwrap_or (ao_namespace app) '''') (asp_environment (ao_spec app))"
      using key p_spec by (intro same_scope_matches) (simp add: plan_key_def)
    moreover have "find P (xs @ [x]) = Some x" if "find P xs = None" "P x" for P xs and x :: migration_plan
      using that by (induction xs) (auto split: if_splits)
    ultimately show ?thesis using none by (simp add: pick_any_key_plan_def)
  qed
  have first: "gate_pass ge app plans = ([EApplyPlan mp, EApplyStatus st], Inr (Some 30))"
    using assms(1) eff none cs create cands [OF base(1)]
    by (simp add: gate_pass_def plan_state_def act_on_def Let_def)
  have "existing_baseline (app\<lparr>ao_status := Some st\<rparr>) = Some b" using st base(1) by (simp add: existing_baseline_def)
  from cands [OF this] have "gate_pass ge (app\<lparr>ao_status := Some st\<rparr>) (plans @ [p]) =
     (ERender new # EApplyStatus (with_stamped_baseline (ge_ready ge) (ao_spec app)) #
        map EDeletePlan (plans_to_delete (plans @ [p]) (ao_name app)
          (unwrap_or (asp_environment (ao_spec app)) '''') None), Inr (Some 60))"
    using assms(1) eff found state cs free key p_spec
    by (simp add: gate_pass_def act_on_def render_and_stamp_def delete_all_key_plans_except_def
        plan_key_def Let_def)
  with first show ?thesis unfolding p_def by blast
qed

subsection \<open>A concrete run\<close>

datatype cmd = DoEdit application_spec | DoStart gate_env | DoCall | DoApprove nat | DoController nat

fun exec :: "sys \<Rightarrow> cmd \<Rightarrow> sys option" where
  "exec s (DoEdit spec) = Some (s\<lparr>s_app := (s_app s)\<lparr>ao_spec := spec, ao_generation := None, ao_deletion_timestamp := None\<rparr>\<rparr>)"
| "exec s (DoStart ge) =
     (if s_todo s = [] then Some (s\<lparr>s_pass := s_app s, s_todo := fst (gate_pass ge (s_app s) (s_plans s))\<rparr>) else None)"
| "exec s DoCall = (case s_todo s of [] \<Rightarrow> None | e # es \<Rightarrow> map_option (\<lambda>s'. s'\<lparr>s_todo := es\<rparr>) (apply_effect s e))"
| "exec s (DoApprove i) =
     (if i < length (s_plans s) \<and> is_allowed_phase_transition (unwrap_or (plan_phase_opt (s_plans s ! i)) '''')
           ''approved'' (sc_type (mp_scope (mp_spec (s_plans s ! i))))
      then Some (s\<lparr>s_plans := (s_plans s)[i := approve (s_plans s ! i)], s_approved := mp_spec (s_plans s ! i) # s_approved s\<rparr>)
      else None)"
| "exec s (DoController i) =
     (if i < length (s_plans s) then Some (s\<lparr>s_plans := (s_plans s)[i := controller_pass (\<lambda>_. ''t'') (s_plans s ! i)]\<rparr>) else None)"

fun run :: "sys \<Rightarrow> cmd list \<Rightarrow> sys option" where
  "run s [] = Some s"
| "run s (c # cs) = Option.bind (exec s c) (\<lambda>s'. run s' cs)"

fun cmd_env :: "cmd \<Rightarrow> (json \<Rightarrow> string) \<Rightarrow> (string \<Rightarrow> u8 list) \<Rightarrow> bool" where
  "cmd_env (DoStart ge) to_str sha256 \<longleftrightarrow> ge_to_str ge = to_str \<and> ge_sha256 ge = sha256"
| "cmd_env _ to_str sha256 \<longleftrightarrow> True"

lemma exec_step: "exec s c = Some t \<Longrightarrow> cmd_env c to_str sha256 \<Longrightarrow> step to_str sha256 s t"
  by (cases c) (auto intro: step.intros split: if_splits list.splits)

lemma run_reachable:
  "run s cs = Some t \<Longrightarrow> (\<forall>c \<in> set cs. cmd_env c to_str sha256) \<Longrightarrow> reachable to_str sha256 s \<Longrightarrow> reachable to_str sha256 t"
proof (induction cs arbitrary: s)
  case (Cons c cs)
  from Cons.prems(1) obtain s' where "exec s c = Some s'" "run s' cs = Some t"
    by (cases "exec s c") auto
  with Cons show ?case using exec_step reachable.next_state by (metis list.set_intros)
qed simp

definition web_spec :: "int \<Rightarrow> application_spec" where
  "web_spec r = \<lparr>asp_base = Some (default_base_spec\<lparr>ab_image := Some ''web:v1'', ab_replicas := Some r\<rparr>),
     asp_environments = None, asp_environment = None\<rparr>"

definition web_app :: app_object where
  "web_app = \<lparr>ao_name = ''web'', ao_namespace = Some ''demo'', ao_uid = Some ''u1'', ao_annotations = None, ao_generation = Some 1,
     ao_deletion_timestamp = None, ao_spec = web_spec 2, ao_status = None\<rparr>"

definition toy_str :: "json \<Rightarrow> string" where "toy_str j = ''''"

definition toy_digest :: "string \<Rightarrow> u8 list" where "toy_digest s = [1]"

definition web_env :: gate_env where
  "web_env = \<lparr>ge_to_str = toy_str, ge_sha256 = toy_digest, ge_now = ''t'', ge_secs = 7, ge_hold = None,
     ge_ready = \<lparr>ast_phase = Some ''Ready'', ast_observed_generation = None, ast_conditions = None,
       ast_endpoint_url = None, ast_image = None, ast_env_config = None, ast_environment = None,
       ast_last_applied_spec = None, ast_recommended_resources = None, ast_recent_problems = []\<rparr>\<rparr>"

definition web_start :: sys where
  "web_start = \<lparr>s_app = web_app, s_plans = [], s_pass = web_app, s_todo = [], s_renders = [], s_approved = []\<rparr>"

definition web_cmds :: "cmd list" where
  "web_cmds = [DoStart web_env, DoCall, DoCall, DoEdit (web_spec 0), DoStart web_env, DoCall, DoCall,
     DoApprove 0, DoController 0, DoController 0, DoStart web_env, DoCall]"

lemma web_run:
  "map_option (\<lambda>s. (length (s_renders s), map (\<lambda>a. existing_baseline a) (s_renders s),
      map (\<lambda>a. (ao_name a, ao_spec a)) (s_renders s))) (run web_start web_cmds) =
   Some (2, [None, Some (web_spec 2)], [(''web'', web_spec 2), (''web'', web_spec 0)])"
  by code_simp

definition web_eff :: "int \<Rightarrow> base_spec" where
  "web_eff r = default_base_spec\<lparr>ab_image := Some ''web:v1'', ab_replicas := Some r\<rparr>"

lemma web_effective:
  "effective_spec (web_spec r) (asp_environment (web_spec r)) = Inr (web_eff r)"
  "effective_baseline (web_spec r) = Some (web_eff r)"
  by (simp_all add: effective_spec_def effective_baseline_def web_spec_def web_eff_def)

lemma web_change:
  "detect_all (web_eff 2) (web_eff 0) ''web'' = [change ''scale-to-zero'' ''replicas'' ''2'' ''0'' ''requires-restart'']"
  by code_simp

lemma web_reachable: "run web_start web_cmds = Some s \<Longrightarrow> reachable toy_str toy_digest s"
proof (rule run_reachable)
  show "\<forall>c \<in> set web_cmds. cmd_env c toy_str toy_digest" by (simp add: web_cmds_def web_env_def)
  show "reachable toy_str toy_digest web_start"
    unfolding web_start_def by (rule reachable.init) (simp add: web_app_def)
qed

theorem no_destructive_change_without_approval_witness:
  "\<exists>s a. run web_start web_cmds = Some s \<and> a \<in> set (s_renders s) \<and>
     existing_baseline a = Some (web_spec 2) \<and> ao_spec a = web_spec 0 \<and>
     (\<exists>sp \<in> set (s_approved s). \<exists>cs. mp_changes sp = Some (map change_row (sort_candidates cs)) \<and>
        change_hash toy_str toy_digest cs = change_hash toy_str toy_digest (detect_all (web_eff 2) (web_eff 0) ''web''))"
proof -
  obtain s where s: "run web_start web_cmds = Some s"
    and n: "length (s_renders s) = 2" "map (\<lambda>a. existing_baseline a) (s_renders s) = [None, Some (web_spec 2)]"
      "map (\<lambda>a. (ao_name a, ao_spec a)) (s_renders s) = [(''web'', web_spec 2), (''web'', web_spec 0)]"
    using web_run by (cases "run web_start web_cmds") auto
  then obtain x a where r: "s_renders s = [x, a]"
    and a: "existing_baseline a = Some (web_spec 2)" "ao_name a = ''web''" "ao_spec a = web_spec 0" by auto
  from no_destructive_change_without_approval [OF web_reachable [OF s], of a] r a
  have "\<exists>sp \<in> set (s_approved s). \<exists>cs. mp_changes sp = Some (map change_row (sort_candidates cs)) \<and>
        change_hash toy_str toy_digest cs = change_hash toy_str toy_digest (detect_all (web_eff 2) (web_eff 0) ''web'')"
    by (auto simp: web_effective web_change)
  with s r a show ?thesis by (intro exI [of _ s] exI [of _ a]) simp
qed

definition web_scaled :: app_object where
  "web_scaled = web_app\<lparr>ao_spec := web_spec 0,
     ao_status := Some (with_stamped_baseline (ge_ready web_env) (web_spec 2))\<rparr>"

theorem approved_edit_is_applied_witness:
  "\<exists>mp st consume. gate_pass web_env web_scaled [] = ([EApplyPlan mp, EApplyStatus st], Inr (Some 30)) \<and>
    gate_pass web_env (web_scaled\<lparr>ao_status := Some st\<rparr>)
       [controller_pass (\<lambda>_. ''t'') (controller_pass (\<lambda>_. ''t'') (approve mp))] =
    (ERender (web_eff 0) # EApplyStatus (with_stamped_baseline (ge_ready web_env) (web_spec 0)) #
       map EDeletePlan consume, Inr (Some 60))"
proof -
  have app: "ao_deletion_timestamp web_scaled = None" "ao_uid web_scaled = Some ''u1''" "ao_name web_scaled = ''web''"
    "ao_spec web_scaled = web_spec 0" "existing_baseline web_scaled = Some (web_spec 2)"
    by (simp_all add: web_scaled_def web_app_def existing_baseline_def with_stamped_baseline_def)
  have eff: "effective_spec (ao_spec web_scaled) (asp_environment (ao_spec web_scaled)) = Inr (web_eff 0)"
    by (simp add: app web_effective)
  have hash: "change_hash (ge_to_str web_env) (ge_sha256 web_env) (detect_all (web_eff 2) (web_eff 0) (ao_name web_scaled)) \<noteq> []"
    by (simp add: change_hash_def web_env_def toy_digest_def hex_bytes_def hex_byte_def)
  have change: "detect_all (web_eff 2) (web_eff 0) (ao_name web_scaled) \<noteq> []" by (simp add: app web_change)
  have none: "pick_any_key_plan [] (ao_name web_scaled) (unwrap_or (ao_namespace web_scaled) '''')
      (asp_environment (ao_spec web_scaled)) = None" by (simp add: pick_any_key_plan_def)
  have free: "ge_hold web_env = None" by (simp add: web_env_def)
  from approved_edit_is_applied [OF app(1,2) eff app(5) web_effective(2) change none hash free]
  show ?thesis by (simp add: app)
qed

theorem status_writes_keep_the_record_witness:
  "EApplyStatus (with_stamped_baseline (ge_ready web_env) (web_spec 2)) \<in> set (fst (gate_pass web_env web_app [])) \<and>
   (\<exists>st. EApplyStatus st \<in> set (fst (gate_pass web_env web_scaled [])) \<and> keeps_record web_scaled st \<and>
         ast_last_applied_spec st = Some (web_spec 2))"
proof -
  let ?st = "build_paused_status ''t'' web_scaled ''demo'' ''web-migration-7''"
  have st: "EApplyStatus ?st \<in> set (fst (gate_pass web_env web_scaled []))" by code_simp
  have "?st \<noteq> with_stamped_baseline (ge_ready web_env) (ao_spec web_scaled)" by code_simp
  with status_writes_keep_the_record [OF st] have k: "keeps_record web_scaled ?st" by blast
  then have "ast_last_applied_spec ?st = Some (web_spec 2)"
    by (simp add: keeps_record_def existing_baseline_def web_scaled_def with_stamped_baseline_def)
  moreover have "EApplyStatus (with_stamped_baseline (ge_ready web_env) (web_spec 2))
      \<in> set (fst (gate_pass web_env web_app []))" by code_simp
  ultimately show ?thesis using st k by blast
qed

end
