(* ===== verification/Image_Resolve.thy ===== *)
theory Image_Resolve
  imports App_Gate "HOL-Library.Signed_Division"
begin

text \<open>
  From an image tag to the digest that is rendered
  (\<open>operator-controllers/application/src/oci_resolve.rs\<close> and the image part of
  \<open>application/src/lib.rs\<close>): the registry protocol, pins, the throttle, and what a failed
  lookup keeps. The reference grammar of the crate \<open>oci_client\<close>, HTTP, base64, the JSON
  parser and the RFC 3339 parser are parameters.
\<close>

subsection \<open>References and digests\<close>

record oci_reference =
  or_resolve_registry :: string
  or_repository :: string
  or_tag :: "string option"
  or_digest :: "string option"

type_synonym ref_parser = "string \<Rightarrow> oci_reference option"

record image_ref =
  ir_host :: string
  ir_repository :: string
  ir_reference :: string
  ir_is_digest :: bool

datatype oci_resolve_error =
    InvalidReference string
  | HttpError string
  | HttpStatus u16 string
  | NoDigestHeader
  | InvalidDigest string
  | AuthError string

fun oci_error_text :: "oci_resolve_error \<Rightarrow> string" where
  "oci_error_text (InvalidReference s) = ''invalid image reference '' @ debug_str s"
| "oci_error_text (HttpError s) = ''registry HTTP error: '' @ s"
| "oci_error_text (HttpStatus status url) = ''registry returned status '' @ show_nat (unat status) @ '' for '' @ url"
| "oci_error_text NoDigestHeader = ''registry response missing Docker-Content-Digest''"
| "oci_error_text (InvalidDigest _) = ''registry returned a malformed Docker-Content-Digest''"
| "oci_error_text (AuthError s) = ''could not authenticate to registry: '' @ s"

definition is_lower_hex :: "char \<Rightarrow> bool" where
  "is_lower_hex b \<longleftrightarrow> is_ascii_digit b \<or> 97 \<le> (of_char b :: nat) \<and> (of_char b :: nat) \<le> 102"

definition is_valid_sha256_digest :: "string \<Rightarrow> bool" where
  "is_valid_sha256_digest digest = (case strip_prefix ''sha256:'' digest of
       Some hex \<Rightarrow> length hex = 64 \<and> list_all is_lower_hex hex
     | None \<Rightarrow> False)"

definition parse_image_ref :: "ref_parser \<Rightarrow> string \<Rightarrow> (oci_resolve_error, image_ref) result" where
  "parse_image_ref parse_ref image0 =
     (let image = str_trim image0
      in case parse_ref image of
           None \<Rightarrow> Inl (InvalidReference image)
         | Some reference \<Rightarrow>
             (let (text, is_digest) = (case (or_digest reference, or_tag reference) of
                  (Some digest, _) \<Rightarrow> (digest, True)
                | (None, Some tag) \<Rightarrow> (tag, False)
                | (None, None) \<Rightarrow> (''latest'', False))
              in Inr \<lparr>ir_host = or_resolve_registry reference, ir_repository = or_repository reference,
                      ir_reference = text, ir_is_digest = is_digest\<rparr>))"

subsection \<open>The registry protocol\<close>

record bearer_challenge =
  bc_realm :: string
  bc_service :: "string option"
  bc_scope :: "string option"

definition hex_upper :: "nat \<Rightarrow> char" where
  "hex_upper d = (if d < 10 then char_of (48 + d) else char_of (55 + d))"

text \<open>
  \<open>urlencode\<close> prints the code point of a character, here of an ASCII one: for others the
  source prints the hexadecimal code point and not its UTF-8 bytes.
\<close>

definition urlencode_char :: "char \<Rightarrow> string" where
  "urlencode_char c =
     (if is_ascii_alphanumeric c \<or> c \<in> set ''-_.~'' then [c]
      else [CHR ''%'', hex_upper (of_char c div 16), hex_upper (of_char c mod 16)])"

definition urlencode :: "string \<Rightarrow> string" where
  "urlencode s = concat (map urlencode_char s)"

definition token_url :: "bearer_challenge \<Rightarrow> string" where
  "token_url ch =
     (let params = (case bc_service ch of Some s \<Rightarrow> [''service='' @ urlencode s] | None \<Rightarrow> []) @
                   (case bc_scope ch of Some s \<Rightarrow> [''scope='' @ urlencode s] | None \<Rightarrow> [])
      in if params = [] then bc_realm ch else bc_realm ch @ ''?'' @ join ''&'' params)"

text \<open>The loop of \<open>split_auth_params\<close>: \<open>buf\<close> is the part read so far, in order.\<close>

fun split_auth_loop :: "bool \<Rightarrow> string \<Rightarrow> string \<Rightarrow> string list" where
  "split_auth_loop in_q buf [] = (if buf = [] then [] else [buf])"
| "split_auth_loop in_q buf (ch # s) =
     (if ch = CHR 34 then split_auth_loop (\<not> in_q) (buf @ [ch]) s
      else if ch = CHR '','' \<and> \<not> in_q then buf # split_auth_loop in_q [] s
      else split_auth_loop in_q (buf @ [ch]) s)"

definition split_auth_params :: "string \<Rightarrow> string list" where
  "split_auth_params s = split_auth_loop False [] s"

definition trim_quotes :: "string \<Rightarrow> string" where
  "trim_quotes v = rev (dropWhile (\<lambda>c. c = CHR 34) (rev (dropWhile (\<lambda>c. c = CHR 34) v)))"

fun challenge_loop ::
  "string list \<Rightarrow> string option \<times> string option \<times> string option \<Rightarrow>
   (string option \<times> string option \<times> string option) option" where
  "challenge_loop [] acc = Some acc"
| "challenge_loop (part # parts) (realm, service, scope) = (case split_once (CHR ''='') part of
       None \<Rightarrow> None
     | Some (k, v0) \<Rightarrow>
         (let v = trim_quotes (str_trim v0); k' = str_trim k
          in challenge_loop parts
               (if k' = ''realm'' then (Some v, service, scope)
                else if k' = ''service'' then (realm, Some v, scope)
                else if k' = ''scope'' then (realm, service, Some v)
                else (realm, service, scope))))"

definition parse_www_authenticate :: "string \<Rightarrow> bearer_challenge option" where
  "parse_www_authenticate header =
     Option.bind (strip_prefix ''Bearer '' header) (\<lambda>rest.
     Option.bind (challenge_loop (split_auth_params rest) (None, None, None)) (\<lambda>(realm, service, scope).
     map_option (\<lambda>r. \<lparr>bc_realm = r, bc_service = service, bc_scope = scope\<rparr>) realm))"

type_synonym json_reader = "u8 list \<Rightarrow> (string, json) result"

definition parse_token_response :: "json_reader \<Rightarrow> u8 list \<Rightarrow> (oci_resolve_error, string) result" where
  "parse_token_response from_slice body = (case from_slice body of
       Inl e \<Rightarrow> Inl (AuthError e)
     | Inr v \<Rightarrow> (case Option.bind (opt_or (json_get v ''token'') (json_get v ''access_token'')) as_str of
           Some t \<Rightarrow> Inr t
         | None \<Rightarrow> Inl (AuthError ''token response had no token'')))"

datatype registry_auth = Anonymous | Basic string string

definition DOCKER_HUB_HOST :: string where "DOCKER_HUB_HOST = ''index.docker.io''"

definition dockerhub_aliases :: "string \<Rightarrow> string list" where
  "dockerhub_aliases host =
     (if host = DOCKER_HUB_HOST \<or> host = ''docker.io'' \<or> host = ''index.docker.io''
      then [DOCKER_HUB_HOST, ''docker.io'', ''index.docker.io'', ''https://index.docker.io/v1/'']
      else [host])"

definition auth_from_dockerconfigjson ::
  "json_reader \<Rightarrow> (string \<Rightarrow> string option) \<Rightarrow> u8 list \<Rightarrow> string \<Rightarrow> (oci_resolve_error, registry_auth) result" where
  "auth_from_dockerconfigjson from_slice decode_utf8 dcj host = (case from_slice dcj of
       Inl e \<Rightarrow> Inl (AuthError e)
     | Inr v \<Rightarrow> (case Option.bind (json_get v ''auths'') as_object of
           None \<Rightarrow> Inr Anonymous
         | Some auths \<Rightarrow> (case find (\<lambda>(k, _). k \<in> set (dockerhub_aliases host)) auths of
               None \<Rightarrow> Inr Anonymous
             | Some (_, entry) \<Rightarrow> (case Option.bind (json_get entry ''auth'') as_str of
                   None \<Rightarrow> Inr Anonymous
                 | Some b64 \<Rightarrow> (case decode_utf8 b64 of
                       None \<Rightarrow> Inl (AuthError ''malformed auth field in credential'')
                     | Some decoded \<Rightarrow> (case split_once (CHR '':'') decoded of
                           Some (u, p) \<Rightarrow> Inr (Basic u p)
                         | None \<Rightarrow> Inr Anonymous))))))"

record http_req =
  rq_method :: string
  rq_url :: string
  rq_accept :: "string option"
  rq_bearer :: "string option"
  rq_basic :: "(string \<times> string) option"

record http_resp =
  rs_status :: u16
  rs_headers :: "string \<rightharpoonup> string"
  rs_body :: "u8 list"

type_synonym 'w registry_http = "http_req \<Rightarrow> 'w \<Rightarrow> (oci_resolve_error, http_resp) result \<times> 'w"

definition MANIFEST_ACCEPT :: string where
  "MANIFEST_ACCEPT = ''application/vnd.oci.image.index.v1+json, ''
     @ ''application/vnd.oci.image.manifest.v1+json, ''
     @ ''application/vnd.docker.distribution.manifest.list.v2+json, ''
     @ ''application/vnd.docker.distribution.manifest.v2+json''"

definition digest_ref :: "image_ref \<Rightarrow> string \<Rightarrow> string" where
  "digest_ref r digest = ir_host r @ ''/'' @ ir_repository r @ ''@'' @ digest"

definition manifest_digest :: "image_ref \<Rightarrow> string \<Rightarrow> http_resp \<Rightarrow> (oci_resolve_error, string) result" where
  "manifest_digest r url resp =
     (if rs_status resp \<noteq> 200 then Inl (HttpStatus (rs_status resp) url)
      else (case rs_headers resp ''docker-content-digest'' of
          None \<Rightarrow> Inl NoDigestHeader
        | Some digest \<Rightarrow>
            if \<not> is_valid_sha256_digest digest then Inl (InvalidDigest digest)
            else Inr (digest_ref r digest)))"

definition basic_of :: "registry_auth \<Rightarrow> (string \<times> string) option" where
  "basic_of auth = (case auth of Basic u p \<Rightarrow> Some (u, p) | Anonymous \<Rightarrow> None)"

definition exchange_token ::
  "json_reader \<Rightarrow> 'w registry_http \<Rightarrow> string \<Rightarrow> registry_auth \<Rightarrow> http_resp \<Rightarrow> 'w \<Rightarrow>
   (oci_resolve_error, http_resp) result \<times> 'w" where
  "exchange_token from_slice http manifest_url auth head w =
     (case Option.bind (rs_headers head ''www-authenticate'') parse_www_authenticate of
        None \<Rightarrow> (Inl (AuthError ''401 without a Bearer challenge''), w)
      | Some challenge \<Rightarrow>
          (case http \<lparr>rq_method = ''GET'', rq_url = token_url challenge, rq_accept = None, rq_bearer = None,
                      rq_basic = basic_of auth\<rparr> w of
             (Inl e, w1) \<Rightarrow> (Inl e, w1)
           | (Inr token_resp, w1) \<Rightarrow>
               if rs_status token_resp \<noteq> 200
               then (Inl (AuthError (''token endpoint returned '' @ show_nat (unat (rs_status token_resp)))), w1)
               else (case parse_token_response from_slice (rs_body token_resp) of
                       Inl e \<Rightarrow> (Inl e, w1)
                     | Inr token \<Rightarrow>
                         http \<lparr>rq_method = ''HEAD'', rq_url = manifest_url, rq_accept = Some MANIFEST_ACCEPT,
                               rq_bearer = Some token, rq_basic = None\<rparr> w1)))"

definition resolve_digest ::
  "ref_parser \<Rightarrow> json_reader \<Rightarrow> 'w registry_http \<Rightarrow> string \<Rightarrow> registry_auth \<Rightarrow> 'w \<Rightarrow>
   (oci_resolve_error, string) result \<times> 'w" where
  "resolve_digest parse_ref from_slice http img auth w = (case parse_image_ref parse_ref img of
       Inl e \<Rightarrow> (Inl e, w)
     | Inr r \<Rightarrow>
         if ir_is_digest r then (Inr (digest_ref r (ir_reference r)), w)
         else
          (let manifest_url = ''https://'' @ ir_host r @ ''/v2/'' @ ir_repository r @ ''/manifests/'' @ ir_reference r
           in case http \<lparr>rq_method = ''HEAD'', rq_url = manifest_url, rq_accept = Some MANIFEST_ACCEPT,
                         rq_bearer = None, rq_basic = basic_of auth\<rparr> w of
                (Inl e, w1) \<Rightarrow> (Inl e, w1)
              | (Inr head, w1) \<Rightarrow>
                  if rs_status head = 200 then (manifest_digest r manifest_url head, w1)
                  else if rs_status head = 401
                  then (case exchange_token from_slice http manifest_url auth head w1 of
                          (Inl e, w2) \<Rightarrow> (Inl e, w2)
                        | (Inr resp, w2) \<Rightarrow> (manifest_digest r manifest_url resp, w2))
                  else (Inl (HttpStatus (rs_status head) manifest_url), w1)))"

subsection \<open>What is rendered and recorded\<close>

record container = ct_name :: string  ct_image :: "string option"
record pod_spec = pds_containers :: "container list"
record pod_template = pt_spec :: "pod_spec option"
record deployment_spec = ds_template :: pod_template
record deployment =
  dep_name :: "string option"
  dep_annotations :: "string btreemap option"
  dep_spec :: "deployment_spec option"

definition ANN_IMAGE_REF :: string where "ANN_IMAGE_REF = ''apprafter.io/image-ref''"
definition ANN_IMAGE_PIN :: string where "ANN_IMAGE_PIN = ''apprafter.io/image-pin''"
definition ANN_IMAGE_PINNED_AT :: string where "ANN_IMAGE_PINNED_AT = ''apprafter.io/image-pinned-at''"
definition MIN_IMAGE_RESOLVE_INTERVAL_SECS :: int where "MIN_IMAGE_RESOLVE_INTERVAL_SECS = 60"

definition shift_previous ::
  "status_image option \<Rightarrow> string option \<Rightarrow> status_image_previous option" where
  "shift_previous prior new_resolved = (case prior of
       None \<Rightarrow> None
     | Some prior \<Rightarrow>
         (let moved = (case (si_resolved prior, new_resolved) of
                (Some p, Some d) \<Rightarrow> p \<noteq> d
              | _ \<Rightarrow> False)
          in if \<not> moved then si_previous prior
             else Some \<lparr>sip_resolved = si_resolved prior, sip_tag = si_tag prior,
                        sip_resolved_at = si_resolved_at prior\<rparr>))"

definition digest_into_repository_of :: "ref_parser \<Rightarrow> string \<Rightarrow> string \<Rightarrow> string option" where
  "digest_into_repository_of parse_ref candidate tag =
     (case parse_image_ref parse_ref candidate of
        Inl _ \<Rightarrow> None
      | Inr kept \<Rightarrow> (case parse_image_ref parse_ref tag of
            Inl _ \<Rightarrow> None
          | Inr wanted \<Rightarrow>
              (let same_repository = (ir_host kept = ir_host wanted \<and> ir_repository kept = ir_repository wanted)
               in if ir_is_digest kept \<and> is_valid_sha256_digest (ir_reference kept) \<and> same_repository
                  then Some candidate else None)))"

definition last_resolved_for :: "ref_parser \<Rightarrow> status_image option \<Rightarrow> string \<Rightarrow> string option" where
  "last_resolved_for parse_ref prior tag =
     Option.bind prior (\<lambda>prior.
       if si_tag prior \<noteq> Some tag then None
       else Option.bind (si_resolved prior) (\<lambda>r. digest_into_repository_of parse_ref r tag))"

definition running_image :: "deployment \<Rightarrow> string option" where
  "running_image running =
     Option.bind (dep_name running) (\<lambda>name.
     Option.bind (dep_spec running) (\<lambda>spec.
     Option.bind (pt_spec (ds_template spec)) (\<lambda>pod.
     Option.bind (find (\<lambda>c. ct_name c = name) (pds_containers pod)) ct_image)))"

definition running_digest_for :: "ref_parser \<Rightarrow> deployment option \<Rightarrow> string \<Rightarrow> string option" where
  "running_digest_for parse_ref running tag =
     Option.bind running (\<lambda>running.
     Option.bind (Option.bind (dep_annotations running) (\<lambda>m. map_of m ANN_IMAGE_REF)) (\<lambda>rendered_for.
       if rendered_for \<noteq> tag then None
       else Option.bind (running_image running) (\<lambda>img. digest_into_repository_of parse_ref img tag)))"

record resolution_outcome =
  ro_rendered :: "string option"
  ro_status :: status_image
  ro_failure :: "string option"

definition resolution_outcome ::
  "ref_parser \<Rightarrow> status_image option \<Rightarrow> deployment option \<Rightarrow> string \<Rightarrow>
   (oci_resolve_error, string) result \<Rightarrow> string \<Rightarrow> resolution_outcome" where
  "resolution_outcome parse_ref prior running tag attempt now =
     (let (rendered, resolved_at, failure) = (case attempt of
            Inr digest \<Rightarrow> (Some digest, Some now, None)
          | Inl e \<Rightarrow>
              (let recorded = last_resolved_for parse_ref prior tag;
                   kept = opt_or (running_digest_for parse_ref running tag) recorded;
                   confirmed_at = (case (kept, recorded) of
                       (Some kept, Some recorded) \<Rightarrow>
                         if kept = recorded then Option.bind prior si_resolved_at else None
                     | _ \<Rightarrow> None)
               in (kept, confirmed_at, Some (oci_error_text e))))
      in \<lparr>ro_rendered = rendered,
          ro_status = \<lparr>si_tag = Some tag, si_resolved = rendered, si_resolved_at = resolved_at,
                       si_previous = shift_previous prior rendered, si_pinned = None\<rparr>,
          ro_failure = failure\<rparr>)"

definition stamp_image_ref :: "deployment \<Rightarrow> string \<Rightarrow> deployment" where
  "stamp_image_ref d reference =
     d\<lparr>dep_annotations := Some (bt_insert ANN_IMAGE_REF reference (unwrap_or (dep_annotations d) []))\<rparr>"

text \<open>Times are nanoseconds; \<open>num_seconds\<close> of a duration truncates towards zero.\<close>

definition should_resolve_image ::
  "(string \<Rightarrow> int option) \<Rightarrow> status_image option \<Rightarrow> string \<Rightarrow> int \<Rightarrow> int \<Rightarrow> bool" where
  "should_resolve_image parse_time prior current_tag now min_interval_secs = (case prior of
       None \<Rightarrow> True
     | Some prior \<Rightarrow>
         if si_tag prior \<noteq> Some current_tag then True
         else if si_resolved prior = None then True
         else (case Option.bind (si_resolved_at prior) parse_time of
                 None \<Rightarrow> True
               | Some resolved_at \<Rightarrow> (now - resolved_at) sdiv 1000000000 \<ge> min_interval_secs))"

definition image_resolution_enabled :: "base_spec \<Rightarrow> bool" where
  "image_resolution_enabled spec \<longleftrightarrow> Option.bind (ab_image_policy spec) ip_resolve \<noteq> Some ''off''"

definition validate_pin :: "ref_parser \<Rightarrow> string \<Rightarrow> string option \<Rightarrow> (string, string) result" where
  "validate_pin parse_ref raw spec_image = (case parse_image_ref parse_ref raw of
       Inl e \<Rightarrow> Inl (''`'' @ raw @ ''` is not a valid image reference: '' @ oci_error_text e)
     | Inr parsed \<Rightarrow>
         if \<not> ir_is_digest parsed
         then Inl (''`'' @ raw @ ''` is not a digest reference - a pin must name `repo@sha256:...`'')
         else if \<not> is_valid_sha256_digest (ir_reference parsed)
         then Inl (''`'' @ ir_reference parsed @ ''` is not a canonical sha256 digest'')
         else (case spec_image of
             None \<Rightarrow> Inl ''the manifest declares no image to pin''
           | Some spec_image \<Rightarrow> (case parse_image_ref parse_ref spec_image of
                 Inl e \<Rightarrow> Inl (''manifest image `'' @ spec_image @ ''` is not a valid reference: '' @ oci_error_text e)
               | Inr spec_parsed \<Rightarrow>
                   (let pin_repo = ir_host parsed @ ''/'' @ ir_repository parsed;
                        spec_repo = ir_host spec_parsed @ ''/'' @ ir_repository spec_parsed
                    in if pin_repo \<noteq> spec_repo
                       then Inl (''pin names repository `'' @ pin_repo @ ''` but the manifest names `'' @ spec_repo @ ''`'')
                       else Inr raw))))"

definition read_pin :: "ref_parser \<Rightarrow> app_object \<Rightarrow> base_spec \<Rightarrow> (string, string) result option" where
  "read_pin parse_ref app effective =
     Option.bind (Option.bind (ao_annotations app) (\<lambda>m. map_of m ANN_IMAGE_PIN)) (\<lambda>v.
       let raw = str_trim v
       in if raw = [] then None else Some (validate_pin parse_ref raw (ab_image effective)))"

definition pin_placed_at :: "app_object \<Rightarrow> string option" where
  "pin_placed_at app = Option.bind (ao_annotations app) (\<lambda>m. map_of m ANN_IMAGE_PINNED_AT)"

datatype image_resolved_state =
    Resolved
  | Pinned (pin_digest: string) (pin_tag: string) (pin_app: string)
  | PinRejected (rej_why: string) (rej_tag: string)
  | ResolveFailed (rf_error: string) (rf_kept: "string option")

fun irs_ok :: "image_resolved_state \<Rightarrow> bool" where
  "irs_ok Resolved = True"
| "irs_ok (Pinned _ _ _) = True"
| "irs_ok (PinRejected _ _) = False"
| "irs_ok (ResolveFailed _ _) = False"

fun irs_reason :: "image_resolved_state \<Rightarrow> string" where
  "irs_reason Resolved = ''Resolved''"
| "irs_reason (Pinned _ _ _) = ''Pinned''"
| "irs_reason (PinRejected _ _) = ''PinRejected''"
| "irs_reason (ResolveFailed _ _) = ''ResolveFailed''"

fun irs_message :: "image_resolved_state \<Rightarrow> string" where
  "irs_message Resolved = ''image tag resolved to a registry digest''"
| "irs_message (Pinned digest tag app) =
     ''held at '' @ digest @ '' by rollback; not following '' @ tag @ '' - ''
       @ ''resume with `apprafter app unpin '' @ app @ ''`''"
| "irs_message (PinRejected why tag) = ''image pin ignored ('' @ why @ ''); the app is following '' @ tag"
| "irs_message (ResolveFailed e (Some kept)) =
     ''ResolveFailed: '' @ e @ ''; keeping '' @ kept @ '', the digest last rendered ''
       @ ''for this tag, until the registry answers''"
| "irs_message (ResolveFailed e None) =
     ''ResolveFailed: '' @ e @ ''; nothing has been resolved for this tag yet, so it is rendered as written''"

definition image_resolved_condition ::
  "string \<Rightarrow> image_resolved_state \<Rightarrow> application_condition list \<Rightarrow> application_condition" where
  "image_resolved_condition now state previous =
     (let status = (if irs_ok state then ''True'' else ''False'');
          reason = irs_reason state
      in \<lparr>ac_type = ''ImageResolved'', ac_status = status,
          ac_last_transition_time = unwrap_or (map_option ac_last_transition_time
            (find (\<lambda>c. ac_type c = ''ImageResolved'' \<and> ac_status c = status \<and> ac_reason c = reason) previous)) now,
          ac_reason = reason, ac_message = irs_message state, ac_observed_generation = None\<rparr>)"

subsection \<open>The image part of a pass\<close>

text \<open>
  What a pass reads: the parsers, the clock (in nanoseconds and printed), the answer of the
  registry for a tag, and the running Deployment or the error of reading it.
\<close>

record image_env =
  ie_parse_ref :: ref_parser
  ie_parse_time :: "string \<Rightarrow> int option"
  ie_now :: int
  ie_now_text :: string
  ie_attempt :: "string \<Rightarrow> (oci_resolve_error, string) result"
  ie_running :: "(string, deployment option) result"

definition running_on_failure ::
  "(string, deployment option) result \<Rightarrow> (oci_resolve_error, string) result \<Rightarrow> (string, deployment option) result" where
  "running_on_failure get attempt = (case attempt of Inr _ \<Rightarrow> Inr None | Inl _ \<Rightarrow> get)"

definition attempt_resolution ::
  "image_env \<Rightarrow> status_image option \<Rightarrow> string \<Rightarrow> (string, resolution_outcome) result" where
  "attempt_resolution ie prior tag =
     result_bind (running_on_failure (ie_running ie) (ie_attempt ie tag)) (\<lambda>running.
       Inr (resolution_outcome (ie_parse_ref ie) prior running tag (ie_attempt ie tag) (ie_now_text ie)))"

type_synonym image_result = "string option \<times> status_image option \<times> image_resolved_state option"

definition follow_tag ::
  "image_env \<Rightarrow> status_image option \<Rightarrow> string \<Rightarrow> (string, image_result) result" where
  "follow_tag ie prior tag =
     (if \<not> should_resolve_image (ie_parse_time ie) prior tag (ie_now ie) MIN_IMAGE_RESOLVE_INTERVAL_SECS
      then Inr (Option.bind prior si_resolved, prior, Some Resolved)
      else result_bind (attempt_resolution ie prior tag) (\<lambda>outcome.
        Inr (ro_rendered outcome, Some (ro_status outcome),
          Some (case ro_failure outcome of
                  None \<Rightarrow> Resolved
                | Some e \<Rightarrow> ResolveFailed e (ro_rendered outcome)))))"

definition unresolved_image :: "status_image option \<Rightarrow> string option \<Rightarrow> image_result" where
  "unresolved_image prior img =
     (None,
      (case Option.bind prior si_previous of
         Some prev \<Rightarrow> Some \<lparr>si_tag = img, si_resolved = None, si_resolved_at = None,
                            si_previous = Some prev, si_pinned = None\<rparr>
       | None \<Rightarrow> None),
      None)"

definition resolve_image ::
  "image_env \<Rightarrow> app_object \<Rightarrow> base_spec \<Rightarrow> (string, image_result) result" where
  "resolve_image ie app effective =
     (let prior = existing_image app; img = ab_image effective
      in case read_pin (ie_parse_ref ie) app effective of
           Some (Inr pinned) \<Rightarrow>
             Inr (Some pinned,
               Some \<lparr>si_tag = img, si_resolved = Some pinned, si_resolved_at = None,
                     si_previous = Option.bind prior si_previous,
                     si_pinned = Some \<lparr>spn_resolved = Some pinned, spn_at = pin_placed_at app\<rparr>\<rparr>,
               Some (Pinned pinned (unwrap_or img ''its tag'') (ao_name app)))
         | Some (Inl reject) \<Rightarrow> (case img of
             Some tag \<Rightarrow>
               if image_resolution_enabled effective
               then result_bind (attempt_resolution ie prior tag) (\<lambda>outcome.
                      Inr (ro_rendered outcome, Some (ro_status outcome), Some (PinRejected reject tag)))
               else Inr (unresolved_image prior img)
           | None \<Rightarrow> Inr (unresolved_image prior img))
         | None \<Rightarrow> (case img of
             Some tag \<Rightarrow>
               if image_resolution_enabled effective then follow_tag ie prior tag
               else Inr (unresolved_image prior img)
           | None \<Rightarrow> Inr (unresolved_image prior img)))"

subsection \<open>Rendered images stay in the repository of the manifest\<close>

definition in_repository :: "ref_parser \<Rightarrow> string \<Rightarrow> string \<Rightarrow> bool" where
  "in_repository parse_ref candidate tag = (case (parse_image_ref parse_ref candidate, parse_image_ref parse_ref tag) of
       (Inr a, Inr b) \<Rightarrow> ir_is_digest a \<and>
         ir_host a @ ''/'' @ ir_repository a = ir_host b @ ''/'' @ ir_repository b
     | _ \<Rightarrow> False)"

definition image_record_ok :: "ref_parser \<Rightarrow> status_image \<Rightarrow> bool" where
  "image_record_ok parse_ref st = (case (si_tag st, si_resolved st) of
       (Some tag, Some r) \<Rightarrow> in_repository parse_ref r tag
     | (None, Some r) \<Rightarrow> False
     | _ \<Rightarrow> True)"

text \<open>
  The documented behaviour of the reference grammar that the code relies on: registry and
  repository of a parsed reference, joined with a digest, parse back to the same registry
  and repository.
\<close>

definition rejoin_law :: "ref_parser \<Rightarrow> bool" where
  "rejoin_law parse_ref \<longleftrightarrow> (\<forall>img r d. parse_image_ref parse_ref img = Inr r \<longrightarrow>
     is_valid_sha256_digest d \<or> ir_is_digest r \<and> d = ir_reference r \<longrightarrow>
     (\<exists>r'. parse_image_ref parse_ref (digest_ref r d) = Inr r' \<and> ir_is_digest r' \<and>
           ir_host r' = ir_host r \<and> ir_repository r' = ir_repository r))"

lemma manifest_digest_Inr:
  "manifest_digest r url resp = Inr x \<Longrightarrow> \<exists>d. is_valid_sha256_digest d \<and> x = digest_ref r d"
  by (auto simp: manifest_digest_def split: if_splits option.splits)

lemma resolve_digest_Inr:
  assumes "fst (resolve_digest parse_ref from_slice http img auth w) = Inr x"
  shows "\<exists>r d. parse_image_ref parse_ref img = Inr r \<and> x = digest_ref r d \<and>
     (is_valid_sha256_digest d \<or> ir_is_digest r \<and> d = ir_reference r)"
proof (cases "parse_image_ref parse_ref img")
  case (Inl e)
  with assms show ?thesis by (simp add: resolve_digest_def)
next
  case (Inr r)
  show ?thesis
  proof (cases "ir_is_digest r")
    case True
    with assms Inr have "x = digest_ref r (ir_reference r)" by (simp add: resolve_digest_def)
    with True Inr show ?thesis by blast
  next
    case False
    with assms Inr obtain url resp where "manifest_digest r url resp = Inr x"
      by (fastforce simp: resolve_digest_def Let_def split: prod.splits sum.splits if_splits)
    from manifest_digest_Inr [OF this] Inr show ?thesis by blast
  qed
qed

lemma resolve_digest_in_repository:
  assumes "rejoin_law parse_ref" and "fst (resolve_digest parse_ref from_slice http img auth w) = Inr x"
  shows "in_repository parse_ref x img"
  using resolve_digest_Inr [OF assms(2)] assms(1)
  by (fastforce simp: rejoin_law_def in_repository_def)

lemma digest_into_repository:
  "digest_into_repository_of parse_ref c tag = Some x \<Longrightarrow> x = c \<and> in_repository parse_ref c tag"
  by (auto simp: digest_into_repository_of_def in_repository_def Let_def split: sum.splits if_splits)

lemma running_digest_Some:
  "running_digest_for parse_ref running tag = Some x \<Longrightarrow>
     in_repository parse_ref x tag \<and> (\<exists>d. running = Some d \<and> running_image d = Some x)"
  by (auto simp: running_digest_for_def Option.bind_eq_Some_conv split: if_splits dest!: digest_into_repository)

lemma last_resolved_Some:
  "last_resolved_for parse_ref prior tag = Some x \<Longrightarrow>
     in_repository parse_ref x tag \<and> (\<exists>st. prior = Some st \<and> si_tag st = Some tag \<and> si_resolved st = Some x)"
  by (auto simp: last_resolved_for_def Option.bind_eq_Some_conv split: if_splits dest!: digest_into_repository)

lemma validate_pin_Inr:
  assumes "validate_pin parse_ref raw img = Inr x"
  shows "x = raw \<and> (\<exists>tag. img = Some tag \<and> in_repository parse_ref raw tag)"
proof (cases img)
  case None
  with assms show ?thesis by (simp add: validate_pin_def split: sum.splits if_splits)
next
  case (Some tag)
  with assms have "x = raw" and "in_repository parse_ref raw tag"
    by (auto simp: validate_pin_def in_repository_def Let_def split: sum.splits if_splits)
  with Some show ?thesis by simp
qed

lemma read_pin_Inr:
  assumes "read_pin parse_ref app eff = Some (Inr x)"
  shows "\<exists>tag. ab_image eff = Some tag \<and> in_repository parse_ref x tag"
  using assms validate_pin_Inr by (fastforce simp: read_pin_def Let_def Option.bind_eq_Some_conv split: if_splits)

lemma opt_or_Some: "opt_or a b = Some x \<longleftrightarrow> a = Some x \<or> a = None \<and> b = Some x"
  by (cases a) auto

lemma outcome_rendered:
  assumes "\<And>d. attempt = Inr d \<Longrightarrow> in_repository parse_ref d tag"
    and "ro_rendered (resolution_outcome parse_ref prior running tag attempt now) = Some x"
  shows "in_repository parse_ref x tag"
  using assms
  by (auto simp: resolution_outcome_def Let_def opt_or_Some split: sum.splits
      dest: running_digest_Some last_resolved_Some)

lemma outcome_status:
  "si_tag (ro_status (resolution_outcome parse_ref prior running tag attempt now)) = Some tag"
  "si_resolved (ro_status (resolution_outcome parse_ref prior running tag attempt now)) =
     ro_rendered (resolution_outcome parse_ref prior running tag attempt now)"
  "si_previous (ro_status (resolution_outcome parse_ref prior running tag attempt now)) =
     shift_previous prior (ro_rendered (resolution_outcome parse_ref prior running tag attempt now))"
  by (simp_all add: resolution_outcome_def Let_def case_prod_beta)

lemma attempt_Inr:
  assumes "attempt_resolution ie prior tag = Inr oc"
  obtains running where "oc = resolution_outcome (ie_parse_ref ie) prior running tag (ie_attempt ie tag) (ie_now_text ie)"
  using assms by (auto simp: attempt_resolution_def result_bind_def split: sum.splits)

text \<open>The three ways a pass gets its result, for case analyses over \<open>resolve_image\<close>.\<close>

lemma resolve_image_cases:
  assumes "resolve_image ie app eff = Inr (rendered, status, cond)"
  obtains (pinned) p st where "read_pin (ie_parse_ref ie) app eff = Some (Inr p)" "rendered = Some p"
      "status = Some st" "si_tag st = ab_image eff" "si_resolved st = Some p"
      "si_previous st = Option.bind (existing_image app) si_previous"
    | (attempted) tag oc where "ab_image eff = Some tag" "image_resolution_enabled eff"
      "attempt_resolution ie (existing_image app) tag = Inr oc" "rendered = ro_rendered oc" "status = Some (ro_status oc)"
    | (cached) tag where "ab_image eff = Some tag" "image_resolution_enabled eff"
      "\<not> should_resolve_image (ie_parse_time ie) (existing_image app) tag (ie_now ie) MIN_IMAGE_RESOLVE_INTERVAL_SECS"
      "rendered = Option.bind (existing_image app) si_resolved" "status = existing_image app"
    | (verbatim) "(rendered, status, cond) = unresolved_image (existing_image app) (ab_image eff)"
proof (cases "read_pin (ie_parse_ref ie) app eff")
  case None
  show thesis
  proof (cases "ab_image eff")
    case None
    with \<open>read_pin _ _ _ = None\<close> assms show thesis by (intro verbatim) (simp add: resolve_image_def)
  next
    case (Some tag)
    show thesis
    proof (cases "image_resolution_enabled eff")
      case True
      with \<open>read_pin _ _ _ = None\<close> Some assms have "follow_tag ie (existing_image app) tag = Inr (rendered, status, cond)"
        by (simp add: resolve_image_def)
      note follow = this
      show thesis
      proof (cases "should_resolve_image (ie_parse_time ie) (existing_image app) tag (ie_now ie) MIN_IMAGE_RESOLVE_INTERVAL_SECS")
        case False
        with follow show thesis by (intro cached [OF Some True False]) (auto simp: follow_tag_def)
      next
        case now: True
        show thesis
        proof (cases "attempt_resolution ie (existing_image app) tag")
          case (Inl e)
          with follow now show thesis by (simp add: follow_tag_def)
        next
          case (Inr oc)
          with follow now show thesis by (intro attempted [OF Some True Inr]) (simp_all add: follow_tag_def)
        qed
      qed
    next
      case False
      with \<open>read_pin _ _ _ = None\<close> Some assms show thesis by (intro verbatim) (simp add: resolve_image_def)
    qed
  qed
next
  case (Some v)
  show thesis
  proof (cases v)
    case (Inr p)
    with Some assms show thesis by (intro pinned) (auto simp: resolve_image_def Let_def)
  next
    case (Inl e)
    show thesis
    proof (cases "\<exists>tag. ab_image eff = Some tag \<and> image_resolution_enabled eff")
      case True
      then obtain tag where tag: "ab_image eff = Some tag" "image_resolution_enabled eff" by blast
      show thesis
      proof (cases "attempt_resolution ie (existing_image app) tag")
        case (Inl e')
        with Some \<open>v = Inl e\<close> tag assms show thesis by (simp add: resolve_image_def)
      next
        case (Inr oc)
        with Some \<open>v = Inl e\<close> tag assms show thesis by (intro attempted [OF tag Inr]) (simp_all add: resolve_image_def)
      qed
    next
      case False
      with Some Inl assms show thesis
        by (intro verbatim) (auto simp: resolve_image_def Let_def split: option.splits)
    qed
  qed
qed

lemma throttled:
  assumes "\<not> should_resolve_image pt prior tag now m"
  obtains st r where "prior = Some st" "si_tag st = Some tag" "si_resolved st = Some r"
  using assms by (auto simp: should_resolve_image_def split: option.splits if_splits)

lemma unresolved_image_simps:
  "fst (unresolved_image prior img) = None"
  "fst (snd (unresolved_image prior img)) = Some st \<Longrightarrow>
     si_resolved st = None \<and> si_previous st = Option.bind prior si_previous"
  "Option.bind prior si_previous = Some p \<Longrightarrow> fst (snd (unresolved_image prior img)) \<noteq> None"
  by (auto simp: unresolved_image_def split: option.splits)

text \<open>
  Whatever a pass renders in place of the tag is a digest in the very repository that
  the manifest names: a fresh answer of the registry, a pin, the digest of the running
  Deployment or a recorded one. The record in the status keeps that property, on which the
  throttled pass relies when it renders the recorded digest without a check.
\<close>

lemma rendered_image_stays_in_repository:
  assumes law: "rejoin_law (ie_parse_ref ie)"
    and registry: "\<And>tag. ie_attempt ie tag = fst (resolve_digest (ie_parse_ref ie) from_slice http tag (auth tag) w)"
    and recorded: "\<And>st. existing_image app = Some st \<Longrightarrow> image_record_ok (ie_parse_ref ie) st"
    and pass: "resolve_image ie app eff = Inr (rendered, status, cond)"
  shows "(\<forall>r. rendered = Some r \<longrightarrow> (\<exists>tag. ab_image eff = Some tag \<and> in_repository (ie_parse_ref ie) r tag)) \<and>
         (\<forall>st. status = Some st \<longrightarrow> image_record_ok (ie_parse_ref ie) st)"
  using pass
proof (cases rule: resolve_image_cases)
  case (pinned p st)
  with read_pin_Inr [OF pinned(1)] show ?thesis by (auto simp: image_record_ok_def)
next
  case (attempted tag oc)
  have "\<And>d. ie_attempt ie tag = Inr d \<Longrightarrow> in_repository (ie_parse_ref ie) d tag"
    using resolve_digest_in_repository [OF law] registry by metis
  with attempted attempt_Inr [OF attempted(3)] outcome_rendered
  have "\<And>r. ro_rendered oc = Some r \<Longrightarrow> in_repository (ie_parse_ref ie) r tag" by metis
  moreover have "si_tag (ro_status oc) = Some tag" "si_resolved (ro_status oc) = ro_rendered oc"
    using attempt_Inr [OF attempted(3)] outcome_status by metis+
  ultimately show ?thesis using attempted by (auto simp: image_record_ok_def split: option.splits)
next
  case (cached tag)
  from throttled [OF cached(3)] obtain st r where "existing_image app = Some st" "si_tag st = Some tag"
    "si_resolved st = Some r" by metis
  with recorded [of st] cached show ?thesis by (auto simp: image_record_ok_def)
next
  case verbatim
  then have "rendered = None" "status = fst (snd (unresolved_image (existing_image app) (ab_image eff)))"
    by (metis fst_conv unresolved_image_simps(1), metis fst_conv snd_conv)
  with unresolved_image_simps(2) show ?thesis by (auto simp: image_record_ok_def split: option.splits)
qed

subsection \<open>The rollback target\<close>

text \<open>
  C40. The rollback target is never lost: once the status records a previous image, every
  pass that records an image (pinned, throttled, resolved, failed, resolution switched off)
  records one again, and it is the old one unless the recorded digest really moved, when it
  is the digest that was recorded until then.
\<close>

theorem rollback_target_survives:
  assumes pass: "resolve_image ie app eff = Inr (rendered, status, cond)"
    and prior: "existing_image app = Some old" "si_previous old = Some p"
  shows "\<exists>st p'. status = Some st \<and> si_previous st = Some p' \<and>
    (p' = p \<or> sip_resolved p' = si_resolved old \<and> sip_tag p' = si_tag old \<and>
              si_resolved old \<noteq> None \<and> si_resolved st \<noteq> None \<and> si_resolved st \<noteq> si_resolved old)"
  using pass
proof (cases rule: resolve_image_cases)
  case (attempted tag oc)
  have "si_previous (ro_status oc) = shift_previous (Some old) (ro_rendered oc)" "si_resolved (ro_status oc) = ro_rendered oc"
    using attempt_Inr [OF attempted(3)] outcome_status prior(1) by metis+
  with attempted prior(2) show ?thesis by (auto simp: shift_previous_def Let_def split: option.splits if_splits)
next
  case verbatim
  then have "status = fst (snd (unresolved_image (Some old) (ab_image eff)))" using prior(1) by (metis fst_conv snd_conv)
  with unresolved_image_simps(2,3) [of "Some old"] prior(2) show ?thesis by fastforce
qed (use prior in auto)

subsection \<open>Pins and outages\<close>

lemma validate_pin_digest:
  "validate_pin parse_ref raw img = Inr x \<Longrightarrow>
     \<exists>r. parse_image_ref parse_ref raw = Inr r \<and> ir_is_digest r \<and> is_valid_sha256_digest (ir_reference r)"
  by (auto simp: validate_pin_def split: sum.splits if_splits)

text \<open>
  A valid pin holds: whatever the registry answers, whether it answers, and whatever runs
  or was recorded, the pass renders the pinned reference, which is a canonical digest in the
  repository of the manifest's image, and reports it as pinned.
\<close>

lemma pin_holds:
  assumes "read_pin (ie_parse_ref ie) app eff = Some (Inr p)"
  shows "\<exists>st tag. resolve_image ie app eff = Inr (Some p, Some st, Some (Pinned p tag (ao_name app))) \<and>
    ab_image eff = Some tag \<and> in_repository (ie_parse_ref ie) p tag \<and>
    (\<exists>r. parse_image_ref (ie_parse_ref ie) p = Inr r \<and> is_valid_sha256_digest (ir_reference r)) \<and>
    si_resolved_at st = None"
proof -
  from assms obtain raw where "validate_pin (ie_parse_ref ie) raw (ab_image eff) = Inr p"
    by (auto simp: read_pin_def Let_def Option.bind_eq_Some_conv split: if_splits)
  with validate_pin_digest validate_pin_Inr
  have "\<exists>r. parse_image_ref (ie_parse_ref ie) p = Inr r \<and> is_valid_sha256_digest (ir_reference r)" by metis
  moreover from read_pin_Inr [OF assms] obtain tag where
    "ab_image eff = Some tag" "in_repository (ie_parse_ref ie) p tag" by blast
  ultimately show ?thesis using assms by (simp add: resolve_image_def Let_def)
qed

lemma outcome_failure:
  "ro_rendered (resolution_outcome pr prior running tag (Inl e) now) =
     opt_or (running_digest_for pr running tag) (last_resolved_for pr prior tag)"
  "ro_failure (resolution_outcome pr prior running tag (Inl e) now) = Some (oci_error_text e)"
  by (simp_all add: resolution_outcome_def Let_def)

lemma sdiv_ge_mono:
  fixes a b :: int
  assumes "0 < m" and "m \<le> a sdiv 1000000000" and "a \<le> b"
  shows "m \<le> b sdiv 1000000000"
proof -
  have "a > 0" using assms(1,2) by (rule_tac ccontr) (auto simp: signed_divide_int_def sgn_if split: if_splits)
  with assms(2,3) show ?thesis by (simp add: signed_divide_int_def)
qed

text \<open>The time carried with a kept digest lies outside the window, so the next pass asks again.\<close>

lemma failure_rearms:
  assumes due: "should_resolve_image pt prior tag now m" and "0 < m" and "now \<le> later"
  shows "should_resolve_image pt (Some (ro_status (resolution_outcome pr prior running tag (Inl e) text))) tag later m"
proof -
  let ?kept = "opt_or (running_digest_for pr running tag) (last_resolved_for pr prior tag)"
  let ?st = "ro_status (resolution_outcome pr prior running tag (Inl e) text)"
  have at: "si_resolved_at ?st = (case (?kept, last_resolved_for pr prior tag) of
      (Some k, Some r) \<Rightarrow> if k = r then Option.bind prior si_resolved_at else None | _ \<Rightarrow> None)"
    by (simp add: resolution_outcome_def Let_def)
  consider (none) "si_resolved_at ?st = None"
    | (kept) old where "prior = Some old" "si_tag old = Some tag" "si_resolved old \<noteq> None"
        "si_resolved_at ?st = si_resolved_at old"
  proof (cases "si_resolved_at ?st = None")
    case False
    with at obtain r where r: "last_resolved_for pr prior tag = Some r"
      and "si_resolved_at ?st = Option.bind prior si_resolved_at" by (auto split: option.splits if_splits)
    with last_resolved_Some [OF r] kept show thesis by auto
  qed (rule none)
  then show ?thesis
  proof cases
    case none
    then show ?thesis by (simp add: should_resolve_image_def)
  next
    case kept
    with due sdiv_ge_mono [OF assms(2)] assms(3) show ?thesis
      by (auto simp: should_resolve_image_def split: option.splits if_splits)
  qed
qed

text \<open>
  A registry outage does not roll the application: when a lookup that was due fails and
  the running Deployment says it was rendered for this tag with a digest of its repository,
  the pass renders exactly the image that runs, reports the failure, and leaves a record
  that makes every later pass ask the registry again.
\<close>

lemma outage_keeps_the_running_image:
  assumes "read_pin (ie_parse_ref ie) app eff = None" and "ab_image eff = Some tag"
    and "image_resolution_enabled eff"
    and due: "should_resolve_image (ie_parse_time ie) (existing_image app) tag (ie_now ie) MIN_IMAGE_RESOLVE_INTERVAL_SECS"
    and "ie_attempt ie tag = Inl e" and "ie_running ie = Inr (Some d)"
    and running: "running_digest_for (ie_parse_ref ie) (Some d) tag = Some img"
  shows "\<exists>st. resolve_image ie app eff = Inr (Some img, Some st, Some (ResolveFailed (oci_error_text e) (Some img))) \<and>
    running_image d = Some img \<and>
    (\<forall>later \<ge> ie_now ie. should_resolve_image (ie_parse_time ie) (Some st) tag later MIN_IMAGE_RESOLVE_INTERVAL_SECS)"
proof -
  let ?oc = "resolution_outcome (ie_parse_ref ie) (existing_image app) (Some d) tag (Inl e) (ie_now_text ie)"
  have "resolve_image ie app eff = Inr (ro_rendered ?oc, Some (ro_status ?oc), Some (ResolveFailed (oci_error_text e) (ro_rendered ?oc)))"
    using assms by (simp add: resolve_image_def follow_tag_def attempt_resolution_def running_on_failure_def outcome_failure(2) Let_def)
  moreover have "ro_rendered ?oc = Some img" using running by (simp add: outcome_failure(1))
  moreover have "running_image d = Some img" using running_digest_Some [OF running] by simp
  moreover have "\<forall>later \<ge> ie_now ie. should_resolve_image (ie_parse_time ie) (Some (ro_status ?oc)) tag later
      MIN_IMAGE_RESOLVE_INTERVAL_SECS"
    using failure_rearms [OF due] by (simp add: MIN_IMAGE_RESOLVE_INTERVAL_SECS_def)
  ultimately show ?thesis by simp
qed

text \<open>
  A failed lookup does not always carry the rollback target on untouched: when the running
  Deployment is ahead of the record (the pass that applied it did not get to write the
  status), the failure keeps the running digest and the recorded one becomes the target.
\<close>

lemma failed_lookup_shifts_when_deployment_is_ahead:
  assumes "si_resolved old = Some recorded" and "running_digest_for pr running tag = Some img" and "img \<noteq> recorded"
  shows "si_previous (ro_status (resolution_outcome pr (Some old) running tag (Inl e) now)) =
    Some \<lparr>sip_resolved = Some recorded, sip_tag = si_tag old, sip_resolved_at = si_resolved_at old\<rparr>"
  using assms by (simp add: outcome_status(3) outcome_failure(1) shift_previous_def)

subsection \<open>The challenge of a registry\<close>

lemma split_auth_quoted: "CHR 34 \<notin> set v \<Longrightarrow> split_auth_loop True buf (v @ rest) = split_auth_loop True (buf @ v) rest"
  by (induction v arbitrary: buf) auto

lemma split_auth_plain:
  "CHR 34 \<notin> set v \<Longrightarrow> CHR '','' \<notin> set v \<Longrightarrow> split_auth_loop False buf (v @ rest) = split_auth_loop False (buf @ v) rest"
  by (induction v arbitrary: buf) auto

definition auth_param :: "string \<Rightarrow> string \<Rightarrow> string" where
  "auth_param k v = k @ ''='' @ [CHR 34] @ v @ [CHR 34]"

lemma split_auth_param:
  assumes "CHR 34 \<notin> set k" "CHR '','' \<notin> set k" "CHR 34 \<notin> set v"
  shows "split_auth_loop False [] (auth_param k v) = [auth_param k v]"
    and "split_auth_loop False [] (auth_param k v @ '','' @ rest) = auth_param k v # split_auth_loop False [] rest"
  using assms by (simp_all add: auth_param_def split_auth_plain split_auth_quoted)

lemma trim_quotes_param: "CHR 34 \<notin> set v \<Longrightarrow> trim_quotes (str_trim (CHR 34 # v @ [CHR 34])) = v"
proof -
  assume v: "CHR 34 \<notin> set v"
  have q: "\<not> is_ws (CHR 34)" by (simp add: is_ws_def)
  have "str_trim (CHR 34 # v @ [CHR 34]) = CHR 34 # v @ [CHR 34]" by (simp add: str_trim_def trim_start_def q)
  moreover have "dropWhile (\<lambda>c. c = CHR 34) (v @ [CHR 34]) = (if v = [] then [] else v @ [CHR 34])"
    using v by (cases v) auto
  moreover have "dropWhile (\<lambda>c. c = CHR 34) (rev v) = rev v" using v by (cases "rev v") (auto simp: dropWhile_eq_self_iff)
  ultimately show ?thesis by (simp add: trim_quotes_def)
qed

lemma challenge_param:
  assumes "CHR ''='' \<notin> set k" and "str_trim k = k" and "CHR 34 \<notin> set v"
  shows "challenge_loop (auth_param k v # ps) (a, b, c) = challenge_loop ps
    (if k = ''realm'' then (Some v, b, c) else if k = ''service'' then (a, Some v, c)
     else if k = ''scope'' then (a, b, Some v) else (a, b, c))"
  using assms by (simp add: auth_param_def trim_quotes_param)

text \<open>
  A bearer challenge is read back: a header with quoted realm, service and scope parses to
  exactly these values, also when they contain commas and equals signs.
\<close>

lemma challenge_roundtrip:
  assumes "CHR 34 \<notin> set realm" and "CHR 34 \<notin> set service" and "CHR 34 \<notin> set scope"
  shows "parse_www_authenticate (''Bearer '' @ auth_param ''realm'' realm @ '','' @ auth_param ''service'' service
      @ '','' @ auth_param ''scope'' scope) =
    Some \<lparr>bc_realm = realm, bc_service = Some service, bc_scope = Some scope\<rparr>"
proof -
  have "split_auth_params (auth_param ''realm'' realm @ '','' @ auth_param ''service'' service @ '','' @ auth_param ''scope'' scope) =
      [auth_param ''realm'' realm, auth_param ''service'' service, auth_param ''scope'' scope]"
    using assms by (simp add: split_auth_params_def split_auth_param split_auth_param(2) [simplified])
  moreover have "str_trim ''realm'' = ''realm''" "str_trim ''service'' = ''service''" "str_trim ''scope'' = ''scope''" by code_simp+
  ultimately show ?thesis
    using assms unfolding parse_www_authenticate_def strip_prefix_append
    by (simp add: challenge_param del: challenge_loop.simps(2))
qed

subsection \<open>A concrete registry\<close>

text \<open>A small reference grammar, \<open>host/repository[:tag][@digest]\<close> without white space.\<close>

definition simple_ref :: ref_parser where
  "simple_ref img =
     (if list_ex is_ws img then None
      else (let (name, digest) = (case split_once (CHR ''@'') img of
                 Some (n, d) \<Rightarrow> (n, Some d) | None \<Rightarrow> (img, None))
            in case split_once (CHR ''/'') name of
                 None \<Rightarrow> None
               | Some (h, rest) \<Rightarrow>
                   (let (repo, tag) = (case split_once (CHR '':'') rest of
                          Some (r, t) \<Rightarrow> (r, t) | None \<Rightarrow> (rest, ''latest''))
                    in Some \<lparr>or_resolve_registry = h, or_repository = repo, or_tag = Some tag, or_digest = digest\<rparr>)))"

lemma no_ws_trim: "\<not> list_ex is_ws s \<Longrightarrow> str_trim s = s"
proof -
  assume "\<not> list_ex is_ws s"
  then have "dropWhile is_ws s = s" "dropWhile is_ws (rev s) = rev s"
    by (auto simp: list_ex_iff dropWhile_eq_self_iff hd_rev)
  then show ?thesis by (simp add: str_trim_def trim_start_def)
qed

lemma simple_ref_Some:
  assumes "simple_ref img = Some r"
  shows "CHR ''/'' \<notin> set (or_resolve_registry r)" "CHR ''@'' \<notin> set (or_resolve_registry r @ or_repository r)"
    "CHR '':'' \<notin> set (or_repository r)"
    "\<not> list_ex is_ws (or_resolve_registry r @ or_repository r @ unwrap_or (or_digest r) [])"
  using assms
  by (auto simp: simple_ref_def Let_def split: if_splits option.splits prod.splits
      dest!: split_once_Some)

lemma valid_digest_no_ws: "is_valid_sha256_digest d \<Longrightarrow> \<not> list_ex is_ws d"
  by (auto simp: is_valid_sha256_digest_def strip_prefix_Some list_all_iff list_ex_iff is_lower_hex_def
      is_ascii_digit_def is_ws_def split: option.splits)

lemma simple_ref_rejoin:
  assumes r: "simple_ref img = Some r" and d: "\<not> list_ex is_ws d"
  shows "simple_ref (or_resolve_registry r @ ''/'' @ or_repository r @ ''@'' @ d) =
    Some \<lparr>or_resolve_registry = or_resolve_registry r, or_repository = or_repository r,
          or_tag = Some ''latest'', or_digest = Some d\<rparr>"
proof -
  note parts = simple_ref_Some [OF r]
  have "split_once (CHR ''@'') (or_resolve_registry r @ ''/'' @ or_repository r @ ''@'' @ d) =
      Some (or_resolve_registry r @ ''/'' @ or_repository r, d)"
    using split_once_sep [of "CHR ''@''" "or_resolve_registry r @ ''/'' @ or_repository r" d] parts(2) by simp
  moreover have "\<not> list_ex is_ws (or_resolve_registry r @ ''/'' @ or_repository r @ ''@'' @ d)"
    using parts(4) d by (simp add: is_ws_def)
  moreover have "split_once (CHR '':'') (or_repository r) = None" using parts(3) by simp
  ultimately show ?thesis using parts(1) by (simp add: simple_ref_def Let_def del: split_once_None)
qed

lemma rejoin_simple_ref: "rejoin_law simple_ref"
  unfolding rejoin_law_def
proof (intro allI impI)
  fix img r d
  assume r: "parse_image_ref simple_ref img = Inr r"
    and d: "is_valid_sha256_digest d \<or> ir_is_digest r \<and> d = ir_reference r"
  then obtain o' where o': "simple_ref (str_trim img) = Some o'" "ir_host r = or_resolve_registry o'"
    "ir_repository r = or_repository o'" "ir_is_digest r \<Longrightarrow> or_digest o' = Some (ir_reference r)"
    by (auto simp: parse_image_ref_def Let_def split: option.splits prod.splits)
  have ws: "\<not> list_ex is_ws d"
    using d o'(4) simple_ref_Some(4) [OF o'(1)] valid_digest_no_ws by auto
  have "\<not> list_ex is_ws (digest_ref r d)"
    using ws simple_ref_Some(4) [OF o'(1)] o'(2,3) by (simp add: digest_ref_def is_ws_def)
  from no_ws_trim [OF this] simple_ref_rejoin [OF o'(1) ws] o'(2,3)
  show "\<exists>r'. parse_image_ref simple_ref (digest_ref r d) = Inr r' \<and> ir_is_digest r' \<and>
      ir_host r' = ir_host r \<and> ir_repository r' = ir_repository r"
    by (simp add: parse_image_ref_def digest_ref_def)
qed

definition shop_digest :: "char \<Rightarrow> string" where
  "shop_digest c = ''sha256:'' @ replicate 64 c"

definition shop_ref :: "char \<Rightarrow> string" where
  "shop_ref c = ''ghcr.io/shop@'' @ shop_digest c"

definition shop_http :: "unit registry_http" where
  "shop_http rq w = (Inr \<lparr>rs_status = 200, rs_headers = [''docker-content-digest'' \<mapsto> shop_digest CHR ''a''], rs_body = []\<rparr>, w)"

definition shop_reader :: json_reader where "shop_reader body = Inl ''eof''"

definition shop_image :: "char \<Rightarrow> char \<Rightarrow> status_image" where
  "shop_image c p = \<lparr>si_tag = Some ''ghcr.io/shop:v1'', si_resolved = Some (shop_ref c), si_resolved_at = Some ''t0'',
     si_previous = Some \<lparr>sip_resolved = Some (shop_ref p), sip_tag = Some ''ghcr.io/shop:v1'', sip_resolved_at = None\<rparr>,
     si_pinned = None\<rparr>"

definition shop_base :: base_spec where
  "shop_base = default_base_spec\<lparr>ab_image := Some ''ghcr.io/shop:v1''\<rparr>"

definition shop_app :: "string btreemap option \<Rightarrow> app_object" where
  "shop_app annotations = \<lparr>ao_name = ''shop'', ao_namespace = Some ''demo'', ao_uid = Some ''u1'', ao_annotations = annotations,
     ao_generation = Some 1, ao_deletion_timestamp = None,
     ao_spec = \<lparr>asp_base = Some shop_base, asp_environments = None, asp_environment = None\<rparr>,
     ao_status = Some \<lparr>ast_phase = Some ''Ready'', ast_observed_generation = None, ast_conditions = None,
       ast_endpoint_url = None, ast_image = Some (shop_image CHR ''b'' CHR ''c''), ast_env_config = None,
       ast_environment = None, ast_last_applied_spec = None, ast_recommended_resources = None, ast_recent_problems = []\<rparr>\<rparr>"

text \<open>The clock reads 100 s; the record was made at 10 s.\<close>

definition shop_env :: "(string \<Rightarrow> (oci_resolve_error, string) result) \<Rightarrow> deployment option \<Rightarrow> image_env" where
  "shop_env attempt running = \<lparr>ie_parse_ref = simple_ref, ie_parse_time = (\<lambda>s. if s = ''t0'' then Some 10000000000 else None),
     ie_now = 100000000000, ie_now_text = ''t1'', ie_attempt = attempt, ie_running = Inr running\<rparr>"

definition shop_lookup :: "string \<Rightarrow> (oci_resolve_error, string) result" where
  "shop_lookup tag = fst (resolve_digest simple_ref shop_reader shop_http tag Anonymous ())"

definition shop_deployment :: deployment where
  "shop_deployment = \<lparr>dep_name = Some ''shop'', dep_annotations = Some [(ANN_IMAGE_REF, ''ghcr.io/shop:v1'')],
     dep_spec = Some \<lparr>ds_template = \<lparr>pt_spec = Some \<lparr>pds_containers =
       [\<lparr>ct_name = ''shop'', ct_image = Some (shop_ref CHR ''d'')\<rparr>]\<rparr>\<rparr>\<rparr>\<rparr>"

lemma shop_image_of [simp]: "existing_image (shop_app an) = Some (shop_image CHR ''b'' CHR ''c'')"
  by (simp add: existing_image_def shop_app_def)

lemma shop_due:
  "should_resolve_image (ie_parse_time (shop_env at d)) (Some (shop_image CHR ''b'' CHR ''c'')) ''ghcr.io/shop:v1''
     (ie_now (shop_env at d)) MIN_IMAGE_RESOLVE_INTERVAL_SECS"
  by (simp add: should_resolve_image_def shop_image_def shop_env_def MIN_IMAGE_RESOLVE_INTERVAL_SECS_def
      signed_divide_int_def)

lemma shop_resolved: "shop_lookup ''ghcr.io/shop:v1'' = Inr (shop_ref CHR ''a'')" by code_simp

lemma shop_moves: "\<exists>st. resolve_image (shop_env shop_lookup None) (shop_app None) shop_base = Inr (Some (shop_ref CHR ''a''), Some st, Some Resolved)"
proof -
  have "read_pin simple_ref (shop_app None) shop_base = None" by (simp add: read_pin_def shop_app_def)
  moreover have "ab_image shop_base = Some ''ghcr.io/shop:v1''" "image_resolution_enabled shop_base"
    by (simp_all add: shop_base_def default_base_spec_def image_resolution_enabled_def)
  ultimately show ?thesis
    using shop_due [of shop_lookup None] shop_resolved
    by (simp add: resolve_image_def follow_tag_def attempt_resolution_def running_on_failure_def Let_def
        resolution_outcome_def shop_env_def)
qed

theorem rollback_target_survives_witness:
  "\<exists>st p. resolve_image (shop_env shop_lookup None) (shop_app None) shop_base =
       Inr (Some (shop_ref CHR ''a''), Some st, Some Resolved) \<and>
     si_previous st = Some p"
proof -
  obtain st where st: "resolve_image (shop_env shop_lookup None) (shop_app None) shop_base =
      Inr (Some (shop_ref CHR ''a''), Some st, Some Resolved)" using shop_moves by blast
  from rollback_target_survives [OF st shop_image_of] st show ?thesis by (auto simp: shop_image_def)
qed

definition shop_pin :: "string btreemap option" where
  "shop_pin = Some [(ANN_IMAGE_PIN, shop_ref CHR ''c'')]"

lemma shop_running: "running_digest_for simple_ref (Some shop_deployment) ''ghcr.io/shop:v1'' = Some (shop_ref CHR ''d'')"
  by code_simp

end
