(* ===== verification/K8s_Time.thy ===== *)
theory K8s_Time
  imports Prelude "HOL-Library.Signed_Division"
begin

text \<open>
  The boundary between the two time libraries (\<open>operator-core/src/k8s_time.rs\<close>). A
  \<open>chrono::DateTime\<close> is its seconds and its nanoseconds, where a leap second has 10^9
  nanoseconds or more; a \<open>jiff::Timestamp\<close> is one number of nanoseconds in a range
  \<open>[lo, hi]\<close> that the crate fixes, read as seconds rounded towards zero and a remainder of
  the same sign.
\<close>

record chrono_time =
  cht_secs :: int
  cht_nanos :: int

type_synonym jiff_timestamp = int

definition chrono_wf :: "chrono_time \<Rightarrow> bool" where
  "chrono_wf t \<longleftrightarrow> 0 \<le> cht_nanos t \<and> cht_nanos t < 2000000000"

definition as_second :: "jiff_timestamp \<Rightarrow> int" where
  "as_second v = v sdiv 1000000000"

definition subsec_nanosecond :: "jiff_timestamp \<Rightarrow> int" where
  "subsec_nanosecond v = v smod 1000000000"

definition to_timestamp :: "int \<Rightarrow> int \<Rightarrow> chrono_time \<Rightarrow> jiff_timestamp" where
  "to_timestamp lo hi t =
     (let secs = cht_secs t; nanos = min (cht_nanos t) 999999999; v = secs * 1000000000 + nanos
      in if lo \<le> v \<and> v \<le> hi then v else if secs < 0 then lo else hi)"

definition from_timestamp :: "jiff_timestamp \<Rightarrow> chrono_time" where
  "from_timestamp v =
     (let secs = as_second v; nanos = subsec_nanosecond v
      in if nanos < 0 then \<lparr>cht_secs = secs - 1, cht_nanos = nanos + 1000000000\<rparr>
         else \<lparr>cht_secs = secs, cht_nanos = nanos\<rparr>)"

text \<open>The correction for negative remainders makes the reading the floor division.\<close>

lemma sdiv_floor:
  fixes v :: int
  shows "v sdiv 1000000000 = (if v < 0 \<and> v mod 1000000000 \<noteq> 0 then v div 1000000000 + 1 else v div 1000000000)"
proof (cases "v < 0")
  case True
  then have "v sdiv 1000000000 = - ((- v) div 1000000000)" by (simp add: signed_divide_int_def)
  also have "\<dots> = (if v mod 1000000000 = 0 then v div 1000000000 else v div 1000000000 + 1)"
    by (simp add: zdiv_zminus1_eq_if)
  finally show ?thesis using True by simp
next
  case False
  then show ?thesis by (cases "v = 0") (simp_all add: signed_divide_int_def)
qed

lemma smod_floor:
  fixes v :: int
  shows "v smod 1000000000 = v - (v sdiv 1000000000) * 1000000000"
  by (simp add: minus_sdiv_mult_eq_smod)

lemma from_timestamp_floor:
  "from_timestamp v = \<lparr>cht_secs = v div 1000000000, cht_nanos = v mod 1000000000\<rparr>"
proof -
  define q r where "q = v div 1000000000" and "r = v mod 1000000000"
  have v: "v = q * 1000000000 + r" and r: "0 \<le> r" "r < 1000000000" by (simp_all add: q_def r_def)
  have sdiv: "v sdiv 1000000000 = (if v < 0 \<and> r \<noteq> 0 then q + 1 else q)" unfolding q_def r_def by (rule sdiv_floor)
  show ?thesis
    unfolding from_timestamp_def as_second_def subsec_nanosecond_def smod_floor sdiv Let_def
      q_def [symmetric] r_def [symmetric]
    using v r by auto
qed

text \<open>
  The conversions lose nothing: a timestamp of the Kubernetes side comes back unchanged,
  and so does every instant of the operator's side that lies in range and is no leap
  second; an instant out of range becomes the nearest end. The nanoseconds read back are
  always in [0, 10^9), as the conversion back asserts.
\<close>

lemma timestamp_roundtrip:
  "(lo \<le> v \<and> v \<le> hi \<longrightarrow> to_timestamp lo hi (from_timestamp v) = v) \<and>
   (chrono_wf t \<and> cht_nanos t < 1000000000 \<and> lo \<le> cht_secs t * 1000000000 + cht_nanos t \<and>
      cht_secs t * 1000000000 + cht_nanos t \<le> hi \<longrightarrow> from_timestamp (to_timestamp lo hi t) = t) \<and>
   (lo \<le> hi \<longrightarrow> lo \<le> to_timestamp lo hi t \<and> to_timestamp lo hi t \<le> hi) \<and>
   0 \<le> cht_nanos (from_timestamp v) \<and> cht_nanos (from_timestamp v) < 1000000000"
proof (intro conjI impI)
  assume "lo \<le> v \<and> v \<le> hi"
  moreover have "v div 1000000000 * 1000000000 + v mod 1000000000 = v" by simp
  moreover have "min (v mod 1000000000) 999999999 = v mod 1000000000"
    using pos_mod_bound [of 1000000000 v] by simp
  ultimately show "to_timestamp lo hi (from_timestamp v) = v" by (simp add: from_timestamp_floor to_timestamp_def Let_def)
next
  assume t: "chrono_wf t \<and> cht_nanos t < 1000000000 \<and> lo \<le> cht_secs t * 1000000000 + cht_nanos t \<and>
      cht_secs t * 1000000000 + cht_nanos t \<le> hi"
  then have n: "min (cht_nanos t) 999999999 = cht_nanos t" by (simp add: min_def)
  have "(cht_secs t * 1000000000 + cht_nanos t) div 1000000000 = cht_secs t"
    "(cht_secs t * 1000000000 + cht_nanos t) mod 1000000000 = cht_nanos t"
    using t by (simp_all add: chrono_wf_def)
  with t n show "from_timestamp (to_timestamp lo hi t) = t" by (simp add: from_timestamp_floor to_timestamp_def Let_def)
qed (simp_all add: to_timestamp_def Let_def from_timestamp_floor)

end
