(* ===== verification/Leader.thy ===== *)
theory Leader
  imports K8s_Time
begin

text \<open>
  Leader election (\<open>operator-core/src/leader.rs\<close>): the pure decisions, the loop of one
  replica as a state machine, and the system of replicas around one Lease. Instants and
  durations are nanoseconds; a Lease carries its times in microseconds.
\<close>

subsection \<open>Decisions\<close>

record leader_config =
  lc_namespace :: string
  lc_name :: string
  lc_holder_id :: string
  lc_lease_duration :: int
  lc_renew_period :: int
  lc_renew_deadline :: int
  lc_retry_period :: int
  lc_read_timeout :: int

definition secs :: "int \<Rightarrow> int" where "secs n = n * 1000000000"

definition for_apprafter_operator :: "string \<Rightarrow> leader_config" where
  "for_apprafter_operator holder_id =
     \<lparr>lc_namespace = ''apprafter-system'', lc_name = ''apprafter-operator'', lc_holder_id = holder_id,
      lc_lease_duration = secs 30, lc_renew_period = secs 10, lc_renew_deadline = secs 20,
      lc_retry_period = secs 2, lc_read_timeout = secs 5\<rparr>"

datatype request = Read | Write

datatype leader_error =
    KubeError string
  | Timeout request int
  | LostLeadership nat int
  | Deposed

record lease_spec =
  ls_holder_identity :: "string option"
  ls_lease_duration_seconds :: "int option"
  ls_acquire_time :: "int option"
  ls_renew_time :: "int option"

text \<open>A \<open>MicroTime\<close> has six fractional digits on the wire.\<close>

definition micro_time :: "int \<Rightarrow> int" where
  "micro_time t = t div 1000 * 1000"

text \<open>\<open>as_secs() as i32\<close> keeps the low 32 bits.\<close>

definition as_secs_i32 :: "int \<Rightarrow> int" where
  "as_secs_i32 d = signed_take_bit 31 (d div 1000000000)"

definition lease_spec :: "leader_config \<Rightarrow> int \<Rightarrow> lease_spec option \<Rightarrow> lease_spec" where
  "lease_spec config now prior =
     \<lparr>ls_holder_identity = Some (lc_holder_id config),
      ls_lease_duration_seconds = Some (as_secs_i32 (lc_lease_duration config)),
      ls_acquire_time = Some (unwrap_or (Option.bind prior ls_acquire_time) (micro_time now)),
      ls_renew_time = Some (micro_time now)\<rparr>"

definition may_take_lease :: "string option \<Rightarrow> bool \<Rightarrow> string \<Rightarrow> bool" where
  "may_take_lease holder stale me \<longleftrightarrow> holder = Some me \<or> stale"

definition step_window :: "leader_config \<Rightarrow> int option \<Rightarrow> int option" where
  "step_window config since_renewal = (case since_renewal of
       None \<Rightarrow> Some (lc_renew_period config)
     | Some since \<Rightarrow>
         (if since \<le> lc_renew_deadline config \<and> lc_renew_deadline config - since \<noteq> 0
          then Some (lc_renew_deadline config - since) else None))"

definition request_bound :: "leader_config \<Rightarrow> request \<Rightarrow> int \<Rightarrow> int" where
  "request_bound config request left = (case request of
       Read \<Rightarrow> min left (lc_read_timeout config)
     | Write \<Rightarrow> left)"

definition is_lease_stale :: "int option \<Rightarrow> int \<Rightarrow> int \<Rightarrow> bool" where
  "is_lease_stale renew_time lease_duration now = (case renew_time of
       Some t \<Rightarrow> (now - t) sdiv 1000000000 > lease_duration div 1000000000
     | None \<Rightarrow> True)"

text \<open>The spec that a replica writes over what it read, or \<open>None\<close> when it may not.\<close>

definition acquire_or_renew :: "leader_config \<Rightarrow> int \<Rightarrow> lease_spec option option \<Rightarrow> lease_spec option" where
  "acquire_or_renew config now read = (case read of
       Some existing \<Rightarrow>
         (let holder = Option.bind existing ls_holder_identity;
              stale = is_lease_stale (Option.bind existing ls_renew_time) (lc_lease_duration config) now
          in if may_take_lease holder stale (lc_holder_id config)
             then Some (lease_spec config now existing) else None)
     | None \<Rightarrow> Some (lease_spec config now None))"

subsection \<open>The loop of one replica\<close>

text \<open>
  \<open>Sleeping\<close> until an instant, in the read or the write of a step (with its start, the end
  of its window and the end of the request's bound; the write also keeps the version of the
  Lease it replaces), or stopped: the loop returned and the caller ends the process.
\<close>

datatype phase =
    Sleeping int
  | Reading int int int
  | Writing int int nat
  | Stopped leader_error

record replica =
  r_phase :: phase
  r_renewed_at :: "int option"
  r_failures :: nat
  r_is_leader :: bool

definition fresh_replica :: "int \<Rightarrow> replica" where
  "fresh_replica now = \<lparr>r_phase = Sleeping now, r_renewed_at = None, r_failures = 0, r_is_leader = False\<rparr>"

definition step_down :: "leader_error \<Rightarrow> replica \<Rightarrow> replica" where
  "step_down why r = r\<lparr>r_is_leader := False, r_phase := Stopped why\<rparr>"

definition begin_step :: "leader_config \<Rightarrow> int \<Rightarrow> replica \<Rightarrow> replica" where
  "begin_step config started r =
     (let since_renewal = map_option (\<lambda>at. max 0 (started - at)) (r_renewed_at r)
      in case step_window config since_renewal of
           None \<Rightarrow> step_down (LostLeadership (r_failures r) (unwrap_or since_renewal 0)) r
         | Some window \<Rightarrow>
             r\<lparr>r_phase := Reading started (started + window) (started + request_bound config Read window)\<rparr>)"

definition finish_step :: "leader_config \<Rightarrow> int \<Rightarrow> (leader_error, bool) result \<Rightarrow> replica \<Rightarrow> replica" where
  "finish_step config started res r = (case res of
       Inr True \<Rightarrow> r\<lparr>r_failures := 0, r_renewed_at := Some started, r_is_leader := True,
                     r_phase := Sleeping (started + lc_renew_period config)\<rparr>
     | Inr False \<Rightarrow>
         (if r_renewed_at r \<noteq> None then step_down Deposed r
          else r\<lparr>r_failures := 0, r_phase := Sleeping (started + lc_renew_period config)\<rparr>)
     | Inl err \<Rightarrow>
         r\<lparr>r_failures := min (r_failures r + 1) (2 ^ 32 - 1),
           r_phase := Sleeping (case r_renewed_at r of
             Some at \<Rightarrow> min (started + lc_retry_period config) (at + lc_renew_deadline config)
           | None \<Rightarrow> started + lc_renew_period config)\<rparr>)"

subsection \<open>Replicas around one Lease\<close>

text \<open>
  The Lease with the version the apiserver gives it, the replicas by holder id, and the
  writes on their way: a write may reach the apiserver after its sender stopped waiting, and
  is refused when the Lease has changed since it was read. \<open>skew\<close> is what a replica's wall
  clock reads ahead of the true time; the monotonic clocks run at the true rate. Time passes
  no timer of a replica that is in a step or leads.
\<close>

record write_request =
  w_from :: string
  w_version :: nat
  w_started :: int
  w_spec :: lease_spec

record election =
  e_now :: int
  e_version :: nat
  e_lease :: "lease_spec option option"
  e_replicas :: "string \<Rightarrow> replica"
  e_writes :: "write_request list"
  e_log :: "write_request list"

definition timer_ok :: "int \<Rightarrow> replica \<Rightarrow> bool" where
  "timer_ok t r = (case r_phase r of
       Sleeping next \<Rightarrow> r_renewed_at r = None \<or> t \<le> next
     | Reading _ _ bound \<Rightarrow> t \<le> bound
     | Writing _ until _ \<Rightarrow> t \<le> until
     | Stopped _ \<Rightarrow> True)"

inductive elect :: "(string \<Rightarrow> leader_config) \<Rightarrow> (string \<Rightarrow> int) \<Rightarrow> election \<Rightarrow> election \<Rightarrow> bool"
  for cfg skew where
  tick: "e_now s \<le> t \<Longrightarrow> \<forall>p. timer_ok t (e_replicas s p) \<Longrightarrow> elect cfg skew s (s\<lparr>e_now := t\<rparr>)"
| begins: "r_phase (e_replicas s p) = Sleeping next \<Longrightarrow> next \<le> e_now s \<Longrightarrow>
    elect cfg skew s (s\<lparr>e_replicas := (e_replicas s)(p := begin_step (cfg p) (e_now s) (e_replicas s p))\<rparr>)"
| read_refused: "r_phase (e_replicas s p) = Reading started until bound \<Longrightarrow>
    acquire_or_renew (cfg p) (started + skew p) (e_lease s) = None \<Longrightarrow>
    elect cfg skew s (s\<lparr>e_replicas := (e_replicas s)(p := finish_step (cfg p) started (Inr False) (e_replicas s p))\<rparr>)"
| read_granted: "r_phase (e_replicas s p) = Reading started until bound \<Longrightarrow>
    acquire_or_renew (cfg p) (started + skew p) (e_lease s) = Some spec \<Longrightarrow>
    elect cfg skew s (s\<lparr>e_replicas := (e_replicas s)(p := (e_replicas s p)\<lparr>r_phase := Writing started until (e_version s)\<rparr>),
      e_writes := \<lparr>w_from = p, w_version = e_version s, w_started = started, w_spec = spec\<rparr> # e_writes s\<rparr>)"
| read_failed: "r_phase (e_replicas s p) = Reading started until bound \<Longrightarrow>
    elect cfg skew s (s\<lparr>e_replicas := (e_replicas s)(p := finish_step (cfg p) started (Inl err) (e_replicas s p))\<rparr>)"
| commit: "w \<in> set (e_writes s) \<Longrightarrow> w_version w = e_version s \<Longrightarrow>
    elect cfg skew s (s\<lparr>e_lease := Some (Some (w_spec w)), e_version := Suc (e_version s), e_log := w # e_log s\<rparr>)"
| write_acked: "r_phase (e_replicas s p) = Writing started until version \<Longrightarrow>
    w \<in> set (e_log s) \<Longrightarrow> w_from w = p \<Longrightarrow> w_version w = version \<Longrightarrow> w_started w = started \<Longrightarrow>
    elect cfg skew s (s\<lparr>e_replicas := (e_replicas s)(p := finish_step (cfg p) started (Inr True) (e_replicas s p))\<rparr>)"
| write_failed: "r_phase (e_replicas s p) = Writing started until version \<Longrightarrow>
    elect cfg skew s (s\<lparr>e_replicas := (e_replicas s)(p := finish_step (cfg p) started (Inl err) (e_replicas s p))\<rparr>)"
| restart: "elect cfg skew s (s\<lparr>e_replicas := (e_replicas s)(p := fresh_replica (e_now s))\<rparr>)"

inductive elect_reachable :: "(string \<Rightarrow> leader_config) \<Rightarrow> (string \<Rightarrow> int) \<Rightarrow> election \<Rightarrow> bool"
  for cfg skew where
  init: "\<forall>p. \<exists>t. rs p = fresh_replica t \<Longrightarrow>
    elect_reachable cfg skew \<lparr>e_now = now, e_version = v, e_lease = lease, e_replicas = rs, e_writes = [], e_log = []\<rparr>"
| next_state: "elect_reachable cfg skew s \<Longrightarrow> elect cfg skew s t \<Longrightarrow> elect_reachable cfg skew t"

subsection \<open>The invariant\<close>

definition sound_timing :: "(string \<Rightarrow> leader_config) \<Rightarrow> (string \<Rightarrow> int) \<Rightarrow> bool" where
  "sound_timing cfg skew \<longleftrightarrow>
     (\<forall>p. lc_holder_id (cfg p) = p \<and> 0 \<le> lc_lease_duration (cfg p) \<and> 0 \<le> lc_read_timeout (cfg p) \<and> 0 \<le> lc_renew_period (cfg p) \<and>
          lc_renew_period (cfg p) \<le> lc_renew_deadline (cfg p)) \<and>
     (\<forall>p q. lc_renew_deadline (cfg p) + (skew q - skew p) + 1000
              \<le> (lc_lease_duration (cfg q) div 1000000000 + 1) * 1000000000)"

text \<open>The timing of one replica: no step and no tenure outlives its window.\<close>

definition replica_ok :: "leader_config \<Rightarrow> int \<Rightarrow> nat \<Rightarrow> replica \<Rightarrow> bool" where
  "replica_ok c now version r \<longleftrightarrow>
     (r_is_leader r \<longrightarrow> r_renewed_at r \<noteq> None \<and> (\<forall>e. r_phase r \<noteq> Stopped e)) \<and>
     (case r_phase r of
        Sleeping next \<Rightarrow> (\<forall>at. r_renewed_at r = Some at \<longrightarrow>
          at \<le> now \<and> now \<le> at + lc_renew_deadline c \<and> next \<le> at + lc_renew_deadline c)
      | Reading started until bound \<Rightarrow> started \<le> now \<and> now \<le> bound \<and> bound \<le> until \<and>
          until \<le> started + lc_renew_deadline c \<and>
          (\<forall>at. r_renewed_at r = Some at \<longrightarrow> at \<le> started \<and> until \<le> at + lc_renew_deadline c)
      | Writing started until v \<Rightarrow> started \<le> now \<and> now \<le> until \<and> v \<le> version \<and>
          until \<le> started + lc_renew_deadline c \<and>
          (\<forall>at. r_renewed_at r = Some at \<longrightarrow> at \<le> started \<and> until \<le> at + lc_renew_deadline c)
      | Stopped _ \<Rightarrow> True)"

text \<open>
  \<open>tenure s p x\<close>: replica \<open>p\<close> leads on a renewal stamped at \<open>x\<close>, or has one committed that
  it was not told of yet.
\<close>

definition tenure :: "election \<Rightarrow> string \<Rightarrow> int \<Rightarrow> bool" where
  "tenure s p x \<longleftrightarrow>
     r_renewed_at (e_replicas s p) = Some x \<and> (\<forall>e. r_phase (e_replicas s p) \<noteq> Stopped e) \<or>
     (\<exists>until v. r_phase (e_replicas s p) = Writing x until v \<and>
        (\<exists>w \<in> set (e_log s). w_from w = p \<and> w_version w = v \<and> w_started w = x))"

definition held_by :: "lease_spec option option \<Rightarrow> string \<Rightarrow> int \<Rightarrow> bool" where
  "held_by lease p t \<longleftrightarrow> (\<exists>sp r. lease = Some (Some sp) \<and> ls_holder_identity sp = Some p \<and>
     ls_renew_time sp = Some r \<and> t \<le> r)"

definition write_ok :: "(string \<Rightarrow> leader_config) \<Rightarrow> (string \<Rightarrow> int) \<Rightarrow> election \<Rightarrow> write_request \<Rightarrow> bool" where
  "write_ok cfg skew s w \<longleftrightarrow> w_started w \<le> e_now s \<and> w_version w \<le> e_version s \<and>
     ls_holder_identity (w_spec w) = Some (lc_holder_id (cfg (w_from w))) \<and>
     ls_renew_time (w_spec w) = Some (micro_time (w_started w + skew (w_from w))) \<and>
     (w_version w = e_version s \<longrightarrow>
        acquire_or_renew (cfg (w_from w)) (w_started w + skew (w_from w)) (e_lease s) \<noteq> None)"

definition election_inv :: "(string \<Rightarrow> leader_config) \<Rightarrow> (string \<Rightarrow> int) \<Rightarrow> election \<Rightarrow> bool" where
  "election_inv cfg skew s \<longleftrightarrow>
     (\<forall>p. replica_ok (cfg p) (e_now s) (e_version s) (e_replicas s p)) \<and>
     (\<forall>w \<in> set (e_writes s). write_ok cfg skew s w) \<and>
     (\<forall>w \<in> set (e_log s). w_version w < e_version s) \<and>
     (\<forall>p x. tenure s p x \<longrightarrow> held_by (e_lease s) p (micro_time (x + skew p)) \<and>
        (\<forall>w \<in> set (e_writes s). w_from w = p \<and> w_version w = e_version s \<longrightarrow> x \<le> w_started w))"

lemma replica_okI_fresh: "replica_ok c now v (fresh_replica t)"
  by (simp add: replica_ok_def fresh_replica_def)

lemma replica_ok_stopped: "replica_ok c now v (step_down e r)"
  by (simp add: replica_ok_def step_down_def)

lemma begin_ok:
  assumes "replica_ok c now v r" and "r_phase r = Sleeping next"
    and "0 \<le> lc_read_timeout c" "0 \<le> lc_renew_period c" "lc_renew_period c \<le> lc_renew_deadline c"
  shows "replica_ok c now v (begin_step c now r)"
  using assms by (cases "r_renewed_at r")
    (auto simp: begin_step_def step_window_def request_bound_def Let_def replica_ok_def replica_ok_stopped step_down_def)

lemma finish_ok:
  assumes "replica_ok c now v r" and "r_phase r = Reading started until bound \<or> r_phase r = Writing started until ver"
    and "0 \<le> lc_renew_period c" "lc_renew_period c \<le> lc_renew_deadline c"
  shows "replica_ok c now v (finish_step c started res r)"
  using assms
  by (cases res; cases "r_renewed_at r")
    (auto simp: finish_step_def replica_ok_def step_down_def split: bool.splits)

lemma time_passes:
  assumes "replica_ok c now v r" and "timer_ok t r" and "now \<le> t"
  shows "replica_ok c t v r"
  using assms by (cases "r_phase r") (auto simp: replica_ok_def timer_ok_def)

lemma replica_ok_version: "replica_ok c now v r \<Longrightarrow> v \<le> v' \<Longrightarrow> replica_ok c now v' r"
  by (auto simp: replica_ok_def split: phase.splits)

text \<open>A tenure ends, at the latest, when the renew deadline has passed.\<close>

lemma tenure_bounded:
  assumes "replica_ok (cfg p) (e_now s) (e_version s) (e_replicas s p)" and "tenure s p x"
  shows "x \<le> e_now s \<and> e_now s \<le> x + lc_renew_deadline (cfg p)"
  using assms by (cases "r_phase (e_replicas s p)") (auto simp: replica_ok_def tenure_def)

lemma micro_time_mono: "a \<le> b \<Longrightarrow> micro_time a \<le> micro_time b"
  by (simp add: micro_time_def zdiv_mono1)

lemma micro_time_close: "t - 1000 < micro_time t"
proof -
  have "t = t div 1000 * 1000 + t mod 1000" by simp
  moreover have "t mod 1000 < 1000" by simp
  ultimately show ?thesis unfolding micro_time_def by linarith
qed

lemma stale_elapsed:
  assumes "is_lease_stale (Some r) d now" and "0 \<le> d"
  shows "(d div 1000000000 + 1) * 1000000000 \<le> now - r"
proof -
  have "d div 1000000000 < (now - r) sdiv 1000000000" using assms(1) by (simp add: is_lease_stale_def)
  moreover have "0 \<le> d div 1000000000" using assms(2) by simp
  ultimately have pos: "0 < (now - r) sdiv 1000000000" by simp
  then have "0 < now - r" by (rule_tac ccontr) (auto simp: signed_divide_int_def sgn_if split: if_splits)
  then have "(now - r) sdiv 1000000000 = (now - r) div 1000000000" by (simp add: signed_divide_int_def)
  with \<open>d div 1000000000 < _\<close> have "d div 1000000000 + 1 \<le> (now - r) div 1000000000" by simp
  then have "(d div 1000000000 + 1) * 1000000000 \<le> (now - r) div 1000000000 * 1000000000" by simp
  also have "\<dots> \<le> now - r" by (simp add: minus_mod_eq_div_mult [symmetric])
  finally show ?thesis .
qed

text \<open>While a tenure lasts, no other replica can hold a write against the current Lease.\<close>

lemma no_takeover:
  assumes timing: "sound_timing cfg skew"
    and rep: "replica_ok (cfg p) (e_now s) (e_version s) (e_replicas s p)"
    and ten: "tenure s p x" and held: "held_by (e_lease s) p (micro_time (x + skew p))"
    and w: "write_ok cfg skew s w" "w_version w = e_version s"
  shows "w_from w = p"
proof (rule ccontr)
  assume other: "w_from w \<noteq> p"
  let ?q = "w_from w"
  from held obtain sp r where sp: "e_lease s = Some (Some sp)" "ls_holder_identity sp = Some p"
    "ls_renew_time sp = Some r" "micro_time (x + skew p) \<le> r" by (auto simp: held_by_def)
  have "lc_holder_id (cfg ?q) = ?q" "0 \<le> lc_lease_duration (cfg ?q)" using timing by (simp_all add: sound_timing_def)
  with w sp other have "is_lease_stale (Some r) (lc_lease_duration (cfg ?q)) (w_started w + skew ?q)"
    by (auto simp: write_ok_def acquire_or_renew_def may_take_lease_def Let_def split: if_splits)
  from stale_elapsed [OF this \<open>0 \<le> _\<close>] sp(4) micro_time_close [of "x + skew p"]
  have "(lc_lease_duration (cfg ?q) div 1000000000 + 1) * 1000000000 < w_started w + skew ?q - (x + skew p) + 1000"
    by linarith
  moreover have "lc_renew_deadline (cfg p) + (skew ?q - skew p) + 1000
      \<le> (lc_lease_duration (cfg ?q) div 1000000000 + 1) * 1000000000"
    using timing unfolding sound_timing_def by blast
  ultimately have "x + lc_renew_deadline (cfg p) < w_started w" by linarith
  moreover have "w_started w \<le> e_now s" using w(1) by (simp add: write_ok_def)
  ultimately show False using tenure_bounded [of cfg p s x] rep ten by force
qed

lemma write_ok_mono:
  assumes "write_ok cfg skew s w" and "e_now s \<le> e_now t" "e_version s \<le> e_version t"
    and "e_version t = e_version s \<Longrightarrow> e_lease t = e_lease s"
  shows "write_ok cfg skew t w"
  using assms by (auto simp: write_ok_def)

text \<open>A step of one replica alone: the rest of the invariant follows when it adds no tenure.\<close>

lemma inv_replica:
  assumes inv: "election_inv cfg skew s"
    and ok: "replica_ok (cfg p) (e_now s) (e_version s) r"
    and tenures: "\<And>x. tenure (s\<lparr>e_replicas := (e_replicas s)(p := r)\<rparr>) p x \<Longrightarrow> tenure s p x"
  shows "election_inv cfg skew (s\<lparr>e_replicas := (e_replicas s)(p := r)\<rparr>)"
proof -
  let ?t = "s\<lparr>e_replicas := (e_replicas s)(p := r)\<rparr>"
  have ten: "tenure s q x" if "tenure ?t q x" for q x
    using that tenures by (cases "q = p") (auto simp: tenure_def)
  have "\<And>w. write_ok cfg skew ?t w = write_ok cfg skew s w" by (simp add: write_ok_def)
  with inv ok ten show ?thesis unfolding election_inv_def by simp blast
qed

lemma begin_tenure:
  assumes "r_phase (e_replicas s p) = Sleeping next"
    and "tenure (s\<lparr>e_replicas := (e_replicas s)(p := begin_step c now (e_replicas s p))\<rparr>) p x"
  shows "tenure s p x"
  using assms by (auto simp: tenure_def begin_step_def step_down_def Let_def split: option.splits)

lemma finish_tenure:
  assumes "res \<noteq> Inr True" and "\<forall>e. r_phase (e_replicas s p) \<noteq> Stopped e"
    and "tenure (s\<lparr>e_replicas := (e_replicas s)(p := finish_step c started res (e_replicas s p))\<rparr>) p x"
  shows "tenure s p x"
  using assms by (auto simp: tenure_def finish_step_def step_down_def split: sum.splits bool.splits if_splits)

lemma acquire_spec:
  "acquire_or_renew c now l = Some sp \<Longrightarrow>
     ls_holder_identity sp = Some (lc_holder_id c) \<and> ls_renew_time sp = Some (micro_time now)"
  by (auto simp: acquire_or_renew_def lease_spec_def Let_def split: option.splits if_splits)

lemma inv_commit:
  assumes timing: "sound_timing cfg skew" and inv: "election_inv cfg skew s"
    and w: "w \<in> set (e_writes s)" "w_version w = e_version s"
  shows "election_inv cfg skew (s\<lparr>e_lease := Some (Some (w_spec w)), e_version := Suc (e_version s), e_log := w # e_log s\<rparr>)"
    (is "election_inv cfg skew ?t")
proof -
  have rep: "\<And>p. replica_ok (cfg p) (e_now s) (e_version s) (e_replicas s p)" and wok: "write_ok cfg skew s w"
    and old: "\<And>p x. tenure s p x \<Longrightarrow> held_by (e_lease s) p (micro_time (x + skew p)) \<and>
        (\<forall>w \<in> set (e_writes s). w_from w = p \<and> w_version w = e_version s \<longrightarrow> x \<le> w_started w)"
    using inv w by (simp_all add: election_inv_def)
  have id: "lc_holder_id (cfg (w_from w)) = w_from w" using timing by (simp add: sound_timing_def)
  have held: "held_by (e_lease ?t) p (micro_time (x + skew p))" if "tenure ?t p x" for p x
  proof -
    from that consider "tenure s p x" | "p = w_from w" "x = w_started w" by (auto simp: tenure_def)
    then have "p = w_from w \<and> x \<le> w_started w"
      using no_takeover [OF timing rep _ _ wok w(2)] old w by cases blast+
    with wok id show ?thesis by (simp add: held_by_def write_ok_def micro_time_mono)
  qed
  have "write_ok cfg skew ?t v \<and> w_version v \<noteq> Suc (e_version s)" if "v \<in> set (e_writes s)" for v
  proof -
    have v: "write_ok cfg skew s v" using inv that by (simp add: election_inv_def)
    then have "w_version v \<le> e_version s" by (simp add: write_ok_def)
    with write_ok_mono [OF v, of ?t] show ?thesis by simp
  qed
  moreover have "\<forall>v \<in> set (e_log ?t). w_version v < e_version ?t" using inv w by (auto simp: election_inv_def)
  moreover have "replica_ok (cfg p) (e_now s) (Suc (e_version s)) (e_replicas s p)" for p
    using replica_ok_version [OF rep, of "Suc (e_version s)"] by simp
  ultimately show ?thesis using held unfolding election_inv_def by auto
qed

lemma inv_elect:
  assumes timing: "sound_timing cfg skew" and step: "elect cfg skew s t" and inv: "election_inv cfg skew s"
  shows "election_inv cfg skew t"
  using step
proof cases
  case (tick t')
  have "tenure t p x \<longleftrightarrow> tenure s p x" for p x using tick by (simp add: tenure_def)
  moreover have "write_ok cfg skew t w" if "write_ok cfg skew s w" for w
    using that tick by (intro write_ok_mono [OF that]) simp_all
  moreover have "replica_ok (cfg p) t' (e_version s) (e_replicas s p)" for p
    using inv tick(2,3) time_passes [of "cfg p" "e_now s" "e_version s" "e_replicas s p" t'] unfolding election_inv_def by blast
  ultimately show ?thesis using inv unfolding election_inv_def tick(1) by simp
next
  case (begins p "next")
  have rep: "replica_ok (cfg p) (e_now s) (e_version s) (e_replicas s p)" using inv by (simp add: election_inv_def)
  show ?thesis unfolding begins(1)
    using timing by (intro inv_replica [OF inv] begin_ok [OF rep begins(2)] begin_tenure [OF begins(2)])
      (simp_all add: sound_timing_def)
next
  case (read_refused p started until bound)
  have rep: "replica_ok (cfg p) (e_now s) (e_version s) (e_replicas s p)" using inv by (simp add: election_inv_def)
  show ?thesis unfolding read_refused(1)
  proof (intro inv_replica [OF inv] finish_ok [OF rep])
    show "tenure s p x" if "tenure (s\<lparr>e_replicas := (e_replicas s)(p := finish_step (cfg p) started (Inr False) (e_replicas s p))\<rparr>) p x" for x
      using read_refused(2) by (intro finish_tenure [OF _ _ that]) simp_all
  qed (use timing read_refused(2) in \<open>auto simp: sound_timing_def\<close>)
next
  case (read_failed p started until bound err)
  have rep: "replica_ok (cfg p) (e_now s) (e_version s) (e_replicas s p)" using inv by (simp add: election_inv_def)
  show ?thesis unfolding read_failed(1)
  proof (intro inv_replica [OF inv] finish_ok [OF rep])
    show "tenure s p x" if "tenure (s\<lparr>e_replicas := (e_replicas s)(p := finish_step (cfg p) started (Inl err) (e_replicas s p))\<rparr>) p x" for x
      using read_failed(2) by (intro finish_tenure [OF _ _ that]) simp_all
  qed (use timing read_failed(2) in \<open>auto simp: sound_timing_def\<close>)
next
  case (write_failed p started until version err)
  have rep: "replica_ok (cfg p) (e_now s) (e_version s) (e_replicas s p)" using inv by (simp add: election_inv_def)
  show ?thesis unfolding write_failed(1)
  proof (intro inv_replica [OF inv] finish_ok [OF rep])
    show "tenure s p x" if "tenure (s\<lparr>e_replicas := (e_replicas s)(p := finish_step (cfg p) started (Inl err) (e_replicas s p))\<rparr>) p x" for x
      using write_failed(2) by (intro finish_tenure [OF _ _ that]) simp_all
  qed (use timing write_failed(2) in \<open>auto simp: sound_timing_def\<close>)
next
  case (write_acked p started until version w)
  have "tenure s p started" using write_acked by (auto simp: tenure_def)
  have rep: "replica_ok (cfg p) (e_now s) (e_version s) (e_replicas s p)" using inv by (simp add: election_inv_def)
  show ?thesis unfolding write_acked(1)
  proof (intro inv_replica [OF inv] finish_ok [OF rep])
    show "tenure s p x" if "tenure (s\<lparr>e_replicas := (e_replicas s)(p := finish_step (cfg p) started (Inr True) (e_replicas s p))\<rparr>) p x" for x
      using that \<open>tenure s p started\<close> by (auto simp: tenure_def finish_step_def)
  qed (use timing write_acked(2) in \<open>auto simp: sound_timing_def\<close>)
next
  case (restart p)
  show ?thesis unfolding restart(1)
    by (intro inv_replica inv replica_okI_fresh) (simp add: tenure_def fresh_replica_def)
next
  case (commit w)
  then show ?thesis using inv_commit [OF timing inv] by simp
next
  case (read_granted p started until bound spec)
  let ?w = "\<lparr>w_from = p, w_version = e_version s, w_started = started, w_spec = spec\<rparr>"
  have rep: "replica_ok (cfg p) (e_now s) (e_version s) (e_replicas s p)" using inv by (simp add: election_inv_def)
  have ten: "tenure s q x" if "tenure t q x" for q x
    using that inv read_granted by (cases "q = p") (auto simp: tenure_def election_inv_def)
  have new: "x \<le> started" if "tenure t p x" for x
    using ten [OF that] rep read_granted by (auto simp: tenure_def replica_ok_def)
  have t: "e_lease t = e_lease s" "e_version t = e_version s" "e_now t = e_now s" "e_log t = e_log s"
    "set (e_writes t) = insert ?w (set (e_writes s))" using read_granted(1) by simp_all
  have "held_by (e_lease t) q (micro_time (x + skew q)) \<and>
      (\<forall>w \<in> set (e_writes t). w_from w = q \<and> w_version w = e_version t \<longrightarrow> x \<le> w_started w)" if "tenure t q x" for q x
    using inv ten [OF that] new that unfolding t election_inv_def by (cases "q = p") auto
  moreover have "write_ok cfg skew t v = write_ok cfg skew s v" for v by (simp add: write_ok_def t)
  moreover have "write_ok cfg skew s ?w"
    using acquire_spec [OF read_granted(3)] read_granted(2,3) rep by (simp add: write_ok_def replica_ok_def)
  moreover have "replica_ok (cfg q) (e_now s) (e_version s) (e_replicas t q)" for q
    using inv rep read_granted(1,2) by (auto simp: election_inv_def replica_ok_def)
  ultimately show ?thesis using inv unfolding election_inv_def t(2-5) by simp
qed

lemma reachable_election:
  assumes "sound_timing cfg skew" and "elect_reachable cfg skew s"
  shows "election_inv cfg skew s"
  using assms(2)
proof induction
  case (init rs now v lease)
  then have "replica_ok c n v' (rs p)" "\<not> tenure \<lparr>e_now = now, e_version = v, e_lease = lease, e_replicas = rs, e_writes = [], e_log = []\<rparr> p x"
    for c n v' p x
    by (metis replica_okI_fresh, auto simp: tenure_def) (metis fresh_replica_def option.distinct(1) replica.select_convs(2))
  then show ?case by (simp add: election_inv_def)
next
  case (next_state s t)
  then show ?case using inv_elect [OF assms(1)] by blast
qed

text \<open>
  C4. Leader election is safe: with the timings of the configuration (the renew deadline, the
  difference of the wall clocks and the rounding of the Lease's times fit into the lease
  duration and one second), at any time at most one replica leads, it is the holder the
  Lease names, and it renewed at most a renew deadline ago. This holds for requests that are
  delayed, lost or executed after their sender gave up, and for replicas that restart.
\<close>

theorem at_most_one_leader:
  assumes "sound_timing cfg skew" and "elect_reachable cfg skew s"
    and "r_is_leader (e_replicas s p)"
  shows "(\<forall>q. r_is_leader (e_replicas s q) \<longrightarrow> q = p) \<and>
    (\<exists>sp. e_lease s = Some (Some sp) \<and> ls_holder_identity sp = Some p) \<and>
    (\<exists>x. r_renewed_at (e_replicas s p) = Some x \<and> e_now s \<le> x + lc_renew_deadline (cfg p))"
proof -
  note inv = reachable_election [OF assms(1,2)]
  have lead: "\<exists>x. r_renewed_at (e_replicas s q) = Some x \<and> tenure s q x \<and> e_now s \<le> x + lc_renew_deadline (cfg q) \<and>
      held_by (e_lease s) q (micro_time (x + skew q))" if "r_is_leader (e_replicas s q)" for q
  proof -
    have rep: "replica_ok (cfg q) (e_now s) (e_version s) (e_replicas s q)" using inv by (simp add: election_inv_def)
    with that obtain x where x: "r_renewed_at (e_replicas s q) = Some x" "tenure s q x"
      by (auto simp: replica_ok_def tenure_def)
    with tenure_bounded [of cfg q s x] rep inv show ?thesis by (auto simp: election_inv_def)
  qed
  from lead [OF assms(3)] lead show ?thesis by (fastforce simp: held_by_def)
qed

lemma default_timing:
  assumes "\<And>p q. skew q - skew p \<le> secs 10"
  shows "sound_timing for_apprafter_operator skew"
  using assms by (simp add: sound_timing_def for_apprafter_operator_def secs_def) (smt (verit))

lemma one_step_takeover:
  assumes phase: "r_phase (e_replicas s p) = Sleeping next" "next \<le> e_now s" "r_renewed_at (e_replicas s p) = None"
    and lease: "e_lease s = Some existing"
      "is_lease_stale (Option.bind existing ls_renew_time) (lc_lease_duration (cfg p)) (e_now s + skew p)"
  shows "\<exists>t. (elect cfg skew)\<^sup>*\<^sup>* s t \<and> r_is_leader (e_replicas t p) \<and>
    e_lease t = Some (Some (lease_spec (cfg p) (e_now s + skew p) existing))"
proof -
  let ?r = "e_replicas s p" and ?n = "e_now s"
  let ?window = "lc_renew_period (cfg p)"
  let ?spec = "lease_spec (cfg p) (?n + skew p) existing"
  let ?r1 = "?r\<lparr>r_phase := Reading ?n (?n + ?window) (?n + request_bound (cfg p) Read ?window)\<rparr>"
  let ?s1 = "s\<lparr>e_replicas := (e_replicas s)(p := ?r1)\<rparr>"
  let ?w = "\<lparr>w_from = p, w_version = e_version s, w_started = ?n, w_spec = ?spec\<rparr>"
  let ?s2 = "?s1\<lparr>e_replicas := (e_replicas ?s1)(p := ?r1\<lparr>r_phase := Writing ?n (?n + ?window) (e_version s)\<rparr>),
    e_writes := ?w # e_writes s\<rparr>"
  let ?s3 = "?s2\<lparr>e_lease := Some (Some ?spec), e_version := Suc (e_version s), e_log := ?w # e_log s\<rparr>"
  let ?s4 = "?s3\<lparr>e_replicas := (e_replicas ?s3)(p := finish_step (cfg p) ?n (Inr True) (e_replicas ?s3 p))\<rparr>"
  have "begin_step (cfg p) ?n ?r = ?r1" using phase(3) by (simp add: begin_step_def step_window_def Let_def)
  then have "elect cfg skew s ?s1" using elect.begins [of s p "next" cfg skew] phase by simp
  moreover have "elect cfg skew ?s1 ?s2"
    using elect.read_granted [of ?s1 p ?n "?n + ?window" "?n + request_bound (cfg p) Read ?window" cfg skew ?spec] lease
    by (simp add: acquire_or_renew_def may_take_lease_def Let_def)
  moreover have "elect cfg skew ?s2 ?s3" using elect.commit [of ?w ?s2 cfg skew] by simp
  moreover have "elect cfg skew ?s3 ?s4"
    by (rule elect.write_acked [where w = ?w and until = "?n + ?window" and version = "e_version s"]) simp_all
  ultimately have "(elect cfg skew)\<^sup>*\<^sup>* s ?s4" by (meson rtranclp.rtrancl_refl rtranclp.rtrancl_into_rtrancl)
  then show ?thesis by (rule exI [where x = ?s4, OF conjI]) (simp add: finish_step_def)
qed

text \<open>
  A stale Lease is taken over: a standby that is due, and finds the Lease stale by its own
  clock, leads after one step whose requests are answered.
\<close>

lemma stale_lease_is_taken_over:
  assumes phase: "r_phase (e_replicas s p) = Sleeping next" "next \<le> e_now s" "r_renewed_at (e_replicas s p) = None"
    and lease: "e_lease s = Some existing"
      "is_lease_stale (Option.bind existing ls_renew_time) (lc_lease_duration (cfg p)) (e_now s + skew p)"
  shows "\<exists>t. (elect cfg skew)\<^sup>*\<^sup>* s t \<and> r_is_leader (e_replicas t p) \<and>
    e_lease t = Some (Some (lease_spec (cfg p) (e_now s + skew p) existing))"
  using assms by (rule one_step_takeover)

text \<open>
  A takeover keeps the acquire time of the former holder: the field dates the first tenure
  that was recorded and not the one of the new holder.
\<close>

lemma takeover_inherits_acquire_time:
  assumes "ls_holder_identity prior = Some other" and "other \<noteq> lc_holder_id c" and "ls_acquire_time prior = Some a"
    and "is_lease_stale (ls_renew_time prior) (lc_lease_duration c) now"
  shows "\<exists>sp. acquire_or_renew c now (Some (Some prior)) = Some sp \<and>
    ls_holder_identity sp = Some (lc_holder_id c) \<and> ls_acquire_time sp = Some a"
  using assms by (simp add: acquire_or_renew_def may_take_lease_def lease_spec_def Let_def)

subsection \<open>A concrete election\<close>

definition old_lease :: lease_spec where
  "old_lease = \<lparr>ls_holder_identity = Some ''gone'', ls_lease_duration_seconds = Some 30,
     ls_acquire_time = Some 0, ls_renew_time = Some 0\<rparr>"

definition old_state :: election where
  "old_state = \<lparr>e_now = secs 60, e_version = 7, e_lease = Some (Some old_lease),
     e_replicas = (\<lambda>_. fresh_replica 0), e_writes = [], e_log = []\<rparr>"

lemma old_reachable: "elect_reachable for_apprafter_operator (\<lambda>_. 0) old_state"
  unfolding old_state_def by (rule elect_reachable.init) blast

lemma old_stale: "is_lease_stale (ls_renew_time old_lease) (lc_lease_duration (for_apprafter_operator p)) (secs 60)"
  by (simp add: is_lease_stale_def old_lease_def for_apprafter_operator_def secs_def signed_divide_int_def)

lemma rtranclp_reachable:
  "(elect cfg skew)\<^sup>*\<^sup>* s t \<Longrightarrow> elect_reachable cfg skew s \<Longrightarrow> elect_reachable cfg skew t"
  by (induction rule: rtranclp_induct) (auto intro: elect_reachable.next_state)

lemma leader_elected:
  obtains t where "elect_reachable for_apprafter_operator (\<lambda>_. 0) t" and "r_is_leader (e_replicas t ''a'')"
proof -
  have "\<exists>t. (elect for_apprafter_operator (\<lambda>_. 0))\<^sup>*\<^sup>* old_state t \<and> r_is_leader (e_replicas t ''a'') \<and>
      e_lease t = Some (Some (lease_spec (for_apprafter_operator ''a'') (e_now old_state + 0) (Some old_lease)))"
  proof (rule one_step_takeover [of old_state "''a''" 0 "Some old_lease" for_apprafter_operator "\<lambda>_. 0"])
    show "is_lease_stale (Option.bind (Some old_lease) ls_renew_time) (lc_lease_duration (for_apprafter_operator ''a''))
        (e_now old_state + 0)"
      using old_stale [of "''a''"] by (simp add: old_state_def)
  qed (simp_all add: old_state_def fresh_replica_def secs_def)
  then obtain t where t: "(elect for_apprafter_operator (\<lambda>_. 0))\<^sup>*\<^sup>* old_state t" "r_is_leader (e_replicas t ''a'')"
    by (elim exE conjE)
  show thesis by (rule that [OF rtranclp_reachable [OF t(1) old_reachable] t(2)])
qed

theorem at_most_one_leader_witness:
  "\<exists>t. elect_reachable for_apprafter_operator (\<lambda>_. 0) t \<and> r_is_leader (e_replicas t ''a'') \<and>
     \<not> r_is_leader (e_replicas t ''b'')"
proof -
  obtain t where t: "elect_reachable for_apprafter_operator (\<lambda>_. 0) t" "r_is_leader (e_replicas t ''a'')"
    by (rule leader_elected)
  have "sound_timing for_apprafter_operator (\<lambda>_. 0)" by (rule default_timing) (simp add: secs_def)
  from at_most_one_leader [OF this t]
  have "\<forall>q. r_is_leader (e_replicas t q) \<longrightarrow> q = ''a''" by (rule conjunct1)
  then have "\<not> r_is_leader (e_replicas t ''b'')" by fastforce
  with t show ?thesis by blast
qed

end
