(* ===== verification/Claim_Types.thy ===== *)
theory Claim_Types
  imports App_Types
begin

text \<open>
  The resources around a claim (\<open>operator-core/src/resourceclaim.rs\<close>,
  \<open>serviceprovider.rs\<close>, \<open>retainedclaim.rs\<close>, \<open>shareddatabase.rs\<close>) with the part of their
  metadata the controllers read. An empty \<open>rc_namespace\<close> or \<open>rc_name\<close> stands for a missing
  one (\<open>unwrap_or_default\<close>, \<open>name_any\<close>). A database number is a \<open>u16\<close>.
\<close>

record owner_reference =
  or_kind :: string
  or_name :: string
  or_uid :: string
  or_controller :: "bool option"

record resource_claim_jetstream =
  rcj_dynamic_streams :: bool
  rcj_streams :: "jetstream_stream list"
  rcj_consume :: "jetstream_consume list"

record resource_claim_spec =
  rcs_type :: string
  rcs_name :: "string option"
  rcs_selector :: "string btreemap"
  rcs_size :: "string option"
  rcs_persistent :: "bool option"
  rcs_jetstream :: "resource_claim_jetstream option"
  rcs_shared_ref :: "string option"
  rcs_access :: "string option"
  rcs_extensions :: "pg_extension list option"

record claim_size =
  csz_bytes :: "int option"
  csz_keys :: "int option"
  csz_measured_at :: "string option"

record claim_capacity =
  ccp_used_bytes :: int
  ccp_capacity_bytes :: int
  ccp_scope :: "string option"

record claim_stream_inventory =
  csi_declared :: "string list"
  csi_dynamic :: "string list"
  csi_unattributed :: "string list"
  csi_observed_at :: string

record resource_claim_condition =
  rcc_type :: string
  rcc_status :: string
  rcc_reason :: "string option"
  rcc_message :: "string option"
  rcc_last_transition_time :: string

record resource_claim_status =
  rst_provider :: "string option"
  rst_connection_secret_ref :: "string option"
  rst_ready :: "bool option"
  rst_conditions :: "resource_claim_condition list option"
  rst_instance :: "string option"
  rst_dbnum :: "u16 option"
  rst_volume_claim_ref :: "string option"
  rst_capacity :: "claim_capacity option"
  rst_size :: "claim_size option"
  rst_streams :: "claim_stream_inventory option"

definition default_claim_status :: resource_claim_status where
  "default_claim_status = \<lparr>rst_provider = None, rst_connection_secret_ref = None, rst_ready = None,
     rst_conditions = None, rst_instance = None, rst_dbnum = None, rst_volume_claim_ref = None,
     rst_capacity = None, rst_size = None, rst_streams = None\<rparr>"

record resource_claim =
  rc_name :: string
  rc_namespace :: string
  rc_labels :: "string btreemap option"
  rc_owner_references :: "owner_reference list option"
  rc_deletion_timestamp :: "int option"
  rc_finalizers :: "string list option"
  rc_spec :: resource_claim_spec
  rc_status :: "resource_claim_status option"

record service_provider_spec =
  sps_type :: string
  sps_backend :: string
  sps_config :: "json option"

record service_provider =
  sp_name :: string
  sp_labels :: "string btreemap option"
  sp_spec :: service_provider_spec

record claim_ref =
  clr_name :: string
  clr_namespace :: string

record retained_claim_spec =
  rts_claim_ref :: claim_ref
  rts_provider :: string
  rts_backend :: string
  rts_cnpg_cluster :: "string option"
  rts_cnpg_namespace :: "string option"
  rts_role :: "string option"
  rts_database :: "string option"
  rts_database_object_name :: "string option"
  rts_password_secret_name :: "string option"
  rts_instance :: "string option"
  rts_dbnum :: "u16 option"
  rts_acl_user :: "string option"
  rts_connection_secret_ref :: "string option"
  rts_connection_secret_namespace :: "string option"
  rts_volume_claim_ref :: "string option"
  rts_volume_claim_namespace :: "string option"
  rts_nats_namespace :: "string option"
  rts_nats_app :: "string option"
  rts_nats_declared_streams :: "string list option"
  rts_nats_declared_consumers :: "string list option"
  rts_retain_until :: string

record retained_claim =
  rt_name :: string
  rt_spec :: retained_claim_spec

record shared_database_spec =
  sds_type :: string
  sds_size :: "string option"
  sds_selector :: "string btreemap option"
  sds_persistent :: "bool option"
  sds_extensions :: "pg_extension list option"

record shared_database_condition =
  sdc_type :: string
  sdc_status :: string
  sdc_last_transition_time :: string
  sdc_reason :: "string option"
  sdc_message :: "string option"

record shared_database_status =
  sdst_ready :: "bool option"
  sdst_ref_count :: "int option"
  sdst_database :: "string option"
  sdst_instance :: "string option"
  sdst_dbnum :: "int option"
  sdst_conditions :: "shared_database_condition list option"

record shared_database =
  sd_name :: string
  sd_namespace :: string
  sd_deletion_timestamp :: "int option"
  sd_spec :: shared_database_spec
  sd_status :: "shared_database_status option"

end
