(* ===== verification/Scheduler.thy ===== *)
theory Scheduler
  imports Claim_Types
begin

text \<open>
  The claim scheduler: matching a claim to a provider (\<open>operator-core/src/matching.rs\<close>) and
  the decision that one pass writes (\<open>resourceclaim-scheduler/src/reconcile.rs\<close>). The status
  patch is the typed content of its JSON body: \<open>None\<close> for an absent key. Events, metrics and
  the deadline wrapper are not modelled.
\<close>

subsection \<open>Matching\<close>

record candidate =
  cd_name :: string
  cd_type :: string
  cd_labels :: "string btreemap"

definition from_provider :: "service_provider \<Rightarrow> candidate" where
  "from_provider p = \<lparr>cd_name = sp_name p, cd_type = sps_type (sp_spec p), cd_labels = unwrap_or (sp_labels p) []\<rparr>"

definition provider_matches :: "string \<Rightarrow> string btreemap \<Rightarrow> string \<Rightarrow> string btreemap \<Rightarrow> bool" where
  "provider_matches claim_type selector provider_type provider_labels \<longleftrightarrow>
     claim_type = provider_type \<and> list_all (\<lambda>(k, v). map_of provider_labels k = Some v) selector"

text \<open>\<open>Iterator::min\<close>\<close>

definition iter_min :: "string list \<Rightarrow> string option" where
  "iter_min xs = (case xs of [] \<Rightarrow> None | y # ys \<Rightarrow> Some (foldl (\<lambda>m x. if x < m then x else m) y ys))"

definition select_provider :: "string \<Rightarrow> string btreemap \<Rightarrow> candidate list \<Rightarrow> string option" where
  "select_provider claim_type selector candidates =
     iter_min (map cd_name (filter (\<lambda>c. provider_matches claim_type selector (cd_type c) (cd_labels c)) candidates))"

subsection \<open>The decision of a pass\<close>

definition COND_SCHEDULED :: string where "COND_SCHEDULED = ''Scheduled''"

record status_patch =
  stp_name :: string
  stp_provider :: "string option"
  stp_conditions :: "resource_claim_condition list"

record decision =
  dec_provider :: "string option"
  dec_patch :: status_patch
  dec_warning :: "string option"

definition condition ::
  "string \<Rightarrow> string \<Rightarrow> string \<Rightarrow> string \<Rightarrow> string \<Rightarrow> resource_claim_condition list \<Rightarrow> resource_claim_condition" where
  "condition now type status reason message previous =
     \<lparr>rcc_type = type, rcc_status = status, rcc_reason = Some reason, rcc_message = Some message,
      rcc_last_transition_time =
        (case List.find (\<lambda>c. rcc_type c = type \<and> rcc_status c = status) previous of
           Some c \<Rightarrow> rcc_last_transition_time c | None \<Rightarrow> now)\<rparr>"

definition build_status_patch :: "string \<Rightarrow> string option \<Rightarrow> resource_claim_condition \<Rightarrow> status_patch" where
  "build_status_patch name provider cond =
     \<lparr>stp_name = name, stp_provider = provider, stp_conditions = [cond]\<rparr>"

text \<open>\<open>{:?}\<close> of a \<open>BTreeMap\<close>\<close>

definition debug_map :: "string btreemap \<Rightarrow> string" where
  "debug_map m = ''{'' @ join '', '' (map (\<lambda>(k, v). debug_str k @ '': '' @ debug_str v) m) @ ''}''"

definition claim_conditions :: "resource_claim \<Rightarrow> resource_claim_condition list" where
  "claim_conditions claim = unwrap_or (Option.bind (rc_status claim) rst_conditions) []"

definition schedule_decide :: "string \<Rightarrow> string \<Rightarrow> resource_claim \<Rightarrow> candidate list \<Rightarrow> decision" where
  "schedule_decide now name claim candidates =
     (let chosen = select_provider (rcs_type (rc_spec claim)) (rcs_selector (rc_spec claim)) candidates;
          prior = claim_conditions claim
      in case chosen of
           Some provider_name \<Rightarrow>
             (let cond = condition now COND_SCHEDULED ''True'' ''MatchFound''
                    (''matched ServiceProvider '' @ provider_name) prior
              in \<lparr>dec_provider = Some provider_name,
                  dec_patch = build_status_patch name (Some provider_name) cond, dec_warning = None\<rparr>)
         | None \<Rightarrow>
             (let message = ''no ServiceProvider matches type='' @ debug_str (rcs_type (rc_spec claim)) @
                    '' selector='' @ debug_map (rcs_selector (rc_spec claim));
                  cond = condition now COND_SCHEDULED ''False'' ''NoMatchingProvider'' message prior
              in \<lparr>dec_provider = None, dec_patch = build_status_patch name None cond,
                  dec_warning = Some message\<rparr>))"

subsection \<open>What the apiserver makes of the patch\<close>

text \<open>
  Server-side apply of the scheduler's patch: \<open>conditions\<close> is a list keyed by type, so the
  entries of other managers stay; \<open>provider\<close> is owned by the scheduler alone, so a patch
  without it removes it.
\<close>

definition upsert_condition ::
  "resource_claim_condition \<Rightarrow> resource_claim_condition list \<Rightarrow> resource_claim_condition list" where
  "upsert_condition c cs =
     (if \<exists>d \<in> set cs. rcc_type d = rcc_type c
      then map (\<lambda>d. if rcc_type d = rcc_type c then c else d) cs else cs @ [c])"

text \<open>
  The server-side apply under the scheduler's own field manager, which alone writes
  \<open>status.provider\<close>: a key the patch leaves out is removed, other managers' fields stay.
\<close>

definition apply_patch :: "status_patch \<Rightarrow> resource_claim \<Rightarrow> resource_claim" where
  "apply_patch p claim =
     (let st = unwrap_or (rc_status claim) default_claim_status
      in claim\<lparr>rc_status := Some (st\<lparr>rst_provider := stp_provider p,
           rst_conditions := Some (foldl (\<lambda>cs c. upsert_condition c cs) (claim_conditions claim) (stp_conditions p))\<rparr>)\<rparr>)"

text \<open>One pass over a claim: the claim it leaves and the requeue in seconds.\<close>

definition schedule_pass :: "string \<Rightarrow> resource_claim \<Rightarrow> service_provider list \<Rightarrow> resource_claim \<times> nat" where
  "schedule_pass now claim providers =
     (apply_patch (dec_patch (schedule_decide now (rc_name claim) claim (map from_provider providers))) claim, 300)"

subsection \<open>The chosen provider\<close>

lemma fold_min: "foldl (\<lambda>m x. if x < m then x else m) y ys = Min (insert y (set ys))" for y :: string
proof (induction ys arbitrary: y)
  case (Cons x ys)
  have "Min (insert y (insert x (set ys))) = Min (insert (min y x) (set ys))"
    by (cases "set ys = {}") (simp_all add: min.assoc)
  moreover have "(if x < y then x else y) = min y x" by (auto simp: min_def)
  ultimately show ?case using Cons by simp
qed simp

lemma iter_min_Min: "iter_min xs = (if xs = [] then None else Some (Min (set xs)))"
  by (cases xs) (simp_all add: iter_min_def fold_min)

definition qualifies :: "resource_claim_spec \<Rightarrow> service_provider \<Rightarrow> bool" where
  "qualifies spec p \<longleftrightarrow> sps_type (sp_spec p) = rcs_type spec \<and>
     map_of (rcs_selector spec) \<subseteq>\<^sub>m map_of (unwrap_or (sp_labels p) [])"

lemma matches_qualifies:
  assumes "bt_wf (rcs_selector spec)"
  shows "provider_matches (rcs_type spec) (rcs_selector spec) (cd_type (from_provider p)) (cd_labels (from_provider p)) \<longleftrightarrow>
    qualifies spec p"
proof -
  let ?sel = "rcs_selector spec" and ?labels = "unwrap_or (sp_labels p) []"
  have entry: "map_of ?sel k = Some v \<longleftrightarrow> (k, v) \<in> set ?sel" for k v
    using bt_wf_distinct [OF assms] by simp
  have "list_all (\<lambda>(k, v). map_of ?labels k = Some v) ?sel \<longleftrightarrow> map_of ?sel \<subseteq>\<^sub>m map_of ?labels"
    by (auto simp: list_all_iff map_le_def dom_def entry) (metis entry)
  then show ?thesis by (auto simp: provider_matches_def qualifies_def from_provider_def)
qed

lemma select_provider_Min:
  assumes "bt_wf (rcs_selector spec)"
  shows "select_provider (rcs_type spec) (rcs_selector spec) (map from_provider providers) =
    (let names = {sp_name p | p. p \<in> set providers \<and> qualifies spec p}
     in if names = {} then None else Some (Min names))"
proof -
  let ?m = "filter (\<lambda>p. qualifies spec p) providers"
  have "map cd_name (filter (\<lambda>c. provider_matches (rcs_type spec) (rcs_selector spec) (cd_type c) (cd_labels c))
      (map from_provider providers)) = map sp_name ?m"
    using matches_qualifies [OF assms] by (simp add: filter_map o_def from_provider_def)
  moreover have "set (map sp_name ?m) = {sp_name p | p. p \<in> set providers \<and> qualifies spec p}" by auto
  ultimately show ?thesis
    by (simp only: select_provider_def iter_min_Min Let_def) (metis set_empty)
qed

subsection \<open>A repeated pass\<close>

lemma find_unique: "x \<in> set xs \<Longrightarrow> P x \<Longrightarrow> (\<And>y. y \<in> set xs \<Longrightarrow> P y \<Longrightarrow> y = x) \<Longrightarrow> List.find P xs = Some x"
  by (induction xs) (simp, metis find.simps(2) list.set_intros set_ConsD)

lemma upsert_condition_type: "d \<in> set (upsert_condition c cs) \<Longrightarrow> rcc_type d = rcc_type c \<Longrightarrow> d = c"
  by (auto simp: upsert_condition_def split: if_splits)

lemma upsert_condition_mem: "c \<in> set (upsert_condition c cs)"
  by (auto simp: upsert_condition_def)

lemma upsert_condition_other:
  "filter (\<lambda>d. rcc_type d \<noteq> rcc_type c) (upsert_condition c cs) = filter (\<lambda>d. rcc_type d \<noteq> rcc_type c) cs"
proof -
  have "filter (\<lambda>d. rcc_type d \<noteq> rcc_type c) (map (\<lambda>d. if rcc_type d = rcc_type c then c else d) cs) =
      filter (\<lambda>d. rcc_type d \<noteq> rcc_type c) cs"
    by (induction cs) auto
  then show ?thesis by (simp add: upsert_condition_def)
qed

lemma upsert_condition_idem: "upsert_condition c (upsert_condition c cs) = upsert_condition c cs"
proof -
  have "\<exists>d \<in> set (upsert_condition c cs). rcc_type d = rcc_type c" using upsert_condition_mem by blast
  moreover have "map (\<lambda>d. if rcc_type d = rcc_type c then c else d) (upsert_condition c cs) = upsert_condition c cs"
    using upsert_condition_type by (intro map_idI) metis
  ultimately show ?thesis by (simp add: upsert_condition_def [of c "upsert_condition c cs"])
qed

lemma condition_stable:
  assumes "c = condition now type status reason message prior"
  shows "condition now' type status reason message (upsert_condition c cs) = c"
proof -
  have "List.find (\<lambda>d. rcc_type d = type \<and> rcc_status d = status) (upsert_condition c cs) = Some c"
    using assms upsert_condition_mem upsert_condition_type [of _ c cs]
    by (intro find_unique) (simp_all add: condition_def)
  then show ?thesis by (simp add: assms condition_def)
qed

text \<open>A pass sends one \<open>Scheduled\<close> condition; what it says is a function of the choice.\<close>

definition scheduled_condition :: "string \<Rightarrow> resource_claim_spec \<Rightarrow> string option \<Rightarrow>
  resource_claim_condition list \<Rightarrow> resource_claim_condition" where
  "scheduled_condition now spec chosen prior = (case chosen of
       Some provider_name \<Rightarrow> condition now COND_SCHEDULED ''True'' ''MatchFound''
         (''matched ServiceProvider '' @ provider_name) prior
     | None \<Rightarrow> condition now COND_SCHEDULED ''False'' ''NoMatchingProvider''
         (''no ServiceProvider matches type='' @ debug_str (rcs_type spec) @
          '' selector='' @ debug_map (rcs_selector spec)) prior)"

lemma decide_patch:
  "dec_patch (schedule_decide now name claim cands) =
     (let chosen = select_provider (rcs_type (rc_spec claim)) (rcs_selector (rc_spec claim)) cands
      in build_status_patch name chosen (scheduled_condition now (rc_spec claim) chosen (claim_conditions claim)))"
  by (simp add: schedule_decide_def scheduled_condition_def Let_def split: option.split)

lemma scheduled_condition_stable:
  assumes "c = scheduled_condition now spec chosen prior"
  shows "scheduled_condition now' spec chosen (upsert_condition c cs) = c"
  using assms condition_stable by (cases chosen) (simp_all add: scheduled_condition_def)

lemma scheduled_condition_type [simp]: "rcc_type (scheduled_condition now spec chosen prior) = COND_SCHEDULED"
  by (simp add: scheduled_condition_def condition_def split: option.split)

definition chosen_provider :: "resource_claim_spec \<Rightarrow> service_provider list \<Rightarrow> string option" where
  "chosen_provider spec providers = select_provider (rcs_type spec) (rcs_selector spec) (map from_provider providers)"

lemma schedule_pass_claim:
  "fst (schedule_pass now claim providers) = claim\<lparr>rc_status := Some
     ((unwrap_or (rc_status claim) default_claim_status)\<lparr>rst_provider := chosen_provider (rc_spec claim) providers,
        rst_conditions := Some (upsert_condition
          (scheduled_condition now (rc_spec claim) (chosen_provider (rc_spec claim) providers) (claim_conditions claim))
          (claim_conditions claim))\<rparr>)\<rparr>"
  by (simp add: schedule_pass_def apply_patch_def decide_patch build_status_patch_def chosen_provider_def Let_def)

text \<open>
  C34. The scheduler settles: a second pass over the claim that a pass left, with the same
  providers and at any later time, leaves it exactly as it is (so the write does not trigger
  itself again). A pass changes nothing but the provider and its own condition: the
  conditions of other writers and the fields of the provisioner stay.
\<close>

theorem scheduling_settles:
  "fst (schedule_pass now' (fst (schedule_pass now claim providers)) providers) = fst (schedule_pass now claim providers) \<and>
   rc_spec (fst (schedule_pass now claim providers)) = rc_spec claim \<and>
   (let st = unwrap_or (rc_status claim) default_claim_status;
        st' = unwrap_or (rc_status (fst (schedule_pass now claim providers))) default_claim_status
    in st'\<lparr>rst_provider := rst_provider st, rst_conditions := rst_conditions st\<rparr> = st \<and>
      filter (\<lambda>c. rcc_type c \<noteq> COND_SCHEDULED) (unwrap_or (rst_conditions st') []) =
      filter (\<lambda>c. rcc_type c \<noteq> COND_SCHEDULED) (unwrap_or (rst_conditions st) []))"
proof -
  let ?spec = "rc_spec claim"
  let ?c = "scheduled_condition now ?spec (chosen_provider ?spec providers) (claim_conditions claim)"
  let ?claim' = "fst (schedule_pass now claim providers)"
  have conds: "claim_conditions ?claim' = upsert_condition ?c (claim_conditions claim)"
    by (simp add: schedule_pass_claim claim_conditions_def)
  have spec: "rc_spec ?claim' = ?spec" by (simp add: schedule_pass_claim)
  have "fst (schedule_pass now' ?claim' providers) = ?claim'"
    unfolding schedule_pass_claim [of now' ?claim'] spec conds
    using scheduled_condition_stable [of ?c now ?spec "chosen_provider ?spec providers"]
    by (simp add: upsert_condition_idem) (simp add: schedule_pass_claim)
  moreover have "filter (\<lambda>d. rcc_type d \<noteq> COND_SCHEDULED) (upsert_condition ?c (claim_conditions claim)) =
      filter (\<lambda>d. rcc_type d \<noteq> COND_SCHEDULED) (claim_conditions claim)"
    using upsert_condition_other [of ?c] by simp
  moreover have "claim_conditions claim = unwrap_or (rst_conditions (unwrap_or (rc_status claim) default_claim_status)) []"
    by (cases "rc_status claim") (simp_all add: claim_conditions_def default_claim_status_def)
  ultimately show ?thesis by (simp add: schedule_pass_claim Let_def)
qed

text \<open>
  C35. The chosen provider is determined by the set of providers alone: it is the least name
  among those of the claim's type whose labels contain the selector, and there is a choice
  exactly when one qualifies. The order of the list and repetitions do not matter. A pass that
  finds none leaves the claim without a provider, also one that had a provider before: the
  scheduler applies its fields by a server-side apply and is the only manager of
  \<open>status.provider\<close>, so the apply that leaves the key out removes it. The doc of
  \<open>build_status_patch\<close> and a test beside it take the omission to preserve the provider.
\<close>

theorem provider_choice_is_least_qualifying:
  assumes "bt_wf (rcs_selector (rc_spec claim))"
  shows "rst_provider (the (rc_status (fst (schedule_pass now claim providers)))) =
    (let names = {sp_name p | p. p \<in> set providers \<and> qualifies (rc_spec claim) p}
     in if names = {} then None else Some (Min names))"
  using select_provider_Min [OF assms] by (simp add: schedule_pass_claim chosen_provider_def)

definition witness_claim :: resource_claim where
  "witness_claim = \<lparr>rc_name = ''shop-pg'', rc_namespace = ''apps'', rc_labels = None, rc_owner_references = None,
     rc_deletion_timestamp = None, rc_finalizers = None,
     rc_spec = \<lparr>rcs_type = ''pg'', rcs_name = None, rcs_selector = [(''tier'', ''integrated'')], rcs_size = None,
       rcs_persistent = None, rcs_jetstream = None, rcs_shared_ref = None, rcs_access = None, rcs_extensions = None\<rparr>,
     rc_status = None\<rparr>"

definition witness_provider :: "string \<Rightarrow> string \<Rightarrow> service_provider" where
  "witness_provider name tier = \<lparr>sp_name = name, sp_labels = Some [(''tier'', tier), (''zone'', ''a'')],
     sp_spec = \<lparr>sps_type = ''pg'', sps_backend = ''cloudnative-pg'', sps_config = None\<rparr>\<rparr>"

theorem provider_choice_is_least_qualifying_witness:
  "rst_provider (the (rc_status (fst (schedule_pass ''t'' witness_claim
     [witness_provider ''b'' ''integrated'', witness_provider ''a'' ''external'', witness_provider ''c'' ''integrated''])))) =
   Some ''b''"
proof -
  let ?ps = "[witness_provider ''b'' ''integrated'', witness_provider ''a'' ''external'', witness_provider ''c'' ''integrated'']"
  have "bt_wf (rcs_selector (rc_spec witness_claim))" by (simp add: witness_claim_def bt_wf_def)
  note least = provider_choice_is_least_qualifying [OF this, of "''t''" ?ps]
  have q: "qualifies (rc_spec witness_claim) (witness_provider n t) \<longleftrightarrow> t = ''integrated''" for n t
    by (auto simp: qualifies_def witness_claim_def witness_provider_def map_le_def)
  have sp: "sp_name (witness_provider n t) = n" for n t by (simp add: witness_provider_def)
  have "{sp_name p | p. p \<in> set ?ps \<and> qualifies (rc_spec witness_claim) p} = {''b'', ''c''}"
    using q [of "''b''" "''integrated''"] q [of "''c''" "''integrated''"] sp
    by (auto simp: q sp intro: exI [of _ "witness_provider ''b'' ''integrated''"] exI [of _ "witness_provider ''c'' ''integrated''"])
  moreover have "Min {''b'', ''c''} = ''b''" by code_simp
  ultimately show ?thesis using least by simp
qed

end
