(* ===== verification/Needs_Admission.thy ===== *)
theory Needs_Admission
  imports Migration_Webhook Claim_Types Names
begin

text \<open>
  The admission rules on the identities of an Application's needs
  (\<open>admission-webhook/src/validator.rs\<close>): names of service entries
  (\<open>validate_needs_names\<close>) and the disk rules (\<open>validate_disk_claims\<close>). Modelled is the path
  on which the scope decodes into the typed resource; the fallback that reads an undecodable
  scope as raw JSON is not. Long dashes and ellipses of messages are written in ASCII.
\<close>

definition is_dns_1123_label :: "string \<Rightarrow> bool" where
  "is_dns_1123_label s =
     (if s = [] \<or> length s > 63 then False
      else let endpoint_ok = (\<lambda>b. 97 \<le> (of_char b :: nat) \<and> (of_char b :: nat) \<le> 122 \<or> is_ascii_digit b)
           in if \<not> endpoint_ok (hd s) \<or> \<not> endpoint_ok (last s) then False
              else list_all (\<lambda>b. endpoint_ok b \<or> b = CHR ''-'') s)"

definition nonempty :: "string option \<Rightarrow> string option" where
  "nonempty v = (case v of Some [] \<Rightarrow> None | _ \<Rightarrow> v)"

lemma nonempty_Some: "nonempty v = Some n \<longleftrightarrow> v = Some n \<and> n \<noteq> []"
  by (cases v) (auto simp: nonempty_def split: list.splits)

lemma nonempty_None: "nonempty v = None \<longleftrightarrow> v = None \<or> v = Some []"
  by (cases v) (auto simp: nonempty_def split: list.splits)

subsection \<open>Names of service entries\<close>

text \<open>The errors of the entries from here on and how many of them are unnamed.\<close>

fun slot_names :: "string \<Rightarrow> string \<Rightarrow> service_need list \<Rightarrow> string list \<Rightarrow> validation_error list \<times> nat" where
  "slot_names path ty [] seen = ([], 0)"
| "slot_names path ty (need # rest) seen = (case nonempty (sn_name need) of
       None \<Rightarrow> (let (errors, unnamed) = slot_names path ty rest seen in (errors, Suc unnamed))
     | Some n \<Rightarrow>
         (if \<not> is_dns_1123_label n then
            (let (errors, unnamed) = slot_names path ty rest seen
             in (verr (path @ ''.'' @ ty) (''needs.'' @ ty @ '' entry name '' @ debug_str n @
                   '' must be a DNS-1123 label (lowercase alphanumeric + '-', start and end alphanumeric) so it folds to a valid [A-Z_][A-Z0-9_]* env-var suffix'')
                 # errors, unnamed))
          else if n \<in> set seen then
            (let (errors, unnamed) = slot_names path ty rest seen
             in (verr (path @ ''.'' @ ty) (''needs.'' @ ty @ '' has a duplicate entry name '' @ debug_str n @
                   ''; names must be unique within a type'') # errors, unnamed))
          else slot_names path ty rest (seen @ [n])))"

definition check_typed_slot :: "string \<Rightarrow> string \<Rightarrow> service_need one_or_many \<Rightarrow> validation_error list" where
  "check_typed_slot path ty slot =
     (let (errors, unnamed) = slot_names path ty (into_vec slot) []
      in errors @ (if unnamed > 1 then
           [verr (path @ ''.'' @ ty) (''needs.'' @ ty @ '' declares '' @ show_nat unnamed @
              '' unnamed entries; at most one unnamed default per type is allowed (give the others a name)'')]
         else []))"

definition service_need_slots :: "app_needs \<Rightarrow> (string \<times> service_need one_or_many option) list" where
  "service_need_slots needs = [(''pg'', nd_pg needs), (''clickhouse'', nd_clickhouse needs), (''redis'', nd_redis needs),
     (''s3'', nd_s3 needs), (''notifications'', nd_notifications needs)]"

definition check_scope_names :: "string \<Rightarrow> app_needs option \<Rightarrow> validation_error list" where
  "check_scope_names path needs = (case needs of
       None \<Rightarrow> []
     | Some n \<Rightarrow> concat (map (\<lambda>(ty, slot). case slot of Some s \<Rightarrow> check_typed_slot path ty s | None \<Rightarrow> [])
         (service_need_slots n)))"

definition validate_needs_names :: "application_spec \<Rightarrow> validation_error list" where
  "validate_needs_names spec =
     check_scope_names ''spec.base.needs'' (Option.bind (asp_base spec) ab_needs) @
     concat (map (\<lambda>(env_name, env). check_scope_names (''spec.environments.'' @ env_name @ ''.needs'') (eo_needs env))
       (unwrap_or (asp_environments spec) []))"

subsection \<open>Disks\<close>

fun quantity_split :: "string \<Rightarrow> bool \<Rightarrow> string \<times> string" where
  "quantity_split [] seen_dot = ([], [])"
| "quantity_split (ch # rest) seen_dot =
     (if is_ascii_digit ch then (let (m, s) = quantity_split rest seen_dot in (ch # m, s))
      else if ch = CHR ''.'' \<and> \<not> seen_dot then (let (m, s) = quantity_split rest True in (ch # m, s))
      else ([], ch # rest))"

definition is_k8s_quantity :: "string \<Rightarrow> bool" where
  "is_k8s_quantity s =
     (let (magnitude, suffix) = quantity_split s False
      in if \<not> list_ex is_ascii_digit magnitude then False
         else if last magnitude = CHR ''.'' then False
         else suffix \<in> {'''', ''Ei'', ''Pi'', ''Ti'', ''Gi'', ''Mi'', ''Ki'', ''E'', ''P'', ''T'', ''G'', ''M'', ''k''})"

text \<open>\<open>rsplit('/').find(|seg| !seg.is_empty())\<close>\<close>

definition last_segment :: "string \<Rightarrow> string option" where
  "last_segment p = List.find (\<lambda>seg. seg \<noteq> []) (rev (split_on CHR ''/'' p))"

definition derived_name :: "disk_claim \<Rightarrow> string option" where
  "derived_name d = (case nonempty (dk_name d) of Some n \<Rightarrow> Some n | None \<Rightarrow> last_segment (dk_mount_path d))"

definition is_reference :: "disk_claim \<Rightarrow> bool" where
  "is_reference d \<longleftrightarrow> dk_reference d \<noteq> None"

definition disk_name_errors :: "string \<Rightarrow> string list \<Rightarrow> disk_claim \<Rightarrow> validation_error list" where
  "disk_name_errors field seen_names d = (case derived_name d of
       Some name \<Rightarrow>
         (if \<not> is_dns_1123_label name then
            [verr field (''needs.disk entry name '' @ debug_str name @
               '' must be a DNS-1123 label (lowercase alphanumeric + '-', start and end alphanumeric) - it becomes part of the PVC name'')]
          else if name \<in> set seen_names then
            [verr field (''needs.disk has a duplicate entry name '' @ debug_str name @
               ''; names must be unique within disk (set an explicit `name` to disambiguate)'')]
          else [])
     | None \<Rightarrow> [verr field ''needs.disk entry has no `name` and no usable `mountPath` to derive one from''])"

definition disk_path_errors :: "string \<Rightarrow> string list \<Rightarrow> disk_claim \<Rightarrow> validation_error list" where
  "disk_path_errors field seen_paths d =
     (let mp = dk_mount_path d
      in if prefix ''/'' mp then
           (if mp \<in> set seen_paths then
              [verr field (''needs.disk mountPath '' @ debug_str mp @
                 '' is declared more than once; each disk mountPath must be unique within the app'')]
            else [])
         else [verr field (''needs.disk mountPath '' @ debug_str mp @ '' must be an absolute path (start with '/')'')])"

definition disk_shape_errors :: "string \<Rightarrow> disk_claim \<Rightarrow> validation_error list" where
  "disk_shape_errors field d = (case dk_reference d of
       Some reference \<Rightarrow>
         (if CHR ''/'' \<in> set reference then
            [verr field (''needs.disk ref '' @ debug_str reference @
               '' is namespaced; cross-namespace shared volumes require T2 (NFS) and are deferred - reference a SharedVolume in the application's own namespace'')]
          else []) @
         (if dk_size d \<noteq> None then
            [verr field ''needs.disk with `ref` must not also set `size`; a referenced disk binds an existing SharedVolume (which owns the capacity) and carries only ref + mountPath + readOnly'']
          else []) @
         (if dk_name d \<noteq> None then
            [verr field ''needs.disk with `ref` must not also set `name`; a referenced disk carries only ref + mountPath + readOnly'']
          else []) @
         (if dk_class d \<noteq> None then
            [verr field ''needs.disk with `ref` must not also set `class`; the storage class is a property of the referenced SharedVolume, not the reference'']
          else [])
     | None \<Rightarrow>
         (case dk_size d of
            Some sz \<Rightarrow>
              (if is_k8s_quantity sz then []
               else [verr field (''needs.disk size '' @ debug_str sz @ '' must be a Kubernetes quantity (e.g. '' @
                       debug_str ''10Gi'' @ '', '' @ debug_str ''500Mi'' @ '', '' @ debug_str ''1G'' @ '')'')])
          | None \<Rightarrow> [verr field ''needs.disk entry is missing the required `size`'']) @
         (case dk_class d of
            Some class \<Rightarrow>
              (if class \<noteq> ''local'' then
                 [verr field (''needs.disk class '' @ debug_str class @
                    '' is not supported; only `local` is available at launch (replicated/shared classes are T2, deferred)'')]
               else [])
          | None \<Rightarrow> []))"

text \<open>The entries of one scope, with the names seen in it and the paths seen in the whole Application.\<close>

fun disk_entries_errors ::
  "string \<Rightarrow> disk_claim list \<Rightarrow> string list \<Rightarrow> string list \<Rightarrow> validation_error list \<times> string list" where
  "disk_entries_errors field [] seen_names seen_paths = ([], seen_paths)"
| "disk_entries_errors field (d # rest) seen_names seen_paths =
     (let name_errors = disk_name_errors field seen_names d;
          path_errors = disk_path_errors field seen_paths d;
          names = (if name_errors = [] then seen_names @ [the (derived_name d)] else seen_names);
          paths = (if path_errors = [] then seen_paths @ [dk_mount_path d] else seen_paths);
          (errors, paths') = disk_entries_errors field rest names paths
      in (name_errors @ path_errors @ disk_shape_errors field d @ errors, paths'))"

definition scope_disks :: "app_needs option \<Rightarrow> disk_claim list" where
  "scope_disks needs = unwrap_or (map_option into_vec (Option.bind needs nd_disk)) []"

definition scope_disk_present :: "app_needs option \<Rightarrow> bool" where
  "scope_disk_present needs \<longleftrightarrow> Option.bind needs nd_disk \<noteq> None"

definition has_owned_disk :: "app_needs option \<Rightarrow> bool" where
  "has_owned_disk needs \<longleftrightarrow> list_ex (\<lambda>d. \<not> is_reference d) (scope_disks needs)"

definition replicas_error :: "string \<Rightarrow> int option \<Rightarrow> validation_error list" where
  "replicas_error pre replicas = (case replicas of
       Some n \<Rightarrow>
         (if n > 1 then
            [verr (pre @ ''.replicas'') ''persistent disks currently support single-replica apps; use replicas: 1 (per-replica disks for multi-replica apps are T2)'']
          else [])
     | None \<Rightarrow> [])"

definition disk_replicas_errors :: "application_spec \<Rightarrow> validation_error list" where
  "disk_replicas_errors spec =
     (let base_needs = Option.bind (asp_base spec) ab_needs;
          base_replicas = Option.bind (asp_base spec) ab_replicas
      in (if has_owned_disk base_needs then replicas_error ''spec.base'' base_replicas else []) @
         concat (map (\<lambda>(env_name, env).
             let eff = (if scope_disk_present (eo_needs env) then eo_needs env
                        else if scope_disk_present base_needs then base_needs else None)
             in if has_owned_disk eff
                then replicas_error (''spec.environments.'' @ env_name) (opt_or (eo_replicas env) base_replicas)
                else [])
           (unwrap_or (asp_environments spec) [])))"

fun disk_value_errors :: "(string \<times> disk_claim list) list \<Rightarrow> string list \<Rightarrow> validation_error list" where
  "disk_value_errors [] seen_paths = []"
| "disk_value_errors ((pre, entries) # scopes) seen_paths =
     (let (errors, paths) = disk_entries_errors (pre @ ''.needs.disk'') entries [] seen_paths
      in errors @ disk_value_errors scopes paths)"

definition validate_disk_claims :: "application_spec \<Rightarrow> validation_error list" where
  "validate_disk_claims spec =
     disk_replicas_errors spec @
     disk_value_errors
       ((''spec.base'', scope_disks (Option.bind (asp_base spec) ab_needs)) #
        map (\<lambda>(env_name, env). (''spec.environments.'' @ env_name, scope_disks (eo_needs env)))
          (unwrap_or (asp_environments spec) [])) []"

lemma label_is_dns_label: "is_dns_1123_label s \<longleftrightarrow> is_dns_label s"
proof (cases s rule: rev_cases)
  case Nil
  then show ?thesis by (simp add: is_dns_1123_label_def is_dns_label_def)
next
  case (snoc t z)
  have dash: "(of_char CHR ''-'' :: nat) = 45" by code_simp
  have eq: "c = CHR ''-'' \<longleftrightarrow> (of_char c :: nat) = 45" for c by (metis dash of_char_eq_iff)
  define endp where "endp = (\<lambda>c. 97 \<le> (of_char c :: nat) \<and> (of_char c :: nat) \<le> 122 \<or> is_ascii_digit c)"
  have endpoint: "endp c \<longleftrightarrow> is_dns_char c \<and> c \<noteq> CHR ''-''" for c
    by (auto simp: endp_def is_dns_char_def is_ascii_digit_def eq Let_def)
  have char: "endp c \<or> c = CHR ''-'' \<longleftrightarrow> is_dns_char c" for c
    using dash by (auto simp: endpoint is_dns_char_def Let_def)
  have ne: "s \<noteq> []" using snoc by simp
  have "is_dns_1123_label s \<longleftrightarrow> length s \<le> 63 \<and> endp (hd s) \<and> endp (last s) \<and> (\<forall>c \<in> set s. is_dns_char c)"
    unfolding is_dns_1123_label_def endp_def [symmetric] Let_def char list_all_iff using ne by auto
  then show ?thesis using ne endpoint hd_in_set last_in_set unfolding is_dns_label_def by blast
qed

definition entry_names :: "service_need list \<Rightarrow> string list" where
  "entry_names ns = List.map_filter (\<lambda>n. nonempty (sn_name n)) ns"

lemma entry_names_simps [simp]:
  "entry_names [] = []"
  "entry_names (n # ns) = (case nonempty (sn_name n) of None \<Rightarrow> entry_names ns | Some x \<Rightarrow> x # entry_names ns)"
  by (simp_all add: entry_names_def map_filter_simps split: option.split)

text \<open>Admitted service entries have distinct, valid names.\<close>

lemma slot_names_admitted:
  assumes "slot_names path ty ns seen = ([], u)"
  shows "distinct (entry_names ns) \<and> set (entry_names ns) \<inter> set seen = {} \<and>
    (\<forall>n \<in> set (entry_names ns). is_dns_1123_label n) \<and> u = length (filter (\<lambda>n. nonempty (sn_name n) = None) ns)"
  using assms
proof (induction ns arbitrary: seen u)
  case (Cons need ns)
  show ?case
  proof (cases "nonempty (sn_name need)")
    case None
    obtain es v where r: "slot_names path ty ns seen = (es, v)" by force
    with None Cons.prems have "es = []" "u = Suc v" by simp_all
    with r Cons.IH [of seen v] None show ?thesis by simp
  next
    case (Some n)
    obtain es v where r: "slot_names path ty ns seen = (es, v)" by force
    with Some Cons.prems have "is_dns_1123_label n" "n \<notin> set seen" "slot_names path ty ns (seen @ [n]) = ([], u)"
      by (simp_all split: if_splits)
    with Cons.IH [OF this(3)] Some show ?thesis by auto
  qed
qed simp

end
