(* ===== verification/App_Claims.thy ===== *)
theory App_Claims
  imports Needs_Admission
begin

text \<open>
  The claims of an Application (\<open>application/src/lib.rs\<close>): the child claims generated from
  its needs, the pruning of claims it no longer declares, the readiness gate, and what the
  renderer is given (connection Secrets and disk mounts). The body of an apply is its typed
  content (\<open>None\<close> for an absent or null key). The claims of the namespace are a list in the
  apiserver's order; applying, deleting and reading them may fail per request.
\<close>

subsection \<open>Generated claims\<close>

definition claim_name :: "string \<Rightarrow> string \<Rightarrow> string option \<Rightarrow> string" where
  "claim_name app service_type name =
     (let raw = (case nonempty name of
            Some n \<Rightarrow> app @ ''-'' @ service_type @ ''-'' @ n
          | None \<Rightarrow> app @ ''-'' @ service_type)
      in dns_label raw)"

definition default_integrated_selector :: "string btreemap" where
  "default_integrated_selector = [(''tier'', ''integrated'')]"

record claim_payload =
  cp_name :: string
  cp_namespace :: string
  cp_labels :: "string btreemap"
  cp_owner :: owner_reference
  cp_spec :: resource_claim_spec

definition application_owner :: "string \<Rightarrow> string \<Rightarrow> owner_reference" where
  "application_owner app_name app_uid =
     \<lparr>or_kind = ''Application'', or_name = app_name, or_uid = app_uid, or_controller = Some True\<rparr>"

definition bare_claim_spec :: "string \<Rightarrow> string btreemap \<Rightarrow> resource_claim_spec" where
  "bare_claim_spec ty selector = \<lparr>rcs_type = ty, rcs_name = None, rcs_selector = selector, rcs_size = None,
     rcs_persistent = None, rcs_jetstream = None, rcs_shared_ref = None, rcs_access = None, rcs_extensions = None\<rparr>"

definition disk_claim_payload ::
  "string \<Rightarrow> string \<Rightarrow> string \<Rightarrow> string \<Rightarrow> need_entry \<Rightarrow> disk_claim \<Rightarrow> claim_payload" where
  "disk_claim_payload app_name app_uid namespace service_type entry disk = (case dk_reference disk of
       Some reference \<Rightarrow>
         \<lparr>cp_name = claim_name app_name ''shared-disk'' (Some reference), cp_namespace = namespace,
          cp_labels = [(''apprafter.io/shared-volume'', reference)], cp_owner = application_owner app_name app_uid,
          cp_spec = bare_claim_spec ''shared-disk'' default_integrated_selector\<rparr>
     | None \<Rightarrow>
         \<lparr>cp_name = claim_name app_name service_type (ne_name entry), cp_namespace = namespace, cp_labels = [],
          cp_owner = application_owner app_name app_uid,
          cp_spec = (bare_claim_spec service_type default_integrated_selector)
            \<lparr>rcs_size := dk_size disk, rcs_name := nonempty (ne_name entry)\<rparr>\<rparr>)"

definition service_claim_payload ::
  "app_needs \<Rightarrow> string \<Rightarrow> string \<Rightarrow> string \<Rightarrow> string \<Rightarrow> need_entry \<Rightarrow> service_need \<Rightarrow> claim_payload" where
  "service_claim_payload needs app_name app_uid namespace service_type entry need =
     \<lparr>cp_name = claim_name app_name service_type (ne_name entry), cp_namespace = namespace, cp_labels = [],
      cp_owner = application_owner app_name app_uid,
      cp_spec = (bare_claim_spec service_type (unwrap_or (sn_selector need) default_integrated_selector))
        \<lparr>rcs_name := nonempty (ne_name entry), rcs_size := sn_size need, rcs_persistent := sn_persistent need,
         rcs_shared_ref := sn_ref need, rcs_access := sn_access need,
         rcs_extensions := (case sn_extensions need of Some [] \<Rightarrow> None | e \<Rightarrow> e),
         rcs_jetstream := (if service_type = ''jetstream'' then map_option (\<lambda>js.
             \<lparr>rcj_dynamic_streams = jsn_dynamic_streams js, rcj_streams = jsn_streams js, rcj_consume = jsn_consume js\<rparr>)
             (nd_jetstream needs) else None)\<rparr>\<rparr>"

definition generate_resource_claims ::
  "base_spec \<Rightarrow> string \<Rightarrow> string \<Rightarrow> string \<Rightarrow> (string \<times> claim_payload) list" where
  "generate_resource_claims spec app_name app_uid namespace = (case ab_needs spec of
       None \<Rightarrow> []
     | Some needs \<Rightarrow> List.map_filter (\<lambda>(service_type, entry).
         map_option (\<lambda>p. (cp_name p, p)) (case ne_disk entry of
             Some disk \<Rightarrow> Some (disk_claim_payload app_name app_uid namespace service_type entry disk)
           | None \<Rightarrow> map_option (service_claim_payload needs app_name app_uid namespace service_type entry)
               (ne_service entry))) (needs_entries needs))"

subsection \<open>Pruning and readiness\<close>

definition controlled_by :: "string \<Rightarrow> resource_claim \<Rightarrow> bool" where
  "controlled_by app_uid c \<longleftrightarrow>
     list_ex (\<lambda>r. unwrap_or (or_controller r) False \<and> or_uid r = app_uid) (unwrap_or (rc_owner_references c) [])"

definition claims_to_prune :: "resource_claim list \<Rightarrow> string \<Rightarrow> string set \<Rightarrow> string list" where
  "claims_to_prune live app_uid desired =
     (if app_uid = [] then []
      else filter (\<lambda>n. n \<notin> desired)
        (map rc_name (filter (controlled_by app_uid) (filter (\<lambda>c. rc_deletion_timestamp c = None) live))))"

definition claim_ready :: "resource_claim \<Rightarrow> bool" where
  "claim_ready c = (case rc_status c of
       None \<Rightarrow> False
     | Some s \<Rightarrow> rst_ready s = Some True \<and> (rst_connection_secret_ref s \<noteq> None \<or> rst_volume_claim_ref s \<noteq> None))"

definition unready_claim_names :: "resource_claim list \<Rightarrow> string list" where
  "unready_claim_names claims = map rc_name (filter (\<lambda>c. \<not> claim_ready c) claims)"

definition resolve_needs_secrets :: "resource_claim list \<Rightarrow> (string \<times> string option \<rightharpoonup> string)" where
  "resolve_needs_secrets claims = foldl (\<lambda>m c.
       case Option.bind (rc_status c) rst_connection_secret_ref of
         Some secret \<Rightarrow> m((rcs_type (rc_spec c), nonempty (rcs_name (rc_spec c))) \<mapsto> secret)
       | None \<Rightarrow> m) Map.empty claims"

definition trim_matches :: "char \<Rightarrow> string \<Rightarrow> string" where
  "trim_matches c s = rev (dropWhile (\<lambda>x. x = c) (rev (dropWhile (\<lambda>x. x = c) s)))"

definition disk_identity_name :: "disk_claim \<Rightarrow> string" where
  "disk_identity_name disk =
     (let raw = (case nonempty (dk_name disk) of
            Some explicit \<Rightarrow> explicit
          | None \<Rightarrow> unwrap_or (last_segment (dk_mount_path disk)) ''disk'');
          trimmed = trim_matches CHR ''-'' (fold_dns raw)
      in if trimmed = [] then ''disk'' else trimmed)"

record disk_mount =
  dm_volume_name :: string
  dm_mount_path :: string
  dm_read_only :: bool
  dm_pvc_name :: string
  dm_owned :: bool

definition claim_of_disk :: "string \<Rightarrow> resource_claim list \<Rightarrow> disk_claim \<Rightarrow> resource_claim option" where
  "claim_of_disk app claims disk = (case dk_reference disk of
       Some reference \<Rightarrow> List.find (\<lambda>c. rcs_type (rc_spec c) = ''shared-disk'' \<and>
         Option.bind (rc_labels c) (\<lambda>l. map_of l ''apprafter.io/shared-volume'') = Some reference) claims
     | None \<Rightarrow>
         (let want_spec_name = nonempty (dk_name disk);
              want_claim_name = claim_name app ''disk'' want_spec_name
          in List.find (\<lambda>c. rc_name c = want_claim_name \<or>
               want_spec_name \<noteq> None \<and> rcs_name (rc_spec c) = want_spec_name) claims))"

definition resolve_disk_mounts :: "base_spec \<Rightarrow> string \<Rightarrow> resource_claim list \<Rightarrow> disk_mount list" where
  "resolve_disk_mounts spec app claims = List.map_filter (\<lambda>disk.
       map_option (\<lambda>pvc. \<lparr>dm_volume_name = ''disk-'' @ disk_identity_name disk, dm_mount_path = dk_mount_path disk,
           dm_read_only = unwrap_or (dk_read_only disk) False, dm_pvc_name = pvc, dm_owned = \<not> is_reference disk\<rparr>)
         (Option.bind (Option.bind (claim_of_disk app claims disk) rc_status) rst_volume_claim_ref))
     (scope_disks (ab_needs spec))"

subsection \<open>The claims part of a pass\<close>

definition get_claim :: "string \<Rightarrow> resource_claim list \<Rightarrow> resource_claim option" where
  "get_claim n store = List.find (\<lambda>c. rc_name c = n) store"

text \<open>Deleting an object with finalizers marks it; without, it is gone.\<close>

definition delete_claim :: "int \<Rightarrow> string \<Rightarrow> resource_claim list \<Rightarrow> resource_claim list" where
  "delete_claim now n store = concat (map (\<lambda>c.
     if rc_name c = n then
       (if unwrap_or (rc_finalizers c) [] = [] then []
        else [c\<lparr>rc_deletion_timestamp := opt_or (rc_deletion_timestamp c) (Some now)\<rparr>])
     else [c]) store)"

definition upsert_owner :: "owner_reference \<Rightarrow> owner_reference list \<Rightarrow> owner_reference list" where
  "upsert_owner r rs =
     (if \<exists>q \<in> set rs. or_uid q = or_uid r then map (\<lambda>q. if or_uid q = or_uid r then r else q) rs else rs @ [r])"

definition apply_claim :: "claim_payload \<Rightarrow> resource_claim list \<Rightarrow> resource_claim list" where
  "apply_claim p store =
     (if \<exists>c \<in> set store. rc_name c = cp_name p
      then map (\<lambda>c. if rc_name c = cp_name p
             then c\<lparr>rc_labels := Some (bt_extend (unwrap_or (rc_labels c) []) (cp_labels p)),
                    rc_owner_references := Some (upsert_owner (cp_owner p) (unwrap_or (rc_owner_references c) [])),
                    rc_spec := cp_spec p\<rparr>
             else c) store
      else store @ [\<lparr>rc_name = cp_name p, rc_namespace = cp_namespace p, rc_labels = Some (cp_labels p),
        rc_owner_references = Some [cp_owner p], rc_deletion_timestamp = None, rc_finalizers = None,
        rc_spec = cp_spec p, rc_status = None\<rparr>])"

record request_outcomes =
  ro_list :: bool
  ro_delete :: "string \<Rightarrow> bool"
  ro_apply :: "string \<Rightarrow> bool"
  ro_get :: "string \<Rightarrow> bool"

datatype claims_outcome =
    RequestFailed
  | AwaitingClaims "string list"
  | ClaimsReady "string \<times> string option \<rightharpoonup> string" "disk_mount list"

definition prune_orphaned_claims ::
  "request_outcomes \<Rightarrow> int \<Rightarrow> string \<Rightarrow> string set \<Rightarrow> resource_claim list \<Rightarrow> resource_claim list option" where
  "prune_orphaned_claims ro now app_uid desired store =
     (if app_uid = [] then Some store
      else if \<not> ro_list ro then None
      else Some (foldl (\<lambda>s n. if ro_delete ro n then delete_claim now n s else s) store
             (claims_to_prune store app_uid desired)))"

text \<open>The applies in order, up to the first that fails.\<close>

fun apply_claims :: "request_outcomes \<Rightarrow> (string \<times> claim_payload) list \<Rightarrow> resource_claim list \<Rightarrow> resource_claim list \<times> bool" where
  "apply_claims ro [] store = (store, True)"
| "apply_claims ro ((n, p) # ps) store =
     (if ro_apply ro n then apply_claims ro ps (apply_claim p store) else (store, False))"

definition claims_gate ::
  "request_outcomes \<Rightarrow> base_spec \<Rightarrow> string \<Rightarrow> (string \<times> claim_payload) list \<Rightarrow> resource_claim list \<Rightarrow> claims_outcome" where
  "claims_gate ro effective app payloads store =
     (let current = List.map_filter (\<lambda>(n, _). if ro_get ro n then get_claim n store else None) payloads;
          unready = unready_claim_names current
      in if unready \<noteq> [] \<or> length current \<noteq> length payloads
         then AwaitingClaims (if unready = [] then map fst payloads else unready)
         else ClaimsReady (resolve_needs_secrets current) (resolve_disk_mounts effective app current))"

definition claims_pass ::
  "request_outcomes \<Rightarrow> int \<Rightarrow> base_spec \<Rightarrow> string \<Rightarrow> string \<Rightarrow> string \<Rightarrow> resource_claim list
    \<Rightarrow> resource_claim list \<times> claims_outcome" where
  "claims_pass ro now effective app app_uid namespace store =
     (let has_needs = (case ab_needs effective of Some n \<Rightarrow> \<not> needs_is_empty n | None \<Rightarrow> False);
          payloads = (if has_needs then generate_resource_claims effective app app_uid namespace else []);
          desired = set (map fst payloads)
      in case prune_orphaned_claims ro now app_uid desired store of
           None \<Rightarrow> (store, RequestFailed)
         | Some store1 \<Rightarrow>
             (if \<not> has_needs then (store1, ClaimsReady Map.empty [])
              else (case apply_claims ro payloads store1 of
                  (store2, ok) \<Rightarrow> (store2, if ok then claims_gate ro effective app payloads store2 else RequestFailed))))"

subsection \<open>Environment secrets\<close>

definition unresolved_env_secret_refs :: "env_value btreemap \<Rightarrow> (string \<Rightarrow> string \<Rightarrow> bool) \<Rightarrow> string list" where
  "unresolved_env_secret_refs env secret_has_key = List.map_filter (\<lambda>(var_name, value).
     case value of
       Ref (Secret path) \<Rightarrow>
         (case split_once CHR ''/'' path of
            None \<Rightarrow> None
          | Some (secret_name, key) \<Rightarrow>
              (if secret_has_key secret_name key then None
               else Some (''env '' @ var_name @ '' -> secret '' @ [char_of (34 :: nat)] @ path @ [char_of (34 :: nat)] @
                 '': Secret '' @ [char_of (34 :: nat)] @ secret_name @ [char_of (34 :: nat)] @
                 '' not found or missing key '' @ [char_of (34 :: nat)] @ key @ [char_of (34 :: nat)])))
     | _ \<Rightarrow> None) env"

subsection \<open>What a pass does to the claims of the namespace\<close>

definition declared_claims :: "base_spec \<Rightarrow> string \<Rightarrow> string set" where
  "declared_claims spec app = set (map fst (generate_resource_claims spec app [] []))"

lemma payload_name_indep:
  "cp_name (disk_claim_payload app u ns ty e d) = cp_name (disk_claim_payload app u' ns' ty e d)"
  "cp_name (service_claim_payload n app u ns ty e s) = cp_name (service_claim_payload n app u' ns' ty e s)"
  by (simp_all add: disk_claim_payload_def service_claim_payload_def split: option.split)

lemma generated_names:
  "map fst (generate_resource_claims spec app u ns) = map fst (generate_resource_claims spec app [] [])"
proof -
  have "map fst (List.map_filter (\<lambda>(ty, e). map_option (\<lambda>p. (cp_name p, p)) (case ne_disk e of
             Some d \<Rightarrow> Some (disk_claim_payload app u ns ty e d)
           | None \<Rightarrow> map_option (service_claim_payload n app u ns ty e) (ne_service e))) xs) =
        map fst (List.map_filter (\<lambda>(ty, e). map_option (\<lambda>p. (cp_name p, p)) (case ne_disk e of
             Some d \<Rightarrow> Some (disk_claim_payload app [] [] ty e d)
           | None \<Rightarrow> map_option (service_claim_payload n app [] [] ty e) (ne_service e))) xs)" for n xs
    by (induction xs) (auto simp: map_filter_simps payload_name_indep(1) [of app u ns _ _ _ "[]" "[]"]
        payload_name_indep(2) [of _ app u ns _ _ _ "[]" "[]"] split: option.splits)
  then show ?thesis by (simp add: generate_resource_claims_def split: option.split)
qed

lemma generated_payload_name: "(n, p) \<in> set (generate_resource_claims spec app u ns) \<Longrightarrow> cp_name p = n"
  by (auto simp: generate_resource_claims_def map_filter_def split: option.splits)

lemma no_needs_no_claims:
  "\<not> (case ab_needs spec of Some n \<Rightarrow> \<not> needs_is_empty n | None \<Rightarrow> False) \<Longrightarrow> declared_claims spec app = {}"
  by (auto simp: declared_claims_def generate_resource_claims_def needs_is_empty_def map_filter_simps split: option.splits)

lemma get_claim_Some: "get_claim n store = Some c \<Longrightarrow> c \<in> set store \<and> rc_name c = n"
  by (auto simp: get_claim_def find_Some_iff)

lemma get_claim_mem: "distinct (map rc_name store) \<Longrightarrow> c \<in> set store \<Longrightarrow> get_claim (rc_name c) store = Some c"
  by (induction store) (auto simp: get_claim_def)

lemma get_delete_other: "m \<noteq> n \<Longrightarrow> get_claim m (delete_claim now n store) = get_claim m store"
  by (induction store) (auto simp: get_claim_def delete_claim_def)

lemma delete_claim_names: "map rc_name (delete_claim now n store) =
    map rc_name (filter (\<lambda>c. rc_name c \<noteq> n \<or> unwrap_or (rc_finalizers c) [] \<noteq> []) store)"
  by (induction store) (auto simp: delete_claim_def)

lemma delete_claim_distinct: "distinct (map rc_name store) \<Longrightarrow> distinct (map rc_name (delete_claim now n store))"
  by (simp add: delete_claim_names distinct_map_filter)

lemma get_delete_same: "get_claim n (delete_claim now n store) = Some c \<Longrightarrow> rc_deletion_timestamp c \<noteq> None"
  by (induction store) (auto simp: get_claim_def delete_claim_def opt_or_def split: if_splits option.splits)

lemma get_apply_other: "cp_name p \<noteq> m \<Longrightarrow> get_claim m (apply_claim p store) = get_claim m store"
proof -
  assume ne: "cp_name p \<noteq> m"
  have "List.find (\<lambda>c. rc_name c = m) (map (\<lambda>c. if rc_name c = cp_name p then f c else c) store) =
      List.find (\<lambda>c. rc_name c = m) store" if "\<And>c. rc_name (f c) = rc_name c" for f :: "resource_claim \<Rightarrow> resource_claim"
    using ne that by (induction store) auto
  moreover have "List.find (\<lambda>c. rc_name c = m) (store @ [x]) = List.find (\<lambda>c. rc_name c = m) store"
    if "rc_name x \<noteq> m" for x
    using that by (induction store) auto
  ultimately show ?thesis using ne by (simp add: get_claim_def apply_claim_def)
qed

text \<open>An apply never touches the status, a pending deletion or the finalizers.\<close>

definition same_runtime :: "resource_claim \<Rightarrow> resource_claim \<Rightarrow> bool" where
  "same_runtime c d \<longleftrightarrow> rc_status d = rc_status c \<and> rc_deletion_timestamp d = rc_deletion_timestamp c \<and>
     rc_finalizers d = rc_finalizers c"

lemma get_apply_any:
  assumes "get_claim m store = Some c"
  shows "\<exists>d. get_claim m (apply_claim p store) = Some d \<and> same_runtime c d"
proof (cases "cp_name p = m")
  case False
  with assms show ?thesis by (auto simp: get_apply_other same_runtime_def)
next
  case True
  let ?f = "\<lambda>c. if rc_name c = cp_name p
      then c\<lparr>rc_labels := Some (bt_extend (unwrap_or (rc_labels c) []) (cp_labels p)),
             rc_owner_references := Some (upsert_owner (cp_owner p) (unwrap_or (rc_owner_references c) [])),
             rc_spec := cp_spec p\<rparr> else c"
  have "List.find (\<lambda>c. rc_name c = m) (map ?f store) = map_option ?f (List.find (\<lambda>c. rc_name c = m) store)"
    by (induction store) auto
  moreover have "\<exists>c \<in> set store. rc_name c = cp_name p" using assms True get_claim_Some by blast
  ultimately have "get_claim m (apply_claim p store) = Some (?f c)" using assms by (simp add: get_claim_def apply_claim_def)
  then show ?thesis by (auto simp: same_runtime_def)
qed

lemma apply_claims_other:
  "\<forall>(n, p) \<in> set ps. cp_name p = n \<Longrightarrow> m \<notin> set (map fst ps) \<Longrightarrow>
   get_claim m (fst (apply_claims ro ps store)) = get_claim m store"
  by (induction ro ps store rule: apply_claims.induct) (auto simp: get_apply_other)

lemma apply_claims_any:
  "get_claim m store = Some c \<Longrightarrow> \<exists>d. get_claim m (fst (apply_claims ro ps store)) = Some d \<and> same_runtime c d"
proof (induction ro ps store arbitrary: c rule: apply_claims.induct)
  case (2 ro n p ps store)
  from get_apply_any [OF "2.prems"] obtain d where "get_claim m (apply_claim p store) = Some d" "same_runtime c d" by blast
  with "2.IH" "2.prems" show ?case by (fastforce simp: same_runtime_def)
qed (simp add: same_runtime_def)

definition deletes :: "request_outcomes \<Rightarrow> int \<Rightarrow> string list \<Rightarrow> resource_claim list \<Rightarrow> resource_claim list" where
  "deletes ro now ns store = foldl (\<lambda>s n. if ro_delete ro n then delete_claim now n s else s) store ns"

lemma deletes_other: "m \<notin> set ns \<Longrightarrow> get_claim m (deletes ro now ns store) = get_claim m store"
  unfolding deletes_def by (induction ns arbitrary: store) (auto simp: get_delete_other)

lemma deletes_marked:
  "m \<in> set ns \<Longrightarrow> ro_delete ro m \<Longrightarrow> get_claim m (deletes ro now ns store) = Some c \<Longrightarrow> rc_deletion_timestamp c \<noteq> None"
proof (induction ns arbitrary: store rule: rev_induct)
  case (snoc n ns)
  show ?case
  proof (cases "n = m")
    case True
    with snoc.prems show ?thesis using get_delete_same by (auto simp: deletes_def)
  next
    case False
    then have "get_claim m (deletes ro now (ns @ [n]) store) = get_claim m (deletes ro now ns store)"
      by (simp add: deletes_def get_delete_other)
    with snoc False show ?thesis by simp
  qed
qed simp

lemma prune_mem:
  assumes "distinct (map rc_name store)" and "get_claim n store = Some c"
  shows "n \<in> set (claims_to_prune store app_uid desired) \<longleftrightarrow>
    app_uid \<noteq> [] \<and> controlled_by app_uid c \<and> rc_deletion_timestamp c = None \<and> n \<notin> desired"
proof -
  have "c \<in> set store" "rc_name c = n" using get_claim_Some [OF assms(2)] by auto
  moreover have "d = c" if "d \<in> set store" "rc_name d = n" for d
    using get_claim_mem [OF assms(1) that(1)] that(2) assms(2) by simp
  ultimately have "n \<in> rc_name ` {d \<in> set store. controlled_by app_uid d \<and> rc_deletion_timestamp d = None} \<longleftrightarrow>
      controlled_by app_uid c \<and> rc_deletion_timestamp c = None" by blast
  then show ?thesis by (simp add: claims_to_prune_def conj_commute) (metis (no_types, lifting))
qed

text \<open>The two effects of a pass on the store: the deletes, then the applies.\<close>

lemma claims_pass_store:
  assumes "fst (claims_pass ro now eff app uid ns store) = store'"
  shows "store' = store \<and> uid \<noteq> [] \<and> \<not> ro_list ro \<or>
    (\<exists>ps. set (map fst ps) \<subseteq> declared_claims eff app \<and> (\<forall>(n, p) \<in> set ps. cp_name p = n) \<and>
       store' = fst (apply_claims ro ps (deletes ro now (claims_to_prune store uid (declared_claims eff app)) store)))"
proof -
  let ?need = "case ab_needs eff of Some n \<Rightarrow> \<not> needs_is_empty n | None \<Rightarrow> False"
  let ?ps = "if ?need then generate_resource_claims eff app uid ns else []"
  have decl: "set (map fst ?ps) = declared_claims eff app"
  proof (cases ?need)
    case True
    then show ?thesis using generated_names [of eff app uid ns] by (simp only: declared_claims_def if_True)
  next
    case False
    then show ?thesis using no_needs_no_claims [of eff app] by (simp only: if_False) simp
  qed
  have names: "\<forall>(n, p) \<in> set ?ps. cp_name p = n" using generated_payload_name by (auto split: if_splits)
  have empty: "deletes ro now (claims_to_prune store [] d) store = store" for d
    by (simp add: claims_to_prune_def deletes_def)
  show ?thesis
  proof (cases "uid \<noteq> [] \<and> \<not> ro_list ro")
    case True
    with assms show ?thesis by (simp add: claims_pass_def prune_orphaned_claims_def Let_def)
  next
    case False
    then have "prune_orphaned_claims ro now uid (declared_claims eff app) store =
        Some (deletes ro now (claims_to_prune store uid (declared_claims eff app)) store)"
      using empty by (auto simp: prune_orphaned_claims_def deletes_def)
    then have "store' = fst (apply_claims ro ?ps (deletes ro now (claims_to_prune store uid (declared_claims eff app)) store))"
      using assms decl by (simp add: claims_pass_def Let_def split: if_splits prod.splits)
    with decl names show ?thesis by blast
  qed
qed

text \<open>
  C14. A pass of the Application controller touches no claim that is not its own: a claim that
  it neither declares nor controls stays as it is; a declared claim keeps its status and is
  never deleted; a claim that it controls and no longer declares is deleted (marked or gone)
  when the requests succeed; and without a uid nothing is deleted.
\<close>

theorem claims_pass_spares_other_claims:
  assumes "distinct (map rc_name store)" and "get_claim n store = Some c"
    and "fst (claims_pass ro now eff app uid ns store) = store'"
  shows "(n \<notin> declared_claims eff app \<and> (\<not> controlled_by uid c \<or> uid = []) \<longrightarrow> get_claim n store' = Some c) \<and>
    (n \<in> declared_claims eff app \<longrightarrow> (\<exists>d. get_claim n store' = Some d \<and> same_runtime c d)) \<and>
    (n \<notin> declared_claims eff app \<and> controlled_by uid c \<and> uid \<noteq> [] \<and> ro_list ro \<and> ro_delete ro n \<longrightarrow>
       (\<forall>d. get_claim n store' = Some d \<longrightarrow> rc_deletion_timestamp d \<noteq> None))"
proof -
  let ?D = "declared_claims eff app"
  let ?pr = "claims_to_prune store uid ?D"
  note mem = prune_mem [OF assms(1,2), of uid ?D]
  consider "store' = store" "uid \<noteq> []" "\<not> ro_list ro"
    | ps where "set (map fst ps) \<subseteq> ?D" "\<forall>(n, p) \<in> set ps. cp_name p = n" "store' = fst (apply_claims ro ps (deletes ro now ?pr store))"
    using claims_pass_store [OF assms(3)] by blast
  then show ?thesis
  proof cases
    case 1
    with assms(2) show ?thesis by (simp add: same_runtime_def)
  next
    case (2 ps)
    have out: "n \<notin> ?D \<Longrightarrow> get_claim n store' = get_claim n (deletes ro now ?pr store)"
      using apply_claims_other [OF 2(2), of n] 2(1,3) by blast
    have kept: "n \<notin> set ?pr \<Longrightarrow> get_claim n (deletes ro now ?pr store) = Some c"
      using deletes_other assms(2) by simp
    have "\<exists>d. get_claim n store' = Some d \<and> same_runtime c d" if "n \<in> ?D"
      using apply_claims_any [OF kept] mem that 2(3) by blast
    moreover have "rc_deletion_timestamp d \<noteq> None"
      if "n \<notin> ?D" "controlled_by uid c" "uid \<noteq> []" "ro_delete ro n" "get_claim n store' = Some d" for d
    proof (cases "rc_deletion_timestamp c = None")
      case True
      with that mem have "n \<in> set ?pr" by simp
      with deletes_marked that out show ?thesis by metis
    next
      case False
      with mem kept out that show ?thesis by simp
    qed
    moreover have "get_claim n store' = Some c" if "n \<notin> ?D" "\<not> controlled_by uid c \<or> uid = []"
      using mem out kept that by simp
    ultimately show ?thesis by (intro conjI impI allI) simp_all
  qed
qed

definition plain_claim :: "string \<Rightarrow> string \<Rightarrow> string option \<Rightarrow> resource_claim_status option \<Rightarrow> resource_claim" where
  "plain_claim name ty nm st = \<lparr>rc_name = name, rc_namespace = ''apps'', rc_labels = None,
     rc_owner_references = Some [application_owner ''shop'' ''u1''], rc_deletion_timestamp = None,
     rc_finalizers = Some [''apprafter.io/resourceclaim-provisioner''],
     rc_spec = (bare_claim_spec ty default_integrated_selector)\<lparr>rcs_name := nm\<rparr>, rc_status = st\<rparr>"

definition all_ok :: request_outcomes where
  "all_ok = \<lparr>ro_list = True, ro_delete = (\<lambda>_. True), ro_apply = (\<lambda>_. True), ro_get = (\<lambda>_. True)\<rparr>"

theorem claims_pass_spares_other_claims_witness:
  "get_claim ''blog-pg'' (fst (claims_pass all_ok 7 default_base_spec ''shop'' ''u1'' ''apps''
      [plain_claim ''shop-pg'' ''pg'' None None,
       (plain_claim ''blog-pg'' ''pg'' None None)\<lparr>rc_owner_references := Some [application_owner ''blog'' ''u2'']\<rparr>])) =
   Some ((plain_claim ''blog-pg'' ''pg'' None None)\<lparr>rc_owner_references := Some [application_owner ''blog'' ''u2'']\<rparr>)"
proof -
  let ?blog = "(plain_claim ''blog-pg'' ''pg'' None None)\<lparr>rc_owner_references := Some [application_owner ''blog'' ''u2'']\<rparr>"
  let ?store = "[plain_claim ''shop-pg'' ''pg'' None None, ?blog]"
  have "distinct (map rc_name ?store)" "get_claim ''blog-pg'' ?store = Some ?blog"
    by (simp_all add: plain_claim_def get_claim_def)
  moreover have "''blog-pg'' \<notin> declared_claims default_base_spec ''shop'' \<and> \<not> controlled_by ''u1'' ?blog"
    by (simp add: declared_claims_def generate_resource_claims_def default_base_spec_def controlled_by_def application_owner_def)
  ultimately show ?thesis
    using claims_pass_spares_other_claims [of ?store "''blog-pg''" ?blog all_ok 7 default_base_spec "''shop''" "''u1''" "''apps''"]
    by blast
qed

subsection \<open>Disks and their claims\<close>

lemma mount_of_disk:
  "m \<in> set (resolve_disk_mounts spec app claims) \<longleftrightarrow> (\<exists>d \<in> set (scope_disks (ab_needs spec)). \<exists>c st.
     claim_of_disk app claims d = Some c \<and> rc_status c = Some st \<and> rst_volume_claim_ref st = Some (dm_pvc_name m) \<and>
     m = \<lparr>dm_volume_name = ''disk-'' @ disk_identity_name d, dm_mount_path = dk_mount_path d,
          dm_read_only = unwrap_or (dk_read_only d) False, dm_pvc_name = dm_pvc_name m, dm_owned = \<not> is_reference d\<rparr>)"
  by (auto simp: resolve_disk_mounts_def map_filter_def image_iff bind_eq_Some_conv) force

text \<open>
  Owned disks without a name all stand for one claim: their claims have the same name, and
  every mount rendered for them uses the same volume, whatever their mount paths and sizes.
  The admission rules accept such disks, because they compare the names derived from the
  mount paths.
\<close>

lemma unnamed_disks_share_one_volume:
  assumes "\<forall>d \<in> set (scope_disks (ab_needs spec)). nonempty (dk_name d) = None \<and> dk_reference d = None"
  shows "(\<forall>m \<in> set (resolve_disk_mounts spec app claims). \<forall>m' \<in> set (resolve_disk_mounts spec app claims).
      dm_pvc_name m = dm_pvc_name m') \<and>
    (\<forall>d \<in> set (scope_disks (ab_needs spec)). \<forall>entry. ne_name entry = dk_name d \<longrightarrow>
      cp_name (disk_claim_payload app uid ns ''disk'' entry d) = claim_name app ''disk'' None)"
proof -
  have same: "claim_of_disk app claims d = List.find (\<lambda>c. rc_name c = claim_name app ''disk'' None) claims"
    if "d \<in> set (scope_disks (ab_needs spec))" for d
    using assms that by (simp add: claim_of_disk_def Let_def)
  have none: "claim_name app ''disk'' nm = claim_name app ''disk'' None" if "nonempty nm = None" for nm
    using that by (simp add: claim_name_def nonempty_def split: option.splits list.splits)
  have "dm_pvc_name m = dm_pvc_name m'"
    if "m \<in> set (resolve_disk_mounts spec app claims)" "m' \<in> set (resolve_disk_mounts spec app claims)" for m m'
    using that same unfolding mount_of_disk by (metis option.inject)
  moreover have "cp_name (disk_claim_payload app uid ns ''disk'' entry d) = claim_name app ''disk'' None"
    if "d \<in> set (scope_disks (ab_needs spec))" "ne_name entry = dk_name d" for d entry
    using assms that none by (simp add: disk_claim_payload_def)
  ultimately show ?thesis by blast
qed

definition sized_disk :: "string option \<Rightarrow> string \<Rightarrow> string \<Rightarrow> disk_claim" where
  "sized_disk nm sz path = \<lparr>dk_name = nm, dk_size = Some sz, dk_reference = None, dk_mount_path = path,
     dk_class = None, dk_read_only = None\<rparr>"

definition needs_base :: "app_needs \<Rightarrow> base_spec" where
  "needs_base n = default_base_spec\<lparr>ab_image := Some ''shop:1'', ab_needs := Some n\<rparr>"

definition two_disks :: app_needs where
  "two_disks = default_needs\<lparr>nd_disk := Some (Many [sized_disk None ''1Gi'' ''/data'', sized_disk None ''5Gi'' ''/cache''])\<rparr>"

definition disk_ready :: resource_claim_status where
  "disk_ready = default_claim_status\<lparr>rst_ready := Some True, rst_volume_claim_ref := Some ''claim-apps-shop-disk''\<rparr>"

definition needs_spec :: "app_needs \<Rightarrow> application_spec" where
  "needs_spec n = \<lparr>asp_base = Some (needs_base n), asp_environments = None, asp_environment = None\<rparr>"

definition two_mounts :: "disk_mount list" where
  "two_mounts = resolve_disk_mounts (needs_base two_disks) ''shop'' [plain_claim ''shop-disk'' ''disk'' None (Some disk_ready)]"

text \<open>
  A named disk is left out when another claim before it has the same entry name: the
  search for its claim accepts a claim of any type with that entry name, finds the service's
  claim first, and that one has no volume. The Application renders without the disk, although
  every claim is ready.
\<close>

lemma named_service_hides_disk:
  assumes "d \<in> set (scope_disks (ab_needs spec))" and "dk_reference d = None" and "dk_name d = Some n" and "n \<noteq> []"
    and "distinct (map dk_mount_path (scope_disks (ab_needs spec)))"
    and "\<forall>c \<in> set before. rc_name c \<noteq> claim_name app ''disk'' (Some n) \<and> rcs_name (rc_spec c) \<noteq> Some n"
    and "rcs_name (rc_spec service) = Some n" and "Option.bind (rc_status service) rst_volume_claim_ref = None"
  shows "\<forall>m \<in> set (resolve_disk_mounts spec app (before @ service # after)). dm_mount_path m \<noteq> dk_mount_path d"
proof -
  have name: "nonempty (dk_name d) = Some n" using assms(3,4) by (simp add: nonempty_Some)
  have "List.find (\<lambda>c. rc_name c = claim_name app ''disk'' (Some n) \<or> rcs_name (rc_spec c) = Some n) (before @ service # after) = Some service"
    using assms(6,7) by (induction before) auto
  then have hit: "claim_of_disk app (before @ service # after) d = Some service"
    using assms(2) name by (simp add: claim_of_disk_def Let_def)
  have "e = d" if "e \<in> set (scope_disks (ab_needs spec))" "dk_mount_path e = dk_mount_path d" for e
    using assms(1,5) that by (simp add: distinct_map inj_on_def)
  then have own: "e = d" if "e \<in> set (scope_disks (ab_needs spec))" "dk_mount_path e = dk_mount_path d" for e
    using that by blast
  show ?thesis
  proof (intro ballI notI)
    fix m assume m: "m \<in> set (resolve_disk_mounts spec app (before @ service # after))" and path: "dm_mount_path m = dk_mount_path d"
    then obtain e c st where e: "e \<in> set (scope_disks (ab_needs spec))" "claim_of_disk app (before @ service # after) e = Some c"
      "rc_status c = Some st" "rst_volume_claim_ref st = Some (dm_pvc_name m)" and "dm_mount_path m = dk_mount_path e"
      unfolding mount_of_disk by (metis disk_mount.select_convs(2))
    with path own [OF e(1)] hit have "c = service" by simp
    with e(3,4) assms(8) show False by simp
  qed
qed

definition pg_need :: "string option \<Rightarrow> service_need" where
  "pg_need nm = \<lparr>sn_name = nm, sn_selector = None, sn_size = None, sn_persistent = None, sn_ref = None, sn_access = None,
     sn_extensions = None\<rparr>"

definition pg_and_disk :: app_needs where
  "pg_and_disk = default_needs\<lparr>nd_pg := Some (Many [pg_need (Some ''data'')]),
     nd_disk := Some (Many [sized_disk (Some ''data'') ''1Gi'' ''/data''])\<rparr>"

definition pg_ready :: resource_claim_status where
  "pg_ready = default_claim_status\<lparr>rst_ready := Some True, rst_connection_secret_ref := Some ''shop-pg-data-conn''\<rparr>"

definition ready_store :: "resource_claim list" where
  "ready_store = [plain_claim ''shop-pg-data'' ''pg'' (Some ''data'') (Some pg_ready),
     plain_claim ''shop-disk-data'' ''disk'' (Some ''data'') (Some disk_ready)]"

fun rendered_mounts :: "claims_outcome \<Rightarrow> disk_mount list option" where
  "rendered_mounts (ClaimsReady _ ms) = Some ms"
| "rendered_mounts _ = None"

end
