(* ===== verification/Dragonfly.thy ===== *)
theory Dragonfly
  imports Claim_Types Names
begin

text \<open>
  The pool of Dragonfly instances (\<open>resourceclaim-provisioner/src/dragonfly.rs\<close>, and the
  object names of \<open>cnpg.rs\<close>): allocation of a numbered database, names of instances, ACL
  users and files, and who holds a number. A \<open>BTreeSet<u16>\<close> is a set of words.
\<close>

subsection \<open>Object names\<close>

definition pg_identifier :: "string \<Rightarrow> string \<Rightarrow> string" where
  "pg_identifier namespace name = take 63 (''claim_'' @ fold_name CHR ''_'' (namespace @ ''_'' @ name))"

definition k8s_name :: "string \<Rightarrow> string \<Rightarrow> string" where
  "k8s_name namespace name = trim_end_dash (take 63 (''claim-'' @ fold_dns (namespace @ ''-'' @ name)))"

subsection \<open>Allocation\<close>

definition allocate_dbnum :: "u16 set \<Rightarrow> u16 \<Rightarrow> u16 option" where
  "allocate_dbnum used dbs = List.find (\<lambda>n. n \<notin> used) (map word_of_nat [0..<unat dbs])"

datatype resolution =
    Reattach string u16 bool
  | Fresh u16
  | Insufficient

definition resolve_allocation :: "(string \<times> u16) option \<Rightarrow> bool \<Rightarrow> u16 set \<Rightarrow> u16 \<Rightarrow> resolution" where
  "resolve_allocation existing persistent used dbs = (case existing of
       Some (inst, dbnum) \<Rightarrow> Reattach inst dbnum persistent
     | None \<Rightarrow> (case allocate_dbnum used dbs of Some dbnum \<Rightarrow> Fresh dbnum | None \<Rightarrow> Insufficient))"

definition pool_instance_name :: "bool \<Rightarrow> nat \<Rightarrow> string" where
  "pool_instance_name persistent index =
     ''platform-redis-'' @ (if persistent then ''persistent'' else ''ephemeral'') @ ''-'' @ pad3 index"

datatype pool_class = Ephemeral | Persistent

definition class_of_instance :: "string \<Rightarrow> pool_class option" where
  "class_of_instance name = (case strip_prefix ''platform-redis-'' name of
       None \<Rightarrow> None
     | Some rest \<Rightarrow>
         (case rsplit_once CHR ''-'' rest of
            None \<Rightarrow> None
          | Some (class, index) \<Rightarrow>
              (if index = [] \<or> \<not> list_all is_ascii_digit index then None
               else if class = ''ephemeral'' then Some Ephemeral
               else if class = ''persistent'' then Some Persistent
               else None)))"

definition used_dbnums_on_instance :: "resource_claim list \<Rightarrow> string \<Rightarrow> u16 set" where
  "used_dbnums_on_instance claims inst = set (List.map_filter (\<lambda>c. case rc_status c of
       None \<Rightarrow> None
     | Some st \<Rightarrow> if rst_instance st = Some inst then rst_dbnum st else None) claims)"

definition u16_try_from :: "int \<Rightarrow> u16 option" where
  "u16_try_from n = (if 0 \<le> n \<and> n < 65536 then Some (word_of_int n) else None)"

definition used_dbnums ::
  "resource_claim list \<Rightarrow> retained_claim list \<Rightarrow> shared_database list \<Rightarrow> string \<Rightarrow> u16 set" where
  "used_dbnums live retained shared inst =
     used_dbnums_on_instance live inst \<union>
     set (List.map_filter (\<lambda>r. if rts_instance (rt_spec r) = Some inst then rts_dbnum (rt_spec r) else None) retained) \<union>
     set (List.map_filter (\<lambda>s. case sd_status s of
         None \<Rightarrow> None
       | Some st \<Rightarrow> if sdst_instance st = Some inst then Option.bind (sdst_dbnum st) u16_try_from else None) shared)"

datatype dbnum_owner = OwnerClaim string string | OwnerShared string string

definition claim_holds :: "string \<Rightarrow> u16 \<Rightarrow> resource_claim \<Rightarrow> bool" where
  "claim_holds inst dbnum c = (case rc_status c of
       None \<Rightarrow> False
     | Some st \<Rightarrow> rst_instance st = Some inst \<and> rst_dbnum st = Some dbnum)"

definition snapshot_holds :: "string \<Rightarrow> u16 \<Rightarrow> retained_claim \<Rightarrow> bool" where
  "snapshot_holds inst dbnum r \<longleftrightarrow> rts_instance (rt_spec r) = Some inst \<and> rts_dbnum (rt_spec r) = Some dbnum"

definition shared_holds :: "string \<Rightarrow> u16 \<Rightarrow> shared_database \<Rightarrow> bool" where
  "shared_holds inst dbnum s = (case sd_status s of
       None \<Rightarrow> False
     | Some st \<Rightarrow> sdst_instance st = Some inst \<and> sdst_dbnum st = Some (uint dbnum))"

definition claim_owner :: "resource_claim \<Rightarrow> dbnum_owner" where
  "claim_owner c = OwnerClaim (rc_namespace c) (rc_name c)"

definition snapshot_owner :: "retained_claim \<Rightarrow> dbnum_owner" where
  "snapshot_owner r = OwnerClaim (clr_namespace (rts_claim_ref (rt_spec r))) (clr_name (rts_claim_ref (rt_spec r)))"

definition shared_owner :: "shared_database \<Rightarrow> dbnum_owner" where
  "shared_owner s = OwnerShared (sd_namespace s) (sd_name s)"

definition other_claims :: "resource_claim list \<Rightarrow> string \<Rightarrow> u16 \<Rightarrow> dbnum_owner \<Rightarrow> string list" where
  "other_claims live inst dbnum me =
     map (\<lambda>c. ''ResourceClaim '' @ rc_namespace c @ ''/'' @ rc_name c)
       (filter (\<lambda>c. claim_holds inst dbnum c \<and> claim_owner c \<noteq> me) live)"

definition other_snapshots :: "retained_claim list \<Rightarrow> string \<Rightarrow> u16 \<Rightarrow> dbnum_owner \<Rightarrow> string list" where
  "other_snapshots retained inst dbnum me =
     map (\<lambda>r. ''RetainedClaim '' @ rt_name r @ '' (of '' @ clr_namespace (rts_claim_ref (rt_spec r)) @ ''/'' @
            clr_name (rts_claim_ref (rt_spec r)) @ '')'')
       (filter (\<lambda>r. snapshot_holds inst dbnum r \<and> snapshot_owner r \<noteq> me) retained)"

definition other_shared :: "shared_database list \<Rightarrow> string \<Rightarrow> u16 \<Rightarrow> dbnum_owner \<Rightarrow> string list" where
  "other_shared shared inst dbnum me =
     map (\<lambda>s. ''SharedDatabase '' @ sd_namespace s @ ''/'' @ sd_name s)
       (filter (\<lambda>s. shared_holds inst dbnum s \<and> shared_owner s \<noteq> me) shared)"

definition other_dbnum_holders ::
  "resource_claim list \<Rightarrow> retained_claim list \<Rightarrow> shared_database list \<Rightarrow> string \<Rightarrow> u16 \<Rightarrow> dbnum_owner \<Rightarrow> string list" where
  "other_dbnum_holders live retained shared inst dbnum me =
     other_claims live inst dbnum me @ other_snapshots retained inst dbnum me @ other_shared shared inst dbnum me"

subsection \<open>ACL users and the ACL file\<close>

definition acl_user :: "string \<Rightarrow> string \<Rightarrow> string" where
  "acl_user claim_ns claim_name = ''claim_'' @ claim_ns @ ''_'' @ claim_name @ ''_redis''"

definition admin_secret_name :: "string \<Rightarrow> string" where
  "admin_secret_name inst = inst @ ''-admin''"

definition acl_secret_name :: "string \<Rightarrow> string" where
  "acl_secret_name inst = inst @ ''-acl''"

definition instance_addr :: "string \<Rightarrow> string \<Rightarrow> string" where
  "instance_addr inst ns = inst @ ''.'' @ ns @ ''.svc:6379''"

definition redis_dsn :: "string \<Rightarrow> string \<Rightarrow> string \<Rightarrow> string \<Rightarrow> u16 \<Rightarrow> string" where
  "redis_dsn user password inst ns dbnum =
     ''redis://'' @ user @ '':'' @ password @ ''@'' @ inst @ ''.'' @ ns @ ''.svc:6379/'' @ show_nat (unat dbnum)"

definition channel_prefix :: "string \<Rightarrow> string" where
  "channel_prefix user = user @ '':''"

datatype shared_access = ReadWrite | ReadOnly

definition acl_setuser_args_scoped :: "string \<Rightarrow> string \<Rightarrow> u16 \<Rightarrow> string option \<Rightarrow> shared_access \<Rightarrow> string list" where
  "acl_setuser_args_scoped user password dbnum channel_prefix_override access =
     (let channel = unwrap_or channel_prefix_override user
      in [user, ''on'', ''>'' @ password, ''$'' @ show_nat (unat dbnum), ''resetkeys'', ''~*'', ''resetchannels'',
          ''&'' @ channel @ '':*'', ''+@all'', ''-@admin'', ''-@dangerous'', ''-move'', ''-copy'', ''-pubsub'', ''+sort_ro''] @
         (if access = ReadOnly then [''-@write'', ''-publish'', ''-spublish''] else []))"

definition acl_setuser_args :: "string \<Rightarrow> string \<Rightarrow> u16 \<Rightarrow> string list" where
  "acl_setuser_args user password dbnum = acl_setuser_args_scoped user password dbnum None ReadWrite"

datatype acl_file_error =
    UnrepresentableToken nat string
  | TooFewTokens nat nat
  | EmptyAdminPassword

definition acl_file_line :: "string list \<Rightarrow> string" where
  "acl_file_line args = ''USER '' @ join '' '' args"

definition admin_acl_args :: "string \<Rightarrow> string list" where
  "admin_acl_args admin_pw = [''default'', ''on'', ''>'' @ admin_pw, ''~*'', ''&*'', ''+@all'']"

text \<open>
  \<open>is_ascii_whitespace\<close> or \<open>is_control\<close>: space, the control characters and delete. (The
  control characters above 127 are not ASCII; a token with them is not modelled.)
\<close>

definition bad_token_char :: "char \<Rightarrow> bool" where
  "bad_token_char c = (let n = of_char c :: nat in n \<le> 32 \<or> n = 127)"

definition bad_token :: "string \<Rightarrow> bool" where
  "bad_token t \<longleftrightarrow> t = [] \<or> list_ex bad_token_char t"

fun check_acl_lines :: "nat \<Rightarrow> string list list \<Rightarrow> acl_file_error option" where
  "check_acl_lines line [] = None"
| "check_acl_lines line (args # rest) =
     (if length args + 1 < 4 then Some (TooFewTokens line (length args + 1))
      else case List.find bad_token args of
             Some t \<Rightarrow> Some (UnrepresentableToken line t)
           | None \<Rightarrow> check_acl_lines (line + 1) rest)"

text \<open>\<open>Option<&String>::cmp\<close>: a missing first token comes first.\<close>

definition first_le :: "string list \<Rightarrow> string list \<Rightarrow> bool" where
  "first_le a b = (case (a, b) of ([], _) \<Rightarrow> True | (_, []) \<Rightarrow> False | (x # _, y # _) \<Rightarrow> x \<le> y)"

definition acl_file_contents :: "string \<Rightarrow> string list list \<Rightarrow> (acl_file_error, string) result" where
  "acl_file_contents admin_pw tenants =
     (if admin_pw = [] then Inl EmptyAdminPassword
      else let lines = admin_acl_args admin_pw # sort_le first_le tenants
           in case check_acl_lines 1 lines of
                Some e \<Rightarrow> Inl e
              | None \<Rightarrow> Inr (join [CHR 0x0A] (map acl_file_line lines) @ [CHR 0x0A]))"

subsection \<open>The allocated number\<close>

lemma find_upt:
  "List.find P (map f [0..<m]) = Some x \<longleftrightarrow> (\<exists>k < m. x = f k \<and> P (f k) \<and> (\<forall>j < k. \<not> P (f j)))"
  "List.find P (map f [0..<m]) = None \<longleftrightarrow> (\<forall>k < m. \<not> P (f k))"
  by (auto simp: find_Some_iff find_None_iff)

lemma word_less_nat: "(word_of_nat k :: u16) < m \<longleftrightarrow> k < unat m" if "k < 65536"
  using that by (simp add: word_less_nat_alt unat_of_nat take_bit_nat_eq_self)

lemma all_below: "(\<forall>j < unat n. P (word_of_nat j)) \<longleftrightarrow> (\<forall>k < n. P k)" for n :: u16
proof
  assume h: "\<forall>j < unat n. P (word_of_nat j)"
  show "\<forall>k < n. P k"
  proof (intro allI impI)
    fix k assume "k < n"
    then have "unat k < unat n" by (simp add: word_less_nat_alt)
    with h have "P (word_of_nat (unat k))" by blast
    then show "P k" by simp
  qed
next
  assume h: "\<forall>k < n. P k"
  show "\<forall>j < unat n. P (word_of_nat j)"
  proof (intro allI impI)
    fix j assume "j < unat n"
    moreover have "unat n < 65536" using unsigned_less [of n] by simp
    ultimately have "(word_of_nat j :: u16) < n" using word_less_nat [of j n] by simp
    with h show "P (word_of_nat j)" by blast
  qed
qed

lemma allocate_None_iff: "allocate_dbnum used dbs = None \<longleftrightarrow> (\<forall>k < dbs. k \<in> used)"
  using all_below [of dbs "\<lambda>k. k \<in> used"] by (simp add: allocate_dbnum_def find_upt(2))

lemma allocate_Some_iff:
  "allocate_dbnum used dbs = Some n \<longleftrightarrow> n < dbs \<and> n \<notin> used \<and> (\<forall>k < n. k \<in> used)"
proof -
  have small: "unat dbs < 65536" using unsigned_less [of dbs] by simp
  have unat_k: "unat (word_of_nat k :: u16) = k" if "k < unat dbs" for k
    using that small by (simp add: unat_of_nat take_bit_nat_eq_self)
  have "allocate_dbnum used dbs = Some n \<longleftrightarrow>
      (\<exists>k < unat dbs. n = word_of_nat k \<and> word_of_nat k \<notin> used \<and> (\<forall>j < k. word_of_nat j \<in> used))"
    by (simp add: allocate_dbnum_def find_upt(1))
  also have "\<dots> \<longleftrightarrow> unat n < unat dbs \<and> n \<notin> used \<and> (\<forall>j < unat n. word_of_nat j \<in> used)"
    using unat_k by (auto intro: exI [of _ "unat n"])
  also have "\<dots> \<longleftrightarrow> n < dbs \<and> n \<notin> used \<and> (\<forall>k < n. k \<in> used)"
    by (simp add: all_below [of n "\<lambda>k. k \<in> used"] word_less_nat_alt)
  finally show ?thesis .
qed

lemma allocate_is_Min:
  "allocate_dbnum u dbs = (let free = {n. n < dbs \<and> n \<notin> u} in if free = {} then None else Some (Min free))"
proof (cases "{n. n < dbs \<and> n \<notin> u} = {}")
  case True
  then show ?thesis using allocate_None_iff [of u dbs] by auto
next
  case False
  let ?free = "{n. n < dbs \<and> n \<notin> u}"
  let ?m = "Min ?free"
  have "?m \<in> ?free" using False by (intro Min_in) simp_all
  moreover have "k \<in> u" if "k < ?m" for k
  proof (rule ccontr)
    assume "k \<notin> u"
    with that \<open>?m \<in> ?free\<close> have "k \<in> ?free" by auto
    then have "?m \<le> k" by (intro Min_le) simp_all
    with that show False by simp
  qed
  ultimately have "allocate_dbnum u dbs = Some ?m" unfolding allocate_Some_iff by blast
  with False show ?thesis by (simp add: Let_def)
qed

lemma u16_try_from_uint: "Option.bind d u16_try_from = Some n \<longleftrightarrow> d = Some (uint n)"
proof
  show "Option.bind d u16_try_from = Some n \<Longrightarrow> d = Some (uint n)"
    by (cases d) (auto simp: u16_try_from_def unsigned_of_int take_bit_int_eq_self split: if_splits)
  have "uint n < 65536" "0 \<le> uint n" using unsigned_less [of n] by simp_all
  then show "d = Some (uint n) \<Longrightarrow> Option.bind d u16_try_from = Some n"
    by (simp add: u16_try_from_def)
qed

lemma used_dbnums_iff: "n \<in> used_dbnums live retained shared inst \<longleftrightarrow>
    (\<exists>c \<in> set live. claim_holds inst n c) \<or> (\<exists>r \<in> set retained. snapshot_holds inst n r) \<or>
    (\<exists>s \<in> set shared. shared_holds inst n s)"
proof -
  have "(case rc_status c of None \<Rightarrow> None | Some st \<Rightarrow> if rst_instance st = Some inst then rst_dbnum st else None) = Some n \<longleftrightarrow>
      claim_holds inst n c" for c by (cases "rc_status c") (simp_all add: claim_holds_def)
  then have "n \<in> used_dbnums_on_instance live inst \<longleftrightarrow> (\<exists>c \<in> set live. claim_holds inst n c)"
    by (simp add: used_dbnums_on_instance_def map_filter_mem)
  moreover have "(if rts_instance (rt_spec r) = Some inst then rts_dbnum (rt_spec r) else None) = Some n \<longleftrightarrow>
      snapshot_holds inst n r" for r by (simp add: snapshot_holds_def)
  moreover have "(case sd_status s of None \<Rightarrow> None
      | Some st \<Rightarrow> if sdst_instance st = Some inst then Option.bind (sdst_dbnum st) u16_try_from else None) = Some n \<longleftrightarrow>
      shared_holds inst n s" for s by (cases "sd_status s") (simp_all add: shared_holds_def u16_try_from_uint)
  ultimately show ?thesis by (simp only: used_dbnums_def Un_iff map_filter_mem disj_assoc)
qed

text \<open>
  C32. A fresh allocation takes the least database number below the size of the instance that
  no claim, no snapshot and no shared database on it holds; the instance is full exactly when
  there is no such number. An existing snapshot of the claim is always taken up again, with
  its own number and without a flush on a persistent instance.
\<close>

theorem allocation_is_least_free:
  "resolve_allocation existing persistent (used_dbnums live retained shared inst) dbs =
     (case existing of
        Some (i, n) \<Rightarrow> Reattach i n persistent
      | None \<Rightarrow>
          (let free = {n. n < dbs \<and> n \<notin> used_dbnums live retained shared inst}
           in if free = {} then Insufficient else Fresh (Min free))) \<and>
   (\<forall>n. n \<in> used_dbnums live retained shared inst \<longleftrightarrow>
      (\<exists>c \<in> set live. claim_holds inst n c) \<or> (\<exists>r \<in> set retained. snapshot_holds inst n r) \<or>
      (\<exists>s \<in> set shared. shared_holds inst n s))"
proof (intro conjI allI)
  show "resolve_allocation existing persistent (used_dbnums live retained shared inst) dbs =
     (case existing of
        Some (i, n) \<Rightarrow> Reattach i n persistent
      | None \<Rightarrow>
          (let free = {n. n < dbs \<and> n \<notin> used_dbnums live retained shared inst}
           in if free = {} then Insufficient else Fresh (Min free)))"
    unfolding resolve_allocation_def allocate_is_Min Let_def by (cases existing) auto
qed (rule used_dbnums_iff)

subsection \<open>Names and files that are read back\<close>

lemma pool_instance_class:
  "class_of_instance (pool_instance_name persistent index) = Some (if persistent then Persistent else Ephemeral)"
proof -
  have digits: "\<forall>c \<in> set (pad3 index). is_ascii_digit c" by (rule pad3_digits)
  have "\<not> is_ascii_digit CHR ''-''" by code_simp
  with digits have dash: "CHR ''-'' \<notin> set (pad3 index)" by auto
  have "rsplit_once CHR ''-'' (cls @ ''-'' @ pad3 index) = Some (cls, pad3 index)" for cls
    using rsplit_once_sep [OF dash, of cls] by simp
  moreover have "strip_prefix ''platform-redis-'' (pool_instance_name persistent index) =
      Some ((if persistent then ''persistent'' else ''ephemeral'') @ ''-'' @ pad3 index)"
    unfolding pool_instance_name_def by (rule strip_prefix_append)
  ultimately show ?thesis
    using digits by (simp add: class_of_instance_def list_all_iff del: append.simps append_Cons)
qed

lemma split_on_join:
  assumes "ts \<noteq> []" and "\<forall>t \<in> set ts. c \<notin> set t"
  shows "split_on c (join [c] ts) = ts"
  using assms
proof (induction "[c]" ts rule: join.induct)
  case (2 x)
  then have "c \<notin> set x" by simp
  then show ?case by (induction x) auto
next
  case (3 x y zs)
  then have rest: "split_on c (join [c] (y # zs)) = y # zs" and "c \<notin> set x" by simp_all
  from this(2) have "split_on c (x @ [c] @ r) = x # split_on c r" for r by (induction x) auto
  with rest show ?case by simp
qed simp

text \<open>
  How the server reads the file: lines, each a \<open>USER\<close> followed by tokens that single spaces
  separate.
\<close>

definition parse_acl_file :: "string \<Rightarrow> string list list" where
  "parse_acl_file s = map (\<lambda>line. tl (split_on CHR '' '' line)) (filter (\<lambda>line. line \<noteq> []) (split_on CHR 0x0A s))"

lemma check_acl_lines_None:
  "check_acl_lines k ls = None \<longleftrightarrow> (\<forall>args \<in> set ls. 3 \<le> length args \<and> (\<forall>t \<in> set args. \<not> bad_token t))"
proof (induction k ls rule: check_acl_lines.induct)
  case (2 line args rest)
  show ?case
  proof (cases "List.find bad_token args")
    case None
    then have "\<forall>t \<in> set args. \<not> bad_token t" by (simp add: find_None_iff)
    with None 2 show ?thesis by auto
  next
    case (Some t)
    then have "\<exists>t \<in> set args. bad_token t" by (metis find_None_iff option.distinct(1))
    with Some show ?thesis by auto
  qed
qed simp

lemma good_token: "\<not> bad_token t \<Longrightarrow> t \<noteq> [] \<and> CHR '' '' \<notin> set t \<and> CHR 0x0A \<notin> set t"
proof -
  have "bad_token_char CHR '' ''" "bad_token_char CHR 0x0A" by code_simp+
  then show "\<not> bad_token t \<Longrightarrow> t \<noteq> [] \<and> CHR '' '' \<notin> set t \<and> CHR 0x0A \<notin> set t"
    by (auto simp: bad_token_def list_ex_iff)
qed

lemma join_set: "set (join sep ts) \<subseteq> set sep \<union> \<Union> (set ` set ts)"
  by (induction sep ts rule: join.induct) auto

lemma line_tokens:
  assumes "args \<noteq> []" and "\<forall>t \<in> set args. \<not> bad_token t"
  shows "tl (split_on CHR '' '' (acl_file_line args)) = args" and "CHR 0x0A \<notin> set (acl_file_line args)"
proof -
  have line: "acl_file_line args = join '' '' (''USER'' # args)" using assms(1) by (cases args) (simp_all add: acl_file_line_def)
  have "split_on CHR '' '' (join '' '' (''USER'' # args)) = ''USER'' # args"
    using assms good_token by (intro split_on_join) auto
  then show "tl (split_on CHR '' '' (acl_file_line args)) = args" by (simp add: line)
  show "CHR 0x0A \<notin> set (acl_file_line args)"
    unfolding line using assms good_token join_set [of "'' ''" "''USER'' # args"] by fastforce
qed

lemma file_lines:
  assumes "ls \<noteq> []" and "\<forall>l \<in> set ls. c \<notin> set l"
  shows "split_on c (join [c] ls @ [c]) = ls @ [[]]"
proof -
  have "join [c] ls @ [c] = join [c] (ls @ [[]])"
    using assms(1) by (induction "[c]" ls rule: join.induct) simp_all
  then show ?thesis using split_on_join [of "ls @ [[]]" c] assms(2) by simp
qed

text \<open>
  C33. What is written to the ACL file is what is granted: when the file is built, reading it
  back gives the arguments of the administrator and of every tenant, each exactly as they are
  sent to the running server; and it is refused exactly when the administrator has no
  password, a user has fewer than three rules, or a token could be split or lost by the file
  format.
\<close>

theorem acl_file_roundtrip:
  "(\<forall>out. acl_file_contents admin_pw tenants = Inr out \<longrightarrow>
      parse_acl_file out = admin_acl_args admin_pw # sort_le first_le tenants \<and>
      mset (parse_acl_file out) = add_mset (admin_acl_args admin_pw) (mset tenants)) \<and>
   ((\<exists>out. acl_file_contents admin_pw tenants = Inr out) \<longleftrightarrow>
      admin_pw \<noteq> [] \<and> (\<forall>args \<in> set (admin_acl_args admin_pw # tenants). 3 \<le> length args \<and> (\<forall>t \<in> set args. \<not> bad_token t)))"
proof -
  let ?ls = "admin_acl_args admin_pw # sort_le first_le tenants"
  let ?ok = "\<forall>args \<in> set ?ls. 3 \<le> length args \<and> (\<forall>t \<in> set args. \<not> bad_token t)"
  have cases: "acl_file_contents admin_pw tenants = Inr out \<longleftrightarrow>
      admin_pw \<noteq> [] \<and> ?ok \<and> out = join [CHR 0x0A] (map acl_file_line ?ls) @ [CHR 0x0A]" for out
    using check_acl_lines_None [of 1 ?ls] by (auto simp: acl_file_contents_def Let_def split: option.splits)
  have parsed: "parse_acl_file out = ?ls" if "acl_file_contents admin_pw tenants = Inr out" for out
  proof -
    from that have ok: ?ok and out: "out = join [CHR 0x0A] (map acl_file_line ?ls) @ [CHR 0x0A]" unfolding cases by auto
    have ne: "args \<noteq> []" "\<forall>t \<in> set args. \<not> bad_token t" if "args \<in> set ?ls" for args using ok that by fastforce+
    have "split_on CHR 0x0A out = map acl_file_line ?ls @ [[]]"
      unfolding out using line_tokens(2) ne by (intro file_lines) auto
    moreover have "acl_file_line args \<noteq> []" for args by (simp add: acl_file_line_def)
    ultimately have "parse_acl_file out = map (\<lambda>args. tl (split_on CHR '' '' (acl_file_line args))) ?ls"
      by (simp add: parse_acl_file_def o_def)
    also have "\<dots> = ?ls" using line_tokens(1) ne by (intro map_idI) blast
    finally show ?thesis .
  qed
  have "?ok \<longleftrightarrow> (\<forall>args \<in> set (admin_acl_args admin_pw # tenants). 3 \<le> length args \<and> (\<forall>t \<in> set args. \<not> bad_token t))"
    by simp
  then have "(\<exists>out. acl_file_contents admin_pw tenants = Inr out) \<longleftrightarrow>
      admin_pw \<noteq> [] \<and> (\<forall>args \<in> set (admin_acl_args admin_pw # tenants). 3 \<le> length args \<and> (\<forall>t \<in> set args. \<not> bad_token t))"
    unfolding cases by blast
  moreover have "mset (parse_acl_file out) = add_mset (admin_acl_args admin_pw) (mset tenants)"
    if "acl_file_contents admin_pw tenants = Inr out" for out
    unfolding parsed [OF that] by simp
  ultimately show ?thesis using parsed by blast
qed

theorem acl_file_roundtrip_witness:
  "\<exists>out. acl_file_contents ''s3cret'' [acl_setuser_args ''claim_b_y_redis'' ''p2'' 4, acl_setuser_args ''claim_a_x_redis'' ''p1'' 3] = Inr out \<and>
     parse_acl_file out = [admin_acl_args ''s3cret'', acl_setuser_args ''claim_a_x_redis'' ''p1'' 3, acl_setuser_args ''claim_b_y_redis'' ''p2'' 4]"
proof -
  let ?t = "[acl_setuser_args ''claim_b_y_redis'' ''p2'' 4, acl_setuser_args ''claim_a_x_redis'' ''p1'' 3]"
  have ok: "list_all (\<lambda>args. 3 \<le> length args \<and> list_all (\<lambda>t. \<not> bad_token t) args) (admin_acl_args ''s3cret'' # ?t)" by code_simp
  have sorted: "sort_le first_le ?t = [acl_setuser_args ''claim_a_x_redis'' ''p1'' 3, acl_setuser_args ''claim_b_y_redis'' ''p2'' 4]"
    by code_simp
  note rt = acl_file_roundtrip [of "''s3cret''" ?t]
  have "(\<exists>out. acl_file_contents ''s3cret'' ?t = Inr out) \<longleftrightarrow> ''s3cret'' \<noteq> [] \<and>
      (\<forall>args \<in> set (admin_acl_args ''s3cret'' # ?t). 3 \<le> length args \<and> (\<forall>t \<in> set args. \<not> bad_token t))"
    using rt by (rule conjunct2)
  moreover have "''s3cret'' \<noteq> [] \<and> (\<forall>args \<in> set (admin_acl_args ''s3cret'' # ?t). 3 \<le> length args \<and> (\<forall>t \<in> set args. \<not> bad_token t))"
    using ok unfolding list_all_iff by (rule conjI [rotated]) simp
  ultimately have "\<exists>out. acl_file_contents ''s3cret'' ?t = Inr out" by (rule iffD2)
  then obtain out where out: "acl_file_contents ''s3cret'' ?t = Inr out" by (rule exE)
  have "acl_file_contents ''s3cret'' ?t = Inr out \<longrightarrow>
      parse_acl_file out = admin_acl_args ''s3cret'' # sort_le first_le ?t \<and>
      mset (parse_acl_file out) = add_mset (admin_acl_args ''s3cret'') (mset ?t)" using rt by (rule conjunct1 [THEN spec])
  from mp [OF this out] have "parse_acl_file out = admin_acl_args ''s3cret'' # sort_le first_le ?t" by (rule conjunct1)
  with out show ?thesis unfolding sorted by (intro exI conjI)
qed

end
