(* ===== verification/Reaper.thy ===== *)
theory Reaper
  imports Dragonfly Json
begin

text \<open>
  The reaper of shared backend instances that no claim uses
  (\<open>resourceclaim-provisioner/src/reaper.rs\<close>): the vetoes, the sweep with its dwell clocks,
  and the removal of owner references from the volumes of a Postgres cluster before the
  cluster is deleted. A sweep is a function of what its requests return; the requests it
  makes are its effects. Times are natural numbers, so their difference saturates at zero
  as \<open>duration_since\<close> does. Events, logs and metrics are left out.
\<close>

subsection \<open>The decision\<close>

datatype backend = Cloudnativepg | DragonflyBackend | DiskBackend | SharedDiskBackend | NatsBackend

definition from_spec_backend :: "string \<Rightarrow> backend option" where
  "from_spec_backend b =
     (if b = ''cloudnative-pg'' then Some Cloudnativepg
      else if b = ''dragonfly'' then Some DragonflyBackend
      else if b = ''disk'' then Some DiskBackend
      else if b = ''shared-disk'' then Some SharedDiskBackend
      else if b = ''nats'' then Some NatsBackend
      else None)"

definition MANAGED_BY_KEY :: string where "MANAGED_BY_KEY = ''apprafter.io/managed-by''"
definition MANAGED_BY_VALUE :: string where "MANAGED_BY_VALUE = ''apprafter''"
definition DEFAULT_CNPG_CLUSTER :: string where "DEFAULT_CNPG_CLUSTER = ''platform-postgres''"

record instance_object =
  io_name :: string
  io_labels :: "string btreemap option"
  io_uid :: "string option"
  io_deletion_timestamp :: "int option"

definition is_stamped :: "instance_object \<Rightarrow> bool" where
  "is_stamped obj \<longleftrightarrow> map_of (unwrap_or (io_labels obj) []) MANAGED_BY_KEY = Some MANAGED_BY_VALUE"

datatype target = TDragonfly (target_name: string) pool_class | TCnpg (target_name: string)

datatype veto_reason = VLive | VIntent | VRetained | VSharedDatabase

datatype reap_decision_kind = RVeto veto_reason | RDwell | RReap

record provider_index =
  pi_dragonfly :: "string set"
  pi_cnpg_cluster :: "string btreemap"

definition cluster_of_provider :: "service_provider \<Rightarrow> string" where
  "cluster_of_provider p = unwrap_or (Option.bind (sps_config (sp_spec p)) (\<lambda>c.
     Option.bind (json_pointer c [''cluster'']) as_str)) DEFAULT_CNPG_CLUSTER"

text \<open>The first provider of a name wins.\<close>

definition provider_index_of :: "service_provider list \<Rightarrow> provider_index" where
  "provider_index_of providers = foldl (\<lambda>idx p. case from_spec_backend (sps_backend (sp_spec p)) of
       Some DragonflyBackend \<Rightarrow> idx\<lparr>pi_dragonfly := insert (sp_name p) (pi_dragonfly idx)\<rparr>
     | Some Cloudnativepg \<Rightarrow>
         (if map_of (pi_cnpg_cluster idx) (sp_name p) = None
          then idx\<lparr>pi_cnpg_cluster := bt_insert (sp_name p) (cluster_of_provider p) (pi_cnpg_cluster idx)\<rparr> else idx)
     | _ \<Rightarrow> idx) \<lparr>pi_dragonfly = {}, pi_cnpg_cluster = []\<rparr> providers"

definition claim_cnpg_cluster :: "resource_claim \<Rightarrow> provider_index \<Rightarrow> string option" where
  "claim_cnpg_cluster claim idx = Option.bind (rc_status claim) (\<lambda>s. Option.bind (rst_provider s) (map_of (pi_cnpg_cluster idx)))"

definition is_allocated_on :: "resource_claim \<Rightarrow> target \<Rightarrow> provider_index \<Rightarrow> bool" where
  "is_allocated_on claim tgt idx = (case rc_status claim of
       None \<Rightarrow> False
     | Some status \<Rightarrow>
         (case tgt of
            TDragonfly name _ \<Rightarrow> rst_instance status = Some name
          | TCnpg name \<Rightarrow> claim_cnpg_cluster claim idx = Some name))"

definition is_redis_claim :: "resource_claim \<Rightarrow> provider_index \<Rightarrow> bool" where
  "is_redis_claim claim idx \<longleftrightarrow> rcs_type (rc_spec claim) = ''redis'' \<or>
     (case Option.bind (rc_status claim) rst_provider of Some p \<Rightarrow> p \<in> pi_dragonfly idx | None \<Rightarrow> False)"

definition is_intent_for :: "resource_claim \<Rightarrow> target \<Rightarrow> provider_index \<Rightarrow> bool" where
  "is_intent_for claim tgt idx =
     (if rc_deletion_timestamp claim \<noteq> None then False
      else case tgt of
        TDragonfly _ class \<Rightarrow>
          (if Option.bind (rc_status claim) rst_instance \<noteq> None \<or> \<not> is_redis_claim claim idx then False
           else let persistent = unwrap_or (rcs_persistent (rc_spec claim)) False
                in case class of Persistent \<Rightarrow> persistent | Ephemeral \<Rightarrow> \<not> persistent)
      | TCnpg _ \<Rightarrow> rcs_type (rc_spec claim) = ''pg'' \<and> claim_cnpg_cluster claim idx = None)"

definition is_retained_for :: "retained_claim \<Rightarrow> target \<Rightarrow> bool" where
  "is_retained_for snapshot tgt = (case tgt of
       TDragonfly name Persistent \<Rightarrow> rts_instance (rt_spec snapshot) = Some name
     | TDragonfly name Ephemeral \<Rightarrow> False
     | TCnpg name \<Rightarrow> rts_cnpg_cluster (rt_spec snapshot) = Some name)"

definition is_shared_on :: "shared_database \<Rightarrow> target \<Rightarrow> bool" where
  "is_shared_on sd tgt =
     (if sd_deletion_timestamp sd \<noteq> None then False
      else case Option.bind (sd_status sd) sdst_instance of
             None \<Rightarrow> False
           | Some inst \<Rightarrow> inst = target_name tgt)"

record sweep_inputs =
  si_live :: "resource_claim list"
  si_retained :: "retained_claim list"
  si_shared :: "shared_database list"
  si_providers :: "service_provider list"
  si_idx :: provider_index
  si_now :: nat

definition reap_decision ::
  "target \<Rightarrow> resource_claim list \<Rightarrow> retained_claim list \<Rightarrow> shared_database list \<Rightarrow> provider_index \<Rightarrow> nat option \<Rightarrow> nat
    \<Rightarrow> reap_decision_kind" where
  "reap_decision tgt live retained shared idx empty_for dwell =
     (if list_ex (\<lambda>c. is_allocated_on c tgt idx) live then RVeto VLive
      else if list_ex (\<lambda>c. is_intent_for c tgt idx) live then RVeto VIntent
      else if list_ex (\<lambda>r. is_retained_for r tgt) retained then RVeto VRetained
      else if list_ex (\<lambda>sd. is_shared_on sd tgt) shared then RVeto VSharedDatabase
      else case empty_for of
             Some elapsed \<Rightarrow> if elapsed \<ge> dwell then RReap else RDwell
           | None \<Rightarrow> RDwell)"

fun backend_label :: "target \<Rightarrow> string" where
  "backend_label (TDragonfly _ Ephemeral) = ''dragonfly-ephemeral''"
| "backend_label (TDragonfly _ Persistent) = ''dragonfly-persistent''"
| "backend_label (TCnpg _) = ''cnpg''"

definition dwell_key :: "target \<Rightarrow> string" where
  "dwell_key tgt = backend_label tgt @ ''/'' @ target_name tgt"

subsection \<open>Owner references of volumes\<close>

record pvc =
  pvc_name :: string
  pvc_owner_references :: "owner_reference list option"

datatype patch_op = TestUid nat string | RemoveRef nat

definition owner_ref_indices :: "owner_reference list option \<Rightarrow> string \<Rightarrow> nat list" where
  "owner_ref_indices refs uid =
     (if uid = [] then []
      else case refs of
        None \<Rightarrow> []
      | Some rs \<Rightarrow> rev (map fst (filter (\<lambda>(_, r). or_uid r = uid) (enumerate 0 rs))))"

definition strip_owner_ops :: "owner_reference list option \<Rightarrow> string \<Rightarrow> patch_op list" where
  "strip_owner_ops refs uid = concat (map (\<lambda>i. [TestUid i uid, RemoveRef i]) (owner_ref_indices refs uid))"

subsection \<open>The sweep\<close>

datatype 'a listing = Listed "'a list" "string option" | ListMissing | ListFailed

definition list_truncated :: "string option \<Rightarrow> bool" where
  "list_truncated continue \<longleftrightarrow> (case continue of Some c \<Rightarrow> c \<noteq> [] | None \<Rightarrow> False)"

datatype delete_outcome = Deleted | IdentityChanged | DeleteFailed

datatype strip_failure = OwnerReattached | ListTruncated | VerifyListTruncated | ReadFailed

datatype strip = StripVerified nat | Unverified strip_failure

datatype reap_effect =
    RDelete target string
  | RDeleteSecret string
  | RPatchPvc string "patch_op list"

text \<open>What the requests of one sweep return. The volumes are listed before and after the patches.\<close>

record sweep_reads =
  sw_live :: "resource_claim listing"
  sw_retained :: "retained_claim listing"
  sw_shared :: "shared_database listing"
  sw_providers :: "service_provider listing"
  sw_dragonflies :: "instance_object listing"
  sw_clusters :: "instance_object listing"
  sw_pvcs_before :: "string \<Rightarrow> pvc listing"
  sw_patch_ok :: "string \<Rightarrow> bool"
  sw_pvcs_after :: "string \<Rightarrow> pvc listing"
  sw_delete :: "target \<Rightarrow> delete_outcome"
  sw_now :: nat

type_synonym clocks = "string \<rightharpoonup> nat"

fun patch_pvcs :: "(string \<Rightarrow> bool) \<Rightarrow> string \<Rightarrow> pvc list \<Rightarrow> reap_effect list \<times> nat option" where
  "patch_pvcs ok uid [] = ([], Some 0)"
| "patch_pvcs ok uid (p # ps) =
     (let ops = strip_owner_ops (pvc_owner_references p) uid
      in if ops = [] then patch_pvcs ok uid ps
         else if \<not> ok (pvc_name p) then ([RPatchPvc (pvc_name p) ops], None)
         else (let (effs, n) = patch_pvcs ok uid ps
               in (RPatchPvc (pvc_name p) ops # effs, map_option Suc n)))"

text \<open>A request that fails is folded into \<open>ReadFailed\<close> by the caller.\<close>

definition strip_cnpg_pvc_owners :: "sweep_reads \<Rightarrow> string \<Rightarrow> reap_effect list \<times> strip" where
  "strip_cnpg_pvc_owners rd uid = (case sw_pvcs_before rd uid of
       Listed before cont \<Rightarrow>
         (if list_truncated cont then ([], Unverified ListTruncated)
          else case patch_pvcs (sw_patch_ok rd) uid before of
            (effs, None) \<Rightarrow> (effs, Unverified ReadFailed)
          | (effs, Some stripped) \<Rightarrow>
              (effs, case sw_pvcs_after rd uid of
                 Listed after cont' \<Rightarrow>
                   (if list_truncated cont' then Unverified VerifyListTruncated
                    else if list_ex (\<lambda>p. owner_ref_indices (pvc_owner_references p) uid \<noteq> []) after
                    then Unverified OwnerReattached
                    else StripVerified stripped)
               | _ \<Rightarrow> Unverified ReadFailed))
     | _ \<Rightarrow> ([], Unverified ReadFailed))"

text \<open>What the deletion of a candidate does to its clock; \<open>Aborted\<close> leaves the whole arm.\<close>

datatype act_result = Cleared | Kept | Aborted

definition dragonfly_act :: "sweep_reads \<Rightarrow> target \<Rightarrow> string \<Rightarrow> reap_effect list \<times> act_result" where
  "dragonfly_act rd tgt uid = (case sw_delete rd tgt of
       Deleted \<Rightarrow> ([RDelete tgt uid, RDeleteSecret (acl_secret_name (target_name tgt))], Cleared)
     | IdentityChanged \<Rightarrow> ([RDelete tgt uid], Cleared)
     | DeleteFailed \<Rightarrow> ([RDelete tgt uid], Aborted))"

definition cnpg_act :: "sweep_reads \<Rightarrow> target \<Rightarrow> string \<Rightarrow> reap_effect list \<times> act_result" where
  "cnpg_act rd tgt uid = (case strip_cnpg_pvc_owners rd uid of
       (effs, Unverified _) \<Rightarrow> (effs, Kept)
     | (effs, StripVerified _) \<Rightarrow>
         (effs @ [RDelete tgt uid], case sw_delete rd tgt of
            Deleted \<Rightarrow> Cleared | IdentityChanged \<Rightarrow> Cleared | DeleteFailed \<Rightarrow> Aborted))"

definition dragonfly_gate :: "instance_object \<Rightarrow> target option" where
  "dragonfly_gate obj = (case class_of_instance (io_name obj) of
       None \<Rightarrow> None
     | Some class \<Rightarrow>
         (if \<not> is_stamped obj then None
          else if io_deletion_timestamp obj \<noteq> None then None
          else Some (TDragonfly (io_name obj) class)))"

definition cnpg_gate :: "provider_index \<Rightarrow> instance_object \<Rightarrow> target option" where
  "cnpg_gate idx obj =
     (if io_name obj \<notin> set (map snd (pi_cnpg_cluster idx)) then None
      else if \<not> is_stamped obj then None
      else if io_deletion_timestamp obj \<noteq> None then None
      else Some (TCnpg (io_name obj)))"

definition nonempty_uid :: "instance_object \<Rightarrow> string option" where
  "nonempty_uid obj = (case io_uid obj of Some u \<Rightarrow> if u = [] then None else Some u | None \<Rightarrow> None)"

text \<open>The loop of an arm over the listed objects; the arms differ in the gate and in the deletion.\<close>

fun reap_loop ::
  "(instance_object \<Rightarrow> target option) \<Rightarrow> (target \<Rightarrow> string \<Rightarrow> reap_effect list \<times> act_result) \<Rightarrow> sweep_inputs \<Rightarrow> nat \<Rightarrow>
    instance_object list \<Rightarrow> clocks \<Rightarrow> string list \<Rightarrow> reap_effect list \<times> clocks \<times> string list option" where
  "reap_loop gate act inp dwell [] cl seen = ([], cl, Some seen)"
| "reap_loop gate act inp dwell (obj # rest) cl seen = (case gate obj of
       None \<Rightarrow> reap_loop gate act inp dwell rest cl seen
     | Some tgt \<Rightarrow>
         (let key = dwell_key tgt;
              empty_for = map_option (\<lambda>t. si_now inp - t) (cl key)
          in case reap_decision tgt (si_live inp) (si_retained inp) (si_shared inp) (si_idx inp) empty_for dwell of
               RVeto _ \<Rightarrow> reap_loop gate act inp dwell rest (cl(key := None)) (key # seen)
             | RDwell \<Rightarrow>
                 reap_loop gate act inp dwell rest (if cl key = None then cl(key \<mapsto> si_now inp) else cl) (key # seen)
             | RReap \<Rightarrow>
                 (case nonempty_uid obj of
                    None \<Rightarrow> reap_loop gate act inp dwell rest cl (key # seen)
                  | Some uid \<Rightarrow>
                      (case act tgt uid of
                         (effs, Aborted) \<Rightarrow> (effs, cl, None)
                       | (effs, r) \<Rightarrow>
                           (let (effs', cl', res) = reap_loop gate act inp dwell rest
                                  (if r = Cleared then cl(key := None) else cl) (key # seen)
                            in (effs @ effs', cl', res))))))"

definition run_arm ::
  "instance_object listing \<Rightarrow> (instance_object \<Rightarrow> target option) \<Rightarrow> (target \<Rightarrow> string \<Rightarrow> reap_effect list \<times> act_result)
    \<Rightarrow> sweep_inputs \<Rightarrow> nat \<Rightarrow> clocks \<Rightarrow> reap_effect list \<times> clocks \<times> string list option" where
  "run_arm objs gate act inp dwell cl = (case objs of
       ListMissing \<Rightarrow> ([], cl, Some [])
     | ListFailed \<Rightarrow> ([], cl, None)
     | Listed items cont \<Rightarrow> if list_truncated cont then ([], cl, Some []) else reap_loop gate act inp dwell items cl [])"

definition sweep_dragonfly :: "sweep_reads \<Rightarrow> sweep_inputs \<Rightarrow> nat \<Rightarrow> clocks \<Rightarrow> reap_effect list \<times> clocks \<times> string list option" where
  "sweep_dragonfly rd inp dwell cl = run_arm (sw_dragonflies rd) dragonfly_gate (dragonfly_act rd) inp dwell cl"

definition sweep_cnpg :: "sweep_reads \<Rightarrow> sweep_inputs \<Rightarrow> nat \<Rightarrow> clocks \<Rightarrow> reap_effect list \<times> clocks \<times> string list option" where
  "sweep_cnpg rd inp dwell cl =
     (if pi_cnpg_cluster (si_idx inp) = [] then ([], cl, Some [])
      else run_arm (sw_clusters rd) (cnpg_gate (si_idx inp)) (cnpg_act rd) inp dwell cl)"

text \<open>The inputs of a pass, if all lists could be read. The list of shared databases is not checked for truncation.\<close>

definition read_inputs :: "sweep_reads \<Rightarrow> sweep_inputs option" where
  "read_inputs rd = (case (sw_live rd, sw_retained rd, sw_shared rd, sw_providers rd) of
       (Listed live c1, Listed retained c2, Listed shared c3, Listed providers c4) \<Rightarrow>
         (if list_truncated c1 \<or> list_truncated c2 \<or> list_truncated c4 then None
          else Some \<lparr>si_live = live, si_retained = retained, si_shared = shared, si_providers = providers,
                 si_idx = provider_index_of providers, si_now = sw_now rd\<rparr>)
     | _ \<Rightarrow> None)"

definition sweep :: "nat \<Rightarrow> sweep_reads \<Rightarrow> clocks \<Rightarrow> reap_effect list \<times> clocks" where
  "sweep dwell rd cl = (case read_inputs rd of
       None \<Rightarrow> ([], cl)
     | Some inp \<Rightarrow>
         (let (effs1, cl1, seen1) = sweep_dragonfly rd inp dwell cl;
              (effs2, cl2, seen2) = sweep_cnpg rd inp dwell cl1;
              seen = unwrap_or seen1 [] @ unwrap_or seen2 []
          in (effs1 @ effs2, cl2 |` set seen)))"

definition sweeps :: "nat \<Rightarrow> sweep_reads list \<Rightarrow> clocks" where
  "sweeps dwell rds = foldl (\<lambda>cl rd. snd (sweep dwell rd cl)) Map.empty rds"

subsection \<open>Stripping removes exactly the references to the cluster\<close>

fun apply_op :: "patch_op \<Rightarrow> owner_reference list \<Rightarrow> owner_reference list option" where
  "apply_op (TestUid i u) rs = (if i < length rs \<and> or_uid (rs ! i) = u then Some rs else None)"
| "apply_op (RemoveRef i) rs = (if i < length rs then Some (take i rs @ drop (Suc i) rs) else None)"

fun apply_ops :: "patch_op list \<Rightarrow> owner_reference list \<Rightarrow> owner_reference list option" where
  "apply_ops [] rs = Some rs"
| "apply_ops (p # ps) rs = Option.bind (apply_op p rs) (apply_ops ps)"

lemma indices_snoc: "uid \<noteq> [] \<Longrightarrow> owner_ref_indices (Some (rs @ [r])) uid =
    (if or_uid r = uid then [length rs] else []) @ owner_ref_indices (Some rs) uid"
  by (simp add: owner_ref_indices_def enumerate_append_eq)

lemma indices_below: "i \<in> set (owner_ref_indices (Some rs) uid) \<Longrightarrow> i < length rs"
  by (auto simp: owner_ref_indices_def in_set_enumerate_eq split: if_splits)

lemma apply_ops_append:
  assumes "\<forall>i \<in> set js. i < m" "m \<le> length rs" "sorted_wrt (>) js"
  shows "apply_ops (concat (map (\<lambda>i. [TestUid i uid, RemoveRef i]) js)) (rs @ ys) =
    map_option (\<lambda>qs. qs @ ys) (apply_ops (concat (map (\<lambda>i. [TestUid i uid, RemoveRef i]) js)) rs)"
  using assms
proof (induction js arbitrary: rs m)
  case (Cons i js)
  then have i: "i < length rs" by simp
  have "\<forall>j \<in> set js. j < i" "i \<le> length (take i rs @ drop (Suc i) rs)" using Cons.prems by auto
  from Cons.IH [OF this(1,2)] Cons.prems(3) i show ?case by (simp add: nth_append)
qed simp

lemma indices_sorted: "sorted_wrt (>) (owner_ref_indices (Some rs) uid)"
proof (induction rs rule: rev_induct)
  case (snoc r rs)
  show ?case
  proof (cases "uid = []")
    case False
    then show ?thesis using snoc indices_below by (auto simp: indices_snoc)
  qed (simp add: owner_ref_indices_def)
qed (simp add: owner_ref_indices_def)

lemma strip_ops_exact: "uid \<noteq> [] \<Longrightarrow>
    apply_ops (strip_owner_ops (Some rs) uid) rs = Some (filter (\<lambda>r. or_uid r \<noteq> uid) rs)"
proof (induction rs rule: rev_induct)
  case (snoc r rs)
  have "\<forall>i \<in> set (owner_ref_indices (Some rs) uid). i < length rs" using indices_below by blast
  from apply_ops_append [OF this order_refl indices_sorted, of uid "[r]"] snoc show ?case by (simp add: strip_owner_ops_def indices_snoc)
qed (simp add: strip_owner_ops_def owner_ref_indices_def)

lemma strip_ops_spare: "apply_ops (concat (map (\<lambda>i. [TestUid i uid, RemoveRef i]) js)) rs = Some rs' \<Longrightarrow>
    filter (\<lambda>r. or_uid r \<noteq> uid) rs' = filter (\<lambda>r. or_uid r \<noteq> uid) rs"
proof (induction js arbitrary: rs)
  case (Cons i js)
  then have i: "i < length rs" "or_uid (rs ! i) = uid" by (auto split: if_splits)
  with Cons have "filter (\<lambda>r. or_uid r \<noteq> uid) rs' = filter (\<lambda>r. or_uid r \<noteq> uid) (take i rs @ drop (Suc i) rs)" by simp
  also have "\<dots> = filter (\<lambda>r. or_uid r \<noteq> uid) (take i rs @ rs ! i # drop (Suc i) rs)" using i(2) by simp
  also have "take i rs @ rs ! i # drop (Suc i) rs = rs" by (rule id_take_nth_drop [OF i(1), symmetric])
  finally show ?case .
qed simp

text \<open>
  The patch on a volume removes exactly the references to the deleted cluster when the
  volume is as it was read, and whatever the references have become in the meantime, a patch
  that is accepted removes no reference of another owner.
\<close>

lemma strip_removes_only_own_references:
  assumes "uid \<noteq> []"
  shows "apply_ops (strip_owner_ops (Some rs) uid) rs = Some (filter (\<lambda>r. or_uid r \<noteq> uid) rs) \<and>
    (\<forall>now now'. apply_ops (strip_owner_ops (Some rs) uid) now = Some now' \<longrightarrow>
      filter (\<lambda>r. or_uid r \<noteq> uid) now' = filter (\<lambda>r. or_uid r \<noteq> uid) now)"
  using strip_ops_exact [OF assms] strip_ops_spare unfolding strip_owner_ops_def by blast

subsection \<open>The dwell\<close>

definition unreferenced :: "sweep_inputs \<Rightarrow> target \<Rightarrow> bool" where
  "unreferenced inp tgt \<longleftrightarrow>
     (\<forall>c \<in> set (si_live inp). \<not> is_allocated_on c tgt (si_idx inp) \<and> \<not> is_intent_for c tgt (si_idx inp)) \<and>
     (\<forall>r \<in> set (si_retained inp). \<not> is_retained_for r tgt) \<and> (\<forall>sd \<in> set (si_shared inp). \<not> is_shared_on sd tgt)"

definition idle_key :: "sweep_inputs \<Rightarrow> string \<Rightarrow> bool" where
  "idle_key inp key \<longleftrightarrow> (\<exists>tgt. dwell_key tgt = key \<and> unreferenced inp tgt)"

lemma decision_veto_iff: "(\<exists>v. reap_decision tgt (si_live inp) (si_retained inp) (si_shared inp) (si_idx inp) e dwell = RVeto v) \<longleftrightarrow>
    \<not> unreferenced inp tgt"
  by (auto simp: reap_decision_def unreferenced_def list_ex_iff split: option.splits)

lemma decision_cases:
  "reap_decision tgt (si_live inp) (si_retained inp) (si_shared inp) (si_idx inp) e dwell = RReap \<Longrightarrow>
    unreferenced inp tgt \<and> (\<exists>d. e = Some d \<and> dwell \<le> d)"
  "reap_decision tgt (si_live inp) (si_retained inp) (si_shared inp) (si_idx inp) e dwell = RDwell \<Longrightarrow> unreferenced inp tgt"
  by (auto simp: reap_decision_def unreferenced_def list_ex_iff split: option.splits if_splits)

text \<open>
  What a loop does to the clocks: a clock it leaves ran before, or starts now on an instance
  that nothing refers to; and the clock of an instance it examined is that of one that
  nothing refers to.
\<close>

lemma reap_loop_clocks:
  assumes "reap_loop gate act inp dwell objs cl seen = (effs, cl', res)" "cl' k = Some t"
  shows "(cl k = Some t \<or> t = si_now inp \<and> idle_key inp k) \<and>
    (\<forall>seen'. res = Some seen' \<longrightarrow> k \<in> set seen' \<longrightarrow> k \<in> set seen \<or> idle_key inp k)"
  using assms
proof (induction objs arbitrary: cl seen effs)
  case (Cons obj objs)
  show ?case
  proof (cases "gate obj")
    case None
    then have l: "reap_loop gate act inp dwell objs cl seen = (effs, cl', res)" using Cons.prems(1) by simp
    from Cons.IH [OF l Cons.prems(2)] show ?thesis .
  next
    case (Some tgt)
    let ?k = "dwell_key tgt"
    let ?e = "map_option (\<lambda>t. si_now inp - t) (cl ?k)"
    let ?d = "reap_decision tgt (si_live inp) (si_retained inp) (si_shared inp) (si_idx inp) ?e dwell"
    note h = Cons.prems(1) [unfolded reap_loop.simps(2) Some option.case Let_def]
    consider (veto) v where "?d = RVeto v" | (dwell) "?d = RDwell" | (reap) "?d = RReap" by (cases ?d) auto
    then show ?thesis
    proof cases
      case veto
      with h have l: "reap_loop gate act inp dwell objs (cl(?k := None)) (?k # seen) = (effs, cl', res)" by simp
      from Cons.IH [OF l Cons.prems(2)] show ?thesis by (auto split: if_splits)
    next
      case dwell
      with h have l: "reap_loop gate act inp dwell objs (if cl ?k = None then cl(?k \<mapsto> si_now inp) else cl) (?k # seen) = (effs, cl', res)"
        by simp
      have "idle_key inp ?k" using decision_cases(2) [OF dwell] by (auto simp: idle_key_def)
      with Cons.IH [OF l Cons.prems(2)] show ?thesis by (auto split: if_splits)
    next
      case reap
      have i: "idle_key inp ?k" using decision_cases(1) [OF reap] by (auto simp: idle_key_def)
      show ?thesis
      proof (cases "nonempty_uid obj")
        case None
        with h reap have l: "reap_loop gate act inp dwell objs cl (?k # seen) = (effs, cl', res)" by simp
        from Cons.IH [OF l Cons.prems(2)] i show ?thesis by auto
      next
        case (Some uid)
        obtain es r where a: "act tgt uid = (es, r)" by force
        show ?thesis
        proof (cases "r = Aborted")
          case True
          with h reap Some a Cons.prems(2) show ?thesis by auto
        next
          case False
          obtain es' c2 r2 where l: "reap_loop gate act inp dwell objs (if r = Cleared then cl(?k := None) else cl) (?k # seen) = (es', c2, r2)"
            by (metis prod_cases3)
          with h reap Some a False have "c2 = cl'" "r2 = res" by (cases r; simp)+
          with l Cons.IH [of "if r = Cleared then cl(?k := None) else cl" "?k # seen" es'] Cons.prems(2) i
          show ?thesis by (auto split: if_splits)
        qed
      qed
    qed
  qed
qed auto

text \<open>A deletion is asked for only of an object that passed the gate, on a clock that has run the dwell.\<close>

definition due :: "sweep_inputs \<Rightarrow> nat \<Rightarrow> clocks \<Rightarrow> target \<Rightarrow> bool" where
  "due inp dwell cl tgt \<longleftrightarrow> unreferenced inp tgt \<and>
     (\<exists>t. (cl (dwell_key tgt) = Some t \<or> t = si_now inp) \<and> dwell \<le> si_now inp - t)"

lemma due_earlier:
  assumes "due inp dwell c2 tgt" and "\<And>t. c2 (dwell_key tgt) = Some t \<Longrightarrow> cl (dwell_key tgt) = Some t \<or> t = si_now inp"
  shows "due inp dwell cl tgt"
  using assms unfolding due_def by blast

lemma reap_loop_deletes:
  assumes "reap_loop gate act inp dwell objs cl seen = (effs, cl', res)" "e \<in> set effs"
  shows "\<exists>obj \<in> set objs. \<exists>tgt uid. gate obj = Some tgt \<and> nonempty_uid obj = Some uid \<and> e \<in> set (fst (act tgt uid)) \<and> due inp dwell cl tgt"
  using assms
proof (induction objs arbitrary: cl seen effs)
  case (Cons obj objs)
  have lift: ?case
    if l: "reap_loop gate act inp dwell objs c2 s2 = (es, cl', res)" "e \<in> set es"
      and c2: "\<And>k t. c2 k = Some t \<Longrightarrow> cl k = Some t \<or> t = si_now inp" for c2 s2 es
  proof -
    from Cons.IH [OF l] obtain o' tgt uid where "o' \<in> set objs" "gate o' = Some tgt" "nonempty_uid o' = Some uid"
      "e \<in> set (fst (act tgt uid))" and d: "due inp dwell c2 tgt" by blast
    moreover from d have "due inp dwell cl tgt" by (rule due_earlier) (rule c2)
    ultimately show ?thesis by auto
  qed
  show ?case
  proof (cases "gate obj")
    case None
    then have "reap_loop gate act inp dwell objs cl seen = (effs, cl', res)" using Cons.prems(1) by simp
    then show ?thesis by (rule lift [OF _ Cons.prems(2)]) blast
  next
    case (Some tgt)
    let ?k = "dwell_key tgt"
    let ?e = "map_option (\<lambda>t. si_now inp - t) (cl ?k)"
    let ?d = "reap_decision tgt (si_live inp) (si_retained inp) (si_shared inp) (si_idx inp) ?e dwell"
    note h = Cons.prems(1) [unfolded reap_loop.simps(2) Some option.case Let_def]
    consider (veto) v where "?d = RVeto v" | (dwell) "?d = RDwell" | (reap) "?d = RReap" by (cases ?d) auto
    then show ?thesis
    proof cases
      case veto
      with h have "reap_loop gate act inp dwell objs (cl(?k := None)) (?k # seen) = (effs, cl', res)" by simp
      then show ?thesis by (rule lift [OF _ Cons.prems(2)]) (auto split: if_splits)
    next
      case dwell
      with h have "reap_loop gate act inp dwell objs (if cl ?k = None then cl(?k \<mapsto> si_now inp) else cl) (?k # seen) = (effs, cl', res)"
        by simp
      then show ?thesis by (rule lift [OF _ Cons.prems(2)]) (auto split: if_splits)
    next
      case reap
      show ?thesis
      proof (cases "nonempty_uid obj")
        case None
        with h reap have "reap_loop gate act inp dwell objs cl (?k # seen) = (effs, cl', res)" by simp
        then show ?thesis by (rule lift [OF _ Cons.prems(2)]) blast
      next
        case u: (Some uid)
        obtain es r where a: "act tgt uid = (es, r)" by force
        have d: "due inp dwell cl tgt" using decision_cases(1) [OF reap] by (auto simp: due_def)
        show ?thesis
        proof (cases "e \<in> set es")
          case True
          with a u Some d show ?thesis by (metis fst_conv list.set_intros(1))
        next
          case False
          then have na: "r \<noteq> Aborted" using h reap u a Cons.prems(2) by auto
          obtain es' c2 r2 where l: "reap_loop gate act inp dwell objs (if r = Cleared then cl(?k := None) else cl) (?k # seen) = (es', c2, r2)"
            by (metis prod_cases3)
          with h reap u a na have c: "c2 = cl'" "r2 = res" "effs = es @ es'" by (cases r; simp)+
          with False Cons.prems(2) have "e \<in> set es'" by simp
          then show ?thesis by (rule lift [OF l [unfolded c(1,2)]]) (auto split: if_splits)
        qed
      qed
    qed
  qed
qed auto

lemma dwell_key_inj: "dwell_key a = dwell_key b \<Longrightarrow> a = b"
  by (cases a rule: backend_label.cases; cases b rule: backend_label.cases) (auto simp: dwell_key_def)

lemma idle_key_target: "idle_key inp (dwell_key tgt) \<longleftrightarrow> unreferenced inp tgt"
  using dwell_key_inj by (auto simp: idle_key_def)

lemma run_arm_clocks:
  assumes "run_arm objs gate act inp dwell cl = (effs, cl', res)" "cl' k = Some t"
  shows "cl k = Some t \<or> t = si_now inp \<and> idle_key inp k"
    and "k \<in> set (unwrap_or res []) \<Longrightarrow> idle_key inp k"
  using assms reap_loop_clocks [of gate act inp dwell _ cl "[]" effs cl' res k t]
  by (auto simp: run_arm_def split: listing.splits if_splits option.splits) (cases res; auto)+

lemma run_arm_deletes:
  assumes "run_arm objs gate act inp dwell cl = (effs, cl', res)" "e \<in> set effs"
  shows "\<exists>items cont obj tgt uid. objs = Listed items cont \<and> obj \<in> set items \<and> gate obj = Some tgt \<and>
    nonempty_uid obj = Some uid \<and> e \<in> set (fst (act tgt uid)) \<and> due inp dwell cl tgt"
proof (cases objs)
  case (Listed items cont)
  with assms have "reap_loop gate act inp dwell items cl [] = (effs, cl', res)"
    by (auto simp: run_arm_def split: if_splits)
  from reap_loop_deletes [OF this assms(2)] Listed show ?thesis by blast
qed (use assms in \<open>auto simp: run_arm_def\<close>)

lemma sweep_arms:
  assumes "read_inputs rd = Some inp"
  obtains effs1 cl1 seen1 effs2 cl2 seen2 where
    "sweep_dragonfly rd inp dwell cl = (effs1, cl1, seen1)" "sweep_cnpg rd inp dwell cl1 = (effs2, cl2, seen2)"
    "sweep dwell rd cl = (effs1 @ effs2, cl2 |` set (unwrap_or seen1 [] @ unwrap_or seen2 []))"
proof -
  obtain e1 c1 s1 where 1: "sweep_dragonfly rd inp dwell cl = (e1, c1, s1)" by (metis prod_cases3)
  obtain e2 c2 s2 where 2: "sweep_cnpg rd inp dwell c1 = (e2, c2, s2)" by (metis prod_cases3)
  show ?thesis by (rule that [OF 1 2]) (simp add: sweep_def assms 1 2)
qed

lemma arm_clocks:
  assumes "sweep_dragonfly rd inp dwell cl = (effs, cl', res) \<or> sweep_cnpg rd inp dwell cl = (effs, cl', res)" "cl' k = Some t"
  shows "cl k = Some t \<or> t = si_now inp \<and> idle_key inp k" "k \<in> set (unwrap_or res []) \<Longrightarrow> idle_key inp k"
  using assms run_arm_clocks [of _ _ _ inp dwell cl effs cl' res k t]
  by (auto simp: sweep_dragonfly_def sweep_cnpg_def split: if_splits)

lemma inputs_now: "read_inputs rd = Some inp \<Longrightarrow> si_now inp = sw_now rd"
  by (auto simp: read_inputs_def split: listing.splits if_splits)

lemma sweep_clocks:
  assumes "snd (sweep dwell rd cl) k = Some t"
  shows "(\<forall>inp. read_inputs rd = Some inp \<longrightarrow> idle_key inp k) \<and> (cl k = Some t \<or> t = sw_now rd)"
proof (cases "read_inputs rd")
  case None
  with assms show ?thesis by (simp add: sweep_def)
next
  case (Some inp)
  obtain effs1 cl1 seen1 effs2 cl2 seen2 where arms: "sweep_dragonfly rd inp dwell cl = (effs1, cl1, seen1)"
    "sweep_cnpg rd inp dwell cl1 = (effs2, cl2, seen2)"
    and s: "sweep dwell rd cl = (effs1 @ effs2, cl2 |` set (unwrap_or seen1 [] @ unwrap_or seen2 []))"
    by (rule sweep_arms [OF Some])
  from assms s have c2: "cl2 k = Some t" and seen: "k \<in> set (unwrap_or seen1 []) \<or> k \<in> set (unwrap_or seen2 [])"
    by (auto simp: restrict_map_def split: if_splits)
  have c1: "cl1 k = Some t \<or> t = si_now inp \<and> idle_key inp k" "k \<in> set (unwrap_or seen2 []) \<Longrightarrow> idle_key inp k"
    using arm_clocks [OF disjI2 [OF arms(2)] c2] by blast+
  have "cl k = Some t \<or> t = si_now inp" "idle_key inp k"
    using c1 seen arm_clocks [OF disjI1 [OF arms(1)], of k t] by blast+
  then show ?thesis using Some inputs_now by auto
qed

text \<open>A clock dates from a sweep since which no pass that could read the cluster found a reference.\<close>

lemma sweeps_clock:
  "sweeps dwell rds k = Some t \<Longrightarrow> \<exists>i < length rds. sw_now (rds ! i) = t \<and>
    (\<forall>j. i \<le> j \<longrightarrow> j < length rds \<longrightarrow> (\<forall>inp. read_inputs (rds ! j) = Some inp \<longrightarrow> idle_key inp k))"
proof (induction rds arbitrary: t rule: rev_induct)
  case (snoc rd rds)
  have s: "snd (sweep dwell rd (sweeps dwell rds)) k = Some t" using snoc.prems by (simp add: sweeps_def)
  note now = sweep_clocks [OF s]
  from now have "sweeps dwell rds k = Some t \<or> t = sw_now rd" by blast
  then show ?case
  proof
    assume "sweeps dwell rds k = Some t"
    from snoc.IH [OF this] obtain i where i: "i < length rds" "sw_now (rds ! i) = t"
      "\<forall>j. i \<le> j \<longrightarrow> j < length rds \<longrightarrow> (\<forall>inp. read_inputs (rds ! j) = Some inp \<longrightarrow> idle_key inp k)" by blast
    then show ?thesis using now by (intro exI [of _ i]) (auto simp: nth_append less_Suc_eq)
  next
    assume "t = sw_now rd"
    then show ?thesis using now by (intro exI [of _ "length rds"]) (auto simp: nth_append)
  qed
qed (simp add: sweeps_def)

lemma gate_passed:
  "dragonfly_gate obj = Some tgt \<Longrightarrow> is_stamped obj \<and> io_deletion_timestamp obj = None \<and> io_name obj = target_name tgt \<and>
    (\<exists>class. tgt = TDragonfly (io_name obj) class \<and> class_of_instance (io_name obj) = Some class)"
  "cnpg_gate idx obj = Some tgt \<Longrightarrow> is_stamped obj \<and> io_deletion_timestamp obj = None \<and> io_name obj = target_name tgt \<and>
    tgt = TCnpg (io_name obj) \<and> io_name obj \<in> snd ` set (pi_cnpg_cluster idx)"
  by (auto simp: dragonfly_gate_def cnpg_gate_def split: option.splits if_splits)

definition volumes_released :: "sweep_reads \<Rightarrow> string \<Rightarrow> bool" where
  "volumes_released rd uid \<longleftrightarrow> (\<exists>after cont. sw_pvcs_after rd uid = Listed after cont \<and> \<not> list_truncated cont \<and>
     (\<forall>p \<in> set after. \<forall>r \<in> set (unwrap_or (pvc_owner_references p) []). or_uid r \<noteq> uid))"

lemma no_indices: "uid \<noteq> [] \<Longrightarrow> owner_ref_indices refs uid = [] \<longleftrightarrow> (\<forall>r \<in> set (unwrap_or refs []). or_uid r \<noteq> uid)"
proof (cases refs)
  case (Some rs)
  assume u: "uid \<noteq> []"
  have "owner_ref_indices (Some rs) uid = [] \<longleftrightarrow> (\<forall>r \<in> set rs. or_uid r \<noteq> uid)"
    using u by (induction rs rule: rev_induct) (auto simp: indices_snoc, simp add: owner_ref_indices_def)
  with Some show ?thesis by simp
qed (simp add: owner_ref_indices_def)

lemma only_patches: "e \<in> set (fst (patch_pvcs ok uid ps)) \<Longrightarrow> \<exists>n ops. e = RPatchPvc n ops"
  by (induction ok uid ps rule: patch_pvcs.induct) (auto simp: Let_def split: if_splits prod.splits)

lemma strip_effects: "strip_cnpg_pvc_owners rd uid = (effs, r) \<Longrightarrow> e \<in> set effs \<Longrightarrow> \<exists>n ops. e = RPatchPvc n ops"
proof -
  assume h: "strip_cnpg_pvc_owners rd uid = (effs, r)" "e \<in> set effs"
  then obtain before cont where l: "sw_pvcs_before rd uid = Listed before cont"
    by (auto simp: strip_cnpg_pvc_owners_def split: listing.splits)
  obtain es n where p: "patch_pvcs (sw_patch_ok rd) uid before = (es, n)" by force
  with h l have "e \<in> set es" by (auto simp: strip_cnpg_pvc_owners_def split: if_splits option.splits)
  with p only_patches [of e "sw_patch_ok rd" uid before] show ?thesis by simp
qed

lemma strip_verified: "uid \<noteq> [] \<Longrightarrow> strip_cnpg_pvc_owners rd uid = (effs, StripVerified n) \<Longrightarrow> volumes_released rd uid"
  using no_indices [of uid]
  by (auto simp: strip_cnpg_pvc_owners_def volumes_released_def list_ex_iff split: listing.splits if_splits prod.splits option.splits)

lemma act_deletes:
  "RDelete tgt uid \<in> set (fst (dragonfly_act rd tgt' uid')) \<Longrightarrow> tgt' = tgt \<and> uid' = uid"
  "uid' \<noteq> [] \<Longrightarrow> RDelete tgt uid \<in> set (fst (cnpg_act rd tgt' uid')) \<Longrightarrow> tgt' = tgt \<and> uid' = uid \<and> volumes_released rd uid"
proof -
  show "RDelete tgt uid \<in> set (fst (dragonfly_act rd tgt' uid')) \<Longrightarrow> tgt' = tgt \<and> uid' = uid"
    by (auto simp: dragonfly_act_def split: delete_outcome.splits)
  assume h: "uid' \<noteq> []" "RDelete tgt uid \<in> set (fst (cnpg_act rd tgt' uid'))"
  obtain effs r where s: "strip_cnpg_pvc_owners rd uid' = (effs, r)" by force
  show "tgt' = tgt \<and> uid' = uid \<and> volumes_released rd uid"
    using h strip_effects [OF s] strip_verified [OF h(1)] s by (cases r) (auto simp: cnpg_act_def)
qed

lemma sweep_delete:
  assumes "RDelete tgt uid \<in> set (fst (sweep dwell rd cl))"
  shows "\<exists>inp objs cont obj. read_inputs rd = Some inp \<and> due inp dwell cl tgt \<and> obj \<in> set objs \<and>
    is_stamped obj \<and> io_deletion_timestamp obj = None \<and> io_name obj = target_name tgt \<and> io_uid obj = Some uid \<and> uid \<noteq> [] \<and>
    (case tgt of TDragonfly n class \<Rightarrow> sw_dragonflies rd = Listed objs cont \<and> class_of_instance n = Some class
     | TCnpg n \<Rightarrow> sw_clusters rd = Listed objs cont \<and> n \<in> snd ` set (pi_cnpg_cluster (si_idx inp)) \<and> volumes_released rd uid)"
proof (cases "read_inputs rd")
  case (Some inp)
  obtain effs1 cl1 seen1 effs2 cl2 seen2 where arms: "sweep_dragonfly rd inp dwell cl = (effs1, cl1, seen1)"
    "sweep_cnpg rd inp dwell cl1 = (effs2, cl2, seen2)"
    and s: "sweep dwell rd cl = (effs1 @ effs2, cl2 |` set (unwrap_or seen1 [] @ unwrap_or seen2 []))"
    by (rule sweep_arms [OF Some])
  have uid: "nonempty_uid obj = Some u \<Longrightarrow> io_uid obj = Some u \<and> u \<noteq> []" for obj u
    by (auto simp: nonempty_uid_def split: option.splits if_splits)
  from assms s have "RDelete tgt uid \<in> set effs1 \<or> RDelete tgt uid \<in> set effs2" by simp
  then show ?thesis
  proof
    assume e: "RDelete tgt uid \<in> set effs1"
    from run_arm_deletes [OF arms(1) [unfolded sweep_dragonfly_def] e] obtain items cont obj tgt' u where
      o: "sw_dragonflies rd = Listed items cont" "obj \<in> set items" "dragonfly_gate obj = Some tgt'" "nonempty_uid obj = Some u"
        "RDelete tgt uid \<in> set (fst (dragonfly_act rd tgt' u))" "due inp dwell cl tgt'" by blast
    have "tgt' = tgt" "u = uid" using act_deletes(1) [OF o(5)] by blast+
    with o(1,2,6) Some gate_passed(1) [OF o(3)] uid [OF o(4)] show ?thesis
      by (intro exI [of _ inp] exI [of _ items] exI [of _ cont] exI [of _ obj]) auto
  next
    assume e: "RDelete tgt uid \<in> set effs2"
    then have ne: "pi_cnpg_cluster (si_idx inp) \<noteq> []" using arms(2) by (auto simp: sweep_cnpg_def)
    have arm: "run_arm (sw_clusters rd) (cnpg_gate (si_idx inp)) (cnpg_act rd) inp dwell cl1 = (effs2, cl2, seen2)"
      using arms(2) ne by (simp add: sweep_cnpg_def)
    from run_arm_deletes [OF arm e] obtain items cont obj tgt' u where
      o: "sw_clusters rd = Listed items cont" "obj \<in> set items" "cnpg_gate (si_idx inp) obj = Some tgt'" "nonempty_uid obj = Some u"
        "RDelete tgt uid \<in> set (fst (cnpg_act rd tgt' u))" "due inp dwell cl1 tgt'" by blast
    have t: "tgt' = tgt" "u = uid" "volumes_released rd uid" using act_deletes(2) [OF _ o(5)] uid [OF o(4)] by blast+
    have "due inp dwell cl tgt"
      using o(6) unfolding t(1) by (rule due_earlier) (use arm_clocks(1) [OF disjI1 [OF arms(1)]] in blast)
    moreover obtain nm where "tgt = TCnpg nm" "io_name obj = nm" "nm \<in> snd ` set (pi_cnpg_cluster (si_idx inp))"
      "is_stamped obj" "io_deletion_timestamp obj = None"
      using gate_passed(2) [OF o(3)] unfolding t(1) by blast
    ultimately show ?thesis using o(1,2) t Some uid [OF o(4)]
      by (intro exI [of _ inp] exI [of _ items] exI [of _ cont] exI [of _ obj]) simp
  qed
qed (use assms in \<open>simp add: sweep_def\<close>)

text \<open>
  C6. An instance is deleted only after it was unused for the whole dwell: the sweep that asks
  for the deletion, and every sweep since one that lies at least the dwell back, either could
  not read the cluster or found no claim, snapshot or shared database in its lists that
  refers to the instance. The object was listed with the operator's stamp and is not being
  deleted, the request carries its uid, and for a Postgres cluster a complete list taken
  after the patches shows no volume that it still owns.
\<close>

theorem reap_only_after_full_dwell:
  assumes "RDelete tgt uid \<in> set (fst (sweep dwell rd (sweeps dwell rds)))"
  shows "(\<exists>i \<le> length rds. dwell \<le> sw_now rd - sw_now ((rds @ [rd]) ! i) \<and>
      (\<forall>j. i \<le> j \<longrightarrow> j \<le> length rds \<longrightarrow> (\<forall>inp. read_inputs ((rds @ [rd]) ! j) = Some inp \<longrightarrow> unreferenced inp tgt))) \<and>
    (\<exists>inp objs cont obj. read_inputs rd = Some inp \<and> obj \<in> set objs \<and> is_stamped obj \<and> io_deletion_timestamp obj = None \<and>
      io_name obj = target_name tgt \<and> io_uid obj = Some uid \<and> uid \<noteq> [] \<and>
      (case tgt of TDragonfly n class \<Rightarrow> sw_dragonflies rd = Listed objs cont \<and> class_of_instance n = Some class
       | TCnpg n \<Rightarrow> sw_clusters rd = Listed objs cont \<and> n \<in> snd ` set (pi_cnpg_cluster (si_idx inp)) \<and> volumes_released rd uid))"
proof -
  from sweep_delete [OF assms] obtain inp where i: "read_inputs rd = Some inp" and d: "due inp dwell (sweeps dwell rds) tgt" by blast
  then obtain t where t: "sweeps dwell rds (dwell_key tgt) = Some t \<or> t = sw_now rd" "dwell \<le> sw_now rd - t"
    and u: "unreferenced inp tgt" unfolding due_def using inputs_now [OF i] by auto
  have last: "\<forall>inp'. read_inputs ((rds @ [rd]) ! length rds) = Some inp' \<longrightarrow> unreferenced inp' tgt" using i u by simp
  from t(1) have "\<exists>k \<le> length rds. dwell \<le> sw_now rd - sw_now ((rds @ [rd]) ! k) \<and>
      (\<forall>j. k \<le> j \<longrightarrow> j \<le> length rds \<longrightarrow> (\<forall>inp. read_inputs ((rds @ [rd]) ! j) = Some inp \<longrightarrow> unreferenced inp tgt))"
  proof
    assume "sweeps dwell rds (dwell_key tgt) = Some t"
    from sweeps_clock [OF this] obtain k where "k < length rds" "sw_now (rds ! k) = t"
      "\<forall>j. k \<le> j \<longrightarrow> j < length rds \<longrightarrow> (\<forall>inp. read_inputs (rds ! j) = Some inp \<longrightarrow> unreferenced inp tgt)"
      unfolding idle_key_target by blast
    with t(2) last show ?thesis by (intro exI [of _ k]) (auto simp: nth_append le_less)
  next
    assume "t = sw_now rd"
    with t(2) last show ?thesis by (intro exI [of _ "length rds"]) auto
  qed
  with sweep_delete [OF assms] show ?thesis by blast
qed

text \<open>
  The list of shared databases is used as it is, even when the apiserver marks it as
  truncated: such a pass decides exactly as if the list were complete, and reaps an instance
  whose shared database is beyond the part that was returned.
\<close>

lemma truncated_shared_list_is_trusted:
  "sweep dwell (rd\<lparr>sw_shared := Listed sds cont\<rparr>) cl = sweep dwell (rd\<lparr>sw_shared := Listed sds None\<rparr>) cl"
proof -
  have inputs: "read_inputs (rd\<lparr>sw_shared := Listed sds cont\<rparr>) = read_inputs (rd\<lparr>sw_shared := Listed sds None\<rparr>)"
    by (simp add: read_inputs_def split: listing.splits)
  have "dragonfly_act (rd\<lparr>sw_shared := a\<rparr>) = dragonfly_act rd" "cnpg_act (rd\<lparr>sw_shared := a\<rparr>) = cnpg_act rd" for a
  proof -
    have "strip_cnpg_pvc_owners (rd\<lparr>sw_shared := a\<rparr>) u = strip_cnpg_pvc_owners rd u" for u
      by (auto simp: strip_cnpg_pvc_owners_def split: listing.splits prod.splits option.splits)
    then show "dragonfly_act (rd\<lparr>sw_shared := a\<rparr>) = dragonfly_act rd" "cnpg_act (rd\<lparr>sw_shared := a\<rparr>) = cnpg_act rd"
      by (auto simp: fun_eq_iff dragonfly_act_def cnpg_act_def split: prod.splits strip.splits delete_outcome.splits)
  qed
  then have arms: "sweep_dragonfly (rd\<lparr>sw_shared := a\<rparr>) = sweep_dragonfly rd" "sweep_cnpg (rd\<lparr>sw_shared := a\<rparr>) = sweep_cnpg rd" for a
    by (intro ext, simp add: sweep_dragonfly_def sweep_cnpg_def)+
  show ?thesis unfolding sweep_def inputs arms by (rule refl)
qed

definition idle_reads :: "nat \<Rightarrow> sweep_reads" where
  "idle_reads now = \<lparr>sw_live = Listed [] None, sw_retained = Listed [] None, sw_shared = Listed [] None, sw_providers = Listed [] None,
     sw_dragonflies = Listed [\<lparr>io_name = ''platform-redis-ephemeral-00'', io_labels = Some [(MANAGED_BY_KEY, MANAGED_BY_VALUE)],
       io_uid = Some ''u1'', io_deletion_timestamp = None\<rparr>] None,
     sw_clusters = ListMissing, sw_pvcs_before = (\<lambda>_. Listed [] None), sw_patch_ok = (\<lambda>_. True),
     sw_pvcs_after = (\<lambda>_. Listed [] None), sw_delete = (\<lambda>_. Deleted), sw_now = now\<rparr>"

definition idle_target :: target where "idle_target = TDragonfly ''platform-redis-ephemeral-00'' Ephemeral"

lemma idle_reaped: "RDelete idle_target ''u1'' \<in> set (fst (sweep 60 (idle_reads 90) (sweeps 60 [idle_reads 10])))"
  by code_simp

theorem reap_only_after_full_dwell_witness:
  "\<exists>i \<le> 1. 60 \<le> sw_now (idle_reads 90) - sw_now ([idle_reads 10, idle_reads 90] ! i)"
  using reap_only_after_full_dwell [OF idle_reaped] by auto

end
