(* ===== verification/Api_Server.thy ===== *)
theory Api_Server
  imports Claim_Types Reaper
begin

text \<open>
  The Kubernetes API server as the provisioner and the collector use it. An object has a
  value and a resource version; every write takes a fresh revision, and a \<open>replace\<close> carries
  the version it read and is answered 409 when another write came in between. Before each
  request the environment takes a turn: other clients write, and the request may be turned
  away (any status but 404 and 409, which the callers treat alike), may be performed with its
  reply lost, or may hit a kind or namespace the server does not serve (404). The log lists
  the answers that the server computed and the writes that it performed.

  An action is a function of this world; it returns an error or a value and the next world,
  and \<open>act_bind\<close> is the \<open>?\<close> operator. A \<open>delete\<close> removes the object at once: the kinds the
  collector deletes carry no finalizer of the operator.
\<close>

subsection \<open>Objects, environment and log\<close>

datatype okind = KCluster | KDatabase | KSecret | KPvc | KRetainedClaim | KResourceClaim

type_synonym objkey = "okind \<times> string \<times> string"

datatype kobj = OJson json | OClaim resource_claim | OSnapshot retained_claim

datatype kube_error = KApi nat | KTransport

datatype reconcile_error = Kube kube_error | Provisioning string | Serde

datatype fault = Unavailable | LostReply | NotServed

record turn =
  t_writes :: "(objkey \<times> kobj option) list"
  t_fault :: "fault option"

datatype event =
    Missing objkey
  | Read objkey kobj
  | Stale objkey
  | Wrote objkey "kobj option" "kobj option"

record world =
  w_rev :: nat
  w_objects :: "objkey \<rightharpoonup> kobj \<times> nat"
  w_env :: "turn list"
  w_log :: "event list"

definition value_at :: "world \<Rightarrow> objkey \<Rightarrow> kobj option" where
  "value_at w k = map_option fst (w_objects w k)"

definition note_event :: "event \<Rightarrow> world \<Rightarrow> world" where
  "note_event e w = w\<lparr>w_log := w_log w @ [e]\<rparr>"

text \<open>A write takes the next revision.\<close>

definition store_value :: "objkey \<Rightarrow> kobj option \<Rightarrow> world \<Rightarrow> world" where
  "store_value k x w = w\<lparr>w_rev := Suc (w_rev w),
     w_objects := (w_objects w)(k := map_option (\<lambda>v. (v, Suc (w_rev w))) x)\<rparr>"

definition write_value :: "objkey \<Rightarrow> kobj option \<Rightarrow> world \<Rightarrow> world" where
  "write_value k x w = note_event (Wrote k (value_at w k) x) (store_value k x w)"

type_synonym 'a request = "world \<Rightarrow> (kube_error, 'a) result \<times> world"
type_synonym 'a act = "world \<Rightarrow> (reconcile_error, 'a) result \<times> world"

definition take_turn :: "turn \<Rightarrow> world \<Rightarrow> world" where
  "take_turn t w = foldl (\<lambda>w (k, x). store_value k x w) w (t_writes t)"

definition serve :: "objkey \<Rightarrow> 'a request \<Rightarrow> 'a request" where
  "serve k answer w = (case w_env w of
       [] \<Rightarrow> answer w
     | t # ts \<Rightarrow>
         let w' = take_turn t (w\<lparr>w_env := ts\<rparr>) in
         (case t_fault t of
            None \<Rightarrow> answer w'
          | Some Unavailable \<Rightarrow> (Inl (KApi 503), w')
          | Some LostReply \<Rightarrow> (Inl KTransport, snd (answer w'))
          | Some NotServed \<Rightarrow> (Inl (KApi 404), note_event (Missing k) w')))"

subsection \<open>Requests\<close>

definition api_get :: "objkey \<Rightarrow> (kobj \<times> nat) request" where
  "api_get k = serve k (\<lambda>w. case w_objects w k of
       None \<Rightarrow> (Inl (KApi 404), note_event (Missing k) w)
     | Some (x, v) \<Rightarrow> (Inr (x, v), note_event (Read k x) w))"

definition api_replace :: "objkey \<Rightarrow> kobj \<Rightarrow> nat \<Rightarrow> unit request" where
  "api_replace k x v = serve k (\<lambda>w. case w_objects w k of
       None \<Rightarrow> (Inl (KApi 404), note_event (Missing k) w)
     | Some (_, v') \<Rightarrow> (if v' = v then (Inr (), write_value k (Some x) w)
                       else (Inl (KApi 409), note_event (Stale k) w)))"

definition api_delete :: "objkey \<Rightarrow> unit request" where
  "api_delete k = serve k (\<lambda>w. case w_objects w k of
       None \<Rightarrow> (Inl (KApi 404), note_event (Missing k) w)
     | Some _ \<Rightarrow> (Inr (), write_value k None w))"

text \<open>
  A server-side apply creates the object or merges the body into it; how it merges is the
  server's (\<open>ssa\<close>).
\<close>

definition api_apply :: "(kobj option \<Rightarrow> json \<Rightarrow> kobj) \<Rightarrow> objkey \<Rightarrow> json \<Rightarrow> unit request" where
  "api_apply ssa k body = serve k (\<lambda>w. (Inr (), write_value k (Some (ssa (value_at w k) body)) w))"

subsection \<open>Actions\<close>

definition ok :: "'a \<Rightarrow> 'a act" where
  "ok x w = (Inr x, w)"

definition fail :: "reconcile_error \<Rightarrow> 'a act" where
  "fail e w = (Inl e, w)"

definition act_bind :: "'a act \<Rightarrow> ('a \<Rightarrow> 'b act) \<Rightarrow> 'b act" where
  "act_bind m f w = (case m w of (Inl e, w') \<Rightarrow> (Inl e, w') | (Inr x, w') \<Rightarrow> f x w')"

text \<open>A request whose answer the caller matches, and one followed by \<open>?\<close>.\<close>

definition reply :: "'a request \<Rightarrow> (kube_error, 'a) result act" where
  "reply r w = (Inr (fst (r w)), snd (r w))"

definition quest :: "'a request \<Rightarrow> 'a act" where
  "quest r w = (case r w of (Inl e, w') \<Rightarrow> (Inl (Kube e), w') | (Inr x, w') \<Rightarrow> (Inr x, w'))"

text \<open>A delete that treats a missing object as done.\<close>

definition delete_ignoring_404 :: "objkey \<Rightarrow> unit act" where
  "delete_ignoring_404 k = act_bind (reply (api_delete k)) (\<lambda>r. case r of
       Inr _ \<Rightarrow> ok ()
     | Inl (KApi c) \<Rightarrow> (if c = 404 then ok () else fail (Kube (KApi c)))
     | Inl e \<Rightarrow> fail (Kube e))"

text \<open>The events an action adds when it starts in a world.\<close>

definition events :: "'a act \<Rightarrow> world \<Rightarrow> event list" where
  "events m w = w_log (snd (m (w\<lparr>w_log := []\<rparr>)))"

definition versions_wf :: "world \<Rightarrow> bool" where
  "versions_wf w \<longleftrightarrow> (\<forall>k x v. w_objects w k = Some (x, v) \<longrightarrow> v \<le> w_rev w)"

subsection \<open>Triples\<close>

text \<open>
  A triple speaks of every environment: whatever other clients write and whichever requests
  fail, an action started in \<open>P\<close> returns a result and a world in \<open>Q\<close>.
\<close>

definition triple :: "(world \<Rightarrow> bool) \<Rightarrow> (world \<Rightarrow> 'r \<times> world) \<Rightarrow> ('r \<Rightarrow> world \<Rightarrow> bool) \<Rightarrow> bool" where
  "triple P m Q \<longleftrightarrow> (\<forall>w. P w \<longrightarrow> Q (fst (m w)) (snd (m w)))"

definition env_stable :: "(world \<Rightarrow> bool) \<Rightarrow> bool" where
  "env_stable P \<longleftrightarrow> (\<forall>w ts. P w \<longrightarrow> P (w\<lparr>w_env := ts\<rparr>)) \<and> (\<forall>w k x. P w \<longrightarrow> P (store_value k x w))"

named_theorems world_simps \<open>what an update of the world changes\<close>

lemma store_value_sel [simp, world_simps]:
  "w_rev (store_value k x w) = Suc (w_rev w)" "w_env (store_value k x w) = w_env w"
  "w_log (store_value k x w) = w_log w"
  "w_objects (store_value k x w) = (w_objects w)(k := map_option (\<lambda>v. (v, Suc (w_rev w))) x)"
  by (simp_all add: store_value_def)

lemma note_event_sel [simp, world_simps]:
  "w_rev (note_event e w) = w_rev w" "w_env (note_event e w) = w_env w"
  "w_log (note_event e w) = w_log w @ [e]" "w_objects (note_event e w) = w_objects w"
  "value_at (note_event e w) k = value_at w k"
  by (simp_all add: note_event_def value_at_def)

lemma write_value_sel [simp, world_simps]:
  "w_rev (write_value k x w) = Suc (w_rev w)" "w_env (write_value k x w) = w_env w"
  "w_log (write_value k x w) = w_log w @ [Wrote k (value_at w k) x]"
  "w_objects (write_value k x w) = (w_objects w)(k := map_option (\<lambda>v. (v, Suc (w_rev w))) x)"
  by (simp_all add: write_value_def)

lemma value_at_write [simp, world_simps]: "value_at (write_value k x w) k' = (if k' = k then x else value_at w k')"
  by (cases x) (simp_all add: value_at_def)

lemma tripleI: "(\<And>w. P w \<Longrightarrow> Q (fst (m w)) (snd (m w))) \<Longrightarrow> triple P m Q"
  by (simp add: triple_def)

lemma tripleD: "triple P m Q \<Longrightarrow> P w \<Longrightarrow> Q (fst (m w)) (snd (m w))"
  by (simp add: triple_def)

lemma triple_weaken:
  "triple P' m Q' \<Longrightarrow> (\<And>w. P w \<Longrightarrow> P' w) \<Longrightarrow> (\<And>r w. Q' r w \<Longrightarrow> Q r w) \<Longrightarrow> triple P m Q"
  by (simp add: triple_def)

lemma triple_ok: "(\<And>w. P w \<Longrightarrow> Q (Inr x) w) \<Longrightarrow> triple P (ok x) Q"
  by (simp add: triple_def ok_def)

lemma triple_fail: "(\<And>w. P w \<Longrightarrow> Q (Inl e) w) \<Longrightarrow> triple P (fail e) Q"
  by (simp add: triple_def fail_def)

lemma triple_bind:
  assumes "triple P m (\<lambda>r w. case r of Inl e \<Rightarrow> Q (Inl e) w | Inr x \<Rightarrow> R x w)"
    and "\<And>x. triple (R x) (f x) Q"
  shows "triple P (act_bind m f) Q"
proof (rule tripleI)
  fix w
  assume "P w"
  obtain r w' where m: "m w = (r, w')" by (cases "m w")
  from tripleD [OF assms(1) \<open>P w\<close>]
  have r: "case r of Inl e \<Rightarrow> Q (Inl e) w' | Inr x \<Rightarrow> R x w'" unfolding m fst_conv snd_conv .
  show "Q (fst (act_bind m f w)) (snd (act_bind m f w))"
  proof (cases r)
    case (Inl e)
    with m r show ?thesis by (simp add: act_bind_def)
  next
    case (Inr x)
    with m r tripleD [OF assms(2), of x w'] show ?thesis by (simp add: act_bind_def)
  qed
qed

lemma triple_reply: "triple P r (\<lambda>a w. Q (Inr a) w) \<Longrightarrow> triple P (reply r) Q"
  by (simp add: triple_def reply_def)

lemma triple_quest:
  "triple P r (\<lambda>a w. Q (case a of Inl e \<Rightarrow> Inl (Kube e) | Inr x \<Rightarrow> Inr x) w) \<Longrightarrow> triple P (quest r) Q"
  by (auto simp: triple_def quest_def split: prod.splits sum.splits)

text \<open>The answer of a request is matched (\<open>reply\<close>) or passed on with \<open>?\<close> (\<open>quest\<close>).\<close>

lemma triple_bind_reply:
  assumes "triple P r R" "\<And>a. triple (R a) (f a) Q"
  shows "triple P (act_bind (reply r) f) Q"
  using assms by (simp add: triple_def act_bind_def reply_def)

lemma triple_bind_quest:
  assumes "triple P r R" "\<And>e w. R (Inl e) w \<Longrightarrow> Q (Inl (Kube e)) w" "\<And>x. triple (R (Inr x)) (f x) Q"
  shows "triple P (act_bind (quest r) f) Q"
proof (rule tripleI)
  fix w
  assume "P w"
  obtain a w' where r: "r w = (a, w')" by (cases "r w")
  with tripleD [OF assms(1) \<open>P w\<close>] have "R a w'" by simp
  with r assms(2) tripleD [OF assms(3)]
  show "Q (fst (act_bind (quest r) f w)) (snd (act_bind (quest r) f w))"
    by (cases a) (simp_all add: act_bind_def quest_def)
qed

lemma env_stable_turn:
  assumes "env_stable P" "P w"
  shows "P (take_turn t (w\<lparr>w_env := ts\<rparr>))"
proof -
  have "P w \<Longrightarrow> P (foldl (\<lambda>w (k, x). store_value k x w) w kxs)" for w kxs
    using assms(1) by (induction kxs arbitrary: w) (auto simp: env_stable_def)
  with assms show ?thesis by (simp add: take_turn_def env_stable_def)
qed

lemma triple_serve:
  assumes stable: "env_stable P"
    and answer: "triple P answer Q"
    and unavailable: "\<And>w. P w \<Longrightarrow> Q (Inl (KApi 503)) w"
    and missing: "\<And>w. P w \<Longrightarrow> Q (Inl (KApi 404)) (note_event (Missing k) w)"
    and lost: "\<And>r w. Q r w \<Longrightarrow> Q (Inl KTransport) w"
  shows "triple P (serve k answer) Q"
proof (rule tripleI)
  fix w
  assume P: "P w"
  show "Q (fst (serve k answer w)) (snd (serve k answer w))"
  proof (cases "w_env w")
    case Nil
    with P answer show ?thesis by (simp add: serve_def tripleD)
  next
    case (Cons t ts)
    let ?w = "take_turn t (w\<lparr>w_env := ts\<rparr>)"
    have "P ?w" by (rule env_stable_turn [OF stable P])
    moreover from this have "Q (fst (answer ?w)) (snd (answer ?w))" by (rule tripleD [OF answer])
    ultimately show ?thesis
      using Cons unavailable missing lost by (auto simp: serve_def Let_def split: option.split fault.split)
  qed
qed

lemma serve_quiet [simp]: "w_env w = [] \<Longrightarrow> serve k answer w = answer w"
  by (simp add: serve_def)

subsection \<open>Assertions about the log\<close>

definition logged :: "(event list \<Rightarrow> bool) \<Rightarrow> world \<Rightarrow> bool" where
  "logged \<phi> w \<longleftrightarrow> versions_wf w \<and> \<phi> (w_log w)"

text \<open>What a client knows after a read: the version it saw still names the value it saw.\<close>

definition seen :: "objkey \<Rightarrow> kobj \<Rightarrow> nat \<Rightarrow> world \<Rightarrow> bool" where
  "seen k x v w \<longleftrightarrow> v \<le> w_rev w \<and> (\<forall>y. w_objects w k = Some (y, v) \<longrightarrow> y = x)"

lemma versions_wfD: "versions_wf w \<Longrightarrow> w_objects w k = Some (x, v) \<Longrightarrow> v \<le> w_rev w"
  unfolding versions_wf_def by blast

lemma versions_wf_store: "versions_wf w \<Longrightarrow> versions_wf (store_value k x w)"
  unfolding versions_wf_def by (auto simp: le_Suc_eq)

lemma versions_wf_note [simp]: "versions_wf (note_event e w) = versions_wf w"
  by (simp add: versions_wf_def)

lemma versions_wf_write: "versions_wf w \<Longrightarrow> versions_wf (write_value k x w)"
  by (simp add: write_value_def versions_wf_store)

lemma versions_wf_env [simp]: "versions_wf (w\<lparr>w_env := ts\<rparr>) = versions_wf w"
  by (simp add: versions_wf_def)

lemma env_stable_logged: "env_stable (logged \<phi>)"
  by (auto simp: env_stable_def logged_def versions_wf_store)

lemma env_stable_seen: "env_stable (\<lambda>w. logged \<phi> w \<and> seen k x v w)"
  by (auto simp: env_stable_def logged_def versions_wf_store seen_def)

lemma logged_note: "logged \<phi> w \<Longrightarrow> \<psi> (w_log w @ [e]) \<Longrightarrow> logged \<psi> (note_event e w)"
  by (simp add: logged_def)

lemma logged_write: "logged \<phi> w \<Longrightarrow> \<psi> (w_log w @ [Wrote k (value_at w k) x]) \<Longrightarrow> logged \<psi> (write_value k x w)"
  by (simp add: logged_def versions_wf_write)

fun benign :: "event \<Rightarrow> bool" where
  "benign (Wrote k x y) = False"
| "benign e = True"

definition keeps_benign :: "(event list \<Rightarrow> bool) \<Rightarrow> bool" where
  "keeps_benign \<phi> \<longleftrightarrow> (\<forall>L e. benign e \<longrightarrow> \<phi> L \<longrightarrow> \<phi> (L @ [e]))"

text \<open>What the log shows of an answer.\<close>

fun shows_get :: "objkey \<Rightarrow> (kube_error, kobj \<times> nat) result \<Rightarrow> event list \<Rightarrow> bool" where
  "shows_get k (Inr (x, v)) L \<longleftrightarrow> Read k x \<in> set L"
| "shows_get k (Inl e) L \<longleftrightarrow> (e = KApi 404 \<longrightarrow> Missing k \<in> set L)"

fun knows_get :: "objkey \<Rightarrow> (kube_error, kobj \<times> nat) result \<Rightarrow> world \<Rightarrow> bool" where
  "knows_get k (Inr (x, v)) w \<longleftrightarrow> seen k x v w"
| "knows_get k (Inl e) w \<longleftrightarrow> True"

lemma keeps_benignD: "keeps_benign \<phi> \<Longrightarrow> \<phi> L \<Longrightarrow> benign e \<Longrightarrow> \<phi> (L @ [e])"
  by (simp add: keeps_benign_def)

lemma logged_mono: "logged \<phi> w \<Longrightarrow> (\<And>L. \<phi> L \<Longrightarrow> \<psi> L) \<Longrightarrow> logged \<psi> w"
  by (simp add: logged_def)

lemma get_logged:
  assumes "keeps_benign \<phi>"
  shows "triple (logged \<phi>) (api_get k) (\<lambda>r w. logged (\<lambda>L. \<phi> L \<and> shows_get k r L) w \<and> knows_get k r w)"
  unfolding api_get_def
proof (rule triple_serve [OF env_stable_logged])
  show "triple (logged \<phi>) (\<lambda>w. case w_objects w k of
       None \<Rightarrow> (Inl (KApi 404), note_event (Missing k) w)
     | Some (x, v) \<Rightarrow> (Inr (x, v), note_event (Read k x) w))
     (\<lambda>r w. logged (\<lambda>L. \<phi> L \<and> shows_get k r L) w \<and> knows_get k r w)"
    by (rule tripleI)
      (auto simp: logged_def seen_def keeps_benignD [OF assms] dest: versions_wfD split: option.split)
next
  fix r w
  assume "logged (\<lambda>L. \<phi> L \<and> shows_get k r L) w \<and> knows_get k r w"
  then show "logged (\<lambda>L. \<phi> L \<and> shows_get k (Inl KTransport) L) w \<and> knows_get k (Inl KTransport) w"
    by (simp add: logged_def)
qed (use assms in \<open>auto simp: logged_def keeps_benignD\<close>)

lemma replace_logged:
  assumes "keeps_benign \<phi>" "\<And>L. \<phi> L \<Longrightarrow> \<phi> (L @ [Wrote k (Some x) (Some y)])"
  shows "triple (\<lambda>w. logged \<phi> w \<and> seen k x v w) (api_replace k y v)
    (\<lambda>r w. logged (\<lambda>L. \<phi> L \<and> (r = Inl (KApi 404) \<longrightarrow> Missing k \<in> set L)) w)"
  unfolding api_replace_def
proof (rule triple_serve [OF env_stable_seen])
  show "triple (\<lambda>w. logged \<phi> w \<and> seen k x v w) (\<lambda>w. case w_objects w k of
       None \<Rightarrow> (Inl (KApi 404), note_event (Missing k) w)
     | Some (_, v') \<Rightarrow> (if v' = v then (Inr (), write_value k (Some y) w)
                       else (Inl (KApi 409), note_event (Stale k) w)))
     (\<lambda>r w. logged (\<lambda>L. \<phi> L \<and> (r = Inl (KApi 404) \<longrightarrow> Missing k \<in> set L)) w)"
  proof (rule tripleI, elim conjE)
    fix w
    assume pre: "logged \<phi> w" "seen k x v w"
    show "logged (\<lambda>L. \<phi> L \<and>
        (fst (case w_objects w k of None \<Rightarrow> (Inl (KApi 404), note_event (Missing k) w)
          | Some (_, v') \<Rightarrow> (if v' = v then (Inr (), write_value k (Some y) w)
                       else (Inl (KApi 409), note_event (Stale k) w))) = Inl (KApi 404) \<longrightarrow> Missing k \<in> set L))
        (snd (case w_objects w k of None \<Rightarrow> (Inl (KApi 404), note_event (Missing k) w)
          | Some (_, v') \<Rightarrow> (if v' = v then (Inr (), write_value k (Some y) w)
                       else (Inl (KApi 409), note_event (Stale k) w))))"
    proof (cases "w_objects w k")
      case None
      with pre show ?thesis by (simp add: logged_def keeps_benignD [OF assms(1)])
    next
      case (Some yv)
      obtain y' v' where yv: "yv = (y', v')" by (cases yv)
      with pre(2) Some have "v' = v \<Longrightarrow> value_at w k = Some x" by (simp add: seen_def value_at_def)
      with pre(1) Some yv assms show ?thesis
        by (simp add: logged_def versions_wf_write keeps_benignD)
    qed
  qed
qed (use assms in \<open>auto simp: logged_def keeps_benignD\<close>)

lemma delete_logged:
  assumes "keeps_benign \<phi>" "\<And>L x. \<phi> L \<Longrightarrow> \<phi> (L @ [Wrote k (Some x) None])"
  shows "triple (logged \<phi>) (api_delete k) (\<lambda>r. logged \<phi>)"
  unfolding api_delete_def
proof (rule triple_serve [OF env_stable_logged])
  show "triple (logged \<phi>) (\<lambda>w. case w_objects w k of
       None \<Rightarrow> (Inl (KApi 404), note_event (Missing k) w)
     | Some _ \<Rightarrow> (Inr (), write_value k None w)) (\<lambda>r. logged \<phi>)"
    by (rule tripleI)
      (use assms in \<open>auto simp: logged_def keeps_benignD versions_wf_write value_at_def split: option.split\<close>)
qed (use assms in \<open>auto simp: logged_def keeps_benignD\<close>)

lemma delete_ignoring_404_logged:
  assumes "keeps_benign \<phi>" "\<And>L x. \<phi> L \<Longrightarrow> \<phi> (L @ [Wrote k (Some x) None])"
  shows "triple (logged \<phi>) (delete_ignoring_404 k) (\<lambda>r. logged \<phi>)"
  unfolding delete_ignoring_404_def
  by (rule triple_bind_reply [OF delete_logged [OF assms]])
    (auto intro!: triple_ok triple_fail split: sum.split kube_error.split)

lemma apply_logged:
  assumes "keeps_benign \<phi>" "\<And>L x. \<phi> L \<Longrightarrow> \<phi> (L @ [Wrote k x (Some (ssa x body))])"
  shows "triple (logged \<phi>) (api_apply ssa k body) (\<lambda>r. logged (\<lambda>L. \<phi> L \<and>
    (\<forall>u. r = Inr u \<longrightarrow> (\<exists>x. Wrote k x (Some (ssa x body)) \<in> set L)) \<and>
    (r = Inl (KApi 404) \<longrightarrow> Missing k \<in> set L)))"
  unfolding api_apply_def
proof (rule triple_serve [OF env_stable_logged])
  show "triple (logged \<phi>) (\<lambda>w. (Inr (), write_value k (Some (ssa (value_at w k) body)) w))
    (\<lambda>r. logged (\<lambda>L. \<phi> L \<and> (\<forall>u. r = Inr u \<longrightarrow> (\<exists>x. Wrote k x (Some (ssa x body)) \<in> set L)) \<and>
      (r = Inl (KApi 404) \<longrightarrow> Missing k \<in> set L)))"
    by (rule tripleI) (use assms in \<open>auto simp: logged_def versions_wf_write\<close>)
qed (use assms in \<open>auto simp: logged_def keeps_benignD\<close>)

end
