(* ===== verification/Pg_Roles.thy ===== *)
theory Pg_Roles
  imports Api_Server
begin

text \<open>
  The role list of a shared Postgres cluster: the builders of \<open>cnpg.rs\<close>, and the
  read-modify-write loops that the provisioner (\<open>reconcile.rs: upsert_role_entry\<close>) and the
  collector (\<open>gc.rs: rmw_managed_roles\<close>) run on \<open>spec.managed.roles\<close>, which every claim of
  the cluster shares. The conversions between a typed object and its JSON are the identity.
\<close>

subsection \<open>Builders\<close>

definition jstr_map :: "(string \<times> string) list \<Rightarrow> json" where
  "jstr_map kvs = JObject (map (\<lambda>(k, v). (k, JString v)) kvs)"

definition CNPG_OPERAND_IMAGE :: string where
  "CNPG_OPERAND_IMAGE = ''ghcr.io/cloudnative-pg/postgresql:18.3-system-trixie''"

record backend_resources =
  br_cpu :: string
  br_memory :: string
  br_ephemeral_storage :: string
  br_shared_buffers :: string

definition cnpg_t1 :: backend_resources where
  "cnpg_t1 = \<lparr>br_cpu = ''100m'', br_memory = ''256Mi'', br_ephemeral_storage = ''1Gi'',
     br_shared_buffers = ''32MB''\<rparr>"

text \<open>The number of instances is kept as its text.\<close>

definition cluster_object :: "string \<Rightarrow> string \<Rightarrow> string \<Rightarrow> string \<Rightarrow> backend_resources \<Rightarrow> json" where
  "cluster_object name ns instances storage res =
     (let amounts = jstr_map [(''cpu'', br_cpu res), (''ephemeral-storage'', br_ephemeral_storage res),
                              (''memory'', br_memory res)]
      in JObject [
        (''apiVersion'', JString ''postgresql.cnpg.io/v1''),
        (''kind'', JString ''Cluster''),
        (''metadata'', JObject [
           (''labels'', jstr_map [(MANAGED_BY_KEY, MANAGED_BY_VALUE)]),
           (''name'', JString name), (''namespace'', JString ns)]),
        (''spec'', JObject [
           (''imageName'', JString CNPG_OPERAND_IMAGE),
           (''instances'', JNumber instances),
           (''postgresql'', JObject [
              (''parameters'', jstr_map [(''shared_buffers'', br_shared_buffers res)])]),
           (''resources'', JObject [(''limits'', amounts), (''requests'', amounts)]),
           (''storage'', jstr_map [(''size'', storage)])])])"

definition pg_extension_json :: "pg_extension \<Rightarrow> json" where
  "pg_extension_json e = jstr_map
     ([(''name'', pge_name e)] @
      (case pge_schema e of None \<Rightarrow> [] | Some s \<Rightarrow> [(''schema'', s)]) @
      (case pge_version e of None \<Rightarrow> [] | Some v \<Rightarrow> [(''version'', v)]))"

definition database_object ::
  "string \<Rightarrow> string \<Rightarrow> string \<Rightarrow> string \<Rightarrow> string \<Rightarrow> string \<Rightarrow> pg_extension list \<Rightarrow> json" where
  "database_object name ns cluster db owner ensure extensions =
     (let base = [(''cluster'', jstr_map [(''name'', cluster)]), (''ensure'', JString ensure),
                  (''name'', JString db), (''owner'', JString owner)];
          spec = (if extensions = [] then base
                  else bt_insert ''extensions'' (JArray (map pg_extension_json extensions)) base)
      in JObject [
        (''apiVersion'', JString ''postgresql.cnpg.io/v1''),
        (''kind'', JString ''Database''),
        (''metadata'', jstr_map [(''name'', name), (''namespace'', ns)]),
        (''spec'', JObject spec)])"

definition basic_auth_secret :: "string \<Rightarrow> string \<Rightarrow> string \<Rightarrow> string \<Rightarrow> json" where
  "basic_auth_secret name ns role password = JObject [
     (''apiVersion'', JString ''v1''),
     (''kind'', JString ''Secret''),
     (''metadata'', JObject [
        (''labels'', jstr_map [(MANAGED_BY_KEY, MANAGED_BY_VALUE), (''cnpg.io/reload'', ''true'')]),
        (''name'', JString name), (''namespace'', JString ns)]),
     (''stringData'', jstr_map [(''password'', password), (''username'', role)]),
     (''type'', JString ''kubernetes.io/basic-auth'')]"

definition managed_role_entry :: "string \<Rightarrow> string \<Rightarrow> json" where
  "managed_role_entry role secret_name = JObject [
     (''ensure'', JString ''present''), (''login'', JBool True), (''name'', JString role),
     (''passwordSecret'', jstr_map [(''name'', secret_name)]), (''superuser'', JBool False)]"

definition PLATFORM_ROLE :: string where "PLATFORM_ROLE = ''apprafter_admin''"

definition platform_role_entry :: "string \<Rightarrow> json" where
  "platform_role_entry secret_name = JObject [
     (''createdb'', JBool False), (''createrole'', JBool True), (''ensure'', JString ''present''),
     (''login'', JBool True), (''name'', JString PLATFORM_ROLE),
     (''passwordSecret'', jstr_map [(''name'', secret_name)]), (''superuser'', JBool False)]"

definition managed_role_entry_absent :: "string \<Rightarrow> json" where
  "managed_role_entry_absent role = JObject [(''ensure'', JString ''absent''), (''name'', JString role)]"

definition role_name :: "json \<Rightarrow> string option" where
  "role_name r = Option.bind (json_get r ''name'') as_str"

definition merge_role :: "json list \<Rightarrow> json \<Rightarrow> json list" where
  "merge_role existing entry = filter (\<lambda>r. role_name r \<noteq> role_name entry) existing @ [entry]"

definition remove_role :: "json list \<Rightarrow> string \<Rightarrow> json list" where
  "remove_role existing role = filter (\<lambda>r. role_name r \<noteq> Some role) existing"

definition role_absent_upsert :: "json list \<Rightarrow> string \<Rightarrow> json list" where
  "role_absent_upsert existing role = merge_role existing (managed_role_entry_absent role)"

subsection \<open>Read-modify-write of the role list\<close>

definition roles_of :: "json \<Rightarrow> json list" where
  "roles_of c = unwrap_or (Option.bind (json_pointer c [''spec'', ''managed'', ''roles'']) as_array) []"

definition splice_roles :: "string \<Rightarrow> json \<Rightarrow> json list \<Rightarrow> (reconcile_error, json) result" where
  "splice_roles cluster c roles =
     (case Option.bind (json_get c ''spec'') as_object of
        None \<Rightarrow> Inl (Provisioning (''Cluster '' @ cluster @ '' has no spec object''))
      | Some spec \<Rightarrow>
          (case as_object (unwrap_or (map_of spec ''managed'') (JObject [])) of
             None \<Rightarrow> Inl (Provisioning (''Cluster '' @ cluster @ '' spec.managed not an object''))
           | Some managed \<Rightarrow>
               Inr (JObject (bt_insert ''spec''
                 (JObject (bt_insert ''managed'' (JObject (bt_insert ''roles'' (JArray roles) managed)) spec))
                 (unwrap_or (as_object c) [])))))"

definition ROLE_RMW_RETRIES :: nat where "ROLE_RMW_RETRIES = 5"

definition GC_ROLE_RMW_RETRIES :: nat where "GC_ROLE_RMW_RETRIES = ROLE_RMW_RETRIES"

definition cluster_key :: "string \<Rightarrow> string \<Rightarrow> objkey" where
  "cluster_key ns cluster = (KCluster, ns, cluster)"

text \<open>The collector's loop: a missing cluster is an answer (\<open>False\<close>), a conflict a retry.\<close>

fun rmw_loop :: "nat \<Rightarrow> string \<Rightarrow> string \<Rightarrow> (json list \<Rightarrow> json list) \<Rightarrow> bool act" where
  "rmw_loop 0 ns cluster transform = fail (Provisioning (''managed.roles GC RMW for '' @ cluster @
     '' exhausted 5 retries on 409 conflict''))"
| "rmw_loop (Suc n) ns cluster transform = act_bind (reply (api_get (cluster_key ns cluster))) (\<lambda>r. case r of
       Inl (KApi c) \<Rightarrow> (if c = 404 then ok False else fail (Kube (KApi c)))
     | Inl e \<Rightarrow> fail (Kube e)
     | Inr (OJson c, v) \<Rightarrow>
         (case splice_roles cluster c (transform (roles_of c)) of
            Inl e \<Rightarrow> fail e
          | Inr c' \<Rightarrow> act_bind (reply (api_replace (cluster_key ns cluster) (OJson c') v)) (\<lambda>r. case r of
                Inr _ \<Rightarrow> ok True
              | Inl (KApi code) \<Rightarrow>
                  (if code = 409 then rmw_loop n ns cluster transform
                   else if code = 404 then ok False
                   else fail (Kube (KApi code)))
              | Inl e \<Rightarrow> fail (Kube e)))
     | Inr _ \<Rightarrow> fail Serde)"

definition rmw_managed_roles :: "retained_claim \<Rightarrow> (json list \<Rightarrow> json list) \<Rightarrow> bool act" where
  "rmw_managed_roles rc = rmw_loop GC_ROLE_RMW_RETRIES
     (unwrap_or (rts_cnpg_namespace (rt_spec rc)) []) (unwrap_or (rts_cnpg_cluster (rt_spec rc)) [])"

text \<open>The provisioner's loop: a missing cluster is an error.\<close>

fun upsert_loop :: "nat \<Rightarrow> string \<Rightarrow> string \<Rightarrow> json \<Rightarrow> unit act" where
  "upsert_loop 0 ns cluster entry = fail (Provisioning (''managed.roles RMW for '' @ cluster @
     '' exhausted 5 retries on 409 conflict''))"
| "upsert_loop (Suc n) ns cluster entry = act_bind (quest (api_get (cluster_key ns cluster))) (\<lambda>(x, v). case x of
       OJson c \<Rightarrow>
         (case splice_roles cluster c (merge_role (roles_of c) entry) of
            Inl e \<Rightarrow> fail e
          | Inr c' \<Rightarrow> act_bind (reply (api_replace (cluster_key ns cluster) (OJson c') v)) (\<lambda>r. case r of
                Inr _ \<Rightarrow> ok ()
              | Inl (KApi code) \<Rightarrow>
                  (if code = 409 then upsert_loop n ns cluster entry else fail (Kube (KApi code)))
              | Inl e \<Rightarrow> fail (Kube e)))
     | _ \<Rightarrow> fail Serde)"

definition upsert_role_entry :: "string \<Rightarrow> string \<Rightarrow> json \<Rightarrow> unit act" where
  "upsert_role_entry = upsert_loop ROLE_RMW_RETRIES"

definition upsert_managed_role :: "string \<Rightarrow> string \<Rightarrow> string \<Rightarrow> string \<Rightarrow> unit act" where
  "upsert_managed_role ns cluster role pw_secret_name =
     upsert_role_entry ns cluster (managed_role_entry role pw_secret_name)"

definition upsert_platform_role :: "string \<Rightarrow> string \<Rightarrow> string \<Rightarrow> unit act" where
  "upsert_platform_role ns cluster pw_secret_name =
     upsert_role_entry ns cluster (platform_role_entry pw_secret_name)"

subsection \<open>What a write of the role list keeps\<close>

definition same_but_roles :: "json \<Rightarrow> json \<Rightarrow> bool" where
  "same_but_roles a b \<longleftrightarrow>
     (\<forall>k. k \<noteq> ''spec'' \<longrightarrow> json_pointer b [k] = json_pointer a [k]) \<and>
     (\<forall>k. k \<noteq> ''managed'' \<longrightarrow> json_pointer b [''spec'', k] = json_pointer a [''spec'', k]) \<and>
     (\<forall>k. k \<noteq> ''roles'' \<longrightarrow> json_pointer b [''spec'', ''managed'', k] = json_pointer a [''spec'', ''managed'', k])"

definition foreign_roles :: "string \<Rightarrow> json \<Rightarrow> json list" where
  "foreign_roles role c = filter (\<lambda>r. role_name r \<noteq> Some role) (roles_of c)"

definition own_role :: "string \<Rightarrow> json \<Rightarrow> json list" where
  "own_role role c = filter (\<lambda>r. role_name r = Some role) (roles_of c)"

text \<open>A write of a cluster that changes nothing but the entries of one role.\<close>

definition touches_only :: "string \<Rightarrow> kobj option \<Rightarrow> kobj option \<Rightarrow> bool" where
  "touches_only role x y \<longleftrightarrow> (\<exists>a b. x = Some (OJson a) \<and> y = Some (OJson b) \<and>
     same_but_roles a b \<and> foreign_roles role b = foreign_roles role a)"

lemma splice_roles_Inr:
  assumes "splice_roles cluster c rs = Inr c'"
  shows "roles_of c' = rs" "same_but_roles c c'"
proof -
  from assms obtain m spec managed where
    c: "c = JObject m" and spec: "map_of m ''spec'' = Some (JObject spec)" and
    managed: "as_object (unwrap_or (map_of spec ''managed'') (JObject [])) = Some managed" and
    c': "c' = JObject (bt_insert ''spec'' (JObject (bt_insert ''managed''
          (JObject (bt_insert ''roles'' (JArray rs) managed)) spec)) m)"
    by (auto simp: splice_roles_def json_get_def as_object_def bind_eq_Some_conv
        split: option.splits json.splits)
  show "roles_of c' = rs" by (simp add: c' roles_of_def bt_get_insert)
  have "map_of spec ''managed'' = Some (JObject managed) \<or> map_of spec ''managed'' = None \<and> managed = []"
    using managed by (auto simp: as_object_def unwrap_or_def split: option.splits json.splits)
  then show "same_but_roles c c'"
    using spec by (auto simp: c c' same_but_roles_def bt_get_insert split: option.split)
qed

lemma role_name_absent [simp]: "role_name (managed_role_entry_absent role) = Some role"
  by (simp add: role_name_def managed_role_entry_absent_def)

lemma role_name_present [simp]: "role_name (managed_role_entry role s) = Some role"
  by (simp add: role_name_def managed_role_entry_def)

lemma role_name_platform [simp]: "role_name (platform_role_entry s) = Some PLATFORM_ROLE"
  by (simp add: role_name_def platform_role_entry_def)

text \<open>The contract of a transform of the role list, and what the loop does with one.\<close>

locale role_transform =
  fixes role :: string and f :: "json list \<Rightarrow> json list"
  assumes keeps_foreign:
    "filter (\<lambda>r. role_name r \<noteq> Some role) (f rs) = filter (\<lambda>r. role_name r \<noteq> Some role) rs"
begin

lemma splice_touches_only:
  "splice_roles cluster c (f (roles_of c)) = Inr c' \<Longrightarrow> touches_only role (Some (OJson c)) (Some (OJson c'))"
  by (auto simp: touches_only_def foreign_roles_def splice_roles_Inr keeps_foreign)

lemma rmw_loop_logged:
  assumes benign: "keeps_benign \<phi>"
    and wr: "\<And>L a b. \<phi> L \<Longrightarrow> touches_only role (Some (OJson a)) (Some (OJson b)) \<Longrightarrow>
      roles_of b = f (roles_of a) \<Longrightarrow>
      \<phi> (L @ [Wrote (cluster_key ns cluster) (Some (OJson a)) (Some (OJson b))])"
  shows "triple (logged \<phi>) (rmw_loop n ns cluster f)
    (\<lambda>r. logged (\<lambda>L. \<phi> L \<and> (r = Inr False \<longrightarrow> Missing (cluster_key ns cluster) \<in> set L)))"
proof (induction n)
  case 0
  show ?case by (auto intro!: triple_fail simp: logged_def)
next
  case (Suc n)
  let ?k = "cluster_key ns cluster"
  let ?Q = "\<lambda>(r::(reconcile_error, bool) result). logged (\<lambda>L. \<phi> L \<and> (r = Inr False \<longrightarrow> Missing ?k \<in> set L))"
  have retry: "triple (logged \<phi>) (rmw_loop n ns cluster f) ?Q" by (rule Suc.IH)
  have put: "triple (\<lambda>w. logged \<phi> w \<and> seen ?k (OJson c) v w)
      (act_bind (reply (api_replace ?k (OJson c') v)) (\<lambda>r. case r of
                Inr _ \<Rightarrow> ok True
              | Inl (KApi code) \<Rightarrow>
                  (if code = 409 then rmw_loop n ns cluster f
                   else if code = 404 then ok False
                   else fail (Kube (KApi code)))
              | Inl e \<Rightarrow> fail (Kube e))) ?Q"
    if splice: "splice_roles cluster c (f (roles_of c)) = Inr c'" for c c' v
    by (rule triple_bind_reply [OF replace_logged [OF benign]])
      (auto intro!: triple_ok triple_fail triple_weaken [OF retry] wr splice_touches_only [OF splice]
        splice_roles_Inr [OF splice] elim: logged_mono split: sum.split kube_error.split)
  show ?case
    unfolding rmw_loop.simps
    by (rule triple_bind_reply [OF get_logged [OF benign]])
      (auto intro!: triple_ok triple_fail triple_weaken [OF put] elim: logged_mono
        split: sum.split kube_error.split kobj.split)
qed

end

text \<open>An upsert of one entry is such a transform, and the provisioner's loop runs it.\<close>

locale role_upsert =
  fixes role :: string and entry :: json
  assumes entry_name: "role_name entry = Some role"

sublocale role_upsert \<subseteq> role_transform role "\<lambda>rs. merge_role rs entry"
  by unfold_locales (simp add: merge_role_def entry_name)

context role_upsert
begin

lemma upsert_loop_logged:
  assumes benign: "keeps_benign \<phi>"
    and wr: "\<And>L a b. \<phi> L \<Longrightarrow> touches_only role (Some (OJson a)) (Some (OJson b)) \<Longrightarrow>
      \<phi> (L @ [Wrote (cluster_key ns cluster) (Some (OJson a)) (Some (OJson b))])"
  shows "triple (logged \<phi>) (upsert_loop n ns cluster entry) (\<lambda>r. logged \<phi>)"
proof (induction n)
  case 0
  show ?case by (auto intro!: triple_fail)
next
  case (Suc n)
  let ?k = "cluster_key ns cluster"
  have put: "triple (\<lambda>w. logged \<phi> w \<and> seen ?k (OJson c) v w)
      (act_bind (reply (api_replace ?k (OJson c') v)) (\<lambda>r. case r of
                Inr u \<Rightarrow> ok u
              | Inl (KApi code) \<Rightarrow>
                  (if code = 409 then upsert_loop n ns cluster entry else fail (Kube (KApi code)))
              | Inl e \<Rightarrow> fail (Kube e))) (\<lambda>r. logged \<phi>)"
    if splice: "splice_roles cluster c (merge_role (roles_of c) entry) = Inr c'" for c c' v
    by (rule triple_bind_reply [OF replace_logged [OF benign]])
      (auto intro!: triple_ok triple_fail triple_weaken [OF Suc.IH] wr splice_touches_only [OF splice]
        elim: logged_mono split: sum.split kube_error.split)
  show ?case
    unfolding upsert_loop.simps
    by (rule triple_bind_quest [OF get_logged [OF benign]])
      (auto intro!: triple_fail triple_weaken [OF put] elim: logged_mono split: sum.split kobj.split)
qed

end

interpretation absent_upsert: role_upsert role "managed_role_entry_absent role" for role
  by unfold_locales simp

interpretation present_upsert: role_upsert role "managed_role_entry role s" for role s
  by unfold_locales simp

interpretation platform_upsert: role_upsert PLATFORM_ROLE "platform_role_entry s" for s
  by unfold_locales simp

interpretation removal: role_transform role "\<lambda>rs. remove_role rs role" for role
  by unfold_locales (simp add: remove_role_def)

end
