(* ===== verification/Keyspace.thy ===== *)
theory Keyspace
  imports Dragonfly
begin

text \<open>
  Who may use and flush a numbered database: the provisioning of claims
  (\<open>resourceclaim-provisioner/src/reconcile.rs\<close>, \<open>provision_dragonfly\<close>), of shared caches
  (\<open>shared_database.rs\<close>, \<open>reconcile_redis\<close> and \<open>drop_backing\<close>), the snapshot of a deleted
  claim and its collection (\<open>gc.rs\<close>) as steps on the stored objects.

  A pass may be abandoned at any point, and what it had sent may take effect later: a status
  write, also the last one that makes the object ready, and a \<open>FLUSHDB\<close>. The passes of a claim
  work on any cached copy of it and on any lists. The three lists of a check are separate
  reads, in a provisioning and in a collection alike, and other owners step in between.

  What is assumed of the environment: the status writes of one object take effect in the
  order they were sent; a pass of a shared cache that goes on with a number it already has
  starts when no earlier write of it is outstanding; an object is not removed while the write
  that makes it ready is outstanding. Left out: a shared cache that turns ready without a
  check, which it does once its condition carries another reason than the one that marks an
  unfinished number.
\<close>

subsection \<open>The allocation of a claim\<close>

definition existing_alloc :: "string \<Rightarrow> resource_claim \<Rightarrow> u16 option" where
  "existing_alloc inst claim = Option.bind (rc_status claim) (\<lambda>s.
     if rst_instance s = Some inst then rst_dbnum s else None)"

definition snapshot_name :: "resource_claim \<Rightarrow> string" where
  "snapshot_name claim = k8s_name (rc_namespace claim) (rc_name claim)"

text \<open>The number, whether the flush is skipped, and whether it is a reattach.\<close>

definition allocation_of ::
  "bool \<Rightarrow> string \<Rightarrow> u16 \<Rightarrow> resource_claim \<Rightarrow> resource_claim list \<Rightarrow> retained_claim list \<Rightarrow> shared_database list
    \<Rightarrow> (u16 \<times> bool \<times> bool) option" where
  "allocation_of persistent inst dbs claim live retained shared = (case existing_alloc inst claim of
       Some n \<Rightarrow>
         (let own_snapshot = (case List.find (\<lambda>r. rt_name r = snapshot_name claim) retained of
              Some r \<Rightarrow> snapshot_holds inst n r | None \<Rightarrow> False)
          in Some (n, persistent \<and> own_snapshot, own_snapshot))
     | None \<Rightarrow>
         (let existing_snapshot = Option.bind
                (List.find (\<lambda>r. rt_name r = snapshot_name claim \<and> rts_instance (rt_spec r) = Some inst) retained)
                (\<lambda>r. Option.bind (rts_instance (rt_spec r)) (\<lambda>i. map_option (\<lambda>n. (i, n)) (rts_dbnum (rt_spec r))))
          in case resolve_allocation existing_snapshot persistent (used_dbnums live retained shared inst) dbs of
               Reattach ri rn skip_flush \<Rightarrow> Some (rn, skip_flush, True)
             | Fresh n \<Rightarrow> Some (n, False, False)
             | Insufficient \<Rightarrow> None))"

definition dragonfly_snapshot :: "string \<Rightarrow> resource_claim \<Rightarrow> retained_claim" where
  "dragonfly_snapshot retain_until claim =
     (let (inst, dbnum) = unwrap_or (Option.bind (rc_status claim) (\<lambda>s.
            Option.bind (rst_instance s) (\<lambda>i. map_option (\<lambda>n. (i, n)) (rst_dbnum s)))) ([], 0)
      in \<lparr>rt_name = snapshot_name claim, rt_spec =
          \<lparr>rts_claim_ref = \<lparr>clr_name = rc_name claim, clr_namespace = rc_namespace claim\<rparr>,
           rts_provider = unwrap_or (Option.bind (rc_status claim) rst_provider) [], rts_backend = ''dragonfly'',
           rts_cnpg_cluster = None, rts_cnpg_namespace = None, rts_role = None, rts_database = None,
           rts_database_object_name = None, rts_password_secret_name = None,
           rts_instance = Some inst, rts_dbnum = Some dbnum,
           rts_acl_user = Some (acl_user (rc_namespace claim) (rc_name claim)),
           rts_connection_secret_ref = Some (rc_name claim @ ''-conn''),
           rts_connection_secret_namespace = Some (rc_namespace claim),
           rts_volume_claim_ref = None, rts_volume_claim_namespace = None, rts_nats_namespace = None,
           rts_nats_app = None, rts_nats_declared_streams = None, rts_nats_declared_consumers = None,
           rts_retain_until = retain_until\<rparr>\<rparr>)"

text \<open>\<open>gc.rs\<close>: a live claim that still needs its persistent snapshot.\<close>

definition reattach_in_progress :: "retained_claim \<Rightarrow> resource_claim \<Rightarrow> bool" where
  "reattach_in_progress r claim =
     (if rts_backend (rt_spec r) \<noteq> ''dragonfly'' then False
      else case (rts_instance (rt_spec r), rts_dbnum (rt_spec r)) of
        (Some inst, Some dbnum) \<Rightarrow>
          (if class_of_instance inst \<noteq> Some Persistent then False
           else if Option.bind (rc_status claim) rst_ready = Some True then False
           else case Option.bind (rc_status claim) (\<lambda>s. Option.bind (rst_instance s) (\<lambda>i. map_option (\<lambda>n. (i, n)) (rst_dbnum s))) of
                  None \<Rightarrow> True
                | Some (i, n) \<Rightarrow> i = inst \<and> n = dbnum)
      | _ \<Rightarrow> False)"

definition claim_is_live :: "resource_claim \<Rightarrow> bool" where
  "claim_is_live claim \<longleftrightarrow> rc_deletion_timestamp claim = None"

subsection \<open>The system\<close>

type_synonym slot = "string \<times> u16"

datatype kphase =
    KIdle
  | KSent slot bool
  | KHeld slot bool
  | KLive slot bool
  | KSnap slot bool
  | KClear slot bool
  | KPinned slot

text \<open>
  A collection: the snapshot was judged, the three lists were read, the flush is behind it.
  The mark is false once a snapshot of that name has been deleted since the collection began.
\<close>

datatype gcphase =
    GIdle
  | GJudged slot bool
  | GLive slot bool
  | GSnaps slot bool
  | GClear slot bool
  | GDone

record keyspace =
  ks_live :: "resource_claim list"
  ks_retained :: "retained_claim list"
  ks_shared :: "shared_database list"
  ks_phase :: "dbnum_owner \<Rightarrow> kphase"
  ks_inflight :: "(dbnum_owner \<times> slot option) list"
  ks_last :: "dbnum_owner \<Rightarrow> slot option"
  ks_late :: "slot set"
  ks_gc :: "dbnum_owner \<Rightarrow> gcphase"
  ks_data :: "dbnum_owner \<Rightarrow> slot option"

text \<open>
  \<open>ks_inflight\<close>: checkpoints and releases under way; \<open>ks_last\<close>: the last write of an abandoned
  pass, \<open>ks_late\<close>: the flushes of abandoned passes, which may still take effect. \<open>ks_data\<close> is
  what the system promises to keep: the database of a ready owner, and on a persistent
  instance that of a claim with a snapshot of it.
\<close>

definition holds :: "keyspace \<Rightarrow> dbnum_owner \<Rightarrow> slot \<Rightarrow> bool" where
  "holds s ow x \<longleftrightarrow> (\<exists>c \<in> set (ks_live s). claim_owner c = ow \<and> claim_holds (fst x) (snd x) c) \<or>
     (\<exists>d \<in> set (ks_shared s). shared_owner d = ow \<and> shared_holds (fst x) (snd x) d)"

definition snap :: "keyspace \<Rightarrow> dbnum_owner \<Rightarrow> slot \<Rightarrow> bool" where
  "snap s ow x \<longleftrightarrow> (\<exists>r \<in> set (ks_retained s). snapshot_owner r = ow \<and> snapshot_holds (fst x) (snd x) r)"

definition owner_ready :: "keyspace \<Rightarrow> dbnum_owner \<Rightarrow> bool" where
  "owner_ready s ow \<longleftrightarrow> (\<exists>c \<in> set (ks_live s). claim_owner c = ow \<and> Option.bind (rc_status c) rst_ready = Some True) \<or>
     (\<exists>d \<in> set (ks_shared s). shared_owner d = ow \<and> Option.bind (sd_status d) sdst_ready = Some True)"

definition default_shared_status :: shared_database_status where
  "default_shared_status = \<lparr>sdst_ready = None, sdst_ref_count = None, sdst_database = None, sdst_instance = None,
     sdst_dbnum = None, sdst_conditions = None\<rparr>"

text \<open>
  The provisioner's status write: allocation and \<open>ready\<close>. It is an apply, so what it leaves
  out is removed; the other writers' fields stay. A write that is not the last one of its pass
  leaves \<open>ready\<close> out or sets it to false, which is not told apart here.
\<close>

definition put_claim :: "slot option \<Rightarrow> bool option \<Rightarrow> resource_claim \<Rightarrow> resource_claim" where
  "put_claim a rdy c = c\<lparr>rc_status := Some ((unwrap_or (rc_status c) default_claim_status)
     \<lparr>rst_instance := map_option fst a, rst_dbnum := map_option snd a, rst_ready := rdy\<rparr>)\<rparr>"

definition put_shared :: "slot option \<Rightarrow> bool option \<Rightarrow> shared_database \<Rightarrow> shared_database" where
  "put_shared a rdy d = d\<lparr>sd_status := Some ((unwrap_or (sd_status d) default_shared_status)
     \<lparr>sdst_instance := map_option fst a, sdst_dbnum := map_option (\<lambda>x. uint (snd x)) a, sdst_ready := rdy\<rparr>)\<rparr>"

definition put :: "dbnum_owner \<Rightarrow> slot option \<Rightarrow> bool option \<Rightarrow> keyspace \<Rightarrow> keyspace" where
  "put ow a rdy s = s\<lparr>ks_live := map (\<lambda>c. if claim_owner c = ow then put_claim a rdy c else c) (ks_live s),
     ks_shared := map (\<lambda>d. if shared_owner d = ow then put_shared a rdy d else d) (ks_shared s)\<rparr>"

definition set_phase :: "dbnum_owner \<Rightarrow> kphase \<Rightarrow> keyspace \<Rightarrow> keyspace" where
  "set_phase ow p s = s\<lparr>ks_phase := (ks_phase s)(ow := p)\<rparr>"

definition send :: "dbnum_owner \<Rightarrow> slot option \<Rightarrow> keyspace \<Rightarrow> keyspace" where
  "send ow a s = s\<lparr>ks_inflight := ks_inflight s @ [(ow, a)]\<rparr>"

definition flushdb :: "slot \<Rightarrow> keyspace \<Rightarrow> keyspace" where
  "flushdb x s = s\<lparr>ks_data := (\<lambda>ow. if ks_data s ow = Some x then None else ks_data s ow)\<rparr>"

definition set_data :: "dbnum_owner \<Rightarrow> slot option \<Rightarrow> keyspace \<Rightarrow> keyspace" where
  "set_data ow a s = s\<lparr>ks_data := (ks_data s)(ow := a)\<rparr>"

fun spoil :: "gcphase \<Rightarrow> gcphase" where
  "spoil (GJudged x _) = GJudged x False"
| "spoil (GLive x _) = GLive x False"
| "spoil (GSnaps x _) = GSnaps x False"
| "spoil (GClear x _) = GClear x False"
| "spoil g = g"

fun owner_snapshot_name :: "dbnum_owner \<Rightarrow> string" where
  "owner_snapshot_name (OwnerClaim ns n) = k8s_name ns n"
| "owner_snapshot_name (OwnerShared ns n) = []"

fun is_claim :: "dbnum_owner \<Rightarrow> bool" where
  "is_claim (OwnerClaim _ _) = True"
| "is_claim (OwnerShared _ _) = False"

definition delete_snapshot :: "string \<Rightarrow> keyspace \<Rightarrow> keyspace" where
  "delete_snapshot n s = s\<lparr>ks_retained := filter (\<lambda>r. rt_name r \<noteq> n) (ks_retained s),
     ks_gc := (\<lambda>ow. if owner_snapshot_name ow = n then spoil (ks_gc s ow) else ks_gc s ow)\<rparr>"

definition set_gc :: "dbnum_owner \<Rightarrow> gcphase \<Rightarrow> keyspace \<Rightarrow> keyspace" where
  "set_gc ow g s = s\<lparr>ks_gc := (ks_gc s)(ow := g)\<rparr>"

text \<open>The promise to an owner ends when neither its status nor a persistent snapshot carries it.\<close>

definition kept :: "keyspace \<Rightarrow> dbnum_owner \<Rightarrow> slot \<Rightarrow> bool" where
  "kept s ow x \<longleftrightarrow> owner_ready s ow \<and> holds s ow x \<or> class_of_instance (fst x) = Some Persistent \<and> snap s ow x"

definition settle :: "dbnum_owner \<Rightarrow> keyspace \<Rightarrow> keyspace" where
  "settle ow s = (case ks_data s ow of None \<Rightarrow> s | Some x \<Rightarrow> if kept s ow x then s else set_data ow None s)"

definition no_inflight :: "keyspace \<Rightarrow> dbnum_owner \<Rightarrow> bool" where
  "no_inflight s ow \<longleftrightarrow> ow \<notin> fst ` set (ks_inflight s) \<and> ks_last s ow = None"

definition retain :: "resource_claim \<Rightarrow> string \<Rightarrow> keyspace \<Rightarrow> keyspace" where
  "retain c t s = (if \<exists>r \<in> set (ks_retained s). rt_name r = snapshot_name c then s
     else s\<lparr>ks_retained := ks_retained s @ [dragonfly_snapshot t c]\<rparr>)"

text \<open>A pass ends without an answer: its last write or its flush may still be on the way.\<close>

definition abandoned :: "dbnum_owner \<Rightarrow> keyspace \<Rightarrow> keyspace" where
  "abandoned ow s = (case ks_phase s ow of
       KClear x False \<Rightarrow> s\<lparr>ks_late := insert x (ks_late s)\<rparr>
     | KPinned x \<Rightarrow> s\<lparr>ks_last := (ks_last s)(ow := Some x)\<rparr>
     | _ \<Rightarrow> s)"

definition gc_given_up :: "dbnum_owner \<Rightarrow> keyspace \<Rightarrow> keyspace" where
  "gc_given_up ow s = (case ks_gc s ow of GClear x _ \<Rightarrow> s\<lparr>ks_late := insert x (ks_late s)\<rparr> | _ \<Rightarrow> s)"

text \<open>
  The steps, labelled with the owner that takes them or whose object changes. \<open>coords\<close>: the
  claims that occur. \<open>rewrite\<close> is any other status write of a pass, which leaves the object not
  ready, with a number or without; \<open>cancel\<close> is a deletion of the snapshot, which may come late.
  The deletion of a shared cache (\<open>drop_backing\<close>) is \<open>resume_shared\<close>, the three reads,
  \<open>flush_and_pin\<close> and \<open>remove_shared\<close>.
\<close>

inductive kstep :: "dbnum_owner set \<Rightarrow> dbnum_owner \<Rightarrow> keyspace \<Rightarrow> keyspace \<Rightarrow> bool" for coords where
  allocate_claim: "claim_owner c = ow \<Longrightarrow> ks_phase s ow = KIdle \<Longrightarrow> Option.bind (rc_status c) rst_ready \<noteq> Some True \<Longrightarrow>
    allocation_of persistent inst dbs c live0 retained0 shared0 = Some (n, skip_flush, reattached) \<Longrightarrow>
    kstep coords ow s (send ow (Some (inst, n)) (set_phase ow (KSent (inst, n) skip_flush) s))"
| allocate_shared: "shared_owner d = ow \<Longrightarrow> ks_phase s ow = KIdle \<Longrightarrow> allocate_dbnum used dbs = Some n \<Longrightarrow>
    kstep coords ow s (send ow (Some (inst, n)) (set_phase ow (KSent (inst, n) False) s))"
| resume_shared: "ks_phase s ow = KIdle \<Longrightarrow> \<not> is_claim ow \<Longrightarrow> holds s ow x \<Longrightarrow> no_inflight s ow \<Longrightarrow>
    kstep coords ow s (set_phase ow (KHeld x False) s)"
| commit: "ks_inflight s = xs @ (ow, a) # ys \<Longrightarrow> ow \<notin> fst ` set xs \<Longrightarrow> ks_last s ow = None \<Longrightarrow>
    kstep coords ow s (settle ow (put ow a None (s\<lparr>ks_inflight := xs @ ys\<rparr>)))"
| lose: "ks_inflight s = xs @ (ow, a) # ys \<Longrightarrow> kstep coords ow s (s\<lparr>ks_inflight := xs @ ys\<rparr>)"
| rewrite: "ks_phase s ow = KIdle \<Longrightarrow> kstep coords ow s (send ow a s)"
| answered: "ks_phase s ow = KSent x k \<Longrightarrow> no_inflight s ow \<Longrightarrow> holds s ow x \<Longrightarrow>
    kstep coords ow s (set_phase ow (KHeld x k) s)"
| read_live: "ks_phase s ow = KHeld x k \<Longrightarrow> other_claims (ks_live s) (fst x) (snd x) ow = [] \<Longrightarrow>
    kstep coords ow s (set_phase ow (KLive x k) s)"
| read_snapshots: "ks_phase s ow = KLive x k \<Longrightarrow> other_snapshots (ks_retained s) (fst x) (snd x) ow = [] \<Longrightarrow>
    kstep coords ow s (set_phase ow (KSnap x k) s)"
| read_shared: "ks_phase s ow = KSnap x k \<Longrightarrow> other_shared (ks_shared s) (fst x) (snd x) ow = [] \<Longrightarrow>
    kstep coords ow s (set_phase ow (KClear x k) s)"
| give_way: "ks_phase s ow \<in> {KHeld x False, KLive x False, KSnap x False} \<Longrightarrow> (reattached \<longrightarrow> ow \<in> coords) \<Longrightarrow>
    kstep coords ow s (send ow None (set_phase ow KIdle
      (if reattached then settle ow (delete_snapshot (owner_snapshot_name ow) s) else s)))"
| refuse: "ks_phase s ow \<in> {KHeld x True, KLive x True, KSnap x True} \<Longrightarrow>
    kstep coords ow s (send ow (Some x) (set_phase ow KIdle s))"
| flush_and_pin: "ks_phase s ow = KClear x k \<Longrightarrow>
    kstep coords ow s (set_phase ow (KPinned x) (if k then s else flushdb x s))"
| finish: "ks_phase s ow = KPinned x \<Longrightarrow>
    kstep coords ow s (set_data ow (Some x) (set_phase ow KIdle (put ow (Some x) (Some True) s)))"
| abandon: "kstep coords ow s (set_phase ow KIdle (abandoned ow s))"
| late_finish: "ks_last s ow = Some x \<Longrightarrow>
    kstep coords ow s (set_data ow (Some x) (put ow (Some x) (Some True) (s\<lparr>ks_last := (ks_last s)(ow := None)\<rparr>)))"
| lose_last: "kstep coords ow s (s\<lparr>ks_last := (ks_last s)(ow := None)\<rparr>)"
| cancel: "ow \<in> coords \<Longrightarrow> kstep coords ow s (settle ow (delete_snapshot (owner_snapshot_name ow) s))"
| snapshot_deleted: "claim_owner c = ow \<Longrightarrow> ow \<in> coords \<Longrightarrow> ks_phase s ow = KIdle \<Longrightarrow> rc_deletion_timestamp c \<noteq> None \<Longrightarrow>
    kstep coords ow s (retain c t s)"
| remove_claim: "c \<in> set (ks_live s) \<Longrightarrow> claim_owner c = ow \<Longrightarrow> ks_phase s ow = KIdle \<Longrightarrow>
    rc_deletion_timestamp c \<noteq> None \<Longrightarrow> ks_last s ow = None \<Longrightarrow>
    kstep coords ow s (settle ow (s\<lparr>ks_live := filter (\<lambda>c. claim_owner c \<noteq> ow) (ks_live s)\<rparr>))"
| delete_claim: "kstep coords ow s (s\<lparr>ks_live := map (\<lambda>c. if claim_owner c = ow
      then c\<lparr>rc_deletion_timestamp := opt_or (rc_deletion_timestamp c) (Some now)\<rparr> else c) (ks_live s)\<rparr>)"
| create_claim: "claim_owner c = ow \<Longrightarrow> ow \<in> coords \<Longrightarrow> (\<forall>c' \<in> set (ks_live s). claim_owner c' \<noteq> ow) \<Longrightarrow> rc_status c = None \<Longrightarrow>
    kstep coords ow s (s\<lparr>ks_live := ks_live s @ [c]\<rparr>)"
| create_shared: "shared_owner d = ow \<Longrightarrow> (\<forall>d' \<in> set (ks_shared s). shared_owner d' \<noteq> ow) \<Longrightarrow> sd_status d = None \<Longrightarrow>
    kstep coords ow s (s\<lparr>ks_shared := ks_shared s @ [d]\<rparr>)"
| remove_shared: "\<not> is_claim ow \<Longrightarrow> ks_last s ow = None \<Longrightarrow>
    kstep coords ow s (settle ow (set_phase ow KIdle
      (s\<lparr>ks_shared := filter (\<lambda>d. shared_owner d \<noteq> ow) (ks_shared s)\<rparr>)))"
| gc_judge: "ks_gc s ow = GIdle \<Longrightarrow> (\<forall>c \<in> set (ks_live s). claim_owner c = ow \<longrightarrow> \<not> claim_is_live c) \<Longrightarrow>
    snapshot_owner r = ow \<Longrightarrow> snapshot_holds (fst x) (snd x) r \<Longrightarrow>
    kstep coords ow s (set_gc ow (GJudged x (r \<in> set (ks_retained s))) s)"
| gc_read_live: "ks_gc s ow = GJudged x k \<Longrightarrow> other_claims (ks_live s) (fst x) (snd x) ow = [] \<Longrightarrow>
    kstep coords ow s (set_gc ow (GLive x k) s)"
| gc_read_snapshots: "ks_gc s ow = GLive x k \<Longrightarrow> other_snapshots (ks_retained s) (fst x) (snd x) ow = [] \<Longrightarrow>
    kstep coords ow s (set_gc ow (GSnaps x k) s)"
| gc_read_shared: "ks_gc s ow = GSnaps x k \<Longrightarrow> other_shared (ks_shared s) (fst x) (snd x) ow = [] \<Longrightarrow>
    kstep coords ow s (set_gc ow (GClear x k) s)"
| gc_flush: "ks_gc s ow = GClear x True \<Longrightarrow> kstep coords ow s (set_gc ow GDone (flushdb x s))"
| gc_no_flush: "kstep coords ow s (set_gc ow GDone (gc_given_up ow s))"
| gc_drop_snapshot: "ks_gc s ow = GDone \<Longrightarrow> ow \<in> coords \<Longrightarrow>
    kstep coords ow s (settle ow (delete_snapshot (owner_snapshot_name ow) (set_gc ow GIdle s)))"
| gc_abandon: "kstep coords ow s (set_gc ow GIdle (gc_given_up ow s))"
| gc_stale: "c \<in> set (ks_live s) \<Longrightarrow> claim_owner c = ow \<Longrightarrow> claim_is_live c \<Longrightarrow> r \<in> set (ks_retained s) \<Longrightarrow>
    snapshot_owner r = ow \<Longrightarrow> \<not> reattach_in_progress r c \<Longrightarrow> ow \<in> coords \<Longrightarrow>
    kstep coords ow s (settle ow (delete_snapshot (owner_snapshot_name ow) s))"

text \<open>
  The two flushes that nothing in the code orders against the other owners: one whose pass was
  abandoned while it was outstanding, and that of a collection whose snapshot was deleted
  after the collection began.
\<close>

inductive stray_flush :: "keyspace \<Rightarrow> keyspace \<Rightarrow> bool" where
  late: "x \<in> ks_late s \<Longrightarrow> stray_flush s (flushdb x s)"
| overtaken: "ks_gc s ow = GClear x False \<Longrightarrow> stray_flush s (set_gc ow GDone (flushdb x s))"

definition quiet :: "keyspace \<Rightarrow> bool" where
  "quiet s \<longleftrightarrow> ks_live s = [] \<and> ks_retained s = [] \<and> ks_shared s = [] \<and> ks_inflight s = [] \<and> ks_late s = {} \<and>
     (\<forall>ow. ks_phase s ow = KIdle \<and> ks_last s ow = None \<and> ks_gc s ow = GIdle \<and> ks_data s ow = None)"

inductive kreachable :: "dbnum_owner set \<Rightarrow> keyspace \<Rightarrow> bool" for coords where
  start: "quiet s \<Longrightarrow> kreachable coords s"
| further: "kreachable coords s \<Longrightarrow> kstep coords ow s t \<Longrightarrow> kreachable coords t"
| stray: "kreachable coords s \<Longrightarrow> stray_flush s t \<Longrightarrow> kreachable coords t"

text \<open>The three reads of a check together are \<open>dbnum_holders_besides\<close>.\<close>

lemma no_other_holder_iff:
  "other_dbnum_holders live retained shared i n me = [] \<longleftrightarrow>
     other_claims live i n me = [] \<and> other_snapshots retained i n me = [] \<and> other_shared shared i n me = []"
  by (simp add: other_dbnum_holders_def)

subsection \<open>What the steps do to the view of an owner\<close>

definition known :: "keyspace \<Rightarrow> dbnum_owner \<Rightarrow> bool" where
  "known s ow \<longleftrightarrow> ow \<in> claim_owner ` set (ks_live s) \<or> ow \<in> shared_owner ` set (ks_shared s)"

lemma owner_kinds [simp]: "is_claim (claim_owner c)" "is_claim (snapshot_owner r)" "\<not> is_claim (shared_owner d)"
  "claim_owner c \<noteq> shared_owner d" "shared_owner d \<noteq> claim_owner c"
  by (simp_all add: claim_owner_def snapshot_owner_def shared_owner_def)

lemma put_fields [simp]:
  "claim_owner (put_claim a rdy c) = claim_owner c" "shared_owner (put_shared a rdy d) = shared_owner d"
  "Option.bind (rc_status (put_claim a rdy c)) rst_ready = rdy"
  "Option.bind (sd_status (put_shared a rdy d)) sdst_ready = rdy"
  by (simp_all add: put_claim_def put_shared_def claim_owner_def shared_owner_def)

lemma put_claim_holds [simp]: "claim_holds i n (put_claim a rdy c) \<longleftrightarrow> a = Some (i, n)"
  by (cases a) (auto simp: put_claim_def claim_holds_def)

lemma put_shared_holds [simp]: "shared_holds i n (put_shared a rdy d) \<longleftrightarrow> a = Some (i, n)"
  by (cases a) (auto simp: put_shared_def shared_holds_def word_uint_eq_iff)

lemma bex_put:
  "(\<exists>c \<in> set (ks_live (put ow a rdy s)). P c) \<longleftrightarrow>
    (\<exists>c \<in> set (ks_live s). P (if claim_owner c = ow then put_claim a rdy c else c))"
  "(\<exists>d \<in> set (ks_shared (put ow a rdy s)). Q d) \<longleftrightarrow>
    (\<exists>d \<in> set (ks_shared s). Q (if shared_owner d = ow then put_shared a rdy d else d))"
  by (simp_all add: put_def) blast+

lemma known_iff: "known s ow \<longleftrightarrow> (\<exists>c \<in> set (ks_live s). claim_owner c = ow) \<or> (\<exists>d \<in> set (ks_shared s). shared_owner d = ow)"
  unfolding known_def by blast

lemma holds_put: "holds (put ow a rdy s) b x \<longleftrightarrow> (if b = ow then a = Some x \<and> known s ow else holds s b x)"
proof (cases "b = ow")
  case True
  then show ?thesis unfolding holds_def known_iff bex_put by (auto split: if_splits)
next
  case False
  have "claim_owner (if claim_owner c = ow then put_claim a rdy c else c) = b \<and>
      claim_holds (fst x) (snd x) (if claim_owner c = ow then put_claim a rdy c else c) \<longleftrightarrow>
      claim_owner c = b \<and> claim_holds (fst x) (snd x) c" for c using False by auto
  moreover have "shared_owner (if shared_owner d = ow then put_shared a rdy d else d) = b \<and>
      shared_holds (fst x) (snd x) (if shared_owner d = ow then put_shared a rdy d else d) \<longleftrightarrow>
      shared_owner d = b \<and> shared_holds (fst x) (snd x) d" for d using False by auto
  ultimately show ?thesis using False unfolding holds_def bex_put by simp
qed

lemma ready_put: "owner_ready (put ow a rdy s) b \<longleftrightarrow> (if b = ow then rdy = Some True \<and> known s ow else owner_ready s b)"
proof (cases "b = ow")
  case True
  then show ?thesis unfolding owner_ready_def known_iff bex_put by (auto split: if_splits)
next
  case False
  have "claim_owner (if claim_owner c = ow then put_claim a rdy c else c) = b \<and>
      Option.bind (rc_status (if claim_owner c = ow then put_claim a rdy c else c)) rst_ready = Some True \<longleftrightarrow>
      claim_owner c = b \<and> Option.bind (rc_status c) rst_ready = Some True" for c using False by auto
  moreover have "shared_owner (if shared_owner d = ow then put_shared a rdy d else d) = b \<and>
      Option.bind (sd_status (if shared_owner d = ow then put_shared a rdy d else d)) sdst_ready = Some True \<longleftrightarrow>
      shared_owner d = b \<and> Option.bind (sd_status d) sdst_ready = Some True" for d using False by auto
  ultimately show ?thesis using False unfolding owner_ready_def bex_put by simp
qed

lemma snap_put: "snap (put ow a rdy s) = snap s"
  by (simp add: fun_eq_iff snap_def put_def)

lemmas view_put = holds_put ready_put snap_put

lemma view_set_phase [simp]:
  "holds (set_phase ow p s) = holds s" "owner_ready (set_phase ow p s) = owner_ready s" "snap (set_phase ow p s) = snap s"
  "no_inflight (set_phase ow p s) = no_inflight s" "ks_data (set_phase ow p s) = ks_data s"
  "ks_phase (set_phase ow p s) = (ks_phase s)(ow := p)" "known (set_phase ow p s) = known s"
  "ks_last (set_phase ow p s) = ks_last s" "ks_gc (set_phase ow p s) = ks_gc s"
  by (auto simp: fun_eq_iff set_phase_def holds_def owner_ready_def snap_def no_inflight_def known_def)

lemma view_set_gc [simp]:
  "holds (set_gc ow p s) = holds s" "owner_ready (set_gc ow p s) = owner_ready s" "snap (set_gc ow p s) = snap s"
  "no_inflight (set_gc ow p s) = no_inflight s" "ks_data (set_gc ow p s) = ks_data s"
  "ks_phase (set_gc ow p s) = ks_phase s" "ks_last (set_gc ow p s) = ks_last s" "ks_gc (set_gc ow p s) = (ks_gc s)(ow := p)"
  by (auto simp: fun_eq_iff set_gc_def holds_def owner_ready_def snap_def no_inflight_def)

lemma view_send [simp]:
  "holds (send ow a s) = holds s" "owner_ready (send ow a s) = owner_ready s" "snap (send ow a s) = snap s"
  "no_inflight (send ow a s) b \<longleftrightarrow> b \<noteq> ow \<and> no_inflight s b" "ks_data (send ow a s) = ks_data s"
  "ks_phase (send ow a s) = ks_phase s" "ks_last (send ow a s) = ks_last s" "ks_gc (send ow a s) = ks_gc s"
  by (auto simp: fun_eq_iff send_def holds_def owner_ready_def snap_def no_inflight_def)

lemma view_data [simp]:
  "holds (set_data ow a s) = holds s" "owner_ready (set_data ow a s) = owner_ready s" "snap (set_data ow a s) = snap s"
  "no_inflight (set_data ow a s) = no_inflight s" "ks_data (set_data ow a s) = (ks_data s)(ow := a)"
  "ks_phase (set_data ow a s) = ks_phase s" "ks_last (set_data ow a s) = ks_last s" "ks_gc (set_data ow a s) = ks_gc s"
  "holds (flushdb y s) = holds s" "owner_ready (flushdb y s) = owner_ready s" "snap (flushdb y s) = snap s"
  "no_inflight (flushdb y s) = no_inflight s" "ks_phase (flushdb y s) = ks_phase s"
  "ks_last (flushdb y s) = ks_last s" "ks_gc (flushdb y s) = ks_gc s"
  "ks_data (flushdb y s) b = (if ks_data s b = Some y then None else ks_data s b)"
  by (auto simp: fun_eq_iff set_data_def flushdb_def holds_def owner_ready_def snap_def no_inflight_def)

lemma view_put_rest [simp]:
  "no_inflight (put ow a rdy s) = no_inflight s" "ks_data (put ow a rdy s) = ks_data s" "ks_phase (put ow a rdy s) = ks_phase s"
  "ks_last (put ow a rdy s) = ks_last s" "ks_gc (put ow a rdy s) = ks_gc s"
  by (auto simp: fun_eq_iff put_def no_inflight_def)

lemma view_delete_snapshot [simp]:
  "holds (delete_snapshot n s) = holds s" "owner_ready (delete_snapshot n s) = owner_ready s"
  "no_inflight (delete_snapshot n s) = no_inflight s" "ks_data (delete_snapshot n s) = ks_data s"
  "ks_phase (delete_snapshot n s) = ks_phase s" "ks_last (delete_snapshot n s) = ks_last s"
  "ks_gc (delete_snapshot n s) b = (if owner_snapshot_name b = n then spoil (ks_gc s b) else ks_gc s b)"
  by (auto simp: fun_eq_iff delete_snapshot_def holds_def owner_ready_def no_inflight_def)

lemma view_settle [simp]:
  "holds (settle ow s) = holds s" "owner_ready (settle ow s) = owner_ready s" "snap (settle ow s) = snap s"
  "no_inflight (settle ow s) = no_inflight s" "ks_phase (settle ow s) = ks_phase s" "ks_last (settle ow s) = ks_last s"
  "ks_gc (settle ow s) = ks_gc s" "b \<noteq> ow \<Longrightarrow> ks_data (settle ow s) b = ks_data s b"
  "ks_data (settle ow s) b = Some x \<longleftrightarrow> ks_data s b = Some x \<and> (b = ow \<longrightarrow> kept s ow x)"
  by (auto simp: settle_def split: option.split if_splits)

lemma view_retained_names [simp]:
  "ks_live (settle ow s) = ks_live s" "ks_retained (settle ow s) = ks_retained s" "ks_shared (settle ow s) = ks_shared s"
  "ks_live (abandoned ow s) = ks_live s" "ks_retained (abandoned ow s) = ks_retained s"
  "ks_live (gc_given_up ow s) = ks_live s" "ks_retained (gc_given_up ow s) = ks_retained s"
  by (simp_all add: settle_def set_data_def abandoned_def gc_given_up_def split: option.split kphase.split bool.split gcphase.split)

lemma view_updates [simp]:
  "holds (s\<lparr>ks_inflight := q\<rparr>) = holds s" "owner_ready (s\<lparr>ks_inflight := q\<rparr>) = owner_ready s" "snap (s\<lparr>ks_inflight := q\<rparr>) = snap s"
  "known (s\<lparr>ks_inflight := q\<rparr>) = known s"
  "holds (s\<lparr>ks_last := l\<rparr>) = holds s" "owner_ready (s\<lparr>ks_last := l\<rparr>) = owner_ready s" "snap (s\<lparr>ks_last := l\<rparr>) = snap s"
  "known (s\<lparr>ks_last := l\<rparr>) = known s"
  "snap (s\<lparr>ks_live := cs\<rparr>) = snap s" "no_inflight (s\<lparr>ks_live := cs\<rparr>) = no_inflight s"
  "snap (s\<lparr>ks_shared := ds\<rparr>) = snap s" "no_inflight (s\<lparr>ks_shared := ds\<rparr>) = no_inflight s"
  "holds (s\<lparr>ks_retained := rs\<rparr>) = holds s" "owner_ready (s\<lparr>ks_retained := rs\<rparr>) = owner_ready s"
  "no_inflight (s\<lparr>ks_retained := rs\<rparr>) = no_inflight s"
  "b \<noteq> ow \<Longrightarrow> no_inflight (s\<lparr>ks_last := (ks_last s)(ow := v)\<rparr>) b = no_inflight s b"
  by (auto simp: fun_eq_iff holds_def owner_ready_def snap_def no_inflight_def known_def)

lemma view_given_up [simp]:
  "holds (gc_given_up ow s) = holds s" "owner_ready (gc_given_up ow s) = owner_ready s" "snap (gc_given_up ow s) = snap s"
  "no_inflight (gc_given_up ow s) = no_inflight s" "ks_phase (gc_given_up ow s) = ks_phase s"
  "ks_last (gc_given_up ow s) = ks_last s" "ks_data (gc_given_up ow s) = ks_data s" "ks_gc (gc_given_up ow s) = ks_gc s"
  by (auto simp: gc_given_up_def fun_eq_iff holds_def owner_ready_def snap_def no_inflight_def split: gcphase.split)

lemma view_abandoned [simp]:
  "holds (abandoned ow s) = holds s" "owner_ready (abandoned ow s) = owner_ready s" "snap (abandoned ow s) = snap s"
  "b \<noteq> ow \<Longrightarrow> no_inflight (abandoned ow s) b = no_inflight s b" "ks_phase (abandoned ow s) = ks_phase s"
  "ks_data (abandoned ow s) = ks_data s" "ks_gc (abandoned ow s) = ks_gc s" "ks_inflight (abandoned ow s) = ks_inflight s"
  by (auto simp: abandoned_def fun_eq_iff holds_def owner_ready_def snap_def no_inflight_def split: kphase.split bool.split)

lemma last_abandoned: "ks_last (abandoned ow s) b = Some x \<longleftrightarrow>
    (if b = ow \<and> (\<exists>y. ks_phase s ow = KPinned y) then ks_phase s ow = KPinned x else ks_last s b = Some x)"
  "b \<noteq> ow \<Longrightarrow> ks_last (abandoned ow s) b = ks_last s b"
  by (auto simp: abandoned_def split: kphase.split bool.split)

lemma view_live [simp]:
  "holds (s\<lparr>ks_live := filter (\<lambda>c. claim_owner c \<noteq> ow) (ks_live s)\<rparr>) b x \<longleftrightarrow> holds s b x \<and> (b \<noteq> ow \<or> \<not> is_claim b)"
  "owner_ready (s\<lparr>ks_live := filter (\<lambda>c. claim_owner c \<noteq> ow) (ks_live s)\<rparr>) b \<longleftrightarrow> owner_ready s b \<and> (b \<noteq> ow \<or> \<not> is_claim b)"
  "holds (s\<lparr>ks_shared := filter (\<lambda>d. shared_owner d \<noteq> ow) (ks_shared s)\<rparr>) b x \<longleftrightarrow> holds s b x \<and> (b \<noteq> ow \<or> is_claim b)"
  "owner_ready (s\<lparr>ks_shared := filter (\<lambda>d. shared_owner d \<noteq> ow) (ks_shared s)\<rparr>) b \<longleftrightarrow> owner_ready s b \<and> (b \<noteq> ow \<or> is_claim b)"
  "rc_status c0 = None \<Longrightarrow> holds (s\<lparr>ks_live := ks_live s @ [c0]\<rparr>) = holds s"
  "rc_status c0 = None \<Longrightarrow> owner_ready (s\<lparr>ks_live := ks_live s @ [c0]\<rparr>) = owner_ready s"
  "sd_status d0 = None \<Longrightarrow> holds (s\<lparr>ks_shared := ks_shared s @ [d0]\<rparr>) = holds s"
  "sd_status d0 = None \<Longrightarrow> owner_ready (s\<lparr>ks_shared := ks_shared s @ [d0]\<rparr>) = owner_ready s"
  by (auto simp: fun_eq_iff holds_def owner_ready_def claim_holds_def shared_holds_def)

lemma owner_mark [simp]: "claim_owner (c\<lparr>rc_deletion_timestamp := d\<rparr>) = claim_owner c"
  by (simp add: claim_owner_def)

lemma view_mark [simp]:
  assumes "\<And>c. claim_owner (f c) = claim_owner c \<and> rc_status (f c) = rc_status c"
  shows "holds (s\<lparr>ks_live := map f (ks_live s)\<rparr>) = holds s" "owner_ready (s\<lparr>ks_live := map f (ks_live s)\<rparr>) = owner_ready s"
  using assms by (auto simp: fun_eq_iff holds_def owner_ready_def claim_holds_def)

lemma holds_known: "holds s ow x \<Longrightarrow> known s ow"
  by (auto simp: holds_def known_def)

lemma holds_unique_in: "other_claims (ks_live s) (fst x) (snd x) a = [] \<Longrightarrow> b \<noteq> a \<Longrightarrow> is_claim b \<Longrightarrow> \<not> holds s b x"
  "other_shared (ks_shared s) (fst x) (snd x) a = [] \<Longrightarrow> b \<noteq> a \<Longrightarrow> \<not> is_claim b \<Longrightarrow> \<not> holds s b x"
  "other_snapshots (ks_retained s) (fst x) (snd x) a = [] \<Longrightarrow> b \<noteq> a \<Longrightarrow> \<not> snap s b x"
  by (auto simp: other_claims_def other_shared_def other_snapshots_def holds_def snap_def filter_empty_conv)

subsection \<open>The invariant\<close>

text \<open>How many of its checks on a number an owner has behind it.\<close>

fun phase_lvl :: "kphase \<Rightarrow> slot \<Rightarrow> nat" where
  "phase_lvl (KHeld y k) x = (if y = x then 1 else 0)"
| "phase_lvl (KLive y k) x = (if y = x then 2 else 0)"
| "phase_lvl (KSnap y k) x = (if y = x then 3 else 0)"
| "phase_lvl (KClear y k) x = (if y = x then 4 else 0)"
| "phase_lvl (KPinned y) x = (if y = x then 5 else 0)"
| "phase_lvl _ x = 0"

definition lvl :: "keyspace \<Rightarrow> dbnum_owner \<Rightarrow> slot \<Rightarrow> nat" where
  "lvl s a x = (if ks_last s a = Some x then 5 else phase_lvl (ks_phase s a) x)"

text \<open>The same for a collection whose snapshot is still there.\<close>

fun gc_lvl :: "gcphase \<Rightarrow> slot \<Rightarrow> nat" where
  "gc_lvl (GJudged y k) x = (if k \<and> y = x then 1 else 0)"
| "gc_lvl (GLive y k) x = (if k \<and> y = x then 2 else 0)"
| "gc_lvl (GSnaps y k) x = (if k \<and> y = x then 3 else 0)"
| "gc_lvl (GClear y k) x = (if k \<and> y = x then 4 else 0)"
| "gc_lvl _ x = 0"

text \<open>Has \<open>a\<close> looked for a record of \<open>b\<close>'s kind?\<close>

definition looked :: "keyspace \<Rightarrow> dbnum_owner \<Rightarrow> dbnum_owner \<Rightarrow> slot \<Rightarrow> bool" where
  "looked s a b x \<longleftrightarrow> (if is_claim b then 2 else 4) \<le> lvl s a x"

definition names_known :: "dbnum_owner set \<Rightarrow> keyspace \<Rightarrow> bool" where
  "names_known coords s \<longleftrightarrow>
     (\<forall>r \<in> set (ks_retained s). rt_name r = owner_snapshot_name (snapshot_owner r) \<and> snapshot_owner r \<in> coords)"

definition checked_inv :: "keyspace \<Rightarrow> bool" where
  "checked_inv s \<longleftrightarrow>
     (\<forall>a x. 1 \<le> phase_lvl (ks_phase s a) x \<longrightarrow> holds s a x \<and> no_inflight s a) \<and>
     (\<forall>a x. ks_last s a = Some x \<longrightarrow> holds s a x) \<and>
     (\<forall>a b x. a \<noteq> b \<longrightarrow> \<not> (looked s a b x \<and> looked s b a x))"

definition ready_inv :: "keyspace \<Rightarrow> bool" where
  "ready_inv s \<longleftrightarrow>
     (\<forall>a b x. a \<noteq> b \<longrightarrow> owner_ready s a \<longrightarrow> holds s a x \<longrightarrow> \<not> looked s b a x \<and> \<not> (owner_ready s b \<and> holds s b x))"

definition data_inv :: "keyspace \<Rightarrow> bool" where
  "data_inv s \<longleftrightarrow>
     (\<forall>a x. ks_data s a = Some x \<longrightarrow>
        owner_ready s a \<and> holds s a x \<or> snap s a x \<and> (\<forall>b. b \<noteq> a \<longrightarrow> lvl s b x < 3)) \<and>
     (\<forall>a b x. ks_data s a = Some x \<longrightarrow> ks_data s b = Some x \<longrightarrow> a = b)"

definition collect_inv :: "keyspace \<Rightarrow> bool" where
  "collect_inv s \<longleftrightarrow> (\<forall>a x.
     (1 \<le> gc_lvl (ks_gc s a) x \<longrightarrow> snap s a x) \<and>
     (2 \<le> gc_lvl (ks_gc s a) x \<longrightarrow>
        (\<forall>b. b \<noteq> a \<longrightarrow> is_claim b \<longrightarrow> lvl s b x < 3 \<and> \<not> (owner_ready s b \<and> holds s b x))) \<and>
     (3 \<le> gc_lvl (ks_gc s a) x \<longrightarrow> (\<forall>b. b \<noteq> a \<longrightarrow> is_claim b \<longrightarrow> ks_data s b \<noteq> Some x)) \<and>
     (4 \<le> gc_lvl (ks_gc s a) x \<longrightarrow> (\<forall>b. b \<noteq> a \<longrightarrow> lvl s b x < 3 \<and> ks_data s b \<noteq> Some x)))"

subsection \<open>One step, seen from each side\<close>

lemma snap_claim: "snap s b x \<Longrightarrow> is_claim b"
  by (auto simp: snap_def)

lemma names_known_step:
  assumes "kstep coords a s t" "names_known coords s"
  shows "names_known coords t"
  using assms
proof (cases rule: kstep.cases)
  case (snapshot_deleted c u)
  with assms(2) show ?thesis
    by (auto simp: names_known_def retain_def dragonfly_snapshot_def snapshot_owner_def claim_owner_def snapshot_name_def
        Let_def split: prod.splits)
qed (auto simp: names_known_def set_phase_def send_def put_def set_data_def delete_snapshot_def flushdb_def set_gc_def)

lemma snap_delete:
  assumes "names_known coords s" "inj_on owner_snapshot_name coords" "ow \<in> coords"
  shows "snap (delete_snapshot (owner_snapshot_name ow) s) b x \<longleftrightarrow> b \<noteq> ow \<and> snap s b x"
proof -
  have "rt_name r \<noteq> owner_snapshot_name ow \<longleftrightarrow> snapshot_owner r \<noteq> ow" if "r \<in> set (ks_retained s)" for r
    using assms that unfolding names_known_def by (metis inj_onD)
  then show ?thesis unfolding snap_def delete_snapshot_def by auto
qed

lemma no_inflight_rest: "ks_inflight s = xs @ (ow, a) # ys \<Longrightarrow> b \<noteq> ow \<Longrightarrow> no_inflight (s\<lparr>ks_inflight := xs @ ys\<rparr>) b = no_inflight s b"
  "ks_inflight s = xs @ (ow, a) # ys \<Longrightarrow> \<not> no_inflight s ow"
  "no_inflight s b \<Longrightarrow> ks_inflight s = xs @ (ow, a) # ys \<Longrightarrow> no_inflight (s\<lparr>ks_inflight := xs @ ys\<rparr>) b"
  by (auto simp: no_inflight_def)

lemma no_inflight_last: "no_inflight s b \<Longrightarrow> no_inflight (s\<lparr>ks_last := (ks_last s)(ow := None)\<rparr>) b"
  by (simp add: no_inflight_def)

lemma snap_delete_gc [simp]: "snap (delete_snapshot m (set_gc b g s)) = snap (delete_snapshot m s)"
  by (simp add: fun_eq_iff snap_def delete_snapshot_def set_gc_def)

lemma lvl_set_gc [simp]: "lvl (set_gc b g s) = lvl s"
  by (simp add: fun_eq_iff lvl_def)

lemma gc_lvl_spoil [simp]: "gc_lvl (spoil g) x = 0"
  by (cases g) simp_all

lemma lvl_holds: "checked_inv s \<Longrightarrow> 1 \<le> lvl s a x \<Longrightarrow> holds s a x"
  unfolding checked_inv_def lvl_def by metis

lemma looked_lvl: "looked s a b x \<Longrightarrow> 1 \<le> lvl s a x" "4 \<le> lvl s a x \<Longrightarrow> looked s a b x" "looked s a b x \<Longrightarrow> is_claim b \<Longrightarrow> 2 \<le> lvl s a x"
  by (auto simp: looked_def split: if_splits)

lemma snap_retain: "snap (retain c u s) b x \<longleftrightarrow> snap s b x \<or>
    (\<forall>r \<in> set (ks_retained s). rt_name r \<noteq> snapshot_name c) \<and> b = claim_owner c \<and> snapshot_holds (fst x) (snd x) (dragonfly_snapshot u c)"
  by (auto simp: snap_def retain_def dragonfly_snapshot_def snapshot_owner_def claim_owner_def Let_def split: prod.splits)

lemma view_retain [simp]:
  "holds (retain c u s) = holds s" "owner_ready (retain c u s) = owner_ready s" "ks_data (retain c u s) = ks_data s"
  "no_inflight (retain c u s) = no_inflight s" "ks_phase (retain c u s) = ks_phase s" "ks_last (retain c u s) = ks_last s"
  "ks_gc (retain c u s) = ks_gc s"
  by (simp_all add: retain_def)

text \<open>A step touches the record of the owner that takes it and of no other.\<close>

lemma others_untouched:
  assumes step: "kstep coords a s t" and ne: "b \<noteq> a"
  shows "holds t b = holds s b" "owner_ready t b = owner_ready s b" "ks_phase t b = ks_phase s b" "ks_last t b = ks_last s b"
    and "no_inflight t b = no_inflight s b"
proof -
  show "holds t b = holds s b" "owner_ready t b = owner_ready s b"
    using step ne by (cases rule: kstep.cases; auto simp: fun_eq_iff view_put)+
  show "ks_phase t b = ks_phase s b" "ks_last t b = ks_last s b"
    using step ne by (cases rule: kstep.cases; auto simp: last_abandoned)+
  show "no_inflight t b = no_inflight s b"
    using step ne by (cases rule: kstep.cases) (auto simp: no_inflight_rest) 
qed

lemma others_snap:
  assumes step: "kstep coords a s t" and nk: "names_known coords s" and inj: "inj_on owner_snapshot_name coords" and ne: "b \<noteq> a"
  shows "snap t b = snap s b"
  using step ne
  by (cases rule: kstep.cases) (auto simp: fun_eq_iff snap_put snap_retain snap_delete [OF nk inj])

lemma others_lvl: "kstep coords a s t \<Longrightarrow> b \<noteq> a \<Longrightarrow> lvl t b = lvl s b"
  using others_untouched(3,4) by (simp add: fun_eq_iff lvl_def)

text \<open>An owner's view of the others grows only by reading their records.\<close>

lemma looked_step:
  assumes "kstep coords a s t" "looked t b c x"
  shows "looked s b c x \<or> a = b \<and> (b \<noteq> c \<longrightarrow> \<not> holds s c x)"
proof (cases "b = a")
  case False
  then show ?thesis using assms others_lvl [OF assms(1)] by (simp add: looked_def)
next
  case True
  show ?thesis using assms(1)
  proof (cases rule: kstep.cases)
    case (read_live y k)
    then show ?thesis using assms(2) True holds_unique_in(1) [of s y a c]
      by (auto simp: looked_def lvl_def split: if_splits)
  next
    case (read_shared y k)
    then show ?thesis using assms(2) True holds_unique_in(2) [of s y a c]
      by (auto simp: looked_def lvl_def split: if_splits)
  qed (use assms(2) True in \<open>auto simp: looked_def lvl_def last_abandoned split: if_splits\<close>)
qed

lemma past_snapshots:
  assumes "kstep coords a s t" "3 \<le> lvl t b x"
  shows "3 \<le> lvl s b x \<or> (\<forall>c. c \<noteq> b \<longrightarrow> \<not> snap s c x)"
proof (cases "b = a")
  case False
  then show ?thesis using assms others_lvl [OF assms(1)] by simp
next
  case True
  show ?thesis using assms(1)
  proof (cases rule: kstep.cases)
    case (read_snapshots y k)
    then show ?thesis using assms(2) True holds_unique_in(3) [of s y a] by (auto simp: lvl_def split: if_splits)
  qed (use assms(2) True in \<open>auto simp: lvl_def last_abandoned split: if_splits\<close>)
qed

text \<open>An owner becomes ready, and gets data to keep, only by its last write, on the number it pinned.\<close>

lemma becomes_ready:
  assumes "kstep coords a s t" "owner_ready t b" "holds t b x"
  shows "owner_ready s b \<and> holds s b x \<or> a = b \<and> 5 \<le> lvl s b x"
  using assms by (cases rule: kstep.cases) (auto simp: view_put lvl_def split: if_splits)

lemma gets_data:
  assumes "kstep coords a s t" "ks_data t b = Some x"
  shows "ks_data s b = Some x \<or> a = b \<and> 5 \<le> lvl s b x"
  using assms by (cases rule: kstep.cases) (auto simp: lvl_def split: if_splits)

lemma checked_inv_step:
  assumes step: "kstep coords a s t" and inv: "checked_inv s"
  shows "checked_inv t"
proof -
  have held: "1 \<le> phase_lvl (ks_phase s b) x \<Longrightarrow> holds s b x \<and> no_inflight s b" for b x using inv unfolding checked_inv_def by blast
  have last: "ks_last s b = Some x \<Longrightarrow> holds s b x" for b x using inv unfolding checked_inv_def by blast
  have quiet: "no_inflight s b \<Longrightarrow> ks_last s b = None" for b by (simp add: no_inflight_def)
  have "holds t b x \<and> no_inflight t b" if l: "1 \<le> phase_lvl (ks_phase t b) x" for b x
  proof (cases "b = a")
    case False
    then show ?thesis using l held [of b x] others_untouched [OF step False] by simp
  next
    case True
    show ?thesis using step l held [of a x] quiet [of a] unfolding True
      by (cases rule: kstep.cases)
        (auto simp: view_put no_inflight_rest no_inflight_last holds_known split: if_splits)
  qed
  moreover have "holds t b x" if l: "ks_last t b = Some x" for b x
  proof (cases "b = a")
    case False
    then show ?thesis using l last [of b x] others_untouched [OF step False] by simp
  next
    case True
    have pinned: "ks_phase s a = KPinned y \<Longrightarrow> holds s a y \<and> ks_last s a = None" for y using held [of a y] quiet [of a] by simp
    show ?thesis using step l last [of a x] pinned unfolding True
      by (cases rule: kstep.cases) (auto simp: view_put last_abandoned split: if_splits)
  qed
  moreover have "\<not> (looked t b c x \<and> looked t c b x)" if "b \<noteq> c" for b c x
  proof
    assume l: "looked t b c x \<and> looked t c b x"
    have "looked s b c x \<or> a = b \<and> \<not> holds s c x" "looked s c b x \<or> a = c \<and> \<not> holds s b x"
      using looked_step [OF step] l that by blast+
    moreover have "\<not> (looked s b c x \<and> looked s c b x)" using inv that unfolding checked_inv_def by blast
    ultimately show False using that lvl_holds [OF inv] looked_lvl(1) by metis
  qed
  ultimately show ?thesis unfolding checked_inv_def by blast
qed

lemma ready_inv_step:
  assumes step: "kstep coords a s t" and chk: "checked_inv s" and inv: "ready_inv s"
  shows "ready_inv t"
proof -
  have "\<not> looked t c b x \<and> \<not> (owner_ready t c \<and> holds t c x)" if "b \<noteq> c" and r: "owner_ready t b" "holds t b x" for b c x
  proof -
    have top: "5 \<le> lvl s b x \<Longrightarrow> looked s b c x" for b c by (rule looked_lvl(2)) simp
    have b: "owner_ready s b \<and> holds s b x \<or> a = b \<and> 5 \<le> lvl s b x" by (rule becomes_ready [OF step r])
    have apart: "\<not> (looked s b c x \<and> looked s c b x)" using chk that(1) unfolding checked_inv_def by blast
    then have one: "\<not> looked s c b x" using b top [of b c] inv that(1) unfolding ready_inv_def by blast
    have hb: "holds s b x" using b lvl_holds [OF chk, of b x] by linarith
    have "\<not> looked t c b x" using looked_step [OF step, of c b x] one hb that(1) by blast
    moreover have "\<not> (owner_ready t c \<and> holds t c x)"
    proof
      assume "owner_ready t c \<and> holds t c x"
      then have c: "owner_ready s c \<and> holds s c x \<or> a = c \<and> 5 \<le> lvl s c x" using becomes_ready [OF step] by blast
      with b one top [of c b] top [of b c] that(1) inv show False unfolding ready_inv_def by metis
    qed
    ultimately show ?thesis by blast
  qed
  then show ?thesis unfolding ready_inv_def by blast
qed

text \<open>No step removes what another owner keeps.\<close>

lemma data_invD:
  assumes "data_inv s" "ks_data s a = Some x"
  shows "owner_ready s a \<and> holds s a x \<or> snap s a x \<and> (\<forall>b. b \<noteq> a \<longrightarrow> lvl s b x < 3)" "ks_data s b = Some x \<Longrightarrow> a = b"
  using assms unfolding data_inv_def by metis+

lemma cleared_free:
  assumes "data_inv s" "ready_inv s" "4 \<le> lvl s a x" "b \<noteq> a"
  shows "ks_data s b \<noteq> Some x"
proof
  assume "ks_data s b = Some x"
  from data_invD(1) [OF assms(1) this] show False
  proof
    assume "owner_ready s b \<and> holds s b x"
    then show False using assms(2,4) looked_lvl(2) [OF assms(3)] unfolding ready_inv_def by metis
  next
    assume "snap s b x \<and> (\<forall>c. c \<noteq> b \<longrightarrow> lvl s c x < 3)"
    then have "lvl s a x < 3" using assms(4) by metis
    then show False using assms(3) by simp
  qed
qed

lemma others_data:
  assumes step: "kstep coords a s t" and inv: "data_inv s" "ready_inv s" "collect_inv s" and ne: "b \<noteq> a"
  shows "ks_data t b = ks_data s b"
  using step
proof (cases rule: kstep.cases)
  case (flush_and_pin x k)
  then have "ks_data s b \<noteq> Some x" using cleared_free [OF inv(1,2) _ ne, of x] by (simp add: lvl_def)
  with flush_and_pin ne show ?thesis by simp
next
  case (gc_flush x)
  then have "4 \<le> gc_lvl (ks_gc s a) x" by simp
  then have "ks_data s b \<noteq> Some x" using inv(3) ne unfolding collect_inv_def by metis
  with gc_flush ne show ?thesis by simp
qed (use ne in \<open>auto split: if_splits\<close>)

text \<open>What becomes of the data of the owner that takes the step.\<close>

lemma own_data:
  assumes step: "kstep coords a s t" and chk: "checked_inv s" and dat: "data_inv s" and d: "ks_data t a = Some x"
  shows "owner_ready t a \<and> holds t a x \<or> ks_data s a = Some x \<and> snap t a x"
proof -
  have old: "ks_data s a = Some x \<Longrightarrow> owner_ready s a \<and> holds s a x \<or> snap s a x" using data_invD(1) [OF dat] by blast
  have pin: "5 \<le> lvl s a x \<Longrightarrow> known s a" using lvl_holds [OF chk, of a x] holds_known by simp
  have pinned: "ks_phase s a = KPinned x \<or> ks_last s a = Some x \<Longrightarrow> known s a" by (rule pin) (auto simp: lvl_def)
  show ?thesis using step d old pinned
    by (cases rule: kstep.cases) (auto simp: view_put kept_def snap_retain split: if_splits)
qed

lemma data_inv_step:
  assumes step: "kstep coords a s t" and nk: "names_known coords s" and inj: "inj_on owner_snapshot_name coords"
    and chk: "checked_inv s" and rdy: "ready_inv s" and dat: "data_inv s" and col: "collect_inv s"
  shows "data_inv t"
proof -
  note oth = others_untouched [OF step] and keep = others_data [OF step dat rdy col]
  have "owner_ready t b \<and> holds t b x \<or> snap t b x \<and> (\<forall>c. c \<noteq> b \<longrightarrow> lvl t c x < 3)" if d: "ks_data t b = Some x" for b x
  proof (cases "b = a")
    case False
    from d keep [OF False] have "ks_data s b = Some x" by simp
    from data_invD(1) [OF dat this] show ?thesis
    proof
      assume "snap s b x \<and> (\<forall>c. c \<noteq> b \<longrightarrow> lvl s c x < 3)"
      moreover from this have "lvl t c x < 3" if "c \<noteq> b" for c
        using past_snapshots [OF step, of c x] that by (metis not_le)
      ultimately show ?thesis using others_snap [OF step nk inj False] by simp
    qed (simp add: oth(1,2) [OF False])
  next
    case True
    from own_data [OF step chk dat d [unfolded True]] show ?thesis
    proof
      assume o: "ks_data s a = Some x \<and> snap t a x"
      have "lvl s c x < 3" if c: "c \<noteq> a" for c
      proof (cases "owner_ready s a \<and> holds s a x")
        case True
        then have "\<not> looked s c a x" using rdy c unfolding ready_inv_def by metis
        with o snap_claim [of t a x] show ?thesis by (simp add: looked_def)
      next
        case False
        then show ?thesis using data_invD(1) [OF dat, of a x] o c by blast
      qed
      then show ?thesis using o others_lvl [OF step] unfolding True by metis
    qed (simp add: True)
  qed
  moreover have "b = c" if b: "ks_data t b = Some x" and c: "ks_data t c = Some x" for b c x
  proof -
    have free: "5 \<le> lvl s a x \<Longrightarrow> c \<noteq> a \<Longrightarrow> ks_data s c \<noteq> Some x" for c
      by (rule cleared_free [OF dat rdy]) simp_all
    show ?thesis using gets_data [OF step b] gets_data [OF step c] free data_invD(2) [OF dat] by metis
  qed
  ultimately show ?thesis unfolding data_inv_def by metis
qed

text \<open>The collection: what it has read stays true as long as its snapshot is there.\<close>

lemma snap_stays:
  assumes step: "kstep coords a s t" and nk: "names_known coords s" and inj: "inj_on owner_snapshot_name coords"
    and "1 \<le> gc_lvl (ks_gc t b) x" "snap s b x"
  shows "snap t b x"
proof (cases "b = a")
  case False
  then show ?thesis using others_snap [OF step nk inj] assms(5) by simp
next
  case True
  show ?thesis using step assms(4,5) unfolding True
    by (cases rule: kstep.cases) (auto simp: snap_put snap_retain split: if_splits)
qed

lemma gc_lvl_step:
  assumes step: "kstep coords a s t"
  obtains (no_more) "gc_lvl (ks_gc t b) x \<le> gc_lvl (ks_gc s b) x"
  | (judged) g where "t = set_gc b g s" "gc_lvl g x = 1" "snap s b x"
  | (live) g where "t = set_gc b g s" "gc_lvl g x = 2" "gc_lvl (ks_gc s b) x = 1" "other_claims (ks_live s) (fst x) (snd x) b = []"
  | (snaps) g where "t = set_gc b g s" "gc_lvl g x = 3" "gc_lvl (ks_gc s b) x = 2"
      "other_snapshots (ks_retained s) (fst x) (snd x) b = []"
  | (shared) g where "t = set_gc b g s" "gc_lvl g x = 4" "gc_lvl (ks_gc s b) x = 3"
      "other_shared (ks_shared s) (fst x) (snd x) b = []"
  using step
proof (cases rule: kstep.cases)
  case (gc_judge r y)
  then show thesis using judged [of "GJudged y True"] no_more
    by (cases "b = a \<and> x = y \<and> r \<in> set (ks_retained s)") (auto simp: snap_def split: if_splits)
next
  case (gc_read_live y k)
  then show thesis using live no_more by (cases "b = a \<and> x = y \<and> k") (auto split: if_splits)
next
  case (gc_read_snapshots y k)
  then show thesis using snaps no_more by (cases "b = a \<and> x = y \<and> k") (auto split: if_splits)
next
  case (gc_read_shared y k)
  then show thesis using shared no_more by (cases "b = a \<and> x = y \<and> k") (auto split: if_splits)
qed (use no_more in \<open>auto split: if_splits\<close>)

lemma collect_inv_step:
  assumes step: "kstep coords a s t" and nk: "names_known coords s" and inj: "inj_on owner_snapshot_name coords"
    and chk: "checked_inv s" and dat: "data_inv s" and col: "collect_inv s"
  shows "collect_inv t"
proof -
  have unheld: "lvl s c x < 3" if "\<not> holds s c x" for c x using lvl_holds [OF chk, of c x] that by (cases "lvl s c x") auto
  have undata: "ks_data s c \<noteq> Some x" if "\<not> (owner_ready s c \<and> holds s c x)" "\<not> snap s c x" for c x
    using data_invD(1) [OF dat, of c x] that by blast
  have "(1 \<le> gc_lvl (ks_gc t b) x \<longrightarrow> snap t b x) \<and>
     (2 \<le> gc_lvl (ks_gc t b) x \<longrightarrow> (\<forall>c. c \<noteq> b \<longrightarrow> is_claim c \<longrightarrow> lvl t c x < 3 \<and> \<not> (owner_ready t c \<and> holds t c x))) \<and>
     (3 \<le> gc_lvl (ks_gc t b) x \<longrightarrow> (\<forall>c. c \<noteq> b \<longrightarrow> is_claim c \<longrightarrow> ks_data t c \<noteq> Some x)) \<and>
     (4 \<le> gc_lvl (ks_gc t b) x \<longrightarrow> (\<forall>c. c \<noteq> b \<longrightarrow> lvl t c x < 3 \<and> ks_data t c \<noteq> Some x))" for b x
  proof -
    have i: "1 \<le> gc_lvl (ks_gc s b) x \<Longrightarrow> snap s b x"
      "2 \<le> gc_lvl (ks_gc s b) x \<Longrightarrow> c \<noteq> b \<Longrightarrow> is_claim c \<Longrightarrow> lvl s c x < 3 \<and> \<not> (owner_ready s c \<and> holds s c x)"
      "3 \<le> gc_lvl (ks_gc s b) x \<Longrightarrow> c \<noteq> b \<Longrightarrow> is_claim c \<Longrightarrow> ks_data s c \<noteq> Some x"
      "4 \<le> gc_lvl (ks_gc s b) x \<Longrightarrow> c \<noteq> b \<Longrightarrow> lvl s c x < 3 \<and> ks_data s c \<noteq> Some x" for c
      using col unfolding collect_inv_def by blast+
    show ?thesis
    proof (cases rule: gc_lvl_step [OF step, of b x])
      case 1
      have low: "lvl t c x < 3" if "lvl s c x < 3" "c \<noteq> b" "1 \<le> gc_lvl (ks_gc s b) x" for c
        using past_snapshots [OF step, of c x] i(1) that by (metis not_le)
      have ready: "\<not> (owner_ready t c \<and> holds t c x)" if "lvl s c x < 3" "\<not> (owner_ready s c \<and> holds s c x)" for c
        using becomes_ready [OF step, of c x] that by auto
      have data: "ks_data t c \<noteq> Some x" if "lvl s c x < 3" "ks_data s c \<noteq> Some x" for c
        using gets_data [OF step, of c x] that by auto
      have "snap t b x" if "1 \<le> gc_lvl (ks_gc t b) x"
        using snap_stays [OF step nk inj that] i(1) that 1 by simp
      moreover have "lvl t c x < 3 \<and> \<not> (owner_ready t c \<and> holds t c x)"
        if "2 \<le> gc_lvl (ks_gc t b) x" "c \<noteq> b" "is_claim c" for c
        using low ready i(2) that 1 by simp
      moreover have "ks_data t c \<noteq> Some x" if "3 \<le> gc_lvl (ks_gc t b) x" "c \<noteq> b" "is_claim c" for c
        using data i(2,3) that 1 by simp
      moreover have "lvl t c x < 3 \<and> ks_data t c \<noteq> Some x" if "4 \<le> gc_lvl (ks_gc t b) x" "c \<noteq> b" for c
        using low data i(4) that 1 by simp
      ultimately show ?thesis by blast
    next
      case (2 g)
      then show ?thesis by simp
    next
      case (3 g)
      have "\<not> holds s c x" if "c \<noteq> b" "is_claim c" for c using holds_unique_in(1) [OF 3(4) that] .
      with 3 i(1) unheld show ?thesis by simp
    next
      case (4 g)
      have "\<not> snap s c x" if "c \<noteq> b" for c using holds_unique_in(3) [OF 4(4) that] .
      with 4 i(1,2) undata show ?thesis by simp
    next
      case (5 g)
      have shared: "lvl s c x < 3 \<and> ks_data s c \<noteq> Some x" if "c \<noteq> b" "\<not> is_claim c" for c
        using holds_unique_in(2) [OF 5(4) that] unheld undata snap_claim that(2) by blast
      have "lvl s c x < 3 \<and> ks_data s c \<noteq> Some x" if "c \<noteq> b" for c
        using shared that i(2,3) 5(3) by (cases "is_claim c") simp_all
      with 5 i(1-3) show ?thesis by simp
    qed
  qed
  then show ?thesis unfolding collect_inv_def by blast
qed

text \<open>A stray flush only takes data away.\<close>

lemma stray_keeps:
  assumes "stray_flush s t"
  shows "holds t = holds s" "owner_ready t = owner_ready s" "snap t = snap s" "lvl t = lvl s" "ks_phase t = ks_phase s"
    "ks_last t = ks_last s" "no_inflight t = no_inflight s" "ks_retained t = ks_retained s"
    "ks_data t b = Some x \<Longrightarrow> ks_data s b = Some x" "gc_lvl (ks_gc t b) x \<le> gc_lvl (ks_gc s b) x"
  using assms by (cases; auto simp: fun_eq_iff lvl_def flushdb_def set_gc_def no_inflight_def holds_def owner_ready_def
      snap_def split: if_splits)+

lemma stray_inv:
  assumes "stray_flush s t" "names_known coords s \<and> checked_inv s \<and> ready_inv s \<and> data_inv s \<and> collect_inv s"
  shows "names_known coords t \<and> checked_inv t \<and> ready_inv t \<and> data_inv t \<and> collect_inv t"
proof -
  note same = stray_keeps(1-8) [OF assms(1)] and less = stray_keeps(9,10) [OF assms(1)]
  have "looked t = looked s" by (simp add: fun_eq_iff looked_def same)
  then have "names_known coords t" "checked_inv t" "ready_inv t"
    using assms(2) by (simp_all add: names_known_def checked_inv_def ready_inv_def same)
  moreover have "data_inv t" using assms(2) less(1) unfolding data_inv_def same by blast
  moreover have "collect_inv t"
    using assms(2) less unfolding collect_inv_def same by (meson order_trans)
  ultimately show ?thesis by blast
qed

lemma keyspace_reachable_inv:
  assumes "kreachable coords s" "inj_on owner_snapshot_name coords"
  shows "names_known coords s \<and> checked_inv s \<and> ready_inv s \<and> data_inv s \<and> collect_inv s"
  using assms(1)
proof induction
  case (start s)
  then have "lvl s a x = 0" "gc_lvl (ks_gc s a) x = 0" "ks_data s a = None" "\<not> owner_ready s a" for a x
    by (simp_all add: quiet_def lvl_def owner_ready_def)
  with start show ?case
    by (simp add: quiet_def names_known_def checked_inv_def ready_inv_def data_inv_def collect_inv_def looked_def)
next
  case (further s ow t)
  then show ?case
    using names_known_step checked_inv_step ready_inv_step data_inv_step [OF _ _ assms(2)] collect_inv_step [OF _ _ assms(2)]
    by metis
next
  case (stray s t)
  then show ?case using stray_inv by metis
qed


definition cache_claim :: resource_claim where
  "cache_claim = \<lparr>rc_name = ''cache'', rc_namespace = ''shop'', rc_labels = None, rc_owner_references = None,
     rc_deletion_timestamp = None, rc_finalizers = None,
     rc_spec = \<lparr>rcs_type = ''redis'', rcs_name = None, rcs_selector = [], rcs_size = None, rcs_persistent = None,
       rcs_jetstream = None, rcs_shared_ref = None, rcs_access = None, rcs_extensions = None\<rparr>, rc_status = None\<rparr>"

definition shop_cache :: dbnum_owner where "shop_cache = OwnerClaim ''shop'' ''cache''"
definition blog_cache :: dbnum_owner where "blog_cache = OwnerClaim ''blog'' ''cache''"

definition empty_keyspace :: keyspace where
  "empty_keyspace = \<lparr>ks_live = [], ks_retained = [], ks_shared = [], ks_phase = (\<lambda>_. KIdle), ks_inflight = [],
     ks_last = (\<lambda>_. None), ks_late = {}, ks_gc = (\<lambda>_. GIdle), ks_data = (\<lambda>_. None)\<rparr>"

lemma cache_owner: "claim_owner cache_claim = shop_cache" "is_claim shop_cache" "rc_status cache_claim = None"
  by (simp_all add: cache_claim_def shop_cache_def claim_owner_def)

lemma names_differ: "inj_on owner_snapshot_name {shop_cache, blog_cache}"
proof -
  have "owner_snapshot_name shop_cache \<noteq> owner_snapshot_name blog_cache" by code_simp
  then show ?thesis by (auto simp: inj_on_def)
qed

lemma cache_allocation: "allocation_of False ''df'' 16 cache_claim [] [] [] = Some (0, False, False)"
proof -
  have "allocate_dbnum {} 16 = Some 0" by code_simp
  then show ?thesis
    by (simp add: allocation_of_def existing_alloc_def cache_claim_def resolve_allocation_def used_dbnums_def
        used_dbnums_on_instance_def map_filter_simps split: option.splits)
qed

text \<open>One claim is provisioned on an empty system.\<close>

lemma cache_is_provisioned:
  "\<exists>s. kreachable {shop_cache, blog_cache} s \<and> ks_data s shop_cache = Some (''df'', 0)"
proof -
  let ?C = "{shop_cache, blog_cache}" and ?x = "(''df'', 0) :: slot"
  let ?c = "empty_keyspace\<lparr>ks_live := [cache_claim]\<rparr>"
  let ?d = "empty_keyspace\<lparr>ks_live := [put_claim (Some ?x) None cache_claim]\<rparr>"
  have k0: "kreachable ?C empty_keyspace" by (rule kreachable.start) (simp add: quiet_def empty_keyspace_def)
  have k1: "kreachable ?C ?c"
    using kreachable.further [OF k0 kstep.create_claim [of cache_claim shop_cache ?C empty_keyspace]]
    by (simp add: cache_owner empty_keyspace_def)
  have a: "kstep ?C shop_cache ?c (send shop_cache (Some ?x) (set_phase shop_cache (KSent ?x False) ?c))"
    by (rule kstep.allocate_claim [of cache_claim _ _ False "''df''" 16 "[]" "[]" "[]" 0 False False])
      (simp_all add: cache_owner cache_allocation empty_keyspace_def owner_ready_def)
  note k2 = kreachable.further [OF k1 a]
  have b: "kstep ?C shop_cache (send shop_cache (Some ?x) (set_phase shop_cache (KSent ?x False) ?c)) (set_phase shop_cache (KSent ?x False) ?d)"
    using kstep.commit [of "send shop_cache (Some ?x) (set_phase shop_cache (KSent ?x False) ?c)" "[]" shop_cache "Some ?x" "[]" ?C]
    by (simp add: send_def set_phase_def put_def empty_keyspace_def cache_owner settle_def)
  note k3 = kreachable.further [OF k2 b]
  have free: "no_inflight empty_keyspace shop_cache" by (simp add: no_inflight_def empty_keyspace_def)
  then have own: "holds ?d shop_cache ?x" "no_inflight ?d shop_cache" by (auto simp: holds_def cache_owner)
  have step: "kreachable ?C (set_phase shop_cache p s) \<Longrightarrow> kstep ?C shop_cache (set_phase shop_cache p s) (set_phase shop_cache q (set_phase shop_cache p s))
      \<Longrightarrow> kreachable ?C (set_phase shop_cache q s)" for p q s
    using kreachable.further by (fastforce simp: set_phase_def)
  have k4: "kreachable ?C (set_phase shop_cache (KHeld ?x False) ?d)"
    by (rule step [OF k3 kstep.answered]) (simp_all add: own free)
  have k5: "kreachable ?C (set_phase shop_cache (KLive ?x False) ?d)"
    by (rule step [OF k4 kstep.read_live]) (simp_all add: set_phase_def empty_keyspace_def other_claims_def cache_owner)
  have k6: "kreachable ?C (set_phase shop_cache (KSnap ?x False) ?d)"
    by (rule step [OF k5 kstep.read_snapshots]) (simp_all add: set_phase_def empty_keyspace_def other_snapshots_def)
  have k7: "kreachable ?C (set_phase shop_cache (KClear ?x False) ?d)"
    by (rule step [OF k6 kstep.read_shared]) (simp_all add: set_phase_def empty_keyspace_def other_shared_def)
  note k8 = kreachable.further [OF k7 kstep.flush_and_pin [of _ _ ?x False]]
  have "kreachable ?C (set_phase shop_cache (KPinned ?x) (flushdb ?x (set_phase shop_cache (KClear ?x False) ?d)))"
    using k8 by simp
  note k9 = kreachable.further [OF this kstep.finish [of _ shop_cache ?x]]
  show ?thesis by (rule exI, rule conjI, rule k9) simp_all
qed


end
