(* ===== verification/Pg_Collect.thy ===== *)
theory Pg_Collect
  imports Pg_Roles Keyspace
begin

text \<open>
  A Postgres claim from its provisioning (\<open>reconcile.rs: provision_cloudnativepg\<close>) to the
  collection of its snapshot (\<open>gc.rs\<close>, \<open>grace.rs\<close>): the retention clock and the phased drop
  of the database, the role, the password and the snapshot. How the API server merges an
  applied body (\<open>ssa\<close>), the random password, the clock and the probe of the Postgres server
  are parameters. Events, logs and metrics are left out.
\<close>

subsection \<open>The retention clock\<close>

text \<open>Instants and durations are numbers of nanoseconds.\<close>

definition secs :: "int \<Rightarrow> int" where
  "secs n = n * 1000000000"

definition GRACE_PERIOD :: int where "GRACE_PERIOD = secs (7 * 24 * 60 * 60)"
definition REQUEUE_AFTER :: int where "REQUEUE_AFTER = secs 300"
definition MIN_REQUEUE :: int where "MIN_REQUEUE = secs 60"
definition MAX_REQUEUE :: int where "MAX_REQUEUE = secs 3600"
definition REATTACH_PENDING_REQUEUE :: int where "REATTACH_PENDING_REQUEUE = secs 60"
definition ROLE_DROP_REQUEUE :: int where "ROLE_DROP_REQUEUE = secs 15"

definition compute_retain_until :: "int \<Rightarrow> int \<Rightarrow> int" where
  "compute_retain_until deletion grace = deletion + grace"

definition should_gc :: "int \<Rightarrow> int \<Rightarrow> bool" where
  "should_gc retain_until now \<longleftrightarrow> now \<ge> retain_until"

definition remaining_grace :: "int \<Rightarrow> int \<Rightarrow> int" where
  "remaining_grace retain_until now = (if retain_until - now < 0 then 0 else retain_until - now)"

definition clamp_requeue :: "int \<Rightarrow> int" where
  "clamp_requeue raw = min (max raw MIN_REQUEUE) MAX_REQUEUE"

datatype action = Requeue int | AwaitChange

subsection \<open>The phased drop\<close>

definition role_is_dropped :: "json \<Rightarrow> string \<Rightarrow> bool" where
  "role_is_dropped managed_roles_status role =
     (case Option.bind (json_pointer managed_roles_status [''byStatus'', ''reconciled'']) as_array of
        Some roles \<Rightarrow> list_ex (\<lambda>r. as_str r = Some role) roles
      | None \<Rightarrow> False)"

definition role_entry_ensure :: "json \<Rightarrow> string \<Rightarrow> string option" where
  "role_entry_ensure cluster role =
     Option.bind (Option.bind (json_pointer cluster [''spec'', ''managed'', ''roles'']) as_array) (\<lambda>roles.
       Option.bind (List.find (\<lambda>r. role_name r = Some role) roles) (\<lambda>r.
         Option.bind (json_get r ''ensure'') as_str))"

definition managed_roles_status :: "json \<Rightarrow> json" where
  "managed_roles_status cluster = unwrap_or (json_pointer cluster [''status'', ''managedRolesStatus'']) (JObject [])"

definition rc_role :: "retained_claim \<Rightarrow> string" where
  "rc_role rc = unwrap_or (rts_role (rt_spec rc)) []"

definition rc_cnpg_ns :: "retained_claim \<Rightarrow> string" where
  "rc_cnpg_ns rc = unwrap_or (rts_cnpg_namespace (rt_spec rc)) []"

definition rc_cluster_key :: "retained_claim \<Rightarrow> objkey" where
  "rc_cluster_key rc = cluster_key (rc_cnpg_ns rc) (unwrap_or (rts_cnpg_cluster (rt_spec rc)) [])"

definition rc_database_key :: "retained_claim \<Rightarrow> objkey" where
  "rc_database_key rc = (KDatabase, rc_cnpg_ns rc, unwrap_or (rts_database_object_name (rt_spec rc)) [])"

definition rc_password_key :: "retained_claim \<Rightarrow> objkey" where
  "rc_password_key rc = (KSecret, rc_cnpg_ns rc, unwrap_or (rts_password_secret_name (rt_spec rc)) [])"

definition snapshot_key :: "string \<Rightarrow> string \<Rightarrow> objkey" where
  "snapshot_key ns name = (KRetainedClaim, ns, name)"

definition set_role_absent :: "retained_claim \<Rightarrow> bool act" where
  "set_role_absent rc = rmw_managed_roles rc (\<lambda>existing. role_absent_upsert existing (rc_role rc))"

definition remove_managed_role :: "retained_claim \<Rightarrow> unit act" where
  "remove_managed_role rc =
     act_bind (rmw_managed_roles rc (\<lambda>existing. remove_role existing (rc_role rc))) (\<lambda>_. ok ())"

definition get_cluster :: "retained_claim \<Rightarrow> json option act" where
  "get_cluster rc = act_bind (reply (api_get (rc_cluster_key rc))) (\<lambda>r. case r of
       Inr (OJson c, v) \<Rightarrow> ok (Some c)
     | Inr _ \<Rightarrow> fail Serde
     | Inl (KApi code) \<Rightarrow> (if code = 404 then ok None else fail (Kube (KApi code)))
     | Inl e \<Rightarrow> fail (Kube e))"

definition absent_database :: "retained_claim \<Rightarrow> json" where
  "absent_database rc = database_object (unwrap_or (rts_database_object_name (rt_spec rc)) []) (rc_cnpg_ns rc)
     (unwrap_or (rts_cnpg_cluster (rt_spec rc)) []) (unwrap_or (rts_database (rt_spec rc)) []) (rc_role rc)
     ''absent'' []"

definition remove_database :: "(kobj option \<Rightarrow> json \<Rightarrow> kobj) \<Rightarrow> retained_claim \<Rightarrow> unit act" where
  "remove_database ssa rc =
     act_bind (reply (api_apply ssa (rc_database_key rc) (absent_database rc))) (\<lambda>r. case r of
       Inr _ \<Rightarrow> ok ()
     | Inl (KApi code) \<Rightarrow> (if code = 404 then ok () else fail (Kube (KApi code)))
     | Inl e \<Rightarrow> fail (Kube e))"

definition delete_password_secret :: "retained_claim \<Rightarrow> unit act" where
  "delete_password_secret rc = delete_ignoring_404 (rc_password_key rc)"

definition delete_retained_claim :: "string \<Rightarrow> string \<Rightarrow> unit act" where
  "delete_retained_claim ns name = delete_ignoring_404 (snapshot_key ns name)"

definition finalize_drop :: "retained_claim \<Rightarrow> string \<Rightarrow> action act" where
  "finalize_drop rc rc_ns =
     act_bind (remove_managed_role rc) (\<lambda>_.
     act_bind (delete_password_secret rc) (\<lambda>_.
     act_bind (delete_retained_claim rc_ns (rt_name rc)) (\<lambda>_.
     ok (Requeue REQUEUE_AFTER))))"

text \<open>The tail of \<open>gc::reconcile\<close>, from the live guard on.\<close>

definition role_phase :: "retained_claim \<Rightarrow> string \<Rightarrow> json option \<Rightarrow> action act" where
  "role_phase rc rc_ns c = (case c of
       None \<Rightarrow> finalize_drop rc rc_ns
     | Some cluster \<Rightarrow>
         (if role_entry_ensure cluster (rc_role rc) \<noteq> Some ''absent'' then
            act_bind (set_role_absent rc) (\<lambda>landed.
              if \<not> landed then finalize_drop rc rc_ns else ok (Requeue ROLE_DROP_REQUEUE))
          else if role_is_dropped (managed_roles_status cluster) (rc_role rc) then finalize_drop rc rc_ns
          else ok (Requeue ROLE_DROP_REQUEUE)))"

definition gc_drop_cnpg :: "(kobj option \<Rightarrow> json \<Rightarrow> kobj) \<Rightarrow> retained_claim \<Rightarrow> string \<Rightarrow> action act" where
  "gc_drop_cnpg ssa rc rc_ns =
     act_bind (remove_database ssa rc) (\<lambda>_. act_bind (get_cluster rc) (role_phase rc rc_ns))"

subsection \<open>Provisioning\<close>

definition COND_READY :: string where "COND_READY = ''Ready''"
definition RETAINED_CLAIM_NAMESPACE :: string where "RETAINED_CLAIM_NAMESPACE = ''apprafter-system''"
definition DEFAULT_CNPG_NAMESPACE :: string where "DEFAULT_CNPG_NAMESPACE = ''cnpg-system''"
definition COND_EXTENSION_UNAVAILABLE :: string where "COND_EXTENSION_UNAVAILABLE = ''ExtensionUnavailable''"

definition claim_ready_condition ::
  "string \<Rightarrow> string \<Rightarrow> string \<Rightarrow> string \<Rightarrow> resource_claim_condition list \<Rightarrow> resource_claim_condition" where
  "claim_ready_condition now status reason message previous =
     \<lparr>rcc_type = COND_READY, rcc_status = status, rcc_reason = Some reason, rcc_message = Some message,
      rcc_last_transition_time =
        unwrap_or (map_option rcc_last_transition_time
          (List.find (\<lambda>c. rcc_type c = COND_READY \<and> rcc_status c = status) previous)) now\<rparr>"

definition claim_condition_json :: "resource_claim_condition \<Rightarrow> json" where
  "claim_condition_json c = jstr_map
     ([(''lastTransitionTime'', rcc_last_transition_time c)] @
      (case rcc_message c of None \<Rightarrow> [] | Some m \<Rightarrow> [(''message'', m)]) @
      (case rcc_reason c of None \<Rightarrow> [] | Some r \<Rightarrow> [(''reason'', r)]) @
      [(''status'', rcc_status c), (''type'', rcc_type c)])"

record volume_sample =
  vs_used :: int
  vs_cap :: int
  vs_scope :: string

record claim_status_fields =
  csf_conn_secret_name :: "string option"
  csf_volume_claim_ref :: "string option"
  csf_allocation :: "(string \<times> u16) option"
  csf_capacity :: "volume_sample option"

definition no_status_fields :: claim_status_fields where
  "no_status_fields = \<lparr>csf_conn_secret_name = None, csf_volume_claim_ref = None, csf_allocation = None,
     csf_capacity = None\<rparr>"

definition status_apply_body :: "string \<Rightarrow> resource_claim_condition \<Rightarrow> claim_status_fields \<Rightarrow> json" where
  "status_apply_body name cond fs =
     (let s0 = [(''conditions'', JArray [claim_condition_json cond]), (''ready'', JBool (rcc_status cond = ''True''))];
          s1 = (case csf_conn_secret_name fs of
                  None \<Rightarrow> s0 | Some conn \<Rightarrow> bt_insert ''connectionSecretRef'' (JString conn) s0);
          s2 = (case csf_volume_claim_ref fs of
                  None \<Rightarrow> s1 | Some vcr \<Rightarrow> bt_insert ''volumeClaimRef'' (JString vcr) s1);
          s3 = (case csf_capacity fs of
                  None \<Rightarrow> s2
                | Some v \<Rightarrow> bt_insert ''capacity'' (JObject [
                    (''capacityBytes'', JNumber (show_int (vs_cap v))), (''scope'', JString (vs_scope v)),
                    (''usedBytes'', JNumber (show_int (vs_used v)))]) s2);
          s4 = (case csf_allocation fs of
                  None \<Rightarrow> s3
                | Some (inst, dbnum) \<Rightarrow>
                    bt_insert ''dbnum'' (JNumber (show_nat (unat dbnum))) (bt_insert ''instance'' (JString inst) s3))
      in JObject [
        (''apiVersion'', JString ''apprafter.io/v1alpha1''),
        (''kind'', JString ''ResourceClaim''),
        (''metadata'', jstr_map [(''name'', name)]),
        (''status'', JObject s4)])"

definition patch_status ::
  "(kobj option \<Rightarrow> json \<Rightarrow> kobj) \<Rightarrow> string \<Rightarrow> string \<Rightarrow> resource_claim_condition \<Rightarrow> claim_status_fields \<Rightarrow> unit act" where
  "patch_status ssa ns name cond fs =
     quest (api_apply ssa (KResourceClaim, ns, name) (status_apply_body name cond fs))"

definition connection_secret_name :: "string \<Rightarrow> string" where
  "connection_secret_name claim_name = claim_name @ ''-conn''"

definition owner_reference_json :: "string \<Rightarrow> string \<Rightarrow> json" where
  "owner_reference_json owner_name owner_uid = JObject [
     (''apiVersion'', JString ''apprafter.io/v1alpha1''), (''blockOwnerDeletion'', JBool True),
     (''controller'', JBool True), (''kind'', JString ''ResourceClaim''),
     (''name'', JString owner_name), (''uid'', JString owner_uid)]"

definition connection_secret_object ::
  "string \<Rightarrow> string \<Rightarrow> string \<Rightarrow> string \<Rightarrow> string \<Rightarrow> nat \<Rightarrow> string \<Rightarrow> string \<Rightarrow> string \<Rightarrow> json" where
  "connection_secret_object name ns role password host port db owner_uid owner_name =
     (let url = ''postgresql://'' @ role @ '':'' @ password @ ''@'' @ host @ '':'' @ show_nat port @ ''/'' @ db
      in JObject [
        (''apiVersion'', JString ''v1''),
        (''kind'', JString ''Secret''),
        (''metadata'', JObject [
           (''labels'', jstr_map [(MANAGED_BY_KEY, MANAGED_BY_VALUE)]),
           (''name'', JString name), (''namespace'', JString ns),
           (''ownerReferences'', JArray [owner_reference_json owner_name owner_uid])]),
        (''stringData'', jstr_map [(''db'', db), (''host'', host), (''pass'', password),
           (''port'', show_nat port), (''url'', url), (''user'', role)]),
        (''type'', JString ''Opaque'')])"

definition dsn :: "string \<Rightarrow> string \<Rightarrow> string \<Rightarrow> string \<Rightarrow> string \<Rightarrow> string" where
  "dsn role password db cluster ns =
     ''postgresql://'' @ role @ '':'' @ password @ ''@'' @ cluster @ ''-rw.'' @ ns @ ''.svc:5432/'' @ db"

definition cfg_str :: "json \<Rightarrow> string list \<Rightarrow> string \<Rightarrow> string" where
  "cfg_str cfg path dflt = unwrap_or (Option.bind (json_pointer cfg path) as_str) dflt"

text \<open>\<open>as_i64\<close> of a number, kept as its text.\<close>

definition as_i64_text :: "json \<Rightarrow> string option" where
  "as_i64_text v = (case v of
       JNumber t \<Rightarrow>
         (let digits = (case t of c # cs \<Rightarrow> if c = CHR ''-'' then cs else t | [] \<Rightarrow> []);
              n = foldl (\<lambda>acc c. acc * 10 + ((of_char c :: int) - 48)) 0 digits
          in if digits \<noteq> [] \<and> list_all is_ascii_digit digits \<and>
                n \<le> (if digits = t then 9223372036854775807 else 9223372036854775808)
             then Some t else None)
     | _ \<Rightarrow> None)"

definition ensure_cnpg_cluster :: "(kobj option \<Rightarrow> json \<Rightarrow> kobj) \<Rightarrow> json \<Rightarrow> string \<Rightarrow> string \<Rightarrow> unit act" where
  "ensure_cnpg_cluster ssa cfg cluster cnpg_ns =
     (let instances = unwrap_or (Option.bind (json_pointer cfg [''instances'']) as_i64_text) ''1'';
          storage = cfg_str cfg [''storage''] ''10Gi'';
          res = \<lparr>br_cpu = cfg_str cfg [''resources'', ''cpu''] (br_cpu cnpg_t1),
                 br_memory = cfg_str cfg [''resources'', ''memory''] (br_memory cnpg_t1),
                 br_ephemeral_storage = cfg_str cfg [''resources'', ''ephemeralStorage''] (br_ephemeral_storage cnpg_t1),
                 br_shared_buffers = cfg_str cfg [''resources'', ''sharedBuffers''] (br_shared_buffers cnpg_t1)\<rparr>
      in quest (api_apply ssa (cluster_key cnpg_ns cluster) (cluster_object cluster cnpg_ns instances storage res)))"

datatype extension_probe = AllPresent | MissingExtensions "string list" | Unreachable

fun probe_loop :: "(string \<Rightarrow> (unit, bool) result) \<Rightarrow> pg_extension list \<Rightarrow> string list \<Rightarrow> extension_probe" where
  "probe_loop available [] missing = (if missing = [] then AllPresent else MissingExtensions missing)"
| "probe_loop available (e # es) missing = (case available (pge_name e) of
       Inr True \<Rightarrow> probe_loop available es missing
     | Inr False \<Rightarrow> probe_loop available es (missing @ [pge_name e])
     | Inl _ \<Rightarrow> Unreachable)"

definition probe_extensions ::
  "(string \<Rightarrow> string \<Rightarrow> (unit, bool) result) \<Rightarrow> string \<Rightarrow> pg_extension list \<Rightarrow> extension_probe" where
  "probe_extensions available d declared = probe_loop (available d) declared []"

text \<open>The UTF-8 bytes of an em dash.\<close>

definition em_dash :: string where "em_dash = [CHR 0xE2, CHR 0x80, CHR 0x94]"

definition missing_extension_message :: "string list \<Rightarrow> string" where
  "missing_extension_message missing =
     ''the running PostgreSQL image does not provide '' @ join '', '' missing @
     ''. The extension list is bounded by the platform's allow list, but whether a given extension EXISTS is a property of the operand image '' @
     em_dash @ '' check the image the shared cluster runs and either drop the extension or raise it with the platform operator.''"

definition provision_cloudnativepg ::
  "(kobj option \<Rightarrow> json \<Rightarrow> kobj) \<Rightarrow> string \<Rightarrow> string \<Rightarrow> string \<Rightarrow> (string \<Rightarrow> string \<Rightarrow> (unit, bool) result) \<Rightarrow>
    resource_claim \<Rightarrow> service_provider \<Rightarrow> action act" where
  "provision_cloudnativepg ssa now password owner_uid available claim provider =
     (let ns = rc_namespace claim; name = rc_name claim;
          cfg = unwrap_or (sps_config (sp_spec provider)) (JObject []);
          cluster = cfg_str cfg [''cluster''] ''platform-postgres'';
          cnpg_ns = cfg_str cfg [''namespace''] ''cnpg-system'';
          role = pg_identifier ns name; db = role; object_name = k8s_name ns name;
          pw_secret_name = object_name @ ''-pw'';
          extensions = unwrap_or (rcs_extensions (rc_spec claim)) [];
          conn_secret_name = connection_secret_name name;
          pg_host = cluster @ ''-rw.'' @ cnpg_ns @ ''.svc'';
          prior = unwrap_or (Option.bind (rc_status claim) rst_conditions) [];
          probe = (if extensions = [] then AllPresent
                   else probe_extensions available (dsn role password db cluster cnpg_ns) extensions)
      in act_bind (ensure_cnpg_cluster ssa cfg cluster cnpg_ns) (\<lambda>_.
         act_bind (quest (api_apply ssa (KSecret, cnpg_ns, pw_secret_name)
           (basic_auth_secret pw_secret_name cnpg_ns role password))) (\<lambda>_.
         act_bind (upsert_managed_role cnpg_ns cluster role pw_secret_name) (\<lambda>_.
         act_bind (quest (api_apply ssa (KDatabase, cnpg_ns, object_name)
           (database_object object_name cnpg_ns cluster db role ''present'' extensions))) (\<lambda>_.
         act_bind (quest (api_apply ssa (KSecret, ns, conn_secret_name)
           (connection_secret_object conn_secret_name ns role password pg_host 5432 db owner_uid name))) (\<lambda>_.
         case probe of
           MissingExtensions missing \<Rightarrow>
             act_bind (patch_status ssa ns name (claim_ready_condition now ''False'' COND_EXTENSION_UNAVAILABLE
               (missing_extension_message missing) prior) no_status_fields) (\<lambda>_. ok (Requeue (secs 60)))
         | _ \<Rightarrow>
             act_bind (patch_status ssa ns name (claim_ready_condition now ''True'' ''Provisioned''
               (''provisioned into '' @ cluster @ '' ('' @ cnpg_ns @ '')'') prior)
               (no_status_fields\<lparr>csf_conn_secret_name := Some conn_secret_name\<rparr>)) (\<lambda>_.
             act_bind (reply (api_delete (snapshot_key RETAINED_CLAIM_NAMESPACE object_name))) (\<lambda>_.
             ok (Requeue (secs 300))))))))))"

text \<open>The snapshot a deleted Postgres claim leaves (\<open>retained_claim_object\<close>).\<close>

definition cnpg_snapshot :: "resource_claim \<Rightarrow> string \<Rightarrow> string \<Rightarrow> string \<Rightarrow> string \<Rightarrow> retained_claim" where
  "cnpg_snapshot claim backend cluster cnpg_ns retain_until =
     (let ns = rc_namespace claim; name = rc_name claim; object_name = k8s_name ns name; role = pg_identifier ns name
      in \<lparr>rt_name = object_name, rt_spec =
          \<lparr>rts_claim_ref = \<lparr>clr_name = name, clr_namespace = ns\<rparr>,
           rts_provider = unwrap_or (Option.bind (rc_status claim) rst_provider) [], rts_backend = backend,
           rts_cnpg_cluster = Some cluster, rts_cnpg_namespace = Some cnpg_ns, rts_role = Some role,
           rts_database = Some role, rts_database_object_name = Some object_name,
           rts_password_secret_name = Some (object_name @ ''-pw''),
           rts_instance = None, rts_dbnum = None, rts_acl_user = None,
           rts_connection_secret_ref = None, rts_connection_secret_namespace = None,
           rts_volume_claim_ref = None, rts_volume_claim_namespace = None, rts_nats_namespace = None,
           rts_nats_app = None, rts_nats_declared_streams = None, rts_nats_declared_consumers = None,
           rts_retain_until = retain_until\<rparr>\<rparr>)"

subsection \<open>Who may write what\<close>

text \<open>Every event is judged with the log up to it.\<close>

fun orderly_from :: "(event list \<Rightarrow> event \<Rightarrow> bool) \<Rightarrow> event list \<Rightarrow> event list \<Rightarrow> bool" where
  "orderly_from A before [] = True"
| "orderly_from A before (e # es) \<longleftrightarrow> A before e \<and> orderly_from A (before @ [e]) es"

definition orderly :: "(event list \<Rightarrow> event \<Rightarrow> bool) \<Rightarrow> event list \<Rightarrow> bool" where
  "orderly A L = orderly_from A [] L"

lemma orderly_from_snoc: "orderly_from A before (es @ [e]) \<longleftrightarrow> orderly_from A before es \<and> A (before @ es) e"
  by (induction es arbitrary: before) auto

lemma orderly_snoc [simp]: "orderly A (L @ [e]) \<longleftrightarrow> orderly A L \<and> A L e"
  by (simp add: orderly_def orderly_from_snoc)

lemma orderly_Nil [simp]: "orderly A []"
  by (simp add: orderly_def)

text \<open>The answers that justify the steps of a drop.\<close>

definition database_dropped :: "(kobj option \<Rightarrow> json \<Rightarrow> kobj) \<Rightarrow> retained_claim \<Rightarrow> event list \<Rightarrow> bool" where
  "database_dropped ssa rc L \<longleftrightarrow> Missing (rc_database_key rc) \<in> set L \<or>
     list_ex (\<lambda>e. case e of
        Wrote k x y \<Rightarrow> k = rc_database_key rc \<and> y = Some (ssa x (absent_database rc)) | _ \<Rightarrow> False) L"

definition drop_confirmed :: "retained_claim \<Rightarrow> event list \<Rightarrow> bool" where
  "drop_confirmed rc L \<longleftrightarrow> Missing (rc_cluster_key rc) \<in> set L \<or>
     list_ex (\<lambda>e. case e of
        Read k (OJson c) \<Rightarrow> k = rc_cluster_key rc \<and> role_entry_ensure c (rc_role rc) = Some ''absent'' \<and>
          role_is_dropped (managed_roles_status c) (rc_role rc) | _ \<Rightarrow> False) L"

text \<open>
  A pass writes the database (absent), the cluster (its own role only), the password and the
  snapshot; all but the first only after the database was declared absent, and anything but
  the declaration of an absent role only after the role is known to be dropped.
\<close>

definition drop_order ::
  "(kobj option \<Rightarrow> json \<Rightarrow> kobj) \<Rightarrow> retained_claim \<Rightarrow> string \<Rightarrow> event list \<Rightarrow> event \<Rightarrow> bool" where
  "drop_order ssa rc rc_ns L e \<longleftrightarrow> (case e of
       Wrote k x y \<Rightarrow>
         (if k = rc_database_key rc then y = Some (ssa x (absent_database rc))
          else if k = rc_cluster_key rc then
            touches_only (rc_role rc) x y \<and> database_dropped ssa rc L \<and>
            (case (x, y) of
               (Some (OJson a), Some (OJson b)) \<Rightarrow>
                 roles_of b = role_absent_upsert (roles_of a) (rc_role rc) \<or>
                 roles_of b = remove_role (roles_of a) (rc_role rc) \<and> drop_confirmed rc L
             | _ \<Rightarrow> False)
          else (k = rc_password_key rc \<or> k = snapshot_key rc_ns (rt_name rc)) \<and> y = None \<and>
            database_dropped ssa rc L \<and> drop_confirmed rc L)
     | _ \<Rightarrow> True)"

lemma drop_keys_distinct [simp]:
  "rc_cluster_key rc \<noteq> rc_database_key rc" "rc_password_key rc \<noteq> rc_database_key rc"
  "rc_password_key rc \<noteq> rc_cluster_key rc" "snapshot_key ns nm \<noteq> rc_database_key rc"
  "snapshot_key ns nm \<noteq> rc_cluster_key rc" "snapshot_key ns nm \<noteq> rc_password_key rc"
  "rc_database_key rc \<noteq> rc_cluster_key rc" "rc_database_key rc \<noteq> rc_password_key rc"
  "rc_cluster_key rc \<noteq> rc_password_key rc" "rc_database_key rc \<noteq> snapshot_key ns nm"
  "rc_cluster_key rc \<noteq> snapshot_key ns nm" "rc_password_key rc \<noteq> snapshot_key ns nm"
  by (simp_all add: rc_cluster_key_def rc_database_key_def rc_password_key_def snapshot_key_def cluster_key_def)

lemma drop_order_benign [simp]: "benign e \<Longrightarrow> drop_order ssa rc rc_ns L e"
  by (cases e) (simp_all add: drop_order_def)

lemma database_dropped_mono: "database_dropped ssa rc L \<Longrightarrow> database_dropped ssa rc (L @ L')"
  by (auto simp: database_dropped_def)

lemma drop_confirmed_mono: "drop_confirmed rc L \<Longrightarrow> drop_confirmed rc (L @ L')"
  by (auto simp: drop_confirmed_def)

definition drop_log ::
  "(kobj option \<Rightarrow> json \<Rightarrow> kobj) \<Rightarrow> retained_claim \<Rightarrow> string \<Rightarrow> bool \<Rightarrow> bool \<Rightarrow> event list \<Rightarrow> bool" where
  "drop_log ssa rc rc_ns d c L \<longleftrightarrow> orderly (drop_order ssa rc rc_ns) L \<and>
     (d \<longrightarrow> database_dropped ssa rc L) \<and> (c \<longrightarrow> drop_confirmed rc L)"

lemma drop_log_benign: "keeps_benign (drop_log ssa rc rc_ns d c)"
  by (auto simp: keeps_benign_def drop_log_def database_dropped_mono drop_confirmed_mono)

lemma drop_log_weaken: "logged (drop_log ssa rc rc_ns d c) w \<Longrightarrow> logged (drop_log ssa rc rc_ns d' False) w" if "d' \<Longrightarrow> d"
  using that by (auto simp: logged_def drop_log_def)

lemma database_droppedI:
  "Missing (rc_database_key rc) \<in> set L \<Longrightarrow> database_dropped ssa rc L"
  "Wrote (rc_database_key rc) x (Some (ssa x (absent_database rc))) \<in> set L \<Longrightarrow> database_dropped ssa rc L"
  by (force simp: database_dropped_def list_ex_iff)+

lemma drop_confirmedI:
  "Missing (rc_cluster_key rc) \<in> set L \<Longrightarrow> drop_confirmed rc L"
  "Read (rc_cluster_key rc) (OJson c) \<in> set L \<Longrightarrow> role_entry_ensure c (rc_role rc) = Some ''absent'' \<Longrightarrow>
     role_is_dropped (managed_roles_status c) (rc_role rc) \<Longrightarrow> drop_confirmed rc L"
  by (force simp: drop_confirmed_def list_ex_iff)+

lemma remove_database_logged:
  "triple (logged (drop_log ssa rc rc_ns False False)) (remove_database ssa rc)
     (\<lambda>r. logged (drop_log ssa rc rc_ns (\<not> isl r) False))"
  unfolding remove_database_def
  by (rule triple_bind_reply [OF apply_logged [OF drop_log_benign]])
    (auto intro!: triple_ok triple_fail simp: logged_def drop_log_def drop_order_def
      intro: database_droppedI split: sum.split kube_error.split)

lemma set_role_absent_logged:
  "triple (logged (drop_log ssa rc rc_ns True False)) (set_role_absent rc)
     (\<lambda>r. logged (drop_log ssa rc rc_ns True (r = Inr False)))"
  unfolding set_role_absent_def rmw_managed_roles_def
  by (rule triple_weaken [OF absent_upsert.rmw_loop_logged [folded role_absent_upsert_def, OF drop_log_benign]])
    (auto simp: logged_def drop_log_def drop_order_def database_dropped_mono
      simp flip: rc_cluster_key_def [unfolded rc_cnpg_ns_def] intro: drop_confirmedI)

lemma finalize_drop_logged:
  "triple (logged (drop_log ssa rc rc_ns True True)) (finalize_drop rc rc_ns)
     (\<lambda>r. logged (drop_log ssa rc rc_ns True True))"
proof -
  let ?I = "logged (drop_log ssa rc rc_ns True True)"
  have prune: "triple ?I (remove_managed_role rc) (\<lambda>r. ?I)"
    unfolding remove_managed_role_def rmw_managed_roles_def
    by (rule triple_bind [where R = "\<lambda>_. ?I"],
        rule triple_weaken [OF removal.rmw_loop_logged [OF drop_log_benign [of ssa rc rc_ns True True]]])
      (auto intro!: triple_ok simp: logged_def drop_log_def drop_order_def database_dropped_mono drop_confirmed_mono
        simp flip: rc_cluster_key_def [unfolded rc_cnpg_ns_def] split: sum.split)
  have del: "triple ?I (delete_ignoring_404 k) (\<lambda>r. ?I)"
    if "k = rc_password_key rc \<or> k = snapshot_key rc_ns (rt_name rc)" for k
    using that by (intro delete_ignoring_404_logged [OF drop_log_benign])
      (auto simp: drop_log_def drop_order_def database_dropped_mono drop_confirmed_mono)
  show ?thesis
    unfolding finalize_drop_def delete_password_secret_def delete_retained_claim_def
    by (rule triple_bind [where R = "\<lambda>_. ?I"] triple_weaken [OF prune] triple_weaken [OF del] triple_ok |
        simp split: sum.split)+
qed

lemma get_cluster_logged:
  "triple (logged (drop_log ssa rc rc_ns True False)) (get_cluster rc)
     (\<lambda>r. logged (\<lambda>L. drop_log ssa rc rc_ns True (r = Inr None) L \<and>
       (\<forall>c. r = Inr (Some c) \<longrightarrow> Read (rc_cluster_key rc) (OJson c) \<in> set L)))"
  unfolding get_cluster_def
  by (rule triple_bind_reply [OF get_logged [OF drop_log_benign]])
    (auto intro!: triple_ok triple_fail simp: logged_def drop_log_def intro: drop_confirmedI
      split: sum.split kube_error.split kobj.split)

lemma role_phase_logged:
  "triple (logged (\<lambda>L. drop_log ssa rc rc_ns True (x = None) L \<and>
      (\<forall>c. x = Some c \<longrightarrow> Read (rc_cluster_key rc) (OJson c) \<in> set L)))
    (role_phase rc rc_ns x) (\<lambda>r. logged (drop_log ssa rc rc_ns False False))"
proof -
  let ?J = "\<lambda>d c. logged (drop_log ssa rc rc_ns d c)"
  have finalize: "triple (?J True True) (finalize_drop rc rc_ns) (\<lambda>r. ?J False False)"
    by (rule triple_weaken [OF finalize_drop_logged]) (auto simp: logged_def drop_log_def)
  have mark: "triple (?J True False) (act_bind (set_role_absent rc) (\<lambda>landed.
      if \<not> landed then finalize_drop rc rc_ns else ok (Requeue ROLE_DROP_REQUEUE))) (\<lambda>r. ?J False False)"
    by (rule triple_bind [where R = "\<lambda>landed. ?J True (\<not> landed)"], rule triple_weaken [OF set_role_absent_logged])
      (auto intro!: finalize triple_ok simp: logged_def drop_log_def split: sum.split)
  show ?thesis
    unfolding role_phase_def
    by (cases x)
      (auto intro!: triple_weaken [OF finalize] triple_weaken [OF mark] triple_ok
        simp: logged_def drop_log_def intro: drop_confirmedI)
qed

lemma gc_drop_cnpg_logged:
  "triple (logged (drop_log ssa rc rc_ns False False)) (gc_drop_cnpg ssa rc rc_ns)
     (\<lambda>r. logged (drop_log ssa rc rc_ns False False))"
proof -
  have get: "triple (logged (drop_log ssa rc rc_ns True False)) (act_bind (get_cluster rc) (role_phase rc rc_ns))
     (\<lambda>r. logged (drop_log ssa rc rc_ns False False))"
    by (rule triple_bind [OF triple_weaken [OF get_cluster_logged] role_phase_logged])
      (auto simp: logged_def drop_log_def split: sum.split)
  show ?thesis
    unfolding gc_drop_cnpg_def
    by (rule triple_bind [where R = "\<lambda>_. logged (drop_log ssa rc rc_ns True False)",
          OF triple_weaken [OF remove_database_logged] get])
      (auto simp: logged_def drop_log_def split: sum.split)
qed

lemma events_logged:
  assumes "triple (logged \<phi>) m (\<lambda>r. logged \<psi>)" "versions_wf w" "\<phi> []"
  shows "\<psi> (events m w)"
  using tripleD [OF assms(1), of "w\<lparr>w_log := []\<rparr>"] assms(2,3)
  by (simp add: events_def logged_def versions_wf_def)


subsection \<open>Passes in a quiet world\<close>

text \<open>An action that succeeds and leaves the given values, with no turn of the environment left.\<close>

definition settles :: "'a act \<Rightarrow> world \<Rightarrow> 'a \<Rightarrow> (objkey \<Rightarrow> kobj option) \<Rightarrow> bool" where
  "settles m w r V \<longleftrightarrow> (\<exists>w'. m w = (Inr r, w') \<and> w_env w' = [] \<and> value_at w' = V)"

lemma settles_bind:
  assumes "settles m w r V" "\<And>w'. w_env w' = [] \<Longrightarrow> value_at w' = V \<Longrightarrow> settles (f r) w' r' V'"
  shows "settles (act_bind m f) w r' V'"
  using assms by (auto simp: settles_def act_bind_def)

lemma settles_ok: "w_env w = [] \<Longrightarrow> value_at w = V \<Longrightarrow> settles (ok r) w r V"
  by (simp add: settles_def ok_def)

lemma value_at_fun: "value_at (write_value k x w) = (value_at w)(k := x)"
  by (auto simp: fun_eq_iff)

lemma value_at_note_fun [simp]: "value_at (note_event e w) = value_at w"
  by (simp add: fun_eq_iff)

lemma settles_delete:
  assumes "w_env w = []"
  shows "settles (delete_ignoring_404 k) w () ((value_at w)(k := None))"
  using assms by (auto simp: settles_def delete_ignoring_404_def act_bind_def reply_def api_delete_def ok_def
      value_at_fun fun_eq_iff value_at_def split: option.split)

definition role_list_ok :: "json \<Rightarrow> bool" where
  "role_list_ok c \<longleftrightarrow> (case Option.bind (json_get c ''spec'') as_object of
       None \<Rightarrow> False
     | Some spec \<Rightarrow> as_object (unwrap_or (map_of spec ''managed'') (JObject [])) \<noteq> None)"

lemma splice_ok:
  assumes "role_list_ok c"
  obtains c' where "splice_roles cluster c rs = Inr c'" "role_list_ok c'"
proof -
  from assms obtain spec managed where
    "Option.bind (json_get c ''spec'') as_object = Some spec"
    "as_object (unwrap_or (map_of spec ''managed'') (JObject [])) = Some managed"
    by (auto simp: role_list_ok_def split: option.splits)
  then show thesis
    using that by (simp add: splice_roles_def role_list_ok_def bt_get_insert)
qed

lemma settles_rmw:
  assumes "w_env w = []" "value_at w (cluster_key ns cluster) = Some (OJson c)"
    "splice_roles cluster c (f (roles_of c)) = Inr c'"
  shows "settles (rmw_loop (Suc n) ns cluster f) w True ((value_at w)(cluster_key ns cluster := Some (OJson c')))"
proof -
  from assms(2) obtain v where "w_objects w (cluster_key ns cluster) = Some (OJson c, v)"
    by (auto simp: value_at_def)
  with assms(1,3) show ?thesis
    by (simp add: settles_def act_bind_def reply_def api_get_def api_replace_def ok_def value_at_fun)
qed

lemma role_entry_ensure_roles: "role_entry_ensure c role =
  Option.bind (List.find (\<lambda>r. role_name r = Some role) (roles_of c)) (\<lambda>r. Option.bind (json_get r ''ensure'') as_str)"
  by (cases "Option.bind (json_pointer c [''spec'', ''managed'', ''roles'']) as_array")
    (simp_all add: role_entry_ensure_def roles_of_def)

lemma find_filter_other: "List.find P (filter (\<lambda>x. \<not> P x) xs @ ys) = List.find P ys"
  by (induction xs) auto

lemma absent_upsert_ensures:
  "roles_of c = role_absent_upsert rs role \<Longrightarrow> role_entry_ensure c role = Some ''absent''"
  by (simp add: role_entry_ensure_roles role_absent_upsert_def merge_role_def find_filter_other)
    (simp add: managed_role_entry_absent_def)

lemma same_spec:
  assumes "json_get c' ''spec'' = json_get c ''spec''"
  shows "roles_of c' = roles_of c" "role_list_ok c' = role_list_ok c"
    "role_entry_ensure c' role = role_entry_ensure c role"
  using assms by (simp_all add: roles_of_def role_list_ok_def role_entry_ensure_def)

text \<open>What one pass leaves of the objects: the database always, then one of three phases.\<close>

definition after_database :: "(kobj option \<Rightarrow> json \<Rightarrow> kobj) \<Rightarrow> retained_claim \<Rightarrow> (objkey \<Rightarrow> kobj option) \<Rightarrow> objkey \<Rightarrow> kobj option" where
  "after_database ssa rc V = V(rc_database_key rc := Some (ssa (V (rc_database_key rc)) (absent_database rc)))"

definition finalized :: "retained_claim \<Rightarrow> string \<Rightarrow> (objkey \<Rightarrow> kobj option) \<Rightarrow> objkey \<Rightarrow> kobj option" where
  "finalized rc rc_ns V = V(rc_password_key rc := None, snapshot_key rc_ns (rt_name rc) := None)"

lemma after_database_other [simp]:
  "k \<noteq> rc_database_key rc \<Longrightarrow> after_database ssa rc V k = V k"
  by (simp add: after_database_def)

lemma settles_remove_database:
  "w_env w = [] \<Longrightarrow> settles (remove_database ssa rc) w () (after_database ssa rc (value_at w))"
  by (simp add: settles_def remove_database_def act_bind_def reply_def api_apply_def ok_def value_at_fun after_database_def)

lemma settles_get_cluster:
  assumes "w_env w = []" "value_at w (rc_cluster_key rc) = Some (OJson c)"
  shows "settles (get_cluster rc) w (Some c) (value_at w)"
proof -
  from assms(2) obtain v where "w_objects w (rc_cluster_key rc) = Some (OJson c, v)" by (auto simp: value_at_def)
  with assms(1) show ?thesis
    by (simp add: settles_def get_cluster_def act_bind_def reply_def api_get_def ok_def)
qed

lemma rmw_managed_roles_Suc: "rmw_managed_roles rc f = rmw_loop (Suc 4) (rc_cnpg_ns rc) (unwrap_or (rts_cnpg_cluster (rt_spec rc)) []) f"
  by (simp add: rmw_managed_roles_def GC_ROLE_RMW_RETRIES_def ROLE_RMW_RETRIES_def rc_cnpg_ns_def numeral_eq_Suc)

lemma settles_finalize:
  assumes "w_env w = []" "value_at w (rc_cluster_key rc) = Some (OJson c)" "role_list_ok c"
  obtains c' where "settles (finalize_drop rc rc_ns) w (Requeue REQUEUE_AFTER)
      (finalized rc rc_ns ((value_at w)(rc_cluster_key rc := Some (OJson c'))))"
    "role_list_ok c'" "roles_of c' = remove_role (roles_of c) (rc_role rc)"
proof -
  obtain c' where splice: "splice_roles (unwrap_or (rts_cnpg_cluster (rt_spec rc)) []) c
      (remove_role (roles_of c) (rc_role rc)) = Inr c'" and ok: "role_list_ok c'"
    by (rule splice_ok [OF assms(3)])
  let ?V = "(value_at w)(rc_cluster_key rc := Some (OJson c'))"
  have prune: "settles (remove_managed_role rc) w () ?V"
    unfolding remove_managed_role_def rmw_managed_roles_Suc
    by (rule settles_bind [where r = True], unfold rc_cluster_key_def, rule settles_rmw)
      (use assms(1,2) splice in \<open>auto simp: rc_cluster_key_def intro: settles_ok\<close>)
  have "settles (finalize_drop rc rc_ns) w (Requeue REQUEUE_AFTER) (finalized rc rc_ns ?V)"
    unfolding finalize_drop_def delete_password_secret_def delete_retained_claim_def
    by (rule settles_bind [OF prune], rule settles_bind [OF settles_delete], assumption,
        rule settles_bind [OF settles_delete], assumption)
      (auto simp: finalized_def intro: settles_ok)
  from this ok splice_roles_Inr(1) [OF splice] show thesis by (rule that)
qed

lemma settles_mark:
  assumes "w_env w = []" "value_at w (rc_cluster_key rc) = Some (OJson c)" "role_list_ok c"
  obtains c' where "settles (set_role_absent rc) w True ((value_at w)(rc_cluster_key rc := Some (OJson c')))"
    "role_list_ok c'" "roles_of c' = role_absent_upsert (roles_of c) (rc_role rc)"
proof -
  obtain c' where splice: "splice_roles (unwrap_or (rts_cnpg_cluster (rt_spec rc)) []) c
      (role_absent_upsert (roles_of c) (rc_role rc)) = Inr c'" and ok: "role_list_ok c'"
    by (rule splice_ok [OF assms(3)])
  have "settles (set_role_absent rc) w True ((value_at w)(rc_cluster_key rc := Some (OJson c')))"
    unfolding set_role_absent_def rmw_managed_roles_Suc rc_cluster_key_def
    by (rule settles_rmw) (use assms(1,2) splice in \<open>simp_all add: rc_cluster_key_def\<close>)
  from this ok splice_roles_Inr(1) [OF splice] show thesis by (rule that)
qed

text \<open>One pass, by what the cluster says of the role.\<close>

lemma gc_drop_pass:
  assumes w: "w_env w = []" and c: "value_at w (rc_cluster_key rc) = Some (OJson c)" and ok: "role_list_ok c"
  obtains
    (marked) c' where "settles (gc_drop_cnpg ssa rc rc_ns) w (Requeue ROLE_DROP_REQUEUE)
        ((after_database ssa rc (value_at w))(rc_cluster_key rc := Some (OJson c')))"
      "role_list_ok c'" "roles_of c' = role_absent_upsert (roles_of c) (rc_role rc)"
      "role_entry_ensure c (rc_role rc) \<noteq> Some ''absent''"
  | (waiting) "settles (gc_drop_cnpg ssa rc rc_ns) w (Requeue ROLE_DROP_REQUEUE) (after_database ssa rc (value_at w))"
      "role_entry_ensure c (rc_role rc) = Some ''absent''"
      "\<not> role_is_dropped (managed_roles_status c) (rc_role rc)"
  | (collected) c' where "settles (gc_drop_cnpg ssa rc rc_ns) w (Requeue REQUEUE_AFTER)
        (finalized rc rc_ns ((after_database ssa rc (value_at w))(rc_cluster_key rc := Some (OJson c'))))"
      "role_list_ok c'" "roles_of c' = remove_role (roles_of c) (rc_role rc)"
      "role_entry_ensure c (rc_role rc) = Some ''absent''" "role_is_dropped (managed_roles_status c) (rc_role rc)"
proof -
  let ?V = "after_database ssa rc (value_at w)"
  obtain w1 where w1: "remove_database ssa rc w = (Inr (), w1)" "w_env w1 = []" "value_at w1 = ?V"
    using settles_remove_database [OF w] by (auto simp: settles_def)
  with c have c1: "value_at w1 (rc_cluster_key rc) = Some (OJson c)" by simp
  obtain w2 where w2: "get_cluster rc w1 = (Inr (Some c), w2)" "w_env w2 = []" "value_at w2 = ?V"
    using settles_get_cluster [OF w1(2) c1] w1(3) by (auto simp: settles_def)
  with c1 w1(3) have c2: "value_at w2 (rc_cluster_key rc) = Some (OJson c)" by simp
  have pass: "settles (gc_drop_cnpg ssa rc rc_ns) w r V = settles (role_phase rc rc_ns (Some c)) w2 r V" for r V
    by (simp add: settles_def gc_drop_cnpg_def act_bind_def w1 w2)
  show thesis
  proof (cases "role_entry_ensure c (rc_role rc) = Some ''absent''")
    case False
    obtain c' where mark: "settles (set_role_absent rc) w2 True (?V(rc_cluster_key rc := Some (OJson c')))" and
      c': "role_list_ok c'" "roles_of c' = role_absent_upsert (roles_of c) (rc_role rc)"
      using settles_mark [OF w2(2) c2 ok] w2(3) by metis
    have "settles (role_phase rc rc_ns (Some c)) w2 (Requeue ROLE_DROP_REQUEUE) (?V(rc_cluster_key rc := Some (OJson c')))"
      using False by (simp add: role_phase_def settles_bind [OF mark] settles_ok)
    with c' False show thesis using marked pass by blast
  next
    case True
    show thesis
    proof (cases "role_is_dropped (managed_roles_status c) (rc_role rc)")
      case False
      with True w2 have "settles (role_phase rc rc_ns (Some c)) w2 (Requeue ROLE_DROP_REQUEUE) ?V"
        by (simp add: role_phase_def settles_ok)
      with True False show thesis using waiting pass by blast
    next
      case dropped: True
      obtain c' where "settles (finalize_drop rc rc_ns) w2 (Requeue REQUEUE_AFTER)
          (finalized rc rc_ns (?V(rc_cluster_key rc := Some (OJson c'))))" and
        c': "role_list_ok c'" "roles_of c' = remove_role (roles_of c) (rc_role rc)"
        using settles_finalize [OF w2(2) c2 ok] w2(3) by metis
      with True dropped have "settles (role_phase rc rc_ns (Some c)) w2 (Requeue REQUEUE_AFTER)
          (finalized rc rc_ns (?V(rc_cluster_key rc := Some (OJson c'))))"
        by (simp add: role_phase_def)
      with c' True dropped show thesis using collected pass by blast
    qed
  qed
qed

subsection \<open>Rounds of the collector and CloudNativePG\<close>

text \<open>
  A round is a pass of the collector, while the snapshot is there, followed by the Postgres
  operator. That operator cooperates when it keeps the specification of the cluster, leaves
  Secrets and snapshots alone, and from round \<open>d\<close> on reports a role that is declared absent as
  reconciled.
\<close>

fun gc_rounds ::
  "(nat \<Rightarrow> world \<Rightarrow> world) \<Rightarrow> (kobj option \<Rightarrow> json \<Rightarrow> kobj) \<Rightarrow> retained_claim \<Rightarrow> string \<Rightarrow> nat \<Rightarrow> world \<Rightarrow> world" where
  "gc_rounds cnpg ssa rc rc_ns 0 w = w"
| "gc_rounds cnpg ssa rc rc_ns (Suc n) w =
     (let w' = gc_rounds cnpg ssa rc rc_ns n w
      in cnpg n (if value_at w' (snapshot_key rc_ns (rt_name rc)) = None then w'
                 else snd (gc_drop_cnpg ssa rc rc_ns w')))"

definition cooperates :: "nat \<Rightarrow> string \<Rightarrow> objkey \<Rightarrow> (nat \<Rightarrow> world \<Rightarrow> world) \<Rightarrow> bool" where
  "cooperates d role ck cnpg \<longleftrightarrow> (\<forall>n w. w_env w = [] \<longrightarrow> w_env (cnpg n w) = [] \<and>
     (\<forall>k. fst k = KSecret \<or> fst k = KRetainedClaim \<longrightarrow> value_at (cnpg n w) k = value_at w k) \<and>
     (\<forall>c. value_at w ck = Some (OJson c) \<longrightarrow> (\<exists>c'. value_at (cnpg n w) ck = Some (OJson c') \<and>
        json_get c' ''spec'' = json_get c ''spec'' \<and>
        (d \<le> n \<and> role_entry_ensure c role = Some ''absent'' \<longrightarrow> role_is_dropped (managed_roles_status c') role))))"

text \<open>Where a collection stands after a round.\<close>

definition collection ::
  "nat \<Rightarrow> retained_claim \<Rightarrow> string \<Rightarrow> json list \<Rightarrow> nat \<Rightarrow> world \<Rightarrow> bool" where
  "collection d rc rc_ns others n w \<longleftrightarrow> w_env w = [] \<and>
     (\<exists>c. value_at w (rc_cluster_key rc) = Some (OJson c) \<and> role_list_ok c \<and>
        foreign_roles (rc_role rc) c = others \<and>
        (value_at w (snapshot_key rc_ns (rt_name rc)) = None \<and> value_at w (rc_password_key rc) = None \<and>
           own_role (rc_role rc) c = [] \<or>
         value_at w (snapshot_key rc_ns (rt_name rc)) \<noteq> None \<and> n \<le> Suc d \<and>
           (1 \<le> n \<longrightarrow> role_entry_ensure c (rc_role rc) = Some ''absent'') \<and>
           (d + 1 \<le> n \<longrightarrow> role_is_dropped (managed_roles_status c) (rc_role rc))))"

lemma settlesD: "settles m w r V \<Longrightarrow> w_env (snd (m w)) = [] \<and> value_at (snd (m w)) = V"
  by (auto simp: settles_def)

lemma foreign_roles_remove [simp]:
  "roles_of c' = remove_role (roles_of c) role \<Longrightarrow> foreign_roles role c' = foreign_roles role c \<and> own_role role c' = []"
  by (simp add: foreign_roles_def own_role_def remove_role_def)

lemma foreign_roles_absent:
  "roles_of c' = role_absent_upsert (roles_of c) role \<Longrightarrow> foreign_roles role c' = foreign_roles role c"
  by (simp add: foreign_roles_def role_absent_upsert_def merge_role_def)

text \<open>What the operator's part of a round keeps.\<close>

lemma cooperates_round:
  assumes "cooperates d (rc_role rc) (rc_cluster_key rc) cnpg" "w_env w = []"
    "value_at w (rc_cluster_key rc) = Some (OJson c)"
  obtains c' where "w_env (cnpg n w) = []" "value_at (cnpg n w) (rc_cluster_key rc) = Some (OJson c')"
    "roles_of c' = roles_of c" "role_list_ok c' = role_list_ok c"
    "role_entry_ensure c' (rc_role rc) = role_entry_ensure c (rc_role rc)"
    "d \<le> n \<Longrightarrow> role_entry_ensure c (rc_role rc) = Some ''absent'' \<Longrightarrow>
      role_is_dropped (managed_roles_status c') (rc_role rc)"
    "value_at (cnpg n w) (rc_password_key rc) = value_at w (rc_password_key rc)"
    "value_at (cnpg n w) (snapshot_key ns nm) = value_at w (snapshot_key ns nm)"
proof -
  from assms have env: "w_env (cnpg n w) = []" and
    others: "\<And>k. fst k = KSecret \<or> fst k = KRetainedClaim \<Longrightarrow> value_at (cnpg n w) k = value_at w k" and
    "\<exists>c'. value_at (cnpg n w) (rc_cluster_key rc) = Some (OJson c') \<and> json_get c' ''spec'' = json_get c ''spec'' \<and>
      (d \<le> n \<and> role_entry_ensure c (rc_role rc) = Some ''absent'' \<longrightarrow>
        role_is_dropped (managed_roles_status c') (rc_role rc))"
    unfolding cooperates_def by blast+
  then obtain c' where c': "value_at (cnpg n w) (rc_cluster_key rc) = Some (OJson c')"
      "json_get c' ''spec'' = json_get c ''spec''"
      "d \<le> n \<Longrightarrow> role_entry_ensure c (rc_role rc) = Some ''absent'' \<Longrightarrow>
        role_is_dropped (managed_roles_status c') (rc_role rc)"
    by blast
  show thesis
    by (rule that [OF env c'(1) same_spec(1) [OF c'(2)] same_spec(2) [OF c'(2)] same_spec(3) [OF c'(2)] c'(3)])
      (simp_all add: others rc_password_key_def snapshot_key_def)
qed

lemma collection_step:
  assumes co: "cooperates d (rc_role rc) (rc_cluster_key rc) cnpg"
    and inv: "collection d rc rc_ns others n w"
  shows "collection d rc rc_ns others (Suc n)
    (cnpg n (if value_at w (snapshot_key rc_ns (rt_name rc)) = None then w else snd (gc_drop_cnpg ssa rc rc_ns w)))"
proof -
  let ?snap = "snapshot_key rc_ns (rt_name rc)" and ?role = "rc_role rc"
  from inv obtain c where w: "w_env w = []" and c: "value_at w (rc_cluster_key rc) = Some (OJson c)"
    and okc: "role_list_ok c" and others: "foreign_roles ?role c = others"
    by (auto simp: collection_def)
  show ?thesis
  proof (cases "value_at w ?snap = None")
    case True
    with inv c have "value_at w (rc_password_key rc) = None" "own_role ?role c = []"
      by (auto simp: collection_def)
    with True others okc cooperates_round [OF co w c, of n rc_ns "rt_name rc"] show ?thesis
      by (fastforce simp: collection_def foreign_roles_def own_role_def)
  next
    case present: False
    with inv c have phase: "1 \<le> n \<longrightarrow> role_entry_ensure c ?role = Some ''absent''"
        "d + 1 \<le> n \<longrightarrow> role_is_dropped (managed_roles_status c) ?role" "n \<le> Suc d"
      by (auto simp: collection_def)
    let ?w = "snd (gc_drop_cnpg ssa rc rc_ns w)"
    show ?thesis
    proof (cases rule: gc_drop_pass [OF w c okc, of ssa rc_ns, case_names marked waiting collected])
      case (marked c')
      with phase have "n = 0" by auto
      have "w_env ?w = []" "value_at ?w (rc_cluster_key rc) = Some (OJson c')" "value_at ?w ?snap \<noteq> None"
        using settlesD [OF marked(1)] present by simp_all
      with marked others \<open>n = 0\<close> absent_upsert_ensures [OF marked(3)] foreign_roles_absent [OF marked(3)] present
        cooperates_round [OF co, of ?w c' n rc_ns "rt_name rc"]
      show ?thesis by (fastforce simp: collection_def foreign_roles_def)
    next
      case waiting
      with phase have "n \<le> d" by auto
      have "w_env ?w = []" "value_at ?w (rc_cluster_key rc) = Some (OJson c)" "value_at ?w ?snap \<noteq> None"
        using settlesD [OF waiting(1)] present c by simp_all
      with waiting others okc \<open>n \<le> d\<close> present cooperates_round [OF co, of ?w c n rc_ns "rt_name rc"]
      show ?thesis by (fastforce simp: collection_def foreign_roles_def)
    next
      case (collected c')
      have "w_env ?w = []" "value_at ?w (rc_cluster_key rc) = Some (OJson c')" "value_at ?w ?snap = None"
          "value_at ?w (rc_password_key rc) = None"
        using settlesD [OF collected(1)] by (simp_all add: finalized_def)
      with collected others foreign_roles_remove [OF collected(3)] present
        cooperates_round [OF co, of ?w c' n rc_ns "rt_name rc"]
      show ?thesis by (fastforce simp: collection_def foreign_roles_def own_role_def)
    qed
  qed
qed

subsection \<open>Properties\<close>

definition role_write_ok :: "objkey \<Rightarrow> string \<Rightarrow> event \<Rightarrow> bool" where
  "role_write_ok ck role e \<longleftrightarrow> (case e of Wrote k x y \<Rightarrow> k = ck \<and> touches_only role x y | _ \<Rightarrow> True)"

lemma role_write_ok_benign: "keeps_benign (list_all (role_write_ok ck role))"
proof -
  have "benign e \<Longrightarrow> role_write_ok ck role e" for e by (cases e) (simp_all add: role_write_ok_def)
  then show ?thesis by (simp add: keeps_benign_def)
qed

lemma role_write_ok_events:
  assumes "triple (logged (list_all (role_write_ok ck role))) m (\<lambda>r. logged (\<lambda>L. list_all (role_write_ok ck role) L \<and> X r L))"
    "versions_wf w"
  shows "list_all (role_write_ok ck role) (events m w)"
  by (rule events_logged [where \<phi> = "list_all (role_write_ok ck role)", OF triple_weaken [OF assms(1)] assms(2)])
    (auto elim: logged_mono)

text \<open>C15. Whoever writes the role list of the shared cluster changes nothing but the entries of
  the one role it is about: not the roles of other claims and no other field of the cluster,
  whatever other writers do between its read and its write.\<close>

theorem role_list_writes_keep_other_roles:
  assumes "versions_wf w"
  shows "list_all (role_write_ok (rc_cluster_key rc) (rc_role rc)) (events (set_role_absent rc) w) \<and>
    list_all (role_write_ok (rc_cluster_key rc) (rc_role rc)) (events (remove_managed_role rc) w) \<and>
    list_all (role_write_ok (cluster_key ns cluster) role) (events (upsert_managed_role ns cluster role pw) w) \<and>
    list_all (role_write_ok (cluster_key ns cluster) PLATFORM_ROLE) (events (upsert_platform_role ns cluster pw) w)"
proof (intro conjI)
  let ?k = "rc_cluster_key rc" and ?r = "rc_role rc"
  show "list_all (role_write_ok ?k ?r) (events (set_role_absent rc) w)"
    unfolding set_role_absent_def rmw_managed_roles_Suc rc_cluster_key_def
    by (rule role_write_ok_events [OF absent_upsert.rmw_loop_logged [folded role_absent_upsert_def,
          OF role_write_ok_benign] assms]) (simp add: role_write_ok_def)
  have "triple (logged (list_all (role_write_ok ?k ?r))) (remove_managed_role rc)
      (\<lambda>r. logged (list_all (role_write_ok ?k ?r)))"
    unfolding remove_managed_role_def rmw_managed_roles_Suc rc_cluster_key_def
    by (rule triple_bind [where R = "\<lambda>_. logged (list_all (role_write_ok (rc_cluster_key rc) ?r))"],
        unfold rc_cluster_key_def, rule triple_weaken [OF removal.rmw_loop_logged [OF role_write_ok_benign]])
      (auto intro!: triple_ok simp: role_write_ok_def logged_def split: sum.split)
  then show "list_all (role_write_ok ?k ?r) (events (remove_managed_role rc) w)"
    by (rule events_logged [OF _ assms]) simp
  show "list_all (role_write_ok (cluster_key ns cluster) role) (events (upsert_managed_role ns cluster role pw) w)"
    unfolding upsert_managed_role_def upsert_role_entry_def
    by (rule events_logged [OF present_upsert.upsert_loop_logged [OF role_write_ok_benign] assms])
      (simp_all add: role_write_ok_def)
  show "list_all (role_write_ok (cluster_key ns cluster) PLATFORM_ROLE) (events (upsert_platform_role ns cluster pw) w)"
    unfolding upsert_platform_role_def upsert_role_entry_def
    by (rule events_logged [OF platform_upsert.upsert_loop_logged [OF role_write_ok_benign] assms])
      (simp_all add: role_write_ok_def)
qed

definition shop_pg :: retained_claim where
  "shop_pg = cnpg_snapshot cache_claim ''cloudnative-pg'' ''platform-postgres'' ''cnpg-system'' ''2026-06-10T00:00:00Z''"

definition shop_cluster :: json where
  "shop_cluster = JObject [(''spec'', JObject [(''instances'', JNumber ''1''),
     (''managed'', JObject [(''roles'', JArray [
        managed_role_entry ''claim_blog_db'' ''claim-blog-db-pw'',
        managed_role_entry (rc_role shop_pg) ''claim-shop-cache-pw''])])])]"

definition shop_world :: "turn list \<Rightarrow> world" where
  "shop_world env = \<lparr>w_rev = 3, w_objects = [rc_cluster_key shop_pg \<mapsto> (OJson shop_cluster, 1),
     snapshot_key ''apprafter-system'' (rt_name shop_pg) \<mapsto> (OSnapshot shop_pg, 2),
     rc_password_key shop_pg \<mapsto> (OJson JNull, 3)], w_env = env, w_log = []\<rparr>"

lemma shop_world_wf: "versions_wf (shop_world env)"
  by (auto simp: shop_world_def versions_wf_def split: if_splits)

theorem role_list_writes_keep_other_roles_witness:
  "versions_wf (shop_world [\<lparr>t_writes = [], t_fault = None\<rparr>,
      \<lparr>t_writes = [(rc_cluster_key shop_pg, Some (OJson (JObject [(''spec'', JObject [])])))], t_fault = None\<rparr>]) \<and>
   list_all (role_write_ok (rc_cluster_key shop_pg) (rc_role shop_pg)) (events (set_role_absent shop_pg)
     (shop_world [\<lparr>t_writes = [], t_fault = None\<rparr>,
      \<lparr>t_writes = [(rc_cluster_key shop_pg, Some (OJson (JObject [(''spec'', JObject [])])))], t_fault = None\<rparr>]))"
  using role_list_writes_keep_other_roles [OF shop_world_wf] shop_world_wf by blast

text \<open>C16. A pass that drops a Postgres claim declares the database absent before it touches the
  role, and prunes the role, its password or the snapshot only after the cluster is gone or a
  read of it in this pass showed the role declared absent and confirmed as dropped.\<close>

theorem role_dropped_in_order:
  assumes "versions_wf w"
  shows "orderly (drop_order ssa rc rc_ns) (events (gc_drop_cnpg ssa rc rc_ns) w)"
  using events_logged [OF gc_drop_cnpg_logged assms] by (simp add: drop_log_def)

theorem role_dropped_in_order_witness:
  "versions_wf (shop_world []) \<and>
   orderly (drop_order (\<lambda>x body. OJson body) shop_pg ''apprafter-system'')
     (events (gc_drop_cnpg (\<lambda>x body. OJson body) shop_pg ''apprafter-system'') (shop_world []))"
  using role_dropped_in_order [OF shop_world_wf] shop_world_wf by blast

definition report_reconciled :: "nat \<Rightarrow> world \<Rightarrow> world" where
  "report_reconciled n w = (case value_at w (rc_cluster_key shop_pg) of
       Some (OJson (JObject m)) \<Rightarrow> store_value (rc_cluster_key shop_pg) (Some (OJson (JObject (bt_insert ''status''
         (JObject [(''managedRolesStatus'', JObject [(''byStatus'', JObject [
            (''reconciled'', JArray [JString (rc_role shop_pg)])])])]) m)))) w
     | _ \<Rightarrow> w)"

lemma report_reconciled_cooperates: "cooperates d (rc_role shop_pg) (rc_cluster_key shop_pg) report_reconciled"
  unfolding cooperates_def
proof (intro allI impI conjI)
  fix n k c and w :: world
  assume env: "w_env w = []"
  show "w_env (report_reconciled n w) = []"
    using env by (simp add: report_reconciled_def split: option.split kobj.split json.split)
  show "value_at (report_reconciled n w) k = value_at w k" if "fst k = KSecret \<or> fst k = KRetainedClaim"
    using that by (auto simp: report_reconciled_def value_at_def rc_cluster_key_def cluster_key_def
        split: option.split kobj.split json.split)
  assume c: "value_at w (rc_cluster_key shop_pg) = Some (OJson c)"
  show "\<exists>c'. value_at (report_reconciled n w) (rc_cluster_key shop_pg) = Some (OJson c') \<and>
        json_get c' ''spec'' = json_get c ''spec'' \<and>
        (d \<le> n \<and> role_entry_ensure c (rc_role shop_pg) = Some ''absent'' \<longrightarrow>
          role_is_dropped (managed_roles_status c') (rc_role shop_pg))"
  proof (cases "\<exists>m. c = JObject m")
    case True
    with c show ?thesis
      by (auto simp: report_reconciled_def value_at_def bt_get_insert role_is_dropped_def managed_roles_status_def)
  next
    case False
    then have "report_reconciled n w = w" "role_entry_ensure c (rc_role shop_pg) = None"
      using c by (cases c; simp add: report_reconciled_def role_entry_ensure_def json_get_def)+
    with c show ?thesis by simp
  qed
qed

text \<open>C17. With an API server that answers and a Postgres operator that drops an absent role after
  at most \<open>d\<close> rounds, the collection ends: after \<open>d + 2\<close> rounds the snapshot, the password and
  the role entry are gone, and the roles of the other claims are as they were.\<close>

theorem collection_completes:
  assumes "w_env w = []" "value_at w (rc_cluster_key rc) = Some (OJson c)" "role_list_ok c"
    "value_at w (snapshot_key rc_ns (rt_name rc)) \<noteq> None"
    "cooperates d (rc_role rc) (rc_cluster_key rc) cnpg"
    "w' = gc_rounds cnpg ssa rc rc_ns (d + 2) w"
  shows "value_at w' (snapshot_key rc_ns (rt_name rc)) = None \<and> value_at w' (rc_password_key rc) = None \<and>
    (\<exists>c'. value_at w' (rc_cluster_key rc) = Some (OJson c') \<and> own_role (rc_role rc) c' = [] \<and>
      foreign_roles (rc_role rc) c' = foreign_roles (rc_role rc) c)"
proof -
  have "collection d rc rc_ns (foreign_roles (rc_role rc) c) n (gc_rounds cnpg ssa rc rc_ns n w)" for n
  proof (induction n)
    case 0
    from assms show ?case by (simp add: collection_def)
  next
    case (Suc n)
    show ?case using collection_step [OF assms(5) Suc.IH] by (simp add: Let_def)
  qed
  from this [of "d + 2"] show ?thesis unfolding assms(6) collection_def by auto
qed

theorem collection_completes_witness:
  "w_env (shop_world []) = [] \<and> value_at (shop_world []) (rc_cluster_key shop_pg) = Some (OJson shop_cluster) \<and>
   value_at (gc_rounds report_reconciled (\<lambda>x body. OJson body) shop_pg ''apprafter-system'' (0 + 2) (shop_world []))
     (snapshot_key ''apprafter-system'' (rt_name shop_pg)) = None"
proof -
  have w: "w_env (shop_world []) = []" "value_at (shop_world []) (rc_cluster_key shop_pg) = Some (OJson shop_cluster)"
      "value_at (shop_world []) (snapshot_key ''apprafter-system'' (rt_name shop_pg)) \<noteq> None"
    by (simp_all add: shop_world_def value_at_def)
  moreover have "role_list_ok shop_cluster" by (simp add: shop_cluster_def role_list_ok_def)
  ultimately show ?thesis
    using collection_completes [OF w(1,2) _ w(3) report_reconciled_cooperates [of 0] refl] by blast
qed

subsection \<open>A claim that comes back during the pass\<close>

text \<open>Nobody else acts before this request.\<close>

definition calm_turn :: turn where
  "calm_turn = \<lparr>t_writes = [], t_fault = None\<rparr>"

definition turn_sets :: "turn \<Rightarrow> objkey \<Rightarrow> kobj option option" where
  "turn_sets t k = map_of (rev (t_writes t)) k"

lemma take_turn_calm [simp]: "take_turn calm_turn w = w"
  by (simp add: take_turn_def calm_turn_def)

lemma serve_turn:
  "w_env w = t # ts \<Longrightarrow> t_fault t = None \<Longrightarrow> serve k answer w = answer (take_turn t (w\<lparr>w_env := ts\<rparr>))"
  by (simp add: serve_def Let_def)

lemma serve_calm: "w_env w = calm_turn # ts \<Longrightarrow> serve k answer w = answer (w\<lparr>w_env := ts\<rparr>)"
  using serve_turn [of w calm_turn ts] by (simp add: calm_turn_def [THEN arg_cong, of t_fault])

lemma take_turn_env [simp]: "w_env (take_turn t w) = w_env w"
proof -
  have "w_env (foldl (\<lambda>w (k, x). store_value k x w) w ws) = w_env w" for ws
    by (induction ws arbitrary: w) (auto simp: store_value_def)
  then show ?thesis by (simp add: take_turn_def)
qed

lemma turn_sets_value: "turn_sets t k = Some x \<Longrightarrow> value_at (take_turn t w) k = x"
  and turn_sets_version: "turn_sets t k = Some x \<Longrightarrow> w_objects (take_turn t w) k = Some (y, v) \<Longrightarrow> w_rev w < v"
proof -
  let ?f = "\<lambda>w (k, x). store_value k x w"
  have rev_le: "w_rev w \<le> w_rev (foldl ?f w ws)" for ws
    by (induction ws rule: rev_induct) (auto simp: store_value_def)
  have value_ws: "map_of (rev ws) k = Some x \<Longrightarrow> value_at (foldl ?f w ws) k = x" for ws
    by (induction ws rule: rev_induct) (auto simp: store_value_def value_at_def option.map_comp comp_def option.map_ident split: if_splits)
  have version: "map_of (rev ws) k = Some x \<Longrightarrow> w_objects (foldl ?f w ws) k = Some (y, v) \<Longrightarrow> w_rev w < v" for ws
  proof (induction ws rule: rev_induct)
    case (snoc kx ws)
    then show ?case using rev_le [of ws] by (cases kx) (auto simp: store_value_def split: if_splits)
  qed simp
  show "turn_sets t k = Some x \<Longrightarrow> value_at (take_turn t w) k = x"
    by (simp add: turn_sets_def take_turn_def value_ws)
  show "turn_sets t k = Some x \<Longrightarrow> w_objects (take_turn t w) k = Some (y, v) \<Longrightarrow> w_rev w < v"
    by (simp add: turn_sets_def take_turn_def version)
qed

text \<open>The two calm requests with which a pass reaches its last phase.\<close>

lemma calm_until_finalize:
  assumes w: "versions_wf w" "w_env w = calm_turn # calm_turn # ts"
    and c: "value_at w (rc_cluster_key rc) = Some (OJson c)" "role_entry_ensure c (rc_role rc) = Some ''absent''"
      "role_is_dropped (managed_roles_status c) (rc_role rc)"
  obtains w2 where "gc_drop_cnpg ssa rc rc_ns w = finalize_drop rc rc_ns w2" "w_env w2 = ts" "versions_wf w2"
    "value_at w2 (rc_cluster_key rc) = Some (OJson c)"
proof -
  let ?d = "rc_database_key rc" and ?k = "rc_cluster_key rc"
  let ?w1 = "write_value ?d (Some (ssa (value_at w ?d) (absent_database rc))) (w\<lparr>w_env := calm_turn # ts\<rparr>)"
  have ne: "?k \<noteq> ?d" by (simp add: rc_cluster_key_def cluster_key_def rc_database_key_def)
  have drop: "remove_database ssa rc w = (Inr (), ?w1)"
    by (simp add: remove_database_def act_bind_def reply_def api_apply_def serve_calm [OF w(2)] ok_def value_at_def)
  obtain v where v: "w_objects w ?k = Some (OJson c, v)" using c(1) by (auto simp: value_at_def)
  have env: "w_env ?w1 = calm_turn # ts" by (simp add: write_value_def note_event_def store_value_def)
  have obj: "w_objects ?w1 ?k = Some (OJson c, v)" using v ne by (simp add: write_value_def note_event_def store_value_def)
  let ?w2 = "note_event (Read ?k (OJson c)) (?w1\<lparr>w_env := ts\<rparr>)"
  have get: "get_cluster rc ?w1 = (Inr (Some c), ?w2)"
    using obj by (simp add: get_cluster_def act_bind_def reply_def api_get_def serve_calm [OF env] ok_def)
  show thesis
  proof (rule that)
    show "gc_drop_cnpg ssa rc rc_ns w = finalize_drop rc rc_ns ?w2"
      by (simp only: gc_drop_cnpg_def act_bind_def drop get prod.case sum.case) (simp add: role_phase_def c(2,3))
    show "w_env ?w2 = ts" by (simp add: note_event_def)
    show "versions_wf ?w2" using w(1) by (auto simp: versions_wf_def write_value_def note_event_def store_value_def intro: le_SucI)
    show "value_at ?w2 ?k = Some (OJson c)" using obj by (simp add: value_at_def note_event_def)
  qed
qed

text \<open>What is left to do once the role entry has been handled, when nobody else acts.\<close>

definition after_entry :: "retained_claim \<Rightarrow> string \<Rightarrow> action act" where
  "after_entry rc rc_ns = act_bind (delete_password_secret rc) (\<lambda>_. act_bind (delete_retained_claim rc_ns (rt_name rc)) (\<lambda>_.
     ok (Requeue REQUEUE_AFTER)))"

lemma settles_after_entry:
  "w_env w = [] \<Longrightarrow> settles (after_entry rc rc_ns) w (Requeue REQUEUE_AFTER) (finalized rc rc_ns (value_at w))"
  unfolding after_entry_def delete_password_secret_def delete_retained_claim_def
  by (rule settles_bind [OF settles_delete], assumption, rule settles_bind [OF settles_delete], assumption)
    (auto simp: finalized_def intro: settles_ok)

lemma finalize_drop_after: "finalize_drop rc rc_ns = act_bind (rmw_managed_roles rc (\<lambda>existing. remove_role existing (rc_role rc)))
    (\<lambda>_. after_entry rc rc_ns)"
  by (auto simp: finalize_drop_def remove_managed_role_def after_entry_def act_bind_def ok_def fun_eq_iff split: sum.splits prod.splits)

lemma finalized_keys [simp]:
  "finalized rc rc_ns V (rc_cluster_key rc) = V (rc_cluster_key rc)"
  "finalized rc rc_ns V (rc_password_key rc) = None" "finalized rc rc_ns V (snapshot_key rc_ns (rt_name rc)) = None"
  by (simp_all add: finalized_def rc_cluster_key_def cluster_key_def rc_password_key_def snapshot_key_def)

text \<open>The turn of the other client lands before the role list is read, or between that read and its write.\<close>

lemma turn_before_removal:
  assumes w: "versions_wf w" "value_at w (rc_cluster_key rc) = Some (OJson c)" "role_list_ok c" "w_env w \<in> {[t], [calm_turn, t]}"
    and t: "t_fault t = None" "turn_sets t (rc_cluster_key rc) = Some (Some (OJson c'))" "role_list_ok c'"
  obtains V c'' where "settles (finalize_drop rc rc_ns) w (Requeue REQUEUE_AFTER) (finalized rc rc_ns V)"
    "V (rc_cluster_key rc) = Some (OJson c'')" "roles_of c'' = remove_role (roles_of c') (rc_role rc)"
proof -
  let ?k = "rc_cluster_key rc" and ?ns = "rc_cnpg_ns rc" and ?cl = "unwrap_or (rts_cnpg_cluster (rt_spec rc)) []"
  let ?f = "\<lambda>existing. remove_role existing (rc_role rc)"
  obtain c'' where splice: "splice_roles ?cl c' (?f (roles_of c')) = Inr c''" by (rule splice_ok [OF t(3)])
  have rest: "settles (rmw_loop (Suc n) ?ns ?cl ?f) w0 True ((value_at w0)(?k := Some (OJson c'')))"
    if "w_env w0 = []" "value_at w0 ?k = Some (OJson c')" for w0 n
    unfolding rc_cluster_key_def by (rule settles_rmw) (use that splice in \<open>simp_all add: rc_cluster_key_def\<close>)
  have "\<exists>V. settles (rmw_loop (Suc 4) ?ns ?cl ?f) w True V \<and> V ?k = Some (OJson c'')"
  proof (cases "w_env w = [t]")
    case True
    let ?w0 = "take_turn t (w\<lparr>w_env := []\<rparr>)"
    have first: "rmw_loop (Suc m) ?ns ?cl ?f w = rmw_loop (Suc m) ?ns ?cl ?f ?w0" for m
      by (simp add: act_bind_def reply_def api_get_def serve_turn [OF True t(1)])
    have "w_env ?w0 = []" "value_at ?w0 ?k = Some (OJson c')" using turn_sets_value [OF t(2)] by simp_all
    from rest [OF this, of 4] show ?thesis unfolding settles_def first [of 4] by auto
  next
    case False
    with w(4) have env: "w_env w = [calm_turn, t]" by simp
    obtain v where v: "w_objects w ?k = Some (OJson c, v)" using w(2) by (auto simp: value_at_def)
    obtain d where d: "splice_roles ?cl c (?f (roles_of c)) = Inr d" by (rule splice_ok [OF w(3)])
    let ?w1 = "note_event (Read ?k (OJson c)) (w\<lparr>w_env := [t]\<rparr>)"
    let ?w2 = "take_turn t (?w1\<lparr>w_env := []\<rparr>)"
    have env1: "w_env ?w1 = [t]" by (simp add: note_event_def)
    obtain v' where v': "w_objects ?w2 ?k = Some (OJson c', v')"
      using turn_sets_value [OF t(2), of "?w1\<lparr>w_env := []\<rparr>"] by (auto simp: value_at_def)
    then have "w_rev w < v'" using turn_sets_version [OF t(2) v'] by (simp add: note_event_def)
    moreover have "v \<le> w_rev w" using w(1) v unfolding versions_wf_def by blast
    ultimately have stale: "v' \<noteq> v" by simp
    have retry: "rmw_loop (Suc m) ?ns ?cl ?f w = rmw_loop m ?ns ?cl ?f (note_event (Stale ?k) ?w2)" for m
      using v v' d stale
      by (simp add: act_bind_def reply_def api_get_def api_replace_def serve_calm [OF env]
          serve_turn [OF env1 t(1)] flip: rc_cluster_key_def)
    have "value_at (note_event (Stale ?k) ?w2) ?k = Some (OJson c')" "w_env (note_event (Stale ?k) ?w2) = []"
      using turn_sets_value [OF t(2)] by (simp_all add: note_event_def value_at_def)
    from rest [OF this(2,1), of 3] show ?thesis unfolding settles_def retry [of 4] by (auto simp: numeral_eq_Suc)
  qed
  then obtain V where V: "settles (rmw_managed_roles rc ?f) w True V" "V ?k = Some (OJson c'')"
    unfolding rmw_managed_roles_Suc by blast
  have "settles (finalize_drop rc rc_ns) w (Requeue REQUEUE_AFTER) (finalized rc rc_ns V)"
    unfolding finalize_drop_after by (rule settles_bind [OF V(1)]) (use settles_after_entry in blast)
  from this V(2) splice_roles_Inr(1) [OF splice] show thesis by (rule that)
qed

text \<open>It lands after the role entry was removed.\<close>

lemma turn_after_removal:
  assumes w: "value_at w (rc_cluster_key rc) = Some (OJson c)" "role_list_ok c" "w_env w = [calm_turn, calm_turn, t]"
    and t: "t_fault t = None" "turn_sets t (rc_cluster_key rc) = Some (Some (OJson c'))"
  obtains V where "settles (finalize_drop rc rc_ns) w (Requeue REQUEUE_AFTER) (finalized rc rc_ns V)"
    "V (rc_cluster_key rc) = Some (OJson c')"
proof -
  let ?k = "rc_cluster_key rc" and ?f = "\<lambda>existing. remove_role existing (rc_role rc)"
  obtain v where v: "w_objects w ?k = Some (OJson c, v)" using w(1) by (auto simp: value_at_def)
  obtain d where d: "splice_roles (unwrap_or (rts_cnpg_cluster (rt_spec rc)) []) c (?f (roles_of c)) = Inr d"
    by (rule splice_ok [OF w(2)])
  let ?w1 = "note_event (Read ?k (OJson c)) (w\<lparr>w_env := [calm_turn, t]\<rparr>)"
  have env1: "w_env ?w1 = [calm_turn, t]" and obj1: "w_objects ?w1 ?k = Some (OJson c, v)" using v by (simp_all add: note_event_def)
  let ?w2 = "write_value ?k (Some (OJson d)) (?w1\<lparr>w_env := [t]\<rparr>)"
  have env2: "w_env ?w2 = [t]" by (simp add: write_value_def note_event_def store_value_def)
  have "rmw_loop (Suc m) (rc_cnpg_ns rc) (unwrap_or (rts_cnpg_cluster (rt_spec rc)) []) ?f w = (Inr True, ?w2)" for m
    using v d obj1 by (simp add: act_bind_def reply_def api_get_def api_replace_def serve_calm [OF w(3)] serve_calm [OF env1]
        ok_def flip: rc_cluster_key_def)
  then have "rmw_managed_roles rc ?f w = (Inr True, ?w2)" unfolding rmw_managed_roles_Suc .
  then have "finalize_drop rc rc_ns w = after_entry rc rc_ns ?w2" by (simp add: finalize_drop_after act_bind_def)
  also have "\<dots> = after_entry rc rc_ns (take_turn t (?w2\<lparr>w_env := []\<rparr>))"
    by (simp add: after_entry_def delete_password_secret_def delete_ignoring_404_def act_bind_def reply_def api_delete_def
        serve_turn [OF env2 t(1)])
  finally have "settles (finalize_drop rc rc_ns) w (Requeue REQUEUE_AFTER)
      (finalized rc rc_ns (value_at (take_turn t (?w2\<lparr>w_env := []\<rparr>))))"
    using settles_after_entry [of "take_turn t (?w2\<lparr>w_env := []\<rparr>)"] by (simp add: settles_def)
  from this turn_sets_value [OF t(2)] show thesis by (rule that)
qed

text \<open>
  C18. A claim that is provisioned anew while a pass finalizes the drop of its old snapshot
  loses what it was given, wherever in that phase the new provisioning lands (\<open>n\<close> requests into
  the pass, and whatever else is written at that moment): before the role list is read again
  (2) or between that read and its write, which then conflicts and is repeated (3), the pass
  removes every entry of the role from the list the provisioning wrote, and deletes the
  password; after the removal and before the deletion of the password (4), the entry stays and
  only the password is lost. The live guard and the confirmation of the drop were read earlier.
\<close>

theorem reclaim_during_finalize_is_lost:
  assumes "versions_wf w" "w_env w = replicate n calm_turn @ [t]" "n \<in> {2, 3, 4}"
    and "value_at w (rc_cluster_key rc) = Some (OJson c)" "role_list_ok c" "role_entry_ensure c (rc_role rc) = Some ''absent''"
      "role_is_dropped (managed_roles_status c) (rc_role rc)"
    and "t_fault t = None" "turn_sets t (rc_cluster_key rc) = Some (Some (OJson c'))" "role_list_ok c'"
  shows "\<exists>w' c''. gc_drop_cnpg ssa rc rc_ns w = (Inr (Requeue REQUEUE_AFTER), w') \<and>
    value_at w' (rc_password_key rc) = None \<and> value_at w' (snapshot_key rc_ns (rt_name rc)) = None \<and>
    value_at w' (rc_cluster_key rc) = Some (OJson c'') \<and>
    (if n = 4 then c'' = c' else roles_of c'' = remove_role (roles_of c') (rc_role rc) \<and> own_role (rc_role rc) c'' = [])"
proof -
  have "w_env w = calm_turn # calm_turn # replicate (n - 2) calm_turn @ [t]"
    using assms(2,3) by (auto simp: numeral_eq_Suc)
  from calm_until_finalize [OF assms(1) this assms(4,6,7)] obtain w2 where
    pass: "gc_drop_cnpg ssa rc rc_ns w = finalize_drop rc rc_ns w2" and
    w2: "w_env w2 = replicate (n - 2) calm_turn @ [t]" "versions_wf w2" "value_at w2 (rc_cluster_key rc) = Some (OJson c)" .
  have gone: "own_role (rc_role rc) c'' = []" if "roles_of c'' = remove_role (roles_of c') (rc_role rc)" for c''
    using that by (simp add: own_role_def remove_role_def)
  show ?thesis
  proof (cases "n = 4")
    case True
    then have "w_env w2 = [calm_turn, calm_turn, t]" using w2(1) by (simp add: numeral_eq_Suc)
    from turn_after_removal [OF w2(3) assms(5) this assms(8,9)] obtain V where
      "settles (finalize_drop rc rc_ns) w2 (Requeue REQUEUE_AFTER) (finalized rc rc_ns V)" "V (rc_cluster_key rc) = Some (OJson c')" .
    with pass True show ?thesis by (auto simp: settles_def)
  next
    case False
    then have "w_env w2 \<in> {[t], [calm_turn, t]}" using w2(1) assms(3) by (auto simp: numeral_eq_Suc)
    from turn_before_removal [OF w2(2,3) assms(5) this assms(8-10)] obtain V c'' where
      "settles (finalize_drop rc rc_ns) w2 (Requeue REQUEUE_AFTER) (finalized rc rc_ns V)"
      "V (rc_cluster_key rc) = Some (OJson c'')" "roles_of c'' = remove_role (roles_of c') (rc_role rc)" .
    with pass False gone show ?thesis by (auto simp: settles_def)
  qed
qed

definition dropped_cluster :: json where
  "dropped_cluster = JObject [
     (''spec'', JObject [(''managed'', JObject [(''roles'', JArray [managed_role_entry_absent (rc_role shop_pg)])])]),
     (''status'', JObject [(''managedRolesStatus'', JObject [(''byStatus'', JObject [
        (''reconciled'', JArray [JString (rc_role shop_pg)])])])])]"

definition reclaimed_cluster :: json where
  "reclaimed_cluster = JObject [(''spec'', JObject [(''managed'', JObject [(''roles'', JArray [
     managed_role_entry (rc_role shop_pg) ''claim-shop-cache-pw''])])])]"

definition reclaim_turn :: turn where
  "reclaim_turn = \<lparr>t_writes = [(rc_password_key shop_pg, Some (OJson JNull)),
     (rc_cluster_key shop_pg, Some (OJson reclaimed_cluster)),
     (snapshot_key ''apprafter-system'' (rt_name shop_pg), None)], t_fault = None\<rparr>"

definition reclaim_race :: "nat \<Rightarrow> world" where
  "reclaim_race n = \<lparr>w_rev = 2, w_objects = [rc_cluster_key shop_pg \<mapsto> (OJson dropped_cluster, 1),
     snapshot_key ''apprafter-system'' (rt_name shop_pg) \<mapsto> (OSnapshot shop_pg, 2)],
     w_env = replicate n calm_turn @ [reclaim_turn], w_log = []\<rparr>"

theorem reclaim_during_finalize_is_lost_witness:
  "own_role (rc_role shop_pg) reclaimed_cluster \<noteq> [] \<and>
   (\<exists>w' c''. gc_drop_cnpg (\<lambda>x body. OJson body) shop_pg ''apprafter-system'' (reclaim_race 3) = (Inr (Requeue REQUEUE_AFTER), w') \<and>
     value_at w' (rc_password_key shop_pg) = None \<and>
     value_at w' (rc_cluster_key shop_pg) = Some (OJson c'') \<and> own_role (rc_role shop_pg) c'' = [])"
proof -
  have k: "snapshot_key ''apprafter-system'' (rt_name shop_pg) \<noteq> rc_cluster_key shop_pg"
    by (simp add: snapshot_key_def rc_cluster_key_def cluster_key_def)
  have "versions_wf (reclaim_race 3)" by (auto simp: versions_wf_def reclaim_race_def split: if_splits)
  moreover have "w_env (reclaim_race 3) = replicate 3 calm_turn @ [reclaim_turn]" "t_fault reclaim_turn = None"
    "value_at (reclaim_race 3) (rc_cluster_key shop_pg) = Some (OJson dropped_cluster)"
    using k by (simp_all add: reclaim_race_def value_at_def reclaim_turn_def)
  moreover have "turn_sets reclaim_turn (rc_cluster_key shop_pg) = Some (Some (OJson reclaimed_cluster))"
    using k by (simp add: turn_sets_def reclaim_turn_def)
  moreover have "role_list_ok dropped_cluster" "role_list_ok reclaimed_cluster"
    "role_entry_ensure dropped_cluster (rc_role shop_pg) = Some ''absent''"
    "role_is_dropped (managed_roles_status dropped_cluster) (rc_role shop_pg)"
    "own_role (rc_role shop_pg) reclaimed_cluster \<noteq> []"
    by code_simp+
  ultimately show ?thesis
    using reclaim_during_finalize_is_lost [of "reclaim_race 3" 3 reclaim_turn shop_pg dropped_cluster reclaimed_cluster
        "\<lambda>x body. OJson body" "''apprafter-system''"] by auto
qed

end
