(* ===== verification/Nats_Accounts.thy ===== *)
theory Nats_Accounts
  imports Claim_Types Json Names
begin

text \<open>
  The accounts file of the NATS server (\<open>nats_accounts.rs\<close>) and the views of the live claims
  it is rendered from (\<open>nats.rs\<close>): the subjects every application may publish, the holes cut
  into them for its neighbours in the namespace, the quotas, and the file. A \<open>u64\<close> is a 64-bit
  word, and its sums wrap as they do in the release profile, which has no overflow checks.
\<close>

type_synonym u64 = "64 word"

subsection \<open>Views of claims\<close>

record stream_view =
  stv_name :: string
  stv_subjects :: "string list"
  stv_allow_purge :: bool
  stv_retention :: "string option"
  stv_max_bytes :: string

record consume_view =
  cnv_owner :: string
  cnv_stream :: string
  cnv_durable :: string

record claim_view =
  cv_namespace :: string
  cv_app :: string
  cv_dynamic_streams :: bool
  cv_streams :: "stream_view list"
  cv_consumes :: "consume_view list"
  cv_quota_bytes :: u64

definition replace_char :: "char \<Rightarrow> char \<Rightarrow> string \<Rightarrow> string" where
  "replace_char a b s = map (\<lambda>c. if c = a then b else c) s"

definition account_name :: "string \<Rightarrow> string" where
  "account_name namespace = ''ns_'' @ replace_char CHR ''-'' CHR ''_'' namespace"

definition cv_account :: "claim_view \<Rightarrow> string" where
  "cv_account c = account_name (cv_namespace c)"

definition cv_user :: "claim_view \<Rightarrow> string" where
  "cv_user c = ''claim_'' @ cv_namespace c @ ''_'' @ cv_app c @ ''_jetstream''"

definition subject_prefix :: "claim_view \<Rightarrow> string" where
  "subject_prefix c = cv_app c @ ''.''"

definition inbox_prefix :: "claim_view \<Rightarrow> string" where
  "inbox_prefix c = ''_INBOX_'' @ cv_namespace c @ ''_'' @ cv_app c"

definition mgr_user :: "string \<Rightarrow> string" where
  "mgr_user namespace = ''mgr_'' @ namespace"

definition nats_stream_name :: "string \<Rightarrow> string \<Rightarrow> string" where
  "nats_stream_name owner_app declared = owner_app @ ''_'' @ declared"

definition nats_durable_name :: "string \<Rightarrow> string \<Rightarrow> string" where
  "nats_durable_name consumer_app declared = consumer_app @ ''_'' @ declared"

definition DEFAULT_SIZE :: string where "DEFAULT_SIZE = ''small''"

definition declaring_app :: "resource_claim \<Rightarrow> string option" where
  "declaring_app claim = Option.bind (rc_owner_references claim) (\<lambda>refs.
     map_option or_name (List.find (\<lambda>r. or_kind r = ''Application'' \<and> or_controller r = Some True) refs))"

definition consume_owner :: "string \<Rightarrow> jetstream_consume \<Rightarrow> string" where
  "consume_owner app consume = unwrap_or (jsc_from consume) app"

definition dead_letter_subject :: "string \<Rightarrow> string \<Rightarrow> string \<Rightarrow> string \<Rightarrow> string" where
  "dead_letter_subject consumer_app owner_app owner_stream declared_durable =
     ''$JS.EVENT.ADVISORY.CONSUMER.MAX_DELIVERIES.'' @ nats_stream_name owner_app owner_stream @ ''.'' @
     nats_durable_name consumer_app declared_durable"

definition dead_letter_stream :: "string \<Rightarrow> jetstream_consume \<Rightarrow> jetstream_dead_letter \<Rightarrow> jetstream_stream" where
  "dead_letter_stream app consume dlq =
     \<lparr>jss_name = jdl_stream dlq,
      jss_subjects = [dead_letter_subject app (consume_owner app consume) (jsc_stream consume) (jsc_durable consume)],
      jss_storage = Some ''file'', jss_retention = Some ''limits'', jss_max_age = jdl_max_age dlq,
      jss_max_bytes = jdl_max_bytes dlq, jss_allow_purge = False, jss_max_msgs = None,
      jss_max_msgs_per_subject = None, jss_max_msg_size = None, jss_max_consumers = None, jss_discard = None,
      jss_discard_per_subject = None, jss_duplicate_window = None, jss_compression = None,
      jss_allow_direct = None, jss_allow_rollup = None, jss_consumer_limits = None,
      jss_description = None, jss_sources = None, jss_mirror = None, jss_republish = None,
      jss_subject_transform = None, jss_placement = None, jss_replicas = None\<rparr>"

definition materialised_streams :: "string \<Rightarrow> resource_claim_jetstream \<Rightarrow> jetstream_stream list" where
  "materialised_streams app js = rcj_streams js @
     List.map_filter (\<lambda>c. map_option (dead_letter_stream app c) (jsc_dead_letter c)) (rcj_consume js)"

definition stream_view_of :: "jetstream_stream \<Rightarrow> stream_view" where
  "stream_view_of s = \<lparr>stv_name = jss_name s, stv_subjects = jss_subjects s, stv_allow_purge = jss_allow_purge s,
     stv_retention = jss_retention s, stv_max_bytes = jss_max_bytes s\<rparr>"

text \<open>A claim without a namespace (\<open>None\<close> in the code) has an empty one here.\<close>

definition claim_view_of :: "resource_claim \<Rightarrow> u64 btreemap \<Rightarrow> claim_view option" where
  "claim_view_of claim size_bytes =
     (if rcs_type (rc_spec claim) \<noteq> ''jetstream'' then None
      else case rcs_jetstream (rc_spec claim) of
        None \<Rightarrow> None
      | Some js \<Rightarrow>
          (if rc_namespace claim = [] then None
           else case declaring_app claim of
             None \<Rightarrow> None
           | Some app \<Rightarrow> Some
               \<lparr>cv_namespace = rc_namespace claim, cv_app = app, cv_dynamic_streams = rcj_dynamic_streams js,
                cv_streams = map stream_view_of (materialised_streams app js),
                cv_consumes = map (\<lambda>c. \<lparr>cnv_owner = consume_owner app c, cnv_stream = jsc_stream c,
                  cnv_durable = jsc_durable c\<rparr>) (rcj_consume js),
                cv_quota_bytes = unwrap_or (map_of size_bytes (unwrap_or (rcs_size (rc_spec claim)) DEFAULT_SIZE)) 0\<rparr>))"

definition claim_views :: "resource_claim list \<Rightarrow> u64 btreemap \<Rightarrow> claim_view list" where
  "claim_views claims size_bytes = List.map_filter (\<lambda>c. claim_view_of c size_bytes) claims"

subsection \<open>Permissions\<close>

definition ack_fc_patterns :: "string \<Rightarrow> string option \<Rightarrow> string list" where
  "ack_fc_patterns stream durable =
     (let tail = (case durable of Some d \<Rightarrow> stream @ ''.'' @ d | None \<Rightarrow> stream)
      in [''$JS.ACK.'' @ tail @ ''.>'', ''$JS.ACK.*.*.'' @ tail @ ''.>'',
          ''$JS.FC.'' @ tail @ ''.>'', ''$JS.FC.*.*.'' @ tail @ ''.>''])"

definition total_denial_patterns :: "string \<Rightarrow> string list" where
  "total_denial_patterns stream =
     [''$JS.API.*.*.'' @ stream, ''$JS.API.*.*.'' @ stream @ ''.>'',
      ''$JS.API.*.*.*.'' @ stream, ''$JS.API.*.*.*.'' @ stream @ ''.>''] @ ack_fc_patterns stream None"

definition fixed_allows :: "string list" where
  "fixed_allows =
     [''$JS.API.STREAM.INFO.>'', ''$JS.API.STREAM.MSG.GET.>'', ''$JS.API.DIRECT.GET.>'',
      ''$JS.API.CONSUMER.CREATE.>'', ''$JS.API.CONSUMER.DURABLE.CREATE.>'', ''$JS.API.CONSUMER.INFO.>'',
      ''$JS.API.CONSUMER.DELETE.>'', ''$JS.API.CONSUMER.LIST.>'', ''$JS.API.CONSUMER.NAMES.>'',
      ''$JS.API.CONSUMER.MSG.NEXT.>'', ''$JS.API.CONSUMER.PAUSE.>'', ''$JS.API.CONSUMER.RESET.>'']"

definition dynamic_allows :: "string list" where
  "dynamic_allows =
     [''$JS.API.STREAM.CREATE.>'', ''$JS.API.STREAM.UPDATE.>'', ''$JS.API.STREAM.DELETE.>'',
      ''$JS.API.STREAM.MSG.DELETE.>'']"

definition allow_list :: "claim_view \<Rightarrow> string list" where
  "allow_list me = sort_dedup
     ([subject_prefix me @ ''>'', ''$JS.ACK.>'', ''$JS.FC.>'', ''$JS.API.INFO'', ''$JS.API.STREAM.NAMES''] @ fixed_allows @
      map (\<lambda>s. ''$JS.API.STREAM.PURGE.'' @ nats_stream_name (cv_app me) (stv_name s))
        (filter stv_allow_purge (cv_streams me)) @
      (if cv_dynamic_streams me then dynamic_allows else []))"

definition declared_stream_denials :: "claim_view \<Rightarrow> string list" where
  "declared_stream_denials claim = concat (map (\<lambda>s.
     let composed = nats_stream_name (cv_app claim) (stv_name s)
     in [''$JS.API.STREAM.CREATE.'' @ composed, ''$JS.API.STREAM.UPDATE.'' @ composed,
         ''$JS.API.STREAM.DELETE.'' @ composed, ''$JS.API.STREAM.MSG.DELETE.'' @ composed]) (cv_streams claim))"

definition consumes_stream :: "claim_view \<Rightarrow> claim_view \<Rightarrow> stream_view \<Rightarrow> bool" where
  "consumes_stream me claim s \<longleftrightarrow>
     list_ex (\<lambda>c. cnv_owner c = cv_app claim \<and> cnv_stream c = stv_name s) (cv_consumes me)"

definition foreign_stream_denials :: "claim_view \<Rightarrow> claim_view \<Rightarrow> string list" where
  "foreign_stream_denials me claim = concat (map (\<lambda>s.
     if cv_app claim = cv_app me \<or> consumes_stream me claim s then []
     else total_denial_patterns (nats_stream_name (cv_app claim) (stv_name s))) (cv_streams claim))"

definition foreign_consumer_denials :: "claim_view \<Rightarrow> claim_view \<Rightarrow> string list" where
  "foreign_consumer_denials me claim = (if cv_app claim = cv_app me then [] else concat (map (\<lambda>c.
     let composed_stream = nats_stream_name (cnv_owner c) (cnv_stream c);
         composed_durable = nats_durable_name (cv_app claim) (cnv_durable c)
     in [''$JS.API.CONSUMER.*.'' @ composed_stream @ ''.'' @ composed_durable,
         ''$JS.API.CONSUMER.*.*.'' @ composed_stream @ ''.'' @ composed_durable] @
        ack_fc_patterns composed_stream (Some composed_durable)) (cv_consumes claim)))"

definition deny_vector :: "claim_view \<Rightarrow> claim_view list \<Rightarrow> string list" where
  "deny_vector me namespace_claims = sort_dedup
     (concat (map declared_stream_denials namespace_claims) @
      concat (map (foreign_stream_denials me) namespace_claims) @
      concat (map (foreign_consumer_denials me) namespace_claims))"

subsection \<open>The file\<close>

datatype accounts_file_error =
    EmptyPassword string
  | EmptyAccount string
  | GlobalBudgetExceeded u64 u64
  | GlobalMemoryBudgetExceeded u64 u64

definition ACCOUNT_MAX_MEM_FLOOR_BYTES :: u64 where "ACCOUNT_MAX_MEM_FLOOR_BYTES = 64 * 1024 * 1024"
definition ACCOUNT_MAX_MEM_FRACTION_DIVISOR :: u64 where "ACCOUNT_MAX_MEM_FRACTION_DIVISOR = 10"

definition account_max_mem_bytes :: "u64 \<Rightarrow> u64" where
  "account_max_mem_bytes quota = max (quota div ACCOUNT_MAX_MEM_FRACTION_DIVISOR) ACCOUNT_MAX_MEM_FLOOR_BYTES"

definition fmt_subject_list :: "string list \<Rightarrow> string" where
  "fmt_subject_list subjects = ''['' @ join '', '' (map debug_str subjects) @ '']''"

definition namespace_quota_bytes :: "claim_view list \<Rightarrow> u64 \<Rightarrow> u64" where
  "namespace_quota_bytes peers ceiling_bytes = min (sum_list (map cv_quota_bytes peers)) ceiling_bytes"

definition line :: "string \<Rightarrow> string" where
  "line s = s @ [CHR 0x0A]"

definition show_u64 :: "u64 \<Rightarrow> string" where
  "show_u64 n = show_nat (unat n)"

definition mgr_block :: "string \<Rightarrow> string \<Rightarrow> string" where
  "mgr_block mgr pw = concat (map line
     [''    {'', ''      user: '' @ debug_str mgr, ''      password: '' @ debug_str pw, ''      permissions: {'',
      ''        publish: { allow: ['' @ debug_str ''>'' @ ''] }'',
      ''        subscribe: { allow: ['' @ debug_str ''>'' @ '', '' @ debug_str ''_INBOX.>'' @ ''] }'',
      ''      }'', ''    }''])"

definition user_block :: "claim_view list \<Rightarrow> claim_view \<Rightarrow> string \<Rightarrow> string" where
  "user_block peers c pw = concat (map line
     [''    {'', ''      user: '' @ debug_str (cv_user c), ''      password: '' @ debug_str pw, ''      permissions: {'',
      ''        publish: {'',
      ''          allow: '' @ fmt_subject_list (allow_list c),
      ''          deny: '' @ fmt_subject_list (deny_vector c peers),
      ''        }'',
      ''        subscribe: { allow: ['' @ debug_str (subject_prefix c @ ''>'') @ '', '' @
        debug_str (inbox_prefix c @ ''.>'') @ ''] }'',
      ''      }'', ''    }''])"

fun user_blocks :: "(string \<Rightarrow> string) \<Rightarrow> claim_view list \<Rightarrow> claim_view list \<Rightarrow> (accounts_file_error, string) result" where
  "user_blocks password peers [] = Inr []"
| "user_blocks password peers (c # cs) =
     (if password (cv_user c) = [] then Inl (EmptyPassword (cv_user c))
      else result_bind (user_blocks password peers cs) (\<lambda>rest.
        Inr (user_block peers c (password (cv_user c)) @ rest)))"

definition render_account ::
  "string \<Rightarrow> claim_view list \<Rightarrow> u64 \<Rightarrow> (string \<Rightarrow> string) \<Rightarrow> (accounts_file_error, string) result" where
  "render_account namespace peers ceiling_bytes password =
     (let account = account_name namespace; mgr = mgr_user namespace;
          total_quota = namespace_quota_bytes peers ceiling_bytes; max_mem = account_max_mem_bytes total_quota
      in if peers = [] then Inl (EmptyAccount account)
         else if password mgr = [] then Inl (EmptyPassword mgr)
         else result_bind (user_blocks password peers peers) (\<lambda>users. Inr
           (line (account @ '': {'') @
            line (''  jetstream: { max_mem: '' @ show_u64 max_mem @ '', max_file: '' @ show_u64 total_quota @ '' }'') @
            line ''  users: ['' @ mgr_block mgr (password mgr) @ users @ line ''  ]'' @ line ''}'')))"

definition group_by_namespace :: "claim_view list \<Rightarrow> claim_view list btreemap" where
  "group_by_namespace claims =
     foldl (\<lambda>m c. bt_insert (cv_namespace c) (unwrap_or (map_of m (cv_namespace c)) [] @ [c]) m) [] claims"

fun render_accounts ::
  "u64 \<Rightarrow> (string \<Rightarrow> string) \<Rightarrow> claim_view list btreemap \<Rightarrow> (accounts_file_error, string) result" where
  "render_accounts ceiling_bytes password [] = Inr []"
| "render_accounts ceiling_bytes password ((namespace, peers) # rest) =
     result_bind (render_account namespace (sort_le (\<lambda>a b. cv_app a \<le> cv_app b) peers) ceiling_bytes password) (\<lambda>block.
     result_bind (render_accounts ceiling_bytes password rest) (\<lambda>blocks. Inr (block @ blocks)))"

definition render_accounts_file ::
  "claim_view list \<Rightarrow> u64 \<Rightarrow> u64 \<Rightarrow> u64 \<Rightarrow> (string \<Rightarrow> string) \<Rightarrow> (accounts_file_error, string) result" where
  "render_accounts_file claims namespace_ceiling_bytes global_budget_bytes memory_budget_bytes password =
     (let by_namespace = group_by_namespace claims;
          quotas = map (\<lambda>(_, peers). namespace_quota_bytes peers namespace_ceiling_bytes) by_namespace;
          global_total = sum_list quotas; memory_total = sum_list (map account_max_mem_bytes quotas)
      in if global_total > global_budget_bytes then Inl (GlobalBudgetExceeded global_total global_budget_bytes)
         else if memory_total > memory_budget_bytes then Inl (GlobalMemoryBudgetExceeded memory_total memory_budget_bytes)
         else result_bind (render_accounts namespace_ceiling_bytes password by_namespace) (\<lambda>blocks.
           Inr (line ''accounts: {'' @ blocks @ line ''}'')))"

subsection \<open>Subjects\<close>

text \<open>\<open>nats.rs: subjects_overlap\<close>: can two patterns match one subject?\<close>

fun overlap_tokens :: "string list \<Rightarrow> string list \<Rightarrow> bool" where
  "overlap_tokens [] [] = True"
| "overlap_tokens [] (y # ys) = False"
| "overlap_tokens (x # xs) [] = False"
| "overlap_tokens (x # xs) (y # ys) =
     (if x = ''>'' \<or> y = ''>'' then True
      else if x \<noteq> ''*'' \<and> y \<noteq> ''*'' \<and> x \<noteq> y then False
      else overlap_tokens xs ys)"

definition tokens :: "string \<Rightarrow> string list" where
  "tokens s = split_on CHR ''.'' s"

definition subjects_overlap :: "string \<Rightarrow> string \<Rightarrow> bool" where
  "subjects_overlap a b = overlap_tokens (tokens a) (tokens b)"

text \<open>
  A published subject has no wildcards, and for such a subject the overlap is the match of the
  server. What the server does with an account's permissions is its own: a publish goes through
  when an allowed pattern matches and no denied one does.
\<close>

definition literal_subject :: "string \<Rightarrow> bool" where
  "literal_subject s \<longleftrightarrow> list_all (\<lambda>t. t \<noteq> ''*'' \<and> t \<noteq> ''>'' \<and> t \<noteq> []) (tokens s)"

definition nats_matching :: "(string \<Rightarrow> string \<Rightarrow> bool) \<Rightarrow> bool" where
  "nats_matching server \<longleftrightarrow> (\<forall>p s. literal_subject s \<longrightarrow> server p s = subjects_overlap p s)"

definition may_publish :: "(string \<Rightarrow> string \<Rightarrow> bool) \<Rightarrow> claim_view \<Rightarrow> claim_view list \<Rightarrow> string \<Rightarrow> bool" where
  "may_publish server me peers s \<longleftrightarrow>
     list_ex (\<lambda>p. server p s) (allow_list me) \<and> \<not> list_ex (\<lambda>p. server p s) (deny_vector me peers)"

definition plain_name :: "string \<Rightarrow> bool" where
  "plain_name s \<longleftrightarrow> s \<noteq> [] \<and> list_all is_dns_char s"

definition plain_view :: "claim_view \<Rightarrow> bool" where
  "plain_view c \<longleftrightarrow> plain_name (cv_app c) \<and> list_all (\<lambda>s. plain_name (stv_name s)) (cv_streams c) \<and>
     list_all (\<lambda>n. plain_name (cnv_owner n) \<and> plain_name (cnv_stream n) \<and> plain_name (cnv_durable n)) (cv_consumes c)"

lemma split_on_none: "c \<notin> set s \<Longrightarrow> split_on c s = [s]"
  by (induction s) auto

lemma split_on_sep: "c \<notin> set a \<Longrightarrow> split_on c (a @ c # b) = a # split_on c b"
  by (induction a) auto

lemma plain_chars: "plain_name s \<Longrightarrow> CHR ''.'' \<notin> set s \<and> CHR ''_'' \<notin> set s \<and> CHR ''$'' \<notin> set s \<and>
    CHR ''*'' \<notin> set s \<and> CHR ''>'' \<notin> set s"
  by (auto simp: plain_name_def list_all_iff is_dns_char_def)

lemma tokens_plain: "plain_name s \<Longrightarrow> tokens s = [s]" "plain_name s \<Longrightarrow> tokens (s @ CHR ''.'' # t) = s # tokens t"
  by (simp_all add: tokens_def split_on_none split_on_sep plain_chars)

text \<open>A composed name is one token and is read back in one way.\<close>

definition composed :: "string \<Rightarrow> bool" where
  "composed s \<longleftrightarrow> (\<exists>a b. plain_name a \<and> plain_name b \<and> s = a @ ''_'' @ b)"

lemma composed_inj:
  assumes "plain_name a" "plain_name c" "a @ ''_'' @ b = c @ ''_'' @ d"
  shows "a = c \<and> b = d"
proof -
  from assms(1,2) have "takeWhile (\<lambda>x. x \<noteq> CHR ''_'') (a @ ''_'' @ b) = a" "takeWhile (\<lambda>x. x \<noteq> CHR ''_'') (c @ ''_'' @ d) = c"
    by (simp_all add: plain_chars)
  then have "a = c" unfolding assms(3) by simp
  with assms(3) show ?thesis by simp
qed

lemma composed_dot: "composed s \<Longrightarrow> CHR ''.'' \<notin> set s"
  by (auto simp: composed_def plain_chars)

lemma composed_tokens:
  assumes "composed s"
  shows "split_on CHR ''.'' s = [s]" "split_on CHR ''.'' (s @ CHR ''.'' # t) = s # split_on CHR ''.'' t"
  by (simp_all add: split_on_none split_on_sep composed_dot [OF assms])

lemma composed_names [intro]:
  "plain_name a \<Longrightarrow> plain_name b \<Longrightarrow> composed (nats_stream_name a b)"
  "plain_name a \<Longrightarrow> plain_name b \<Longrightarrow> composed (nats_durable_name a b)"
  by (auto simp: composed_def nats_stream_name_def nats_durable_name_def)

lemma composed_ne_Nil: "composed s \<Longrightarrow> s \<noteq> []"
  by (auto simp: composed_def)

lemma composed_ne_star: "composed s \<Longrightarrow> s \<noteq> ''*'' \<and> s \<noteq> ''>''"
  by (auto simp: composed_def append_eq_Cons_conv)

lemma denial_tokens:
  assumes "composed s"
  shows "map tokens (total_denial_patterns s) =
    [[''$JS'', ''API'', ''*'', ''*'', s], [''$JS'', ''API'', ''*'', ''*'', s, ''>''],
     [''$JS'', ''API'', ''*'', ''*'', ''*'', s], [''$JS'', ''API'', ''*'', ''*'', ''*'', s, ''>''],
     [''$JS'', ''ACK'', s, ''>''], [''$JS'', ''ACK'', ''*'', ''*'', s, ''>''],
     [''$JS'', ''FC'', s, ''>''], [''$JS'', ''FC'', ''*'', ''*'', s, ''>'']]"
  by (simp add: total_denial_patterns_def ack_fc_patterns_def tokens_def composed_tokens [OF assms])

text \<open>Against a subject without wildcards the overlap is a plain match.\<close>

fun token_match :: "string list \<Rightarrow> string list \<Rightarrow> bool" where
  "token_match [] ys \<longleftrightarrow> ys = []"
| "token_match (x # xs) ys \<longleftrightarrow> (case ys of [] \<Rightarrow> False | y # ys \<Rightarrow> x = ''>'' \<or> (x = ''*'' \<or> x = y) \<and> token_match xs ys)"

lemma overlap_literal:
  "list_all (\<lambda>t. t \<noteq> ''*'' \<and> t \<noteq> ''>'' \<and> t \<noteq> []) ys \<Longrightarrow> overlap_tokens p ys = token_match p ys"
  by (induction p ys rule: overlap_tokens.induct) auto

lemma token_match_Cons: "token_match (x # xs) ys \<longleftrightarrow>
  (\<exists>y r. ys = y # r \<and> (x = ''>'' \<or> (x = ''*'' \<or> x = y) \<and> token_match xs r))"
  by (cases ys) auto

declare token_match.simps(2) [simp del]

text \<open>The server, as far as the permissions rely on it.\<close>

locale nats_server =
  fixes server :: "string \<Rightarrow> string \<Rightarrow> bool"
  assumes matching: "nats_matching server"
begin

lemma server_match: "literal_subject s \<Longrightarrow> server p s = token_match (tokens p) (tokens s)"
  using matching by (simp add: nats_matching_def subjects_overlap_def literal_subject_def overlap_literal)

lemma publish_iff: "literal_subject s \<Longrightarrow> may_publish server me peers s \<longleftrightarrow>
    (\<exists>p \<in> set (allow_list me). token_match (tokens p) (tokens s)) \<and>
    (\<forall>p \<in> set (deny_vector me peers). \<not> token_match (tokens p) (tokens s))"
  by (auto simp: may_publish_def list_ex_iff server_match)

end

interpretation overlap: nats_server subjects_overlap
  by unfold_locales (simp add: nats_matching_def)

text \<open>The tokens of what an application may publish.\<close>

definition fixed_verbs :: "string list list" where
  "fixed_verbs =
     [[''STREAM'', ''INFO''], [''STREAM'', ''MSG'', ''GET''], [''DIRECT'', ''GET''],
      [''CONSUMER'', ''CREATE''], [''CONSUMER'', ''DURABLE'', ''CREATE''], [''CONSUMER'', ''INFO''],
      [''CONSUMER'', ''DELETE''], [''CONSUMER'', ''LIST''], [''CONSUMER'', ''NAMES''],
      [''CONSUMER'', ''MSG'', ''NEXT''], [''CONSUMER'', ''PAUSE''], [''CONSUMER'', ''RESET'']]"

definition dynamic_verbs :: "string list list" where
  "dynamic_verbs = [[''STREAM'', ''CREATE''], [''STREAM'', ''UPDATE''], [''STREAM'', ''DELETE''], [''STREAM'', ''MSG'', ''DELETE'']]"

definition api_verbs :: "claim_view \<Rightarrow> string list list" where
  "api_verbs me = fixed_verbs @ (if cv_dynamic_streams me then dynamic_verbs else [])"

definition purgeable :: "claim_view \<Rightarrow> string list" where
  "purgeable me = map (\<lambda>s. nats_stream_name (cv_app me) (stv_name s)) (filter stv_allow_purge (cv_streams me))"

lemma allow_list_tokens:
  assumes "plain_view me"
  shows "tokens ` set (allow_list me) =
    {[cv_app me, ''>''], [''$JS'', ''ACK'', ''>''], [''$JS'', ''FC'', ''>''], [''$JS'', ''API'', ''INFO''],
     [''$JS'', ''API'', ''STREAM'', ''NAMES'']} \<union>
    (\<lambda>v. [''$JS'', ''API''] @ v @ [''>'']) ` set (api_verbs me) \<union>
    (\<lambda>s. [''$JS'', ''API'', ''STREAM'', ''PURGE'', s]) ` set (purgeable me)"
proof -
  have app: "plain_name (cv_app me)" and streams: "\<And>s. s \<in> set (cv_streams me) \<Longrightarrow> plain_name (stv_name s)"
    using assms by (simp_all add: plain_view_def list_all_iff)
  have purge: "tokens (''$JS.API.STREAM.PURGE.'' @ nats_stream_name (cv_app me) (stv_name s)) =
      [''$JS'', ''API'', ''STREAM'', ''PURGE'', nats_stream_name (cv_app me) (stv_name s)]"
    if "s \<in> set (cv_streams me)" for s
    using composed_tokens [OF composed_names(1) [OF app streams [OF that]]] by (simp add: tokens_def)
  have own: "tokens (subject_prefix me @ ''>'') = [cv_app me, ''>'']"
    using tokens_plain(2) [OF app, of "''>''"] by (simp add: subject_prefix_def tokens_def)
  let ?api = "\<lambda>v. [''$JS'', ''API''] @ v @ [''>'']"
  have "map tokens fixed_allows = map ?api fixed_verbs" by (simp add: tokens_def fixed_allows_def fixed_verbs_def)
  then have fixed: "tokens ` set fixed_allows = ?api ` set fixed_verbs" by (metis set_map)
  have "map tokens dynamic_allows = map ?api dynamic_verbs" by (simp add: tokens_def dynamic_allows_def dynamic_verbs_def)
  then have dynamic: "tokens ` set dynamic_allows = ?api ` set dynamic_verbs" by (metis set_map)
  have atoms: "tokens ''$JS.ACK.>'' = [''$JS'', ''ACK'', ''>'']" "tokens ''$JS.FC.>'' = [''$JS'', ''FC'', ''>'']"
      "tokens ''$JS.API.INFO'' = [''$JS'', ''API'', ''INFO'']"
      "tokens ''$JS.API.STREAM.NAMES'' = [''$JS'', ''API'', ''STREAM'', ''NAMES'']"
    by (simp_all add: tokens_def)
  have purges: "tokens ` (\<lambda>s. ''$JS.API.STREAM.PURGE.'' @ nats_stream_name (cv_app me) (stv_name s)) `
        set (filter stv_allow_purge (cv_streams me)) =
      (\<lambda>s. [''$JS'', ''API'', ''STREAM'', ''PURGE'', s]) ` set (purgeable me)"
    unfolding purgeable_def set_map image_image by (rule image_cong [OF refl]) (use purge in auto)
  show ?thesis
  proof (cases "cv_dynamic_streams me")
    case True
    show ?thesis unfolding allow_list_def set_sort_dedup set_append set_map image_Un purges fixed api_verbs_def
      if_P [OF True] dynamic list.set image_insert own atoms image_empty by blast
  next
    case False
    show ?thesis unfolding allow_list_def set_sort_dedup set_append set_map image_Un purges fixed api_verbs_def
      if_not_P [OF False] list.set image_insert own atoms image_empty by blast
  qed
qed

subsection \<open>Isolation\<close>

text \<open>
  The requests that operate on a stream: the API names it after a verb of two or three tokens,
  an acknowledgement and a flow-control reply at one of two places, with more behind it.
\<close>

definition addresses :: "string \<Rightarrow> string list \<Rightarrow> bool" where
  "addresses s toks \<longleftrightarrow>
     (\<exists>v rest. (length v = 2 \<or> length v = 3) \<and> toks = [''$JS'', ''API''] @ v @ s # rest) \<or>
     (\<exists>f v rest. (f = ''ACK'' \<or> f = ''FC'') \<and> (v = [] \<or> length v = 2) \<and> rest \<noteq> [] \<and>
        toks = [''$JS'', f] @ v @ s # rest)"

lemma token_match_literal:
  "list_all (\<lambda>t. t \<noteq> ''*'' \<and> t \<noteq> ''>'') v \<Longrightarrow> token_match (v @ w) toks \<longleftrightarrow> (\<exists>r. toks = v @ r \<and> token_match w r)"
proof (induction v arbitrary: toks)
  case (Cons x v)
  then show ?case by (cases toks) (auto simp: token_match_Cons)
qed simp

lemma addressed_matches:
  assumes "composed s" "addresses s toks"
  shows "list_ex (\<lambda>q. token_match q toks) (map tokens (total_denial_patterns s))"
proof -
  have two: "\<exists>a b. v = [a, b]" if "length v = 2" for v :: "string list"
    using that by (auto simp: length_Suc_conv numeral_2_eq_2)
  have three: "\<exists>a b c. v = [a, b, c]" if "length v = 3" for v :: "string list"
    using that by (auto simp: length_Suc_conv numeral_3_eq_3)
  note match = denial_tokens [OF assms(1)] token_match.simps(2)
  from assms(2) consider
      v rest where "length v = 2" "toks = [''$JS'', ''API''] @ v @ s # rest"
    | v rest where "length v = 3" "toks = [''$JS'', ''API''] @ v @ s # rest"
    | f rest where "f = ''ACK'' \<or> f = ''FC''" "rest \<noteq> []" "toks = [''$JS'', f] @ s # rest"
    | f v rest where "f = ''ACK'' \<or> f = ''FC''" "length v = 2" "rest \<noteq> []" "toks = [''$JS'', f] @ v @ s # rest"
    unfolding addresses_def by auto
  then show ?thesis
  proof cases
    case (1 v rest)
    then obtain a b where "v = [a, b]" using two by blast
    with 1 show ?thesis by (cases rest) (simp_all add: match)
  next
    case (2 v rest)
    then obtain a b c where "v = [a, b, c]" using three by blast
    with 2 show ?thesis by (cases rest) (simp_all add: match)
  next
    case (3 f rest)
    then show ?thesis by (cases rest; elim disjE) (simp_all add: match)
  next
    case (4 f v rest)
    then obtain a b where "v = [a, b]" using two by blast
    with 4 show ?thesis by (cases rest; elim disjE) (simp_all add: match)
  qed
qed

lemma api_verbs_plain:
  "v \<in> set (api_verbs me) \<Longrightarrow> list_all (\<lambda>t. t \<noteq> ''*'' \<and> t \<noteq> ''>'') v \<and> (length v = 2 \<or> length v = 3)"
proof -
  have "list_all (\<lambda>v. list_all (\<lambda>t. t \<noteq> ''*'' \<and> t \<noteq> ''>'') v \<and> (length v = 2 \<or> length v = 3)) (fixed_verbs @ dynamic_verbs)"
    by (simp add: fixed_verbs_def dynamic_verbs_def)
  then show "v \<in> set (api_verbs me) \<Longrightarrow> ?thesis" by (auto simp: api_verbs_def list_all_iff split: if_splits)
qed

lemma matches_own: "plain_name a \<Longrightarrow> token_match [a, ''>''] toks \<longleftrightarrow> (\<exists>t ts. toks = a # t # ts)"
  by (auto simp: token_match_Cons plain_name_def is_dns_char_def)

context nats_server
begin

lemma published_tokens:
  assumes "literal_subject s" "plain_view me" "may_publish server me peers s"
  shows "(\<exists>t ts. tokens s = cv_app me # t # ts) \<or> (\<exists>t ts. tokens s = ''$JS'' # ''ACK'' # t # ts) \<or>
    (\<exists>t ts. tokens s = ''$JS'' # ''FC'' # t # ts) \<or> tokens s = [''$JS'', ''API'', ''INFO''] \<or>
    tokens s = [''$JS'', ''API'', ''STREAM'', ''NAMES''] \<or>
    (\<exists>v \<in> set (api_verbs me). \<exists>x rest. tokens s = [''$JS'', ''API''] @ v @ x # rest) \<or>
    (\<exists>x \<in> set (purgeable me). tokens s = [''$JS'', ''API'', ''STREAM'', ''PURGE'', x])"
proof -
  from assms(1,3) obtain p where "p \<in> set (allow_list me)" and m: "token_match (tokens p) (tokens s)"
    by (auto simp: publish_iff)
  then have "tokens p \<in> tokens ` set (allow_list me)" by simp
  then consider "tokens p = [cv_app me, ''>'']" | "tokens p = [''$JS'', ''ACK'', ''>'']" | "tokens p = [''$JS'', ''FC'', ''>'']"
    | "tokens p = [''$JS'', ''API'', ''INFO'']" | "tokens p = [''$JS'', ''API'', ''STREAM'', ''NAMES'']"
    | v where "v \<in> set (api_verbs me)" "tokens p = [''$JS'', ''API''] @ v @ [''>'']"
    | x where "x \<in> set (purgeable me)" "tokens p = [''$JS'', ''API'', ''STREAM'', ''PURGE'', x]"
    unfolding allow_list_tokens [OF assms(2)] by blast
  then show ?thesis
  proof cases
    case 1
    with m assms(2) show ?thesis by (simp add: matches_own plain_view_def)
  next
    case (6 v)
    with m api_verbs_plain have "\<exists>r. tokens s = ([''$JS'', ''API''] @ v) @ r \<and> token_match [''>''] r"
      using token_match_literal [of "[''$JS'', ''API''] @ v" "[''>'']" "tokens s"] by simp
    then have "\<exists>x rest. tokens s = [''$JS'', ''API''] @ v @ x # rest" by (auto simp: token_match_Cons)
    with 6(1) show ?thesis by blast
  next
    case (7 x)
    then have "composed x" using assms(2) by (auto simp: purgeable_def plain_view_def list_all_iff)
    then have "list_all (\<lambda>t. t \<noteq> ''*'' \<and> t \<noteq> ''>'') [''$JS'', ''API'', ''STREAM'', ''PURGE'', x]"
      using composed_ne_star by simp
    with m 7 have "tokens s = [''$JS'', ''API'', ''STREAM'', ''PURGE'', x]"
      using token_match_literal [of "[''$JS'', ''API'', ''STREAM'', ''PURGE'', x]" "[]" "tokens s"] by simp
    with 7(1) show ?thesis by blast
  qed (use m in \<open>auto simp: token_match_Cons\<close>)
qed

lemma not_denied:
  assumes "literal_subject s" "may_publish server me peers s" "p \<in> set (deny_vector me peers)"
  shows "\<not> token_match (tokens p) (tokens s)"
  using assms by (simp add: publish_iff)

lemma foreign_stream_not_addressed:
  assumes "literal_subject s" "may_publish server me peers s" "claim \<in> set peers" "stream \<in> set (cv_streams claim)"
    "cv_app claim \<noteq> cv_app me" "\<not> consumes_stream me claim stream" "plain_view claim"
  shows "\<not> addresses (nats_stream_name (cv_app claim) (stv_name stream)) (tokens s)"
proof -
  let ?s = "nats_stream_name (cv_app claim) (stv_name stream)"
  have comp: "composed ?s" using assms(4,7) by (auto simp: plain_view_def list_all_iff)
  have "set (total_denial_patterns ?s) \<subseteq> set (deny_vector me peers)"
    using assms(3-6) by (fastforce simp: deny_vector_def foreign_stream_denials_def)
  then have deny: "list_all (\<lambda>q. \<not> token_match q (tokens s)) (map tokens (total_denial_patterns ?s))"
    using not_denied [OF assms(1,2)] by (auto simp: list_all_iff)
  show ?thesis
    using deny addressed_matches [OF comp] by (auto simp: list_all_iff list_ex_iff)
qed

end

text \<open>The patterns of a deny vector, by the class that made them.\<close>

lemma deny_tokens:
  assumes "list_all plain_view peers" "p \<in> set (deny_vector me peers)"
  obtains
    (declared) c s v where "c \<in> set peers" "s \<in> set (cv_streams c)"
      "v = [''CREATE''] \<or> v = [''UPDATE''] \<or> v = [''DELETE''] \<or> v = [''MSG'', ''DELETE'']"
      "tokens p = [''$JS'', ''API'', ''STREAM''] @ v @ [nats_stream_name (cv_app c) (stv_name s)]"
  | (foreign_stream) c s where "c \<in> set peers" "s \<in> set (cv_streams c)" "cv_app c \<noteq> cv_app me" "\<not> consumes_stream me c s"
      "tokens p \<in> set (map tokens (total_denial_patterns (nats_stream_name (cv_app c) (stv_name s))))"
  | (foreign_consumer) c n where "c \<in> set peers" "n \<in> set (cv_consumes c)" "cv_app c \<noteq> cv_app me"
      "tokens p \<in> (let st = nats_stream_name (cnv_owner n) (cnv_stream n); du = nats_durable_name (cv_app c) (cnv_durable n)
        in {[''$JS'', ''API'', ''CONSUMER'', ''*'', st, du], [''$JS'', ''API'', ''CONSUMER'', ''*'', ''*'', st, du],
            [''$JS'', ''ACK'', st, du, ''>''], [''$JS'', ''ACK'', ''*'', ''*'', st, du, ''>''],
            [''$JS'', ''FC'', st, du, ''>''], [''$JS'', ''FC'', ''*'', ''*'', st, du, ''>'']})"
proof -
  from assms(2) consider c where "c \<in> set peers" "p \<in> set (declared_stream_denials c)"
    | c where "c \<in> set peers" "p \<in> set (foreign_stream_denials me c)"
    | c where "c \<in> set peers" "p \<in> set (foreign_consumer_denials me c)"
    by (auto simp: deny_vector_def)
  then show thesis
  proof cases
    case (1 c)
    then obtain s where s: "s \<in> set (cv_streams c)" and
      p: "p \<in> set (let composed = nats_stream_name (cv_app c) (stv_name s)
         in [''$JS.API.STREAM.CREATE.'' @ composed, ''$JS.API.STREAM.UPDATE.'' @ composed,
             ''$JS.API.STREAM.DELETE.'' @ composed, ''$JS.API.STREAM.MSG.DELETE.'' @ composed])"
      unfolding declared_stream_denials_def set_concat set_map by blast
    have "composed (nats_stream_name (cv_app c) (stv_name s))"
      using assms(1) 1(1) s by (auto simp: plain_view_def list_all_iff)
    note tok = composed_tokens(1) [OF this]
    let ?form = "\<lambda>v. [''$JS'', ''API'', ''STREAM''] @ v @ [nats_stream_name (cv_app c) (stv_name s)]"
    have "tokens p \<in> tokens ` set (let composed = nats_stream_name (cv_app c) (stv_name s)
         in [''$JS.API.STREAM.CREATE.'' @ composed, ''$JS.API.STREAM.UPDATE.'' @ composed,
             ''$JS.API.STREAM.DELETE.'' @ composed, ''$JS.API.STREAM.MSG.DELETE.'' @ composed])"
      using p by (rule imageI)
    also have "\<dots> = ?form ` {[''CREATE''], [''UPDATE''], [''DELETE''], [''MSG'', ''DELETE'']}"
      by (simp add: Let_def tokens_def tok)
    finally obtain v where "v \<in> {[''CREATE''], [''UPDATE''], [''DELETE''], [''MSG'', ''DELETE'']}" "tokens p = ?form v"
      by (rule imageE)
    then show thesis using declared [OF 1(1) s, of v] by blast
  next
    case (2 c)
    then obtain s where "s \<in> set (cv_streams c)" "cv_app c \<noteq> cv_app me" "\<not> consumes_stream me c s"
      "p \<in> set (total_denial_patterns (nats_stream_name (cv_app c) (stv_name s)))"
      by (auto simp: foreign_stream_denials_def split: if_splits)
    with 2(1) show thesis by (intro foreign_stream) auto
  next
    case (3 c)
    then obtain n where n: "n \<in> set (cv_consumes c)" and other: "cv_app c \<noteq> cv_app me" and
      p: "p \<in> set (let composed_stream = nats_stream_name (cnv_owner n) (cnv_stream n);
         composed_durable = nats_durable_name (cv_app c) (cnv_durable n)
        in [''$JS.API.CONSUMER.*.'' @ composed_stream @ ''.'' @ composed_durable,
         ''$JS.API.CONSUMER.*.*.'' @ composed_stream @ ''.'' @ composed_durable] @
        ack_fc_patterns composed_stream (Some composed_durable))"
      unfolding foreign_consumer_denials_def by (auto simp: Let_def split: if_splits)
    have "composed (nats_stream_name (cnv_owner n) (cnv_stream n))" "composed (nats_durable_name (cv_app c) (cnv_durable n))"
      using assms(1) 3(1) n by (auto simp: plain_view_def list_all_iff)
    note tok = composed_tokens [OF this(1)] composed_tokens [OF this(2)]
    show thesis
      by (rule foreign_consumer [OF 3(1) n other])
        (use p in \<open>auto simp: Let_def ack_fc_patterns_def tokens_def tok\<close>)
  qed
qed

text \<open>A composed name is none of the words of the protocol.\<close>

lemma composed_not_word: "composed s \<Longrightarrow> CHR ''_'' \<notin> set w \<Longrightarrow> s \<noteq> w \<and> w \<noteq> s"
  by (auto simp: composed_def)

text \<open>The requests an application makes of a durable consumer of its own.\<close>

definition own_requests :: "string \<Rightarrow> string \<Rightarrow> string \<Rightarrow> string list" where
  "own_requests st du seq =
     [''$JS.API.CONSUMER.INFO.'' @ st @ ''.'' @ du, ''$JS.API.CONSUMER.MSG.NEXT.'' @ st @ ''.'' @ du,
      ''$JS.API.CONSUMER.DURABLE.CREATE.'' @ st @ ''.'' @ du, ''$JS.ACK.'' @ st @ ''.'' @ du @ ''.'' @ seq]"

definition own_request_tokens :: "string \<Rightarrow> string \<Rightarrow> string \<Rightarrow> string list list" where
  "own_request_tokens st du seq =
     [[''$JS'', ''API'', ''CONSUMER'', ''INFO'', st, du], [''$JS'', ''API'', ''CONSUMER'', ''MSG'', ''NEXT'', st, du],
      [''$JS'', ''API'', ''CONSUMER'', ''DURABLE'', ''CREATE'', st, du], [''$JS'', ''ACK'', st, du, seq]]"

lemma own_requests_tokens:
  assumes "composed st" "composed du" "plain_name seq"
  shows "map tokens (own_requests st du seq) = own_request_tokens st du seq"
  using tokens_plain(1) [OF assms(3)]
  by (simp add: own_requests_def own_request_tokens_def tokens_def composed_tokens [OF assms(1)] composed_tokens [OF assms(2)])

lemma own_request_not_denied:
  assumes peers: "list_all plain_view peers" and me: "plain_view me" and n: "n \<in> set (cv_consumes me)"
    and seq: "plain_name seq" and p: "p \<in> set (deny_vector me peers)"
    and toks: "toks \<in> set (own_request_tokens (nats_stream_name (cnv_owner n) (cnv_stream n))
      (nats_durable_name (cv_app me) (cnv_durable n)) seq)"
  shows "\<not> token_match (tokens p) toks"
proof -
  let ?st = "nats_stream_name (cnv_owner n) (cnv_stream n)" and ?du = "nats_durable_name (cv_app me) (cnv_durable n)"
  have names: "plain_name (cnv_owner n)" "plain_name (cnv_stream n)" "plain_name (cv_app me)" "plain_name (cnv_durable n)"
    using me n by (auto simp: plain_view_def list_all_iff)
  note words = composed_not_word [where w = "''NEXT''"] composed_not_word [where w = "''CREATE''"]
    composed_not_word [where w = seq]
  have noseq: "CHR ''_'' \<notin> set seq" using seq by (simp add: plain_chars)
  show ?thesis
  proof (cases rule: deny_tokens [OF peers p, case_names declared foreign_stream foreign_consumer])
    case (declared c s v)
    then show ?thesis using toks by (auto simp: own_request_tokens_def token_match.simps(2))
  next
    case (foreign_stream c s)
    let ?t = "nats_stream_name (cv_app c) (stv_name s)"
    have plain: "plain_name (cv_app c)" "plain_name (stv_name s)"
      using peers foreign_stream(1,2) by (auto simp: plain_view_def list_all_iff)
    then have comp: "composed ?t" by blast
    have st: "?t \<noteq> ?st"
    proof
      assume "?t = ?st"
      then have "cv_app c = cnv_owner n \<and> stv_name s = cnv_stream n"
        using composed_inj [OF plain(1) names(1)] by (simp add: nats_stream_name_def)
      with n foreign_stream(4) show False by (auto simp: consumes_stream_def list_ex_iff)
    qed
    have du: "?t \<noteq> ?du"
      using composed_inj [OF plain(1) names(3)] foreign_stream(3)
      by (auto simp: nats_stream_name_def nats_durable_name_def)
    show ?thesis
      using foreign_stream(5) toks st du words [OF comp] noseq composed_ne_star [OF comp]
      unfolding denial_tokens [OF comp] own_request_tokens_def list.set
      by (elim insertE emptyE; simp add: token_match.simps(2))
  next
    case (foreign_consumer c m)
    have plain: "plain_name (cv_app c)" "plain_name (cnv_owner m)" "plain_name (cnv_stream m)" "plain_name (cnv_durable m)"
      using peers foreign_consumer(1,2) by (auto simp: plain_view_def list_all_iff)
    then have comp: "composed (nats_stream_name (cnv_owner m) (cnv_stream m))" by blast
    have du: "nats_durable_name (cv_app c) (cnv_durable m) \<noteq> ?du"
      using composed_inj [OF plain(1) names(3)] foreign_consumer(3) by (auto simp: nats_durable_name_def)
    have "composed (nats_durable_name (cv_app c) (cnv_durable m))" using plain by blast
    note durable = composed_ne_star [OF this]
    show ?thesis
      using foreign_consumer(4) toks du words [OF comp] noseq composed_ne_star [OF comp] durable
      unfolding Let_def own_request_tokens_def list.set
      by (elim insertE emptyE; simp add: token_match.simps(2))
  qed
qed

subsection \<open>What the file holds\<close>

lemma bt_canonical:
  assumes "bt_wf m"
  shows "m = map (\<lambda>k. (k, the (map_of m k))) (sorted_list_of_set (set (map fst m)))"
proof -
  have "sorted_list_of_set (set (map fst m)) = map fst m"
    using assms by (simp add: bt_wf_def strict_sorted_iff sorted_list_of_set.idem_if_sorted_distinct del: set_map)
  moreover have "map (\<lambda>k. (k, the (map_of m k))) (map fst m) = m"
    unfolding map_map by (rule map_idI) (use bt_wf_distinct [OF assms] in auto)
  ultimately show ?thesis by simp
qed

definition namespace_group :: "claim_view list \<Rightarrow> string \<Rightarrow> claim_view list option" where
  "namespace_group cs k = (if k \<in> cv_namespace ` set cs then Some (filter (\<lambda>c. cv_namespace c = k) cs) else None)"

lemma group_get: "bt_wf (group_by_namespace cs)" "map_of (group_by_namespace cs) = namespace_group cs"
proof -
  have snoc: "foldl (\<lambda>g c. g @ [c]) [] xs = xs" for xs :: "claim_view list" by (induction xs rule: rev_induct) auto
  show "bt_wf (group_by_namespace cs)" unfolding group_by_namespace_def by (rule bt_group)
  show "map_of (group_by_namespace cs) = namespace_group cs"
    unfolding group_by_namespace_def namespace_group_def fun_eq_iff
    by (simp add: bt_group(2) [of cv_namespace "\<lambda>g c. g @ [c]"] snoc)
qed

lemma group_closed:
  "group_by_namespace cs = map (\<lambda>k. (k, filter (\<lambda>c. cv_namespace c = k) cs))
     (sorted_list_of_set (cv_namespace ` set cs))"
proof -
  note wf = group_get(1) [of cs] and get = group_get(2) [of cs]
  have "set (map fst (group_by_namespace cs)) = dom (namespace_group cs)"
    using get dom_map_of_conv_image_fst [of "group_by_namespace cs"] by simp
  also have "\<dots> = cv_namespace ` set cs" by (auto simp: namespace_group_def dom_def split: if_splits)
  finally have keys: "set (map fst (group_by_namespace cs)) = cv_namespace ` set cs" .
  show ?thesis
    by (subst bt_canonical [OF wf], unfold keys, rule map_cong [OF refl]) (simp add: get namespace_group_def)
qed

interpretation by_app: total_preorder "\<lambda>a b. cv_app a \<le> cv_app b"
  by unfold_locales auto

lemma sort_by_app_perm:
  assumes "mset xs = mset ys" "distinct (map cv_app xs)"
  shows "sort_le (\<lambda>a b. cv_app a \<le> cv_app b) xs = sort_le (\<lambda>a b. cv_app a \<le> cv_app b) ys"
proof -
  let ?s = "sort_le (\<lambda>a b. cv_app a \<le> cv_app b)"
  have "sorted (map cv_app (?s zs))" for zs
    using by_app.sorted_sort [of zs] by (simp add: sorted_map)
  moreover have "mset (map cv_app (?s xs)) = mset (map cv_app (?s ys))" by (simp add: assms(1))
  ultimately have "map cv_app (?s xs) = map cv_app (?s ys)" by (metis properties_for_sort)
  moreover have "inj_on cv_app (set (?s xs) \<union> set (?s ys))"
    using assms mset_eq_setD [OF assms(1)] by (simp add: distinct_map)
  ultimately show ?thesis by (rule map_inj_on)
qed

lemma render_accounts_cong:
  "(\<And>k. k \<in> set ks \<Longrightarrow> sort_le (\<lambda>a b. cv_app a \<le> cv_app b) (f k) = sort_le (\<lambda>a b. cv_app a \<le> cv_app b) (g k)) \<Longrightarrow>
   render_accounts c pw (map (\<lambda>k. (k, f k)) ks) = render_accounts c pw (map (\<lambda>k. (k, g k)) ks)"
  by (induction ks) simp_all

lemma quota_perm: "mset xs = mset ys \<Longrightarrow> namespace_quota_bytes xs c = namespace_quota_bytes ys c"
  by (metis mset_map namespace_quota_bytes_def sum_mset_sum_list)

text \<open>What a successful render rests on.\<close>

lemma user_blocks_Inr: "(\<exists>out. user_blocks pw peers cs = Inr out) \<longleftrightarrow> (\<forall>c \<in> set cs. pw (cv_user c) \<noteq> [])"
proof (induction cs)
  case (Cons c cs)
  then show ?case by (cases "user_blocks pw peers cs") auto
qed simp

lemma render_account_Inr: "(\<exists>out. render_account ns peers c pw = Inr out) \<longleftrightarrow>
  peers \<noteq> [] \<and> pw (mgr_user ns) \<noteq> [] \<and> (\<forall>c \<in> set peers. pw (cv_user c) \<noteq> [])"
  using user_blocks_Inr [of pw peers peers]
  by (cases "user_blocks pw peers peers") (auto simp: render_account_def Let_def)

lemma render_accounts_Inr: "(\<exists>out. render_accounts c pw groups = Inr out) \<longleftrightarrow>
  (\<forall>(ns, peers) \<in> set groups. peers \<noteq> [] \<and> pw (mgr_user ns) \<noteq> [] \<and> (\<forall>c \<in> set peers. pw (cv_user c) \<noteq> []))"
proof (induction groups)
  case (Cons g groups)
  obtain ns peers where g: "g = (ns, peers)" by (cases g)
  let ?a = "render_account ns (sort_le (\<lambda>a b. cv_app a \<le> cv_app b) peers) c pw"
  have "(\<exists>out. ?a = Inr out) \<longleftrightarrow> peers \<noteq> [] \<and> pw (mgr_user ns) \<noteq> [] \<and> (\<forall>c \<in> set peers. pw (cv_user c) \<noteq> [])"
    by (simp add: render_account_Inr)
  with Cons show ?case
    by (cases ?a; cases "render_accounts c pw groups") (auto simp: g)
qed simp

subsection \<open>Properties\<close>

text \<open>C24. Whatever an application may publish does not operate on a stream that another
  application of the namespace declares and it does not consume; and every API request it may
  make is one of two that name no stream, or names its stream right after one of the verbs that
  the permissions list.\<close>

theorem foreign_streams_out_of_reach:
  assumes "nats_matching server" "literal_subject subject" "may_publish server me peers subject"
    "plain_view me" "plain_view claim" "claim \<in> set peers" "stream \<in> set (cv_streams claim)"
    "cv_app claim \<noteq> cv_app me" "\<not> consumes_stream me claim stream"
    "foreign = nats_stream_name (cv_app claim) (stv_name stream)"
  shows "\<not> addresses foreign (tokens subject) \<and>
    (take 2 (tokens subject) = [''$JS'', ''API''] \<longrightarrow>
       tokens subject = [''$JS'', ''API'', ''INFO''] \<or> tokens subject = [''$JS'', ''API'', ''STREAM'', ''NAMES''] \<or>
       (\<exists>v target rest. (v \<in> set (api_verbs me) \<or> v = [''STREAM'', ''PURGE'']) \<and>
          tokens subject = [''$JS'', ''API''] @ v @ target # rest \<and> target \<noteq> foreign))"
proof -
  from assms(1) have srv: "nats_server server" by unfold_locales
  have out: "\<not> addresses foreign (tokens subject)"
    unfolding assms(10) by (rule nats_server.foreign_stream_not_addressed [OF srv assms(2,3,6-9,5)])
  have app: "cv_app me \<noteq> ''$JS''" using assms(4) plain_chars [of "cv_app me"] by (auto simp: plain_view_def)
  have target: "target \<noteq> foreign" if "length v = 2 \<or> length v = 3" "tokens subject = [''$JS'', ''API''] @ v @ target # rest"
    for v target rest
    using out that unfolding addresses_def by blast
  have shape: "(\<exists>v target rest. (v \<in> set (api_verbs me) \<or> v = [''STREAM'', ''PURGE'']) \<and>
      tokens subject = [''$JS'', ''API''] @ v @ target # rest \<and> target \<noteq> foreign)"
    if "(\<exists>v \<in> set (api_verbs me). \<exists>x rest. tokens subject = [''$JS'', ''API''] @ v @ x # rest) \<or>
      (\<exists>x \<in> set (purgeable me). tokens subject = [''$JS'', ''API'', ''STREAM'', ''PURGE'', x])"
    using that
  proof
    assume "\<exists>v \<in> set (api_verbs me). \<exists>x rest. tokens subject = [''$JS'', ''API''] @ v @ x # rest"
    then show ?thesis using target api_verbs_plain by blast
  next
    assume "\<exists>x \<in> set (purgeable me). tokens subject = [''$JS'', ''API'', ''STREAM'', ''PURGE'', x]"
    then obtain x where "tokens subject = [''$JS'', ''API''] @ [''STREAM'', ''PURGE''] @ x # []" by auto
    then show ?thesis using target [of "[''STREAM'', ''PURGE'']"] by fastforce
  qed
  show ?thesis
    using out shape app nats_server.published_tokens [OF srv assms(2,4,3)] by (elim disjE exE) auto
qed

definition orders_app :: claim_view where
  "orders_app = \<lparr>cv_namespace = ''shop'', cv_app = ''orders'', cv_dynamic_streams = False,
     cv_streams = [\<lparr>stv_name = ''placed'', stv_subjects = [''orders.placed''], stv_allow_purge = True,
       stv_retention = None, stv_max_bytes = ''1Gi''\<rparr>], cv_consumes = [], cv_quota_bytes = 1024\<rparr>"

definition mail_app :: claim_view where
  "mail_app = \<lparr>cv_namespace = ''shop'', cv_app = ''mail'', cv_dynamic_streams = True,
     cv_streams = [\<lparr>stv_name = ''outbox'', stv_subjects = [''mail.outbox''], stv_allow_purge = False,
       stv_retention = None, stv_max_bytes = ''1Gi''\<rparr>],
     cv_consumes = [\<lparr>cnv_owner = ''orders'', cnv_stream = ''placed'', cnv_durable = ''notify''\<rparr>],
     cv_quota_bytes = 2048\<rparr>"

lemma shop_views: "plain_view orders_app" "plain_view mail_app"
  by code_simp+

theorem foreign_streams_out_of_reach_witness:
  "may_publish subjects_overlap orders_app [mail_app, orders_app] ''$JS.API.STREAM.INFO.orders_placed'' \<and>
   \<not> addresses (nats_stream_name ''mail'' ''outbox'') (tokens ''$JS.API.STREAM.INFO.orders_placed'')"
proof -
  have m: "nats_matching subjects_overlap" by (simp add: nats_matching_def)
  have l: "literal_subject ''$JS.API.STREAM.INFO.orders_placed''" by code_simp
  have p: "may_publish subjects_overlap orders_app [mail_app, orders_app] ''$JS.API.STREAM.INFO.orders_placed''" by code_simp
  have "mail_app \<in> set [mail_app, orders_app]" "cv_app mail_app \<noteq> cv_app orders_app"
      "hd (cv_streams mail_app) \<in> set (cv_streams mail_app)"
      "\<not> consumes_stream orders_app mail_app (hd (cv_streams mail_app))"
      "nats_stream_name ''mail'' ''outbox'' = nats_stream_name (cv_app mail_app) (stv_name (hd (cv_streams mail_app)))"
    by (simp_all add: mail_app_def orders_app_def consumes_stream_def)
  from foreign_streams_out_of_reach [OF m l p shop_views this(1,3,2,4,5)] p show ?thesis by blast
qed

context nats_server
begin

lemma alteration_denied:
  assumes "composed declared" "claim \<in> set peers" "stream \<in> set (cv_streams claim)"
    "declared = nats_stream_name (cv_app claim) (stv_name stream)"
    and v: "v \<in> set [''CREATE'', ''UPDATE'', ''DELETE'', ''MSG.DELETE'']"
  shows "\<not> may_publish server me peers (''$JS.API.STREAM.'' @ v @ ''.'' @ declared)"
proof
  let ?s = "''$JS.API.STREAM.'' @ v @ ''.'' @ declared"
  assume pub: "may_publish server me peers ?s"
  have deny: "?s \<in> set (deny_vector me peers)"
    using assms by (fastforce simp: deny_vector_def declared_stream_denials_def Let_def)
  have toks: "tokens ?s \<in> {[''$JS'', ''API'', ''STREAM'', v, declared], [''$JS'', ''API'', ''STREAM'', ''MSG'', ''DELETE'', declared]}"
    using v by (auto simp: tokens_def composed_tokens [OF assms(1)])
  then have lit: "literal_subject ?s"
    using v composed_ne_star [OF assms(1)] composed_ne_Nil [OF assms(1)] unfolding literal_subject_def by auto
  have "token_match (tokens ?s) (tokens ?s)"
    using toks by (auto simp: token_match.simps(2))
  with not_denied [OF lit pub deny] show False by blast
qed

lemma purge_is_listed:
  assumes "composed declared" "plain_view me" "may_publish server me peers (''$JS.API.STREAM.PURGE.'' @ declared)"
  shows "declared \<in> set (purgeable me)"
proof -
  let ?s = "''$JS.API.STREAM.PURGE.'' @ declared"
  have toks: "tokens ?s = [''$JS'', ''API'', ''STREAM'', ''PURGE'', declared]"
    by (simp add: tokens_def composed_tokens [OF assms(1)])
  have lit: "literal_subject ?s"
    using composed_ne_star [OF assms(1)] composed_ne_Nil [OF assms(1)] unfolding literal_subject_def toks by simp
  have app: "cv_app me \<noteq> ''$JS''" using assms(2) plain_chars [of "cv_app me"] by (auto simp: plain_view_def)
  have "[''STREAM'', ''PURGE'', declared] \<noteq> v @ x # rest" if "v \<in> set (api_verbs me)" for v x rest
    using that by (auto simp: api_verbs_def fixed_verbs_def dynamic_verbs_def split: if_splits)
  then show ?thesis
    using published_tokens [OF lit assms(2,3)] app unfolding toks by auto
qed

end

text \<open>C25. No application, not even the one that declares it, may create, change or delete a
  declared stream or delete its messages; and it may purge one only as its owner, with
  \<open>allowPurge\<close>.\<close>

theorem declared_streams_not_altered:
  assumes "nats_matching server" "plain_view me" "plain_view claim" "claim \<in> set peers"
    "stream \<in> set (cv_streams claim)" "declared = nats_stream_name (cv_app claim) (stv_name stream)"
  shows "list_all (\<lambda>v. \<not> may_publish server me peers (''$JS.API.STREAM.'' @ v @ ''.'' @ declared))
      [''CREATE'', ''UPDATE'', ''DELETE'', ''MSG.DELETE''] \<and>
    (may_publish server me peers (''$JS.API.STREAM.PURGE.'' @ declared) \<longrightarrow>
      cv_app me = cv_app claim \<and> list_ex (\<lambda>s. stv_name s = stv_name stream \<and> stv_allow_purge s) (cv_streams me))"
proof -
  from assms(1) have srv: "nats_server server" by unfold_locales
  have plain: "plain_name (cv_app claim)" "plain_name (stv_name stream)"
    using assms(3,5) by (auto simp: plain_view_def list_all_iff)
  then have comp: "composed declared" using assms(6) by blast
  have "cv_app me = cv_app claim \<and> list_ex (\<lambda>s. stv_name s = stv_name stream \<and> stv_allow_purge s) (cv_streams me)"
    if pub: "may_publish server me peers (''$JS.API.STREAM.PURGE.'' @ declared)"
  proof -
    obtain s where s: "s \<in> set (cv_streams me)" "stv_allow_purge s"
      "nats_stream_name (cv_app me) (stv_name s) = nats_stream_name (cv_app claim) (stv_name stream)"
      using nats_server.purge_is_listed [OF srv comp assms(2) pub] by (auto simp: purgeable_def assms(6))
    moreover from s(3) have "cv_app me = cv_app claim \<and> stv_name s = stv_name stream"
      using composed_inj [of "cv_app me" "cv_app claim"] assms(2) plain by (auto simp: nats_stream_name_def plain_view_def)
    ultimately show ?thesis by (auto simp: list_ex_iff)
  qed
  with nats_server.alteration_denied [OF srv comp assms(4-6)] show ?thesis
    unfolding list_all_iff by blast
qed

theorem declared_streams_not_altered_witness:
  "\<not> may_publish subjects_overlap mail_app [mail_app, orders_app] ''$JS.API.STREAM.DELETE.orders_placed''"
proof -
  have m: "nats_matching subjects_overlap" by (simp add: nats_matching_def)
  have "orders_app \<in> set [mail_app, orders_app]" "hd (cv_streams orders_app) \<in> set (cv_streams orders_app)"
      "''orders_placed'' = nats_stream_name (cv_app orders_app) (stv_name (hd (cv_streams orders_app)))"
    by (simp_all add: orders_app_def nats_stream_name_def)
  from declared_streams_not_altered [OF m shop_views(2,1) this] show ?thesis by simp
qed

text \<open>The holes cut for the neighbours never stop an application from using its own durable
  consumers: it may ask for messages, look at the consumer, create it and acknowledge, on its own
  stream and on one it consumes from a neighbour.\<close>

lemma own_consumers_usable:
  assumes "nats_matching server" "plain_view me" "list_all plain_view peers" "n \<in> set (cv_consumes me)"
    "plain_name seq" "st = nats_stream_name (cnv_owner n) (cnv_stream n)"
    "du = nats_durable_name (cv_app me) (cnv_durable n)"
  shows "list_all (may_publish server me peers) (own_requests st du seq)"
proof -
  from assms(1) have srv: "nats_server server" by unfold_locales
  have comp: "composed st" "composed du"
    using assms(2,4) by (auto simp: assms(6,7) plain_view_def list_all_iff)
  note toks = own_requests_tokens [OF comp assms(5)]
  have seq: "seq \<noteq> [] \<and> seq \<noteq> ''*'' \<and> seq \<noteq> ''>''" using assms(5) plain_chars [OF assms(5)] by (auto simp: plain_name_def)
  have "may_publish server me peers s" if s: "s \<in> set (own_requests st du seq)" for s
  proof -
    have t: "tokens s \<in> set (own_request_tokens st du seq)" using s unfolding toks [symmetric] by simp
    have "list_all (list_all (\<lambda>t. t \<noteq> ''*'' \<and> t \<noteq> ''>'' \<and> t \<noteq> [])) (own_request_tokens st du seq)"
      using comp seq by (simp add: own_request_tokens_def composed_ne_star composed_ne_Nil)
    with t have lit: "literal_subject s" by (simp add: literal_subject_def list_all_iff)
    have "list_all (\<lambda>t. \<exists>q \<in> {[''$JS'', ''ACK'', ''>'']} \<union> (\<lambda>v. [''$JS'', ''API''] @ v @ [''>'']) ` set fixed_verbs. token_match q t)
        (own_request_tokens st du seq)"
      by (simp add: own_request_tokens_def fixed_verbs_def token_match.simps(2))
    with t have "\<exists>q \<in> tokens ` set (allow_list me). token_match q (tokens s)"
      unfolding allow_list_tokens [OF assms(2)] api_verbs_def set_append list_all_iff by blast
    moreover have "\<not> token_match (tokens p) (tokens s)" if "p \<in> set (deny_vector me peers)" for p
      by (rule own_request_not_denied [OF assms(3,2,4,5) that t [unfolded assms(6,7)]])
    ultimately show ?thesis by (simp add: nats_server.publish_iff [OF srv lit])
  qed
  then show ?thesis by (simp add: list_all_iff)
qed

text \<open>The accounts file depends on the set of live claims and not on the order in which they
  were listed, as long as an application has one claim per namespace.\<close>

lemma accounts_file_order_independent:
  assumes "mset claims = mset claims'" "distinct (map (\<lambda>c. (cv_namespace c, cv_app c)) claims)"
  shows "render_accounts_file claims ceil budget mem pw = render_accounts_file claims' ceil budget mem pw"
proof -
  let ?f = "\<lambda>cs k. filter (\<lambda>c. cv_namespace c = k) cs"
  let ?ks = "sorted_list_of_set (cv_namespace ` set claims)"
  have keys: "cv_namespace ` set claims' = cv_namespace ` set claims" by (metis assms(1) mset_eq_setD)
  have perm: "mset (?f claims k) = mset (?f claims' k)" for k by (simp add: assms(1) mset_filter)
  have sorted: "sort_le (\<lambda>a b. cv_app a \<le> cv_app b) (?f claims k) = sort_le (\<lambda>a b. cv_app a \<le> cv_app b) (?f claims' k)" for k
  proof (rule sort_by_app_perm [OF perm])
    show "distinct (map cv_app (?f claims k))"
      using assms(2) by (auto simp: distinct_map inj_on_def)
  qed
  have quotas: "map (\<lambda>(_, peers). namespace_quota_bytes peers ceil) (group_by_namespace claims) =
      map (\<lambda>(_, peers). namespace_quota_bytes peers ceil) (group_by_namespace claims')"
    by (simp add: group_closed keys quota_perm [OF perm])
  have "render_accounts ceil pw (group_by_namespace claims) = render_accounts ceil pw (group_by_namespace claims')"
    unfolding group_closed keys by (rule render_accounts_cong) (rule sorted)
  then show ?thesis unfolding render_accounts_file_def Let_def quotas by simp
qed

lemma rendered_iff:
  "(\<exists>out. render_accounts_file claims ceil budget mem pw = Inr out) \<longleftrightarrow>
    (let quotas = map (\<lambda>(_, peers). namespace_quota_bytes peers ceil) (group_by_namespace claims)
     in sum_list quotas \<le> budget \<and> sum_list (map account_max_mem_bytes quotas) \<le> mem) \<and>
    list_all (\<lambda>c. pw (mgr_user (cv_namespace c)) \<noteq> [] \<and> pw (cv_user c) \<noteq> []) claims"
proof -
  have groups: "(\<forall>(ns, peers) \<in> set (group_by_namespace claims). peers \<noteq> [] \<and> pw (mgr_user ns) \<noteq> [] \<and>
      (\<forall>c \<in> set peers. pw (cv_user c) \<noteq> [])) \<longleftrightarrow>
    list_all (\<lambda>c. pw (mgr_user (cv_namespace c)) \<noteq> [] \<and> pw (cv_user c) \<noteq> []) claims"
    by (auto simp: group_closed list_all_iff filter_empty_conv)
  show ?thesis
    unfolding groups [symmetric] render_accounts_Inr [symmetric, where c = ceil] render_accounts_file_def Let_def
    by (cases "render_accounts ceil pw (group_by_namespace claims)") (auto simp: not_less)
qed

text \<open>
  The sums wrap: two namespaces that are each promised half of all 64-bit numbers are taken to
  promise nothing.
\<close>

lemma quota_sum_wraps:
  "\<exists>out. render_accounts_file
     [orders_app\<lparr>cv_quota_bytes := 2 ^ 63\<rparr>, mail_app\<lparr>cv_namespace := ''blog'', cv_quota_bytes := 2 ^ 63\<rparr>]
     (- 1) 0 (- 1) (\<lambda>u. u) = Inr out"
  by (subst rendered_iff) code_simp

text \<open>The file is rendered exactly when the promised file and memory quotas, each summed as
  64-bit words, stay within their budgets and no user of it, managers included, would get an
  empty password.\<close>

lemma accounts_file_rendered_iff:
  "(\<exists>out. render_accounts_file claims ceil budget mem pw = Inr out) \<longleftrightarrow>
    (let quotas = map (\<lambda>(_, peers). namespace_quota_bytes peers ceil) (group_by_namespace claims)
     in sum_list quotas \<le> budget \<and> sum_list (map account_max_mem_bytes quotas) \<le> mem) \<and>
    list_all (\<lambda>c. pw (mgr_user (cv_namespace c)) \<noteq> [] \<and> pw (cv_user c) \<noteq> []) claims"
  by (rule rendered_iff)

end
