(* ===== verification/Nats_Streams.thy ===== *)
theory Nats_Streams
  imports Nats_Accounts
begin

text \<open>
  What the provisioner and the collector conclude from the streams they observe in a NATS account
  (\<open>nats.rs\<close>, \<open>gc.rs\<close>): which streams belong to an application, which captured subjects of
  another, whether new declarations fit the quota, and what to delete for an application that is
  gone. The arithmetic of \<open>f64\<close> (parsing and multiplication, both rounding) is a parameter of
  the quantities; \<open>i64\<close> values are integers and their conversions saturate as Rust's \<open>as\<close> does.
\<close>

record stream_summary =
  ss_name :: string
  ss_subjects :: "string list"
  ss_max_bytes :: int
  ss_bytes :: u64

subsection \<open>Quantities\<close>

type_synonym f64_ops = "(string \<Rightarrow> rat option) \<times> (rat \<Rightarrow> rat \<Rightarrow> rat)"

definition is_ascii_alphabetic :: "char \<Rightarrow> bool" where
  "is_ascii_alphabetic c = (let n = of_char c :: nat in 65 \<le> n \<and> n \<le> 90 \<or> 97 \<le> n \<and> n \<le> 122)"

definition unit_factor :: "string \<Rightarrow> rat option" where
  "unit_factor u = map_of [('''', 1), (''k'', 10 ^ 3), (''M'', 10 ^ 6), (''G'', 10 ^ 9), (''T'', 10 ^ 12), (''P'', 10 ^ 15),
     (''Ki'', 1024), (''Mi'', 1024 ^ 2), (''Gi'', 1024 ^ 3), (''Ti'', 1024 ^ 4), (''Pi'', 1024 ^ 5)] u"

text \<open>\<open>f64::round\<close> (half away from zero) and the saturating cast to \<open>i64\<close>.\<close>

definition round_f64 :: "rat \<Rightarrow> int" where
  "round_f64 x = (if x < 0 then - \<lfloor>- x + 1 / 2\<rfloor> else \<lfloor>x + 1 / 2\<rfloor>)"

definition to_i64 :: "int \<Rightarrow> int" where
  "to_i64 n = max (- (2 ^ 63)) (min n (2 ^ 63 - 1))"

definition quantity_bytes :: "f64_ops \<Rightarrow> string \<Rightarrow> int option" where
  "quantity_bytes f64 q0 =
     (let q = str_trim q0 in
      if q = [] then None
      else let num = takeWhile (\<lambda>c. \<not> is_ascii_alphabetic c) q; u = dropWhile (\<lambda>c. \<not> is_ascii_alphabetic c) q
        in case fst f64 num of
             None \<Rightarrow> None
           | Some n \<Rightarrow> (case unit_factor u of None \<Rightarrow> None | Some mul \<Rightarrow> Some (to_i64 (round_f64 (snd f64 n mul)))))"

definition declared_bytes :: "f64_ops \<Rightarrow> string \<Rightarrow> u64" where
  "declared_bytes f64 max_bytes = of_int (max (unwrap_or (quantity_bytes f64 max_bytes) 0) 0)"

definition saturating_add :: "u64 \<Rightarrow> u64 \<Rightarrow> u64" where
  "saturating_add a b = (if unat a + unat b < 2 ^ 64 then a + b else - 1)"

subsection \<open>Attribution\<close>

definition subjects_wholly_under :: "string list \<Rightarrow> string \<Rightarrow> bool" where
  "subjects_wholly_under subjects app_prefix \<longleftrightarrow> subjects \<noteq> [] \<and> list_all (prefix app_prefix) subjects"

definition subjects_touch :: "string list \<Rightarrow> string \<Rightarrow> bool" where
  "subjects_touch subjects app_prefix \<longleftrightarrow> list_ex (prefix app_prefix) subjects"

definition declared_by_composed_name :: "claim_view list \<Rightarrow> (string \<times> stream_view) btreemap" where
  "declared_by_composed_name peers = foldl (\<lambda>m (app, s). bt_insert (nats_stream_name app (stv_name s)) (app, s) m) []
     (concat (map (\<lambda>p. map (\<lambda>s. (cv_app p, s)) (cv_streams p)) peers))"

record stream_inventory_record =
  si_declared :: "string list"
  si_dynamic :: "string list"
  si_unattributed :: "string list"
  si_observed_at :: string

definition inventory_place :: "(string \<times> stream_view) btreemap \<Rightarrow> claim_view \<Rightarrow> stream_summary \<Rightarrow> nat" where
  "inventory_place declared_ns me s = (case map_of declared_ns (ss_name s) of
       Some (owner, _) \<Rightarrow> if owner = cv_app me then 1 else 0
     | None \<Rightarrow>
         if subjects_wholly_under (ss_subjects s) (subject_prefix me) then 2
         else if subjects_touch (ss_subjects s) (subject_prefix me) \<or> ss_subjects s = [] then 3
         else 0)"

definition stream_inventory ::
  "stream_summary list \<Rightarrow> claim_view \<Rightarrow> claim_view list \<Rightarrow> string \<Rightarrow> stream_inventory_record" where
  "stream_inventory observed me peers observed_at =
     (let place = inventory_place (declared_by_composed_name peers) me;
          names = (\<lambda>i. sort_dedup (map ss_name (filter (\<lambda>s. place s = i) observed)))
      in \<lparr>si_declared = names 1, si_dynamic = names 2, si_unattributed = names 3, si_observed_at = observed_at\<rparr>)"

definition inventory_held_bytes :: "stream_summary list \<Rightarrow> stream_inventory_record \<Rightarrow> u64" where
  "inventory_held_bytes observed iv = sum_list (map ss_bytes (filter (\<lambda>s.
     ss_name s \<in> set (si_declared iv) \<or> ss_name s \<in> set (si_dynamic iv)) observed))"

datatype capture_policy_kind = Report | DeletePolicy

definition capture_policy :: "json \<Rightarrow> capture_policy_kind \<times> string option" where
  "capture_policy config = (case Option.bind (json_get config ''capturePolicy'') as_str of
       None \<Rightarrow> (Report, None)
     | Some p \<Rightarrow> if p = ''report'' then (Report, None) else if p = ''delete'' then (DeletePolicy, None)
                else (Report, Some p))"

definition foreign_subject_captures :: "stream_summary list \<Rightarrow> claim_view \<Rightarrow> claim_view list \<Rightarrow> string list" where
  "foreign_subject_captures observed me peers =
     (let declared_ns = declared_by_composed_name peers
      in sort_dedup (map ss_name (filter (\<lambda>s.
           subjects_touch (ss_subjects s) (subject_prefix me) \<and> map_of declared_ns (ss_name s) = None \<and>
           \<not> list_ex (\<lambda>p. cv_dynamic_streams p \<and> subjects_wholly_under (ss_subjects s) (subject_prefix p)) peers)
         observed)))"

definition any_subject_overlap :: "string list \<Rightarrow> string list \<Rightarrow> bool" where
  "any_subject_overlap a b \<longleftrightarrow> list_ex (\<lambda>x. list_ex (subjects_overlap x) b) a"

definition is_workqueue :: "stream_view \<Rightarrow> bool" where
  "is_workqueue s \<longleftrightarrow> stv_retention s = Some ''workqueue''"

subsection \<open>The quota of a namespace\<close>

record quota_verdict_record =
  qv_budget_bytes :: u64
  qv_reserved_bytes :: u64
  qv_blocked :: "string list"

definition stream_exists :: "stream_summary list \<Rightarrow> string \<Rightarrow> bool" where
  "stream_exists observed name \<longleftrightarrow> list_ex (\<lambda>s. ss_name s = name) observed"

definition promised :: "f64_ops \<Rightarrow> stream_summary list \<Rightarrow> claim_view \<Rightarrow> claim_view list \<Rightarrow> u64" where
  "promised f64 observed me peers =
     (let declared_ns = declared_by_composed_name peers;
          r = foldl (\<lambda>r (name, owner, s).
                if owner = cv_app me \<and> \<not> stream_exists observed name then r
                else saturating_add r (declared_bytes f64 (stv_max_bytes s))) 0 declared_ns
      in foldl (\<lambda>r s. if map_of declared_ns (ss_name s) \<noteq> None then r
            else if ss_max_bytes s > 0 then saturating_add r (of_int (ss_max_bytes s)) else r) r observed)"

fun fit_pending ::
  "f64_ops \<Rightarrow> stream_summary list \<Rightarrow> claim_view \<Rightarrow> u64 \<Rightarrow> stream_view list \<Rightarrow> u64 \<Rightarrow> string list \<Rightarrow> u64 \<times> string list" where
  "fit_pending f64 observed me budget [] reserved blocked = (reserved, blocked)"
| "fit_pending f64 observed me budget (s # ss) reserved blocked =
     (if stream_exists observed (nats_stream_name (cv_app me) (stv_name s))
      then fit_pending f64 observed me budget ss reserved blocked
      else let want = declared_bytes f64 (stv_max_bytes s)
        in if saturating_add reserved want > budget
           then fit_pending f64 observed me budget ss reserved (blocked @ [stv_name s])
           else fit_pending f64 observed me budget ss (saturating_add reserved want) blocked)"

definition quota_verdict ::
  "f64_ops \<Rightarrow> stream_summary list \<Rightarrow> claim_view \<Rightarrow> claim_view list \<Rightarrow> u64 \<Rightarrow> quota_verdict_record" where
  "quota_verdict f64 observed me peers ceiling_bytes =
     (let budget = namespace_quota_bytes peers ceiling_bytes;
          (reserved, blocked) = fit_pending f64 observed me budget (cv_streams me) (promised f64 observed me peers) []
      in \<lparr>qv_budget_bytes = budget, qv_reserved_bytes = reserved, qv_blocked = blocked\<rparr>)"

subsection \<open>Conditions\<close>

definition prefix_pre_captured :: "claim_view \<Rightarrow> claim_view list \<Rightarrow> string list" where
  "prefix_pre_captured me peers = sort_dedup (concat (map (\<lambda>p.
     map (\<lambda>s. nats_stream_name (cv_app p) (stv_name s))
       (filter (\<lambda>s. subjects_touch (stv_subjects s) (subject_prefix me)) (cv_streams p)))
     (filter (\<lambda>p. cv_app p \<noteq> cv_app me) peers)))"

definition namespace_drain_risk :: "claim_view \<Rightarrow> claim_view list \<Rightarrow> string list" where
  "namespace_drain_risk me peers =
     (let holders = map cv_app (filter cv_dynamic_streams peers)
      in sort_dedup (concat (map (\<lambda>p.
           let others = filter (\<lambda>h. h \<noteq> cv_app p) holders
           in if others = [] \<or> \<not> (cv_app me = cv_app p \<or> cv_dynamic_streams me) then []
              else map (\<lambda>s. nats_stream_name (cv_app p) (stv_name s) @ '' (dynamicStreams held by '' @ join '', '' others @ '')'')
                (filter is_workqueue (cv_streams p))) peers)))"

definition workqueue_subject_overlap :: "stream_summary list \<Rightarrow> claim_view \<Rightarrow> claim_view list \<Rightarrow> string list" where
  "workqueue_subject_overlap observed me peers =
     (let declared_ns = declared_by_composed_name peers
      in sort_dedup (concat (map (\<lambda>(w_name, w_owner, w).
           map (\<lambda>(o_name, o_owner, s). w_name @ '' (workqueue) overlaps the declared stream '' @ o_name)
             (filter (\<lambda>(o_name, o_owner, s). o_name \<noteq> w_name \<and> any_subject_overlap (stv_subjects w) (stv_subjects s) \<and>
                (cv_app me = w_owner \<or> cv_app me = o_owner)) declared_ns) @
           (if cv_app me \<noteq> w_owner then []
            else map (\<lambda>s. w_name @ '' (workqueue) overlaps the undeclared stream '' @ ss_name s)
              (filter (\<lambda>s. map_of declared_ns (ss_name s) = None \<and> any_subject_overlap (stv_subjects w) (ss_subjects s))
                 observed)))
         (filter (\<lambda>(_, _, w). is_workqueue w) declared_ns))))"

definition consume_target_missing :: "stream_summary list \<Rightarrow> claim_view \<Rightarrow> claim_view list \<Rightarrow> string list" where
  "consume_target_missing observed me peers = sort_dedup (map (\<lambda>c.
       nats_stream_name (cnv_owner c) (cnv_stream c) @ '' (durable '' @ cnv_durable c @ '')'')
     (filter (\<lambda>c.
        \<not> list_ex (\<lambda>p. cv_app p = cnv_owner c \<and> list_ex (\<lambda>s. stv_name s = cnv_stream c) (cv_streams p)) peers \<and>
        \<not> stream_exists observed (nats_stream_name (cnv_owner c) (cnv_stream c))) (cv_consumes me)))"

text \<open>\<open>{:?}\<close> of a list of strings is the same text as a subject list.\<close>

definition stream_name_conflict :: "stream_summary list \<Rightarrow> claim_view \<Rightarrow> string list" where
  "stream_name_conflict observed me = sort_dedup (List.map_filter (\<lambda>s.
     let name = nats_stream_name (cv_app me) (stv_name s)
     in case List.find (\<lambda>x. ss_name x = name) observed of
          None \<Rightarrow> None
        | Some live \<Rightarrow>
            if sort_dedup (stv_subjects s) \<noteq> sort_dedup (ss_subjects live)
            then Some (name @ '' exists with subjects '' @ fmt_subject_list (ss_subjects live) @
              '', not the declared '' @ fmt_subject_list (stv_subjects s))
            else None) (cv_streams me))"

subsection \<open>What goes with a departing application\<close>

record nats_sweep =
  nsw_sweep :: "string list"
  nsw_unattributed :: "string list"

definition sweep_place :: "string \<Rightarrow> string list \<Rightarrow> string list \<Rightarrow> stream_summary \<Rightarrow> nat" where
  "sweep_place app declared protected s =
     (if ss_name s \<in> set declared then 1
      else if ss_name s \<in> set protected \<or> app = [] then 0
      else if subjects_wholly_under (ss_subjects s) (app @ ''.'') then 1
      else if subjects_touch (ss_subjects s) (app @ ''.'') \<or> ss_subjects s = [] then 2
      else 0)"

definition nats_sweep_plan :: "stream_summary list \<Rightarrow> string \<Rightarrow> string list \<Rightarrow> string list \<Rightarrow> nats_sweep" where
  "nats_sweep_plan streams app declared protected =
     (let names = (\<lambda>i. sort_dedup (map ss_name (filter (\<lambda>s. sweep_place app declared protected s = i) streams)))
      in \<lparr>nsw_sweep = names 1, nsw_unattributed = names 2\<rparr>)"

definition nats_sweep_for ::
  "stream_summary list \<Rightarrow> string \<Rightarrow> string list \<Rightarrow> string list \<Rightarrow> bool \<Rightarrow> nats_sweep" where
  "nats_sweep_for streams app declared protected namespace_still_claimed =
     (if namespace_still_claimed then nats_sweep_plan streams app declared protected
      else \<lparr>nsw_sweep = sort_dedup (map ss_name streams), nsw_unattributed = []\<rparr>)"

definition protected_stream_names :: "resource_claim list \<Rightarrow> string \<Rightarrow> string list" where
  "protected_stream_names live_claims namespace = sort_dedup (concat (map (\<lambda>c.
     if rc_namespace c \<noteq> namespace then []
     else case (rcs_jetstream (rc_spec c), declaring_app c) of
            (Some js, Some app) \<Rightarrow> map (\<lambda>s. nats_stream_name app (jss_name s)) (rcj_streams js)
          | _ \<Rightarrow> []) live_claims))"

text \<open>The part of \<open>snapshot_retained_claim\<close> and of \<open>gc_drop_nats\<close> that names the streams to delete.\<close>

definition snapshot_declared_streams :: "resource_claim \<Rightarrow> string list" where
  "snapshot_declared_streams claim = (case rcs_jetstream (rc_spec claim) of
     Some js \<Rightarrow> map jss_name (rcj_streams js) | None \<Rightarrow> [])"

definition collected_streams ::
  "resource_claim \<Rightarrow> resource_claim list \<Rightarrow> stream_summary list \<Rightarrow> nats_sweep" where
  "collected_streams gone live_claims streams =
     (let ns = rc_namespace gone; app = unwrap_or (declaring_app gone) [];
          declared_nats = map (nats_stream_name app) (snapshot_declared_streams gone);
          namespace_still_claimed = list_ex (\<lambda>c. rcs_type (rc_spec c) = ''jetstream'' \<and> rc_namespace c = ns) live_claims
      in nats_sweep_for streams app declared_nats (protected_stream_names live_claims ns) namespace_still_claimed)"

text \<open>
  The sweep itself, as what it does on each answer: the list of the claims, the password of the
  management user, the list of the streams, and whether the server confirms a deletion. A failed
  list of claims ends the pass; the other failures are logged and tolerated.
\<close>

datatype sweep_event =
    MgrSecretUnreadable
  | StreamListFailed
  | LeftInPlace string
  | StreamDeleted string
  | StreamDeleteFailed string

definition gc_sweep ::
  "('e, resource_claim list) result \<Rightarrow> ('e, string) result \<Rightarrow> (string \<Rightarrow> ('e, stream_summary list) result) \<Rightarrow>
   (string \<Rightarrow> bool) \<Rightarrow> resource_claim \<Rightarrow> ('e, sweep_event list) result" where
  "gc_sweep list_claims mgr_pass list_streams delete_stream gone = (case list_claims of
       Inl err \<Rightarrow> Inl err
     | Inr live_claims \<Rightarrow> Inr (case mgr_pass of
           Inl err \<Rightarrow> [MgrSecretUnreadable]
         | Inr pass \<Rightarrow> (case list_streams pass of
               Inl err \<Rightarrow> [StreamListFailed]
             | Inr streams \<Rightarrow>
                 let plan = collected_streams gone live_claims streams
                 in map LeftInPlace (nsw_unattributed plan) @
                    map (\<lambda>name. if delete_stream name then StreamDeleted name else StreamDeleteFailed name) (nsw_sweep plan))))"

fun asked_to_delete :: "sweep_event \<Rightarrow> string set" where
  "asked_to_delete (StreamDeleted name) = {name}"
| "asked_to_delete (StreamDeleteFailed name) = {name}"
| "asked_to_delete _ = {}"

subsection \<open>Attribution is a function of the account\<close>

lemma prefix_dot:
  assumes "plain_name a" "plain_name b" "prefix (a @ ''.'') s" "prefix (b @ ''.'') s"
  shows "a = b"
proof -
  have "takeWhile (\<lambda>x. x \<noteq> CHR ''.'') s = c" if "plain_name c" "prefix (c @ ''.'') s" for c
    using that plain_chars [of c] by (auto elim!: prefixE)
  with assms show ?thesis by metis
qed

lemma wholly_under_one:
  "\<lbrakk>plain_name a; plain_name b; subjects_wholly_under ss (a @ ''.''); subjects_wholly_under ss (b @ ''.'')\<rbrakk> \<Longrightarrow> a = b"
  by (cases ss) (auto simp: subjects_wholly_under_def intro: prefix_dot)

lemma declared_fold:
  assumes "bt_wf m"
  shows "bt_wf (foldl (\<lambda>m (app, s). bt_insert (nats_stream_name app (stv_name s)) (app, s) m) m xs) \<and>
    (map_of (foldl (\<lambda>m (app, s). bt_insert (nats_stream_name app (stv_name s)) (app, s) m) m xs) k = Some v \<longrightarrow>
      map_of m k = Some v \<or> v \<in> set xs \<and> k = nats_stream_name (fst v) (stv_name (snd v))) \<and>
    dom (map_of (foldl (\<lambda>m (app, s). bt_insert (nats_stream_name app (stv_name s)) (app, s) m) m xs)) =
      dom (map_of m) \<union> (\<lambda>(app, s). nats_stream_name app (stv_name s)) ` set xs"
  using assms
proof (induction xs arbitrary: m)
  case Nil
  then show ?case by simp
next
  case (Cons x xs)
  obtain app s where x: "x = (app, s)" by (cases x)
  from Cons.IH [OF bt_wf_insert [OF Cons.prems, of "nats_stream_name app (stv_name s)" "(app, s)"]]
  show ?case by (auto simp: x bt_get_insert split: if_splits)
qed

lemma declared_wf: "bt_wf (declared_by_composed_name peers)"
  using declared_fold [of "[]" "concat (map (\<lambda>p. map (\<lambda>s. (cv_app p, s)) (cv_streams p)) peers)"]
  by (simp add: declared_by_composed_name_def)

lemma declared_Some:
  assumes "map_of (declared_by_composed_name peers) k = Some (a, s)"
  obtains p where "p \<in> set peers" "a = cv_app p" "s \<in> set (cv_streams p)" "k = nats_stream_name a (stv_name s)"
  using declared_fold [of "[]" "concat (map (\<lambda>p. map (\<lambda>s. (cv_app p, s)) (cv_streams p)) peers)" k "(a, s)"] assms
  by (auto simp: declared_by_composed_name_def)

lemma declared_dom: "map_of (declared_by_composed_name peers) k \<noteq> None \<longleftrightarrow>
    (\<exists>p \<in> set peers. \<exists>s \<in> set (cv_streams p). k = nats_stream_name (cv_app p) (stv_name s))"
proof -
  have "map_of (declared_by_composed_name peers) k \<noteq> None \<longleftrightarrow> k \<in> dom (map_of (declared_by_composed_name peers))"
    by auto
  also have "dom (map_of (declared_by_composed_name peers)) = (\<lambda>(app, s). nats_stream_name app (stv_name s)) `
      set (concat (map (\<lambda>p. map (\<lambda>s. (cv_app p, s)) (cv_streams p)) peers))"
    using declared_fold [of "[]" "concat (map (\<lambda>p. map (\<lambda>s. (cv_app p, s)) (cv_streams p)) peers)"]
    unfolding declared_by_composed_name_def by simp
  also have "k \<in> \<dots> \<longleftrightarrow> (\<exists>p \<in> set peers. \<exists>s \<in> set (cv_streams p). k = nats_stream_name (cv_app p) (stv_name s))"
    by force
  finally show ?thesis .
qed

lemma declared_owner:
  assumes "map_of (declared_by_composed_name peers) (nats_stream_name a n) = Some (b, s)"
    and "plain_name a" "list_all (\<lambda>p. plain_name (cv_app p)) peers"
  shows "b = a \<and> stv_name s = n"
  using assms(1)
proof (rule declared_Some)
  fix p
  assume p: "p \<in> set peers" "b = cv_app p" "nats_stream_name a n = nats_stream_name b (stv_name s)"
  with assms(3) have "plain_name b" by (auto simp: list_all_iff)
  from composed_inj [OF assms(2) this, of n "stv_name s"] p(3) show ?thesis by (simp add: nats_stream_name_def)
qed

lemma inventory_sets:
  "set (si_declared (stream_inventory obs me peers t)) =
     ss_name ` {s \<in> set obs. inventory_place (declared_by_composed_name peers) me s = 1}"
  "set (si_dynamic (stream_inventory obs me peers t)) =
     ss_name ` {s \<in> set obs. inventory_place (declared_by_composed_name peers) me s = 2}"
  "set (si_unattributed (stream_inventory obs me peers t)) =
     ss_name ` {s \<in> set obs. inventory_place (declared_by_composed_name peers) me s = 3}"
  by (auto simp: stream_inventory_def Let_def)

lemma inventory_held:
  "set (si_declared (stream_inventory obs me peers t)) \<union> set (si_dynamic (stream_inventory obs me peers t)) =
     ss_name ` {s \<in> set obs. inventory_place (declared_by_composed_name peers) me s \<in> {1, 2}}"
  unfolding inventory_sets by auto

lemma distinct_names:
  "\<lbrakk>distinct (map ss_name obs); s \<in> set obs; t \<in> set obs; ss_name s = ss_name t\<rbrakk> \<Longrightarrow> s = t"
  by (simp add: distinct_map inj_on_def)

lemma place_owner:
  assumes "inventory_place d me s \<in> {1, 2}" "inventory_place d you s \<in> {1, 2}"
    and "plain_name (cv_app me)" "plain_name (cv_app you)"
  shows "cv_app me = cv_app you"
  using assms wholly_under_one [of "cv_app me" "cv_app you" "ss_subjects s"]
  by (auto simp: inventory_place_def subject_prefix_def split: option.splits if_splits prod.splits)

subsection \<open>Fitting the pending streams\<close>

definition pending :: "stream_summary list \<Rightarrow> claim_view \<Rightarrow> stream_view \<Rightarrow> bool" where
  "pending observed me s \<longleftrightarrow> \<not> stream_exists observed (nats_stream_name (cv_app me) (stv_name s))"

definition pending_bytes :: "f64_ops \<Rightarrow> stream_view list \<Rightarrow> nat" where
  "pending_bytes f64 ss = sum_list (map (\<lambda>s. unat (declared_bytes f64 (stv_max_bytes s))) ss)"

lemma saturating_le:
  fixes a b c :: u64
  assumes "saturating_add a b \<le> c" "c < - 1"
  shows "unat (saturating_add a b) = unat a + unat b"
proof (cases "unat a + unat b < 2 ^ 64")
  case True
  then show ?thesis by (simp add: saturating_add_def unat_word_ariths)
next
  case False
  with assms show ?thesis by (simp add: saturating_add_def)
qed

lemma saturating_fits:
  fixes a b c :: u64
  assumes "unat a + unat b \<le> unat c"
  shows "saturating_add a b \<le> c" "unat (saturating_add a b) = unat a + unat b"
proof -
  have "unat c < 2 ^ 64" by (rule order.strict_trans2 [OF unsigned_less]) simp
  with assms have fits: "unat a + unat b < 2 ^ 64" by linarith
  then show sum: "unat (saturating_add a b) = unat a + unat b" by (simp add: saturating_add_def unat_word_ariths)
  show "saturating_add a b \<le> c" unfolding word_le_nat_alt sum by (rule assms)
qed

lemma fit_pending_blocked:
  "n \<in> set (snd (fit_pending f64 obs me budget ss r bl)) \<Longrightarrow>
     n \<in> set bl \<or> (\<exists>s \<in> set ss. stv_name s = n \<and> pending obs me s)"
  "set bl \<subseteq> set (snd (fit_pending f64 obs me budget ss r bl))"
  by (induction f64 obs me budget ss r bl rule: fit_pending.induct) (auto simp: Let_def pending_def split: if_splits)

lemma fit_pending_exact:
  assumes "distinct (map stv_name ss)" "stv_name ` set ss \<inter> set bl = {}" "r \<le> budget" "budget < - 1"
  shows "fst (fit_pending f64 obs me budget ss r bl) \<le> budget \<and>
    unat (fst (fit_pending f64 obs me budget ss r bl)) = unat r + pending_bytes f64
      (filter (\<lambda>s. pending obs me s \<and> stv_name s \<notin> set (snd (fit_pending f64 obs me budget ss r bl))) ss)"
  using assms
proof (induction f64 obs me budget ss r bl rule: fit_pending.induct)
  case (1 f64 obs me budget r bl)
  then show ?case by (simp add: pending_bytes_def)
next
  case (2 f64 obs me budget s ss r bl)
  let ?want = "declared_bytes f64 (stv_max_bytes s)"
  have d: "distinct (map stv_name ss)" "stv_name s \<notin> stv_name ` set ss" "stv_name s \<notin> set bl"
    "stv_name ` set ss \<inter> set bl = {}" "stv_name ` set ss \<inter> set (bl @ [stv_name s]) = {}" using "2.prems" by auto
  consider (there) "\<not> pending obs me s" | (over) "pending obs me s" "saturating_add r ?want > budget"
    | (fits) "pending obs me s" "saturating_add r ?want \<le> budget" by fastforce
  then show ?case
  proof cases
    case there
    then have ex: "stream_exists obs (nats_stream_name (cv_app me) (stv_name s))" by (simp add: pending_def)
    from "2.IH"(1) [OF ex d(1,4) "2.prems"(3,4)] there ex show ?thesis by simp
  next
    case over
    then have ex: "\<not> stream_exists obs (nats_stream_name (cv_app me) (stv_name s))" by (simp add: pending_def)
    have "stv_name s \<in> set (snd (fit_pending f64 obs me budget ss r (bl @ [stv_name s])))"
      using fit_pending_blocked(2) [of "bl @ [stv_name s]" f64 obs me budget ss r] by simp
    with "2.IH"(2) [OF ex refl over(2) d(1,5) "2.prems"(3,4)] over ex show ?thesis by simp
  next
    case fits
    then have ex: "\<not> stream_exists obs (nats_stream_name (cv_app me) (stv_name s))"
      and le: "\<not> budget < saturating_add r ?want" by (simp_all add: pending_def)
    have "stv_name s \<notin> set (snd (fit_pending f64 obs me budget ss (saturating_add r ?want) bl))"
      using fit_pending_blocked(1) [of "stv_name s" f64 obs me budget ss "saturating_add r ?want" bl] d
      by (metis image_eqI)
    with "2.IH"(3) [OF ex refl le d(1,4) fits(2) "2.prems"(4)] saturating_le [OF fits(2) "2.prems"(4)] fits ex le
    show ?thesis by (simp add: pending_bytes_def)
  qed
qed

lemma fit_pending_all:
  assumes "unat r + pending_bytes f64 (filter (pending obs me) ss) \<le> unat budget"
  shows "snd (fit_pending f64 obs me budget ss r bl) = bl"
  using assms
proof (induction f64 obs me budget ss r bl rule: fit_pending.induct)
  case (2 f64 obs me budget s ss r bl)
  show ?case
  proof (cases "pending obs me s")
    case True
    with "2.prems" have room: "unat r + unat (declared_bytes f64 (stv_max_bytes s)) \<le> unat budget"
      by (simp add: pending_bytes_def)
    from True "2.prems" saturating_fits [OF room] "2.IH"(3) show ?thesis
      by (auto simp: pending_def pending_bytes_def not_less Let_def)
  next
    case False
    with "2.prems" "2.IH"(1) show ?thesis by (simp add: pending_def)
  qed
qed simp

text \<open>
  C28. The quota verdict of an application (\<open>quota_verdict\<close>) never blocks a stream that already
  exists; it keeps what is reserved within the budget of the namespace whenever the promises made
  to others are, and accounts for exactly the admitted streams; and a manifest whose pending
  streams fit beside those promises is never blocked.
\<close>

theorem quota_verdict_sound:
  assumes v: "v = quota_verdict f64 observed me peers ceiling_bytes"
    and names: "distinct (map stv_name (cv_streams me))"
    and bounded: "qv_budget_bytes v < - 1"
  shows "(\<forall>n \<in> set (qv_blocked v). \<exists>s \<in> set (cv_streams me). stv_name s = n \<and> pending observed me s) \<and>
    (promised f64 observed me peers \<le> qv_budget_bytes v \<longrightarrow>
      qv_reserved_bytes v \<le> qv_budget_bytes v \<and>
      unat (qv_reserved_bytes v) = unat (promised f64 observed me peers) + pending_bytes f64
        (filter (\<lambda>s. pending observed me s \<and> stv_name s \<notin> set (qv_blocked v)) (cv_streams me))) \<and>
    (unat (promised f64 observed me peers) + pending_bytes f64 (filter (pending observed me) (cv_streams me))
       \<le> unat (qv_budget_bytes v) \<longrightarrow> qv_blocked v = [])"
proof -
  let ?b = "namespace_quota_bytes peers ceiling_bytes"
  let ?fit = "fit_pending f64 observed me ?b (cv_streams me) (promised f64 observed me peers) []"
  have v': "qv_budget_bytes v = ?b" "qv_reserved_bytes v = fst ?fit" "qv_blocked v = snd ?fit"
    by (simp_all add: v quota_verdict_def Let_def split_beta)
  have "\<exists>s \<in> set (cv_streams me). stv_name s = n \<and> pending observed me s" if "n \<in> set (snd ?fit)" for n
    using fit_pending_blocked(1) [OF that] by simp
  moreover note fit_pending_exact [OF names, of "[]" "promised f64 observed me peers" ?b f64 observed me]
  moreover note fit_pending_all [of "promised f64 observed me peers" f64 observed me "cv_streams me" ?b "[]"]
  ultimately show ?thesis using bounded unfolding v' by auto
qed

text \<open>A decimal reader and exact products, for the concrete instances below.\<close>

definition exact_f64 :: f64_ops where
  "exact_f64 = (\<lambda>s. if s = ''600'' then Some 600 else if s = ''1'' then Some 1 else None, (*))"

definition first_stream :: "string \<Rightarrow> claim_view" where
  "first_stream app = \<lparr>cv_namespace = ''shop'', cv_app = app, cv_dynamic_streams = False,
     cv_streams = [\<lparr>stv_name = ''events'', stv_subjects = [app @ ''.events''], stv_allow_purge = False,
       stv_retention = None, stv_max_bytes = ''600''\<rparr>], cv_consumes = [], cv_quota_bytes = 500\<rparr>"

definition first_stream_observed :: "stream_summary list" where
  "first_stream_observed = [\<lparr>ss_name = ''orders_events'', ss_subjects = [''orders.events''], ss_max_bytes = 600, ss_bytes = 0\<rparr>]"

theorem quota_verdict_sound_witness:
  "qv_blocked (quota_verdict exact_f64 first_stream_observed (first_stream ''orders'') [first_stream ''orders''] 10) = []"
proof -
  let ?v = "quota_verdict exact_f64 first_stream_observed (first_stream ''orders'') [first_stream ''orders''] 10"
  have bounded: "qv_budget_bytes ?v < - 1"
    by (simp add: quota_verdict_def Let_def split_beta namespace_quota_bytes_def first_stream_def min_def)
  have names: "distinct (map stv_name (cv_streams (first_stream ''orders'')))" by (simp add: first_stream_def)
  have none: "\<forall>s \<in> set (cv_streams (first_stream ''orders'')). \<not> pending first_stream_observed (first_stream ''orders'') s"
    by (simp add: pending_def stream_exists_def first_stream_def first_stream_observed_def nats_stream_name_def)
  have "n \<notin> set (qv_blocked ?v)" for n
    using conjunct1 [OF quota_verdict_sound [OF refl names bounded]] none by metis
  then have "set (qv_blocked ?v) = {}" by (simp only: set_eq_iff empty_iff) simp
  then show ?thesis by (simp only: set_empty)
qed

lemma two_pending_promised:
  assumes "cv_streams me = [s]" "cv_streams you = [t]" "cv_app me \<noteq> cv_app you"
    "plain_name (cv_app me)" "plain_name (cv_app you)"
  shows "promised f64 [] me [me, you] = saturating_add 0 (declared_bytes f64 (stv_max_bytes t))"
    "promised f64 [] me [you, me] = saturating_add 0 (declared_bytes f64 (stv_max_bytes t))"
proof -
  have "nats_stream_name (cv_app me) (stv_name s) \<noteq> nats_stream_name (cv_app you) (stv_name t)"
    using composed_inj [OF assms(4,5)] assms(3) by (auto simp: nats_stream_name_def)
  with assms show "promised f64 [] me [me, you] = saturating_add 0 (declared_bytes f64 (stv_max_bytes t))"
    "promised f64 [] me [you, me] = saturating_add 0 (declared_bytes f64 (stv_max_bytes t))"
    by (auto simp: promised_def declared_by_composed_name_def Let_def stream_exists_def)
qed

lemma saturating_0 [simp]: "saturating_add 0 a = a"
proof -
  have "unat a < 2 ^ 64" by (rule order.strict_trans2 [OF unsigned_less]) simp
  then show ?thesis by (simp add: saturating_add_def)
qed

text \<open>
  Two applications of a namespace that each declare a first stream block each other when the
  two do not fit together, although either alone would: each verdict counts the declaration of the
  other as promised before it exists, so neither stream is created.
\<close>

lemma pending_neighbours_block_each_other:
  assumes "cv_streams me = [s]" "cv_streams you = [t]" "cv_app me \<noteq> cv_app you"
    and "plain_name (cv_app me)" "plain_name (cv_app you)"
    and budget: "b = namespace_quota_bytes [me, you] ceiling_bytes"
    and alone: "declared_bytes f64 (stv_max_bytes s) \<le> b" "declared_bytes f64 (stv_max_bytes t) \<le> b"
    and together: "unat b < unat (declared_bytes f64 (stv_max_bytes s)) + unat (declared_bytes f64 (stv_max_bytes t))"
    and bounded: "b < - 1"
  shows "qv_blocked (quota_verdict f64 [] me [me, you] ceiling_bytes) = [stv_name s] \<and>
    qv_blocked (quota_verdict f64 [] you [me, you] ceiling_bytes) = [stv_name t]"
proof (intro conjI)
  have over: "b < saturating_add x y" if "unat b < unat x + unat y" for x y
  proof (rule ccontr)
    assume "\<not> b < saturating_add x y"
    then have "saturating_add x y \<le> b" by simp
    from saturating_le [OF this bounded] that this show False by (simp add: word_le_nat_alt)
  qed
  show "qv_blocked (quota_verdict f64 [] me [me, you] ceiling_bytes) = [stv_name s]"
    using over [of "declared_bytes f64 (stv_max_bytes t)" "declared_bytes f64 (stv_max_bytes s)"] together
    unfolding quota_verdict_def Let_def split_beta budget [symmetric] two_pending_promised(1) [OF assms(1-5)]
    by (simp add: assms(1) stream_exists_def Let_def add.commute)
  show "qv_blocked (quota_verdict f64 [] you [me, you] ceiling_bytes) = [stv_name t]"
    using over [of "declared_bytes f64 (stv_max_bytes s)" "declared_bytes f64 (stv_max_bytes t)"] together
    unfolding quota_verdict_def Let_def split_beta budget [symmetric]
      two_pending_promised(2) [OF assms(2,1) assms(3) [symmetric] assms(5,4)]
    by (simp add: assms(2) stream_exists_def Let_def)
qed

text \<open>
  The inventories of two applications of a namespace never claim the same stream: whatever
  is observed, no stream is declared by or dynamic of both, none is in two lists of one inventory,
  and a declared stream that exists is in the declared list of its owner.
\<close>

lemma stream_attributed_once:
  assumes "distinct (map ss_name observed)" "cv_app me \<noteq> cv_app you"
    and "list_all (\<lambda>p. plain_name (cv_app p)) (me # you # peers)"
    and "mine = stream_inventory observed me peers t" "yours = stream_inventory observed you peers t"
  shows "(set (si_declared mine) \<union> set (si_dynamic mine)) \<inter> (set (si_declared yours) \<union> set (si_dynamic yours)) = {} \<and>
    set (si_declared mine) \<inter> set (si_dynamic mine) = {} \<and>
    set (si_unattributed mine) \<inter> (set (si_declared mine) \<union> set (si_dynamic mine)) = {} \<and>
    (\<forall>x \<in> set observed. \<forall>s \<in> set (cv_streams me). me \<in> set peers \<and>
      ss_name x = nats_stream_name (cv_app me) (stv_name s) \<longrightarrow> ss_name x \<in> set (si_declared mine))"
proof -
  let ?place = "inventory_place (declared_by_composed_name peers)"
  have plain: "plain_name (cv_app me)" "plain_name (cv_app you)" "list_all (\<lambda>p. plain_name (cv_app p)) peers"
    using assms(3) by simp_all
  have owner: False if "x \<in> set observed" "y \<in> set observed" "ss_name x = ss_name y" "?place me x \<in> {1, 2}" "?place you y \<in> {1, 2}" for x y
    using place_owner [of _ me x you] distinct_names [OF assms(1) that(1-3)] that plain assms(2) by metis
  have one: "?place me x = ?place me y" if "x \<in> set observed" "y \<in> set observed" "ss_name x = ss_name y" for x y
    using distinct_names [OF assms(1) that] by simp
  have declared: "?place me x = 1" if "s \<in> set (cv_streams me)" "me \<in> set peers" "ss_name x = nats_stream_name (cv_app me) (stv_name s)" for x s
  proof -
    have "map_of (declared_by_composed_name peers) (ss_name x) \<noteq> None" using declared_dom that by blast
    then obtain b s' where "map_of (declared_by_composed_name peers) (ss_name x) = Some (b, s')" by auto
    with declared_owner [of peers "cv_app me" "stv_name s" b s'] that plain show ?thesis by (simp add: inventory_place_def)
  qed
  show ?thesis
  proof (intro conjI ballI impI)
    show "(set (si_declared mine) \<union> set (si_dynamic mine)) \<inter> (set (si_declared yours) \<union> set (si_dynamic yours)) = {}"
      unfolding assms(4,5) inventory_held using owner by blast
    have apart: "ss_name ` {x \<in> set observed. ?place me x = i} \<inter> ss_name ` {x \<in> set observed. ?place me x = j} = {}"
      if "i \<noteq> j" for i j
      using that one by (auto simp: set_eq_iff)
    show "set (si_declared mine) \<inter> set (si_dynamic mine) = {}"
      unfolding assms(4) inventory_sets by (rule apart) simp
    show "set (si_unattributed mine) \<inter> (set (si_declared mine) \<union> set (si_dynamic mine)) = {}"
      unfolding assms(4) inventory_sets Int_Un_distrib by (simp add: apart)
    fix x s
    assume "x \<in> set observed" "s \<in> set (cv_streams me)" "me \<in> set peers \<and> ss_name x = nats_stream_name (cv_app me) (stv_name s)"
    then show "ss_name x \<in> set (si_declared mine)"
      unfolding assms(4) inventory_sets using declared [of s x] by (intro image_eqI [OF refl]) simp
  qed
qed

subsection \<open>The sweep\<close>

lemma sweep_sets:
  "set (nsw_sweep (nats_sweep_plan streams app declared protected)) =
     ss_name ` {s \<in> set streams. sweep_place app declared protected s = 1}"
  "set (nsw_unattributed (nats_sweep_plan streams app declared protected)) =
     ss_name ` {s \<in> set streams. sweep_place app declared protected s = 2}"
  by (auto simp: nats_sweep_plan_def Let_def)

lemma protected_mem:
  assumes "c \<in> set live" "rc_namespace c = ns" "rcs_jetstream (rc_spec c) = Some js" "declaring_app c = Some b"
    and "s \<in> set (rcj_streams js)"
  shows "nats_stream_name b (jss_name s) \<in> set (protected_stream_names live ns)"
  using assms by (auto simp: protected_stream_names_def intro!: bexI [of _ c])

definition namespace_claimed :: "resource_claim list \<Rightarrow> string \<Rightarrow> bool" where
  "namespace_claimed live ns \<longleftrightarrow> list_ex (\<lambda>c. rcs_type (rc_spec c) = ''jetstream'' \<and> rc_namespace c = ns) live"

lemma collected_claimed:
  assumes "declaring_app gone = Some a" "namespace_claimed live (rc_namespace gone)"
  shows "collected_streams gone live streams = nats_sweep_plan streams a
    (map (nats_stream_name a) (snapshot_declared_streams gone)) (protected_stream_names live (rc_namespace gone))"
  using assms by (simp add: collected_streams_def Let_def nats_sweep_for_def namespace_claimed_def)

lemma collected_last:
  assumes "\<not> namespace_claimed live (rc_namespace gone)"
  shows "set (nsw_sweep (collected_streams gone live streams)) = ss_name ` set streams"
  using assms by (auto simp: collected_streams_def Let_def nats_sweep_for_def namespace_claimed_def)

lemma gc_sweep_asks:
  assumes "gc_sweep (Inr live) mgr_pass list_streams delete_stream gone = Inr events"
  shows "(\<Union>e \<in> set events. asked_to_delete e) =
      {n. \<exists>pass streams. mgr_pass = Inr pass \<and> list_streams pass = Inr streams \<and> n \<in> set (nsw_sweep (collected_streams gone live streams))}"
    and "StreamDeleted n \<in> set events \<longleftrightarrow> (n \<in> (\<Union>e \<in> set events. asked_to_delete e) \<and> delete_stream n)"
proof -
  show asks: "(\<Union>e \<in> set events. asked_to_delete e) =
      {n. \<exists>pass streams. mgr_pass = Inr pass \<and> list_streams pass = Inr streams \<and> n \<in> set (nsw_sweep (collected_streams gone live streams))}"
    using assms by (auto simp: gc_sweep_def Let_def split: sum.splits if_splits)
  show "StreamDeleted n \<in> set events \<longleftrightarrow> (n \<in> (\<Union>e \<in> set events. asked_to_delete e) \<and> delete_stream n)"
    unfolding asks using assms by (auto simp: gc_sweep_def Let_def split: sum.splits if_splits)
qed

text \<open>The part of the argument about the plan: a neighbour's declared stream is not in it.\<close>

lemma plan_spares_neighbour:
  assumes "declaring_app gone = Some a" "plain_name a" "namespace_claimed live (rc_namespace gone)"
    and neighbour: "c \<in> set live" "rc_namespace c = rc_namespace gone" "rcs_jetstream (rc_spec c) = Some js"
      "declaring_app c = Some b" "plain_name b" "b \<noteq> a" "s \<in> set (rcj_streams js)"
  shows "nats_stream_name b (jss_name s) \<notin> set (nsw_sweep (collected_streams gone live streams))"
proof
  let ?declared = "map (nats_stream_name a) (snapshot_declared_streams gone)" and ?prot = "protected_stream_names live (rc_namespace gone)"
  assume "nats_stream_name b (jss_name s) \<in> set (nsw_sweep (collected_streams gone live streams))"
  then obtain x where x: "ss_name x = nats_stream_name b (jss_name s)" "sweep_place a ?declared ?prot x = 1"
    unfolding collected_claimed [OF assms(1,3)] sweep_sets by auto
  have foreign: "nats_stream_name b n \<noteq> nats_stream_name a m" for n m
    using composed_inj [OF neighbour(5) assms(2), of n m] neighbour(6) by (auto simp: nats_stream_name_def)
  have "ss_name x \<notin> set ?declared" unfolding x(1) set_map using foreign by blast
  with x protected_mem [OF neighbour(1-4,7)] show False by (simp add: sweep_place_def)
qed

lemma plan_claimed:
  assumes "declaring_app gone = Some a" "namespace_claimed live (rc_namespace gone)"
  shows "n \<in> set (nsw_sweep (collected_streams gone live streams)) \<Longrightarrow>
      n \<in> nats_stream_name a ` set (snapshot_declared_streams gone) \<or>
      (\<exists>x \<in> set streams. ss_name x = n \<and> ss_subjects x \<noteq> [] \<and> (\<forall>subject \<in> set (ss_subjects x). prefix (a @ ''.'') subject))"
    and "x \<in> set streams \<Longrightarrow> ss_name x \<in> nats_stream_name a ` set (snapshot_declared_streams gone) \<Longrightarrow>
      ss_name x \<in> set (nsw_sweep (collected_streams gone live streams))"
  unfolding collected_claimed [OF assms] sweep_sets
  by (auto simp: sweep_place_def subjects_wholly_under_def list_all_iff split: if_splits)

text \<open>
  C26. What the sweep of a departed JetStream claim (\<open>gc_drop_nats\<close>) asks the server to delete,
  whatever the server, the Secret and each deletion answer. It never asks for a stream that a
  live JetStream claim of another application of the namespace declares. It asks for nothing
  when the management Secret cannot be read or the streams cannot be listed. Otherwise, while
  some live JetStream claim of the namespace is left, it asks for all listed streams that the
  departed application declared, and beside them only for streams with all their subjects
  under the prefix of that application; when none is left, for every stream of the account.
  A stream is gone exactly when it was asked for and the server confirmed it.
\<close>

theorem sweep_spares_neighbours:
  assumes "declaring_app gone = Some a" "plain_name a"
    and "gc_sweep (Inr live) mgr_pass list_streams delete_stream gone = Inr events"
    and asked: "asked = (\<Union>e \<in> set events. asked_to_delete e)"
  shows "(\<forall>c js b s. c \<in> set live \<and> rcs_type (rc_spec c) = ''jetstream'' \<and> rc_namespace c = rc_namespace gone \<and>
       rcs_jetstream (rc_spec c) = Some js \<and> declaring_app c = Some b \<and> plain_name b \<and> b \<noteq> a \<and> s \<in> set (rcj_streams js)
       \<longrightarrow> nats_stream_name b (jss_name s) \<notin> asked) \<and>
    ((\<nexists>pass streams. mgr_pass = Inr pass \<and> list_streams pass = Inr streams) \<longrightarrow> asked = {}) \<and>
    (\<forall>pass streams. mgr_pass = Inr pass \<and> list_streams pass = Inr streams \<longrightarrow>
       (if namespace_claimed live (rc_namespace gone)
        then (\<forall>x \<in> set streams. ss_name x \<in> nats_stream_name a ` set (snapshot_declared_streams gone) \<longrightarrow> ss_name x \<in> asked) \<and>
          (\<forall>n \<in> asked. n \<in> nats_stream_name a ` set (snapshot_declared_streams gone) \<or>
             (\<exists>x \<in> set streams. ss_name x = n \<and> ss_subjects x \<noteq> [] \<and> (\<forall>subject \<in> set (ss_subjects x). prefix (a @ ''.'') subject)))
        else asked = ss_name ` set streams)) \<and>
    (\<forall>n. StreamDeleted n \<in> set events \<longleftrightarrow> n \<in> asked \<and> delete_stream n)"
proof (intro conjI allI impI)
  note asks = gc_sweep_asks [OF assms(3), folded asked]
  show "nats_stream_name b (jss_name s) \<notin> asked"
    if c: "c \<in> set live \<and> rcs_type (rc_spec c) = ''jetstream'' \<and> rc_namespace c = rc_namespace gone \<and>
      rcs_jetstream (rc_spec c) = Some js \<and> declaring_app c = Some b \<and> plain_name b \<and> b \<noteq> a \<and> s \<in> set (rcj_streams js)" for c js b s
  proof -
    from c have "namespace_claimed live (rc_namespace gone)" by (auto simp: namespace_claimed_def list_ex_iff)
    then show ?thesis unfolding asks(1) using plan_spares_neighbour [OF assms(1,2)] c by blast
  qed
  show "asked = {}" if "\<nexists>pass streams. mgr_pass = Inr pass \<and> list_streams pass = Inr streams"
    unfolding asks(1) using that by blast
  show "StreamDeleted n \<in> set events \<longleftrightarrow> n \<in> asked \<and> delete_stream n" for n by (rule asks(2))
  fix pass streams
  assume got: "mgr_pass = Inr pass \<and> list_streams pass = Inr streams"
  then have plan: "asked = set (nsw_sweep (collected_streams gone live streams))" unfolding asks(1) by auto
  show "if namespace_claimed live (rc_namespace gone)
    then (\<forall>x \<in> set streams. ss_name x \<in> nats_stream_name a ` set (snapshot_declared_streams gone) \<longrightarrow> ss_name x \<in> asked) \<and>
      (\<forall>n \<in> asked. n \<in> nats_stream_name a ` set (snapshot_declared_streams gone) \<or>
         (\<exists>x \<in> set streams. ss_name x = n \<and> ss_subjects x \<noteq> [] \<and> (\<forall>subject \<in> set (ss_subjects x). prefix (a @ ''.'') subject)))
    else asked = ss_name ` set streams"
    unfolding plan using plan_claimed [OF assms(1)] collected_last by (metis (no_types, lifting))
qed

text \<open>An application with a stream, a consumer of it and a dead letter, and the account it lives in.\<close>

definition shop_stream :: "string \<Rightarrow> jetstream_stream" where
  "shop_stream app = \<lparr>jss_name = ''events'', jss_subjects = [app @ ''.events''],
      jss_storage = None, jss_retention = None, jss_max_age = None,
      jss_max_bytes = ''600'', jss_allow_purge = False, jss_max_msgs = None,
      jss_max_msgs_per_subject = None, jss_max_msg_size = None, jss_max_consumers = None, jss_discard = None,
      jss_discard_per_subject = None, jss_duplicate_window = None, jss_compression = None,
      jss_allow_direct = None, jss_allow_rollup = None, jss_consumer_limits = None,
      jss_description = None, jss_sources = None, jss_mirror = None, jss_republish = None,
      jss_subject_transform = None, jss_placement = None, jss_replicas = None\<rparr>"

definition shop_dead_letter :: jetstream_dead_letter where
  "shop_dead_letter = \<lparr>jdl_stream = ''failed'', jdl_max_bytes = ''1'', jdl_max_age = None\<rparr>"

definition shop_consume :: jetstream_consume where
  "shop_consume = \<lparr>jsc_from = None, jsc_stream = ''events'', jsc_durable = ''work'', jsc_ack_policy = None,
     jsc_ack_wait = None, jsc_max_deliver = Some 5, jsc_backoff = None, jsc_max_ack_pending = None,
     jsc_filter_subject = None, jsc_filter_subjects = None, jsc_deliver_policy = None, jsc_opt_start_seq = None,
     jsc_opt_start_time = None, jsc_replay_policy = None, jsc_max_waiting = None, jsc_max_request_batch = None,
     jsc_max_request_expires = None, jsc_max_request_max_bytes = None, jsc_inactive_threshold = None,
     jsc_rate_limit_bps = None, jsc_headers_only = None, jsc_mem_storage = None, jsc_sample_freq = None,
     jsc_description = None, jsc_dead_letter = Some shop_dead_letter, jsc_deliver_subject = None,
     jsc_deliver_group = None, jsc_flow_control = None, jsc_heartbeat_interval = None, jsc_replicas = None\<rparr>"

definition shop_jetstream :: "string \<Rightarrow> resource_claim_jetstream" where
  "shop_jetstream app = \<lparr>rcj_dynamic_streams = True, rcj_streams = [shop_stream app], rcj_consume = [shop_consume]\<rparr>"

definition shop_stream_claim :: "string \<Rightarrow> resource_claim" where
  "shop_stream_claim app = \<lparr>rc_name = app @ ''-jetstream'', rc_namespace = ''shop'', rc_labels = None,
     rc_owner_references = Some [\<lparr>or_kind = ''Application'', or_name = app, or_uid = ''u'', or_controller = Some True\<rparr>],
     rc_deletion_timestamp = None, rc_finalizers = None,
     rc_spec = \<lparr>rcs_type = ''jetstream'', rcs_name = None, rcs_selector = [], rcs_size = None, rcs_persistent = None,
       rcs_jetstream = Some (shop_jetstream app), rcs_shared_ref = None, rcs_access = None, rcs_extensions = None\<rparr>,
     rc_status = None\<rparr>"

definition shop_streams :: "stream_summary list" where
  "shop_streams = map (\<lambda>(n, ss). \<lparr>ss_name = n, ss_subjects = ss, ss_max_bytes = 600, ss_bytes = 10\<rparr>)
     [(''orders_events'', [''orders.events'']), (''mail_events'', [''mail.events'']), (''tmp'', [''orders.tmp.>'']),
      (''orders_failed'', jss_subjects (dead_letter_stream ''orders'' shop_consume shop_dead_letter)),
      (''audit'', [''orders.events'', ''mail.events''])]"

lemma shop_claims:
  "declaring_app (shop_stream_claim app) = Some app" "rc_namespace (shop_stream_claim app) = ''shop''"
  "rcs_jetstream (rc_spec (shop_stream_claim app)) = Some (shop_jetstream app)"
  "namespace_claimed [shop_stream_claim app] ''shop''" "plain_name ''orders''" "plain_name ''mail''"
  by (simp_all add: shop_stream_claim_def declaring_app_def namespace_claimed_def plain_name_def is_dns_char_def)

theorem sweep_spares_neighbours_witness:
  "gc_sweep (Inr [shop_stream_claim ''mail'']) (Inr ''pw'') (\<lambda>_. Inr shop_streams) (\<lambda>n. n \<noteq> ''tmp'') (shop_stream_claim ''orders'') =
     (Inr [LeftInPlace ''audit'', StreamDeleted ''orders_events'', StreamDeleteFailed ''tmp''] :: (string, sweep_event list) result) \<and>
   nats_stream_name ''mail'' ''events'' \<notin> {''orders_events'', ''tmp''}"
proof -
  let ?gone = "shop_stream_claim ''orders''" and ?c = "shop_stream_claim ''mail''"
  have sweep: "gc_sweep (Inr [?c]) (Inr ''pw'') (\<lambda>_. Inr shop_streams) (\<lambda>n. n \<noteq> ''tmp'') ?gone =
     (Inr [LeftInPlace ''audit'', StreamDeleted ''orders_events'', StreamDeleteFailed ''tmp''] :: (string, sweep_event list) result)"
    by code_simp
  have "?c \<in> set [?c]" "rcs_type (rc_spec ?c) = ''jetstream''" "''mail'' \<noteq> ''orders''"
    "shop_stream ''mail'' \<in> set (rcj_streams (shop_jetstream ''mail''))" "rc_namespace ?c = rc_namespace ?gone"
    by (simp_all add: shop_claims shop_stream_claim_def shop_jetstream_def)
  with conjunct1 [OF sweep_spares_neighbours [OF shop_claims(1,5) sweep refl]] shop_claims
  have "nats_stream_name ''mail'' (jss_name (shop_stream ''mail'')) \<notin>
      (\<Union>e \<in> set [LeftInPlace ''audit'', StreamDeleted ''orders_events'', StreamDeleteFailed ''tmp'']. asked_to_delete e)"
    by metis
  then have "nats_stream_name ''mail'' ''events'' \<notin> {''orders_events'', ''tmp''}" by (simp add: shop_stream_def)
  with sweep show ?thesis by blast
qed

lemma dead_letter_outside: "plain_name a \<Longrightarrow> \<not> prefix (a @ ''.'') (CHR ''$'' # s)"
  using plain_chars [of a] by (cases a) (auto simp: plain_name_def)

text \<open>
  C27. The dead-letter stream of a departed application is neither deleted nor reported while its
  namespace is still claimed: it is one of the streams provisioned for the claim, but the snapshot
  lists only the streams declared under \<open>streams\<close>, and its only subject is an advisory of the
  server, outside every application's prefix.
\<close>

theorem dead_letter_stream_outlives_claim:
  assumes "declaring_app gone = Some a" "plain_name a" "namespace_claimed live (rc_namespace gone)"
    and js: "rcs_jetstream (rc_spec gone) = Some js" "c \<in> set (rcj_consume js)" "jsc_dead_letter c = Some d"
    and undeclared: "jdl_stream d \<notin> jss_name ` set (rcj_streams js)"
    and x: "x \<in> set streams" "ss_name x = nats_stream_name a (jss_name (dead_letter_stream a c d))"
      "ss_subjects x = jss_subjects (dead_letter_stream a c d)" "distinct (map ss_name streams)"
  shows "dead_letter_stream a c d \<in> set (materialised_streams a js) \<and>
    ss_name x \<notin> set (nsw_sweep (collected_streams gone live streams)) \<and>
    ss_name x \<notin> set (nsw_unattributed (collected_streams gone live streams))"
proof -
  let ?place = "sweep_place a (map (nats_stream_name a) (snapshot_declared_streams gone))
    (protected_stream_names live (rc_namespace gone))"
  have "ss_name x \<notin> set (map (nats_stream_name a) (snapshot_declared_streams gone))"
    using undeclared by (auto simp: x(2) js(1) snapshot_declared_streams_def nats_stream_name_def dead_letter_stream_def)
  moreover have "\<not> prefix (a @ ''.'') (hd (ss_subjects x))" "\<exists>y. ss_subjects x = [y]"
    using dead_letter_outside [OF assms(2)] by (simp_all add: x(3) dead_letter_stream_def dead_letter_subject_def)
  ultimately have "?place x = 0" by (auto simp: sweep_place_def subjects_wholly_under_def subjects_touch_def)
  then have "?place y = 0" if "y \<in> set streams" "ss_name y = ss_name x" for y
    using distinct_names [OF x(4) that(1) x(1) that(2)] by simp
  then have "ss_name x \<notin> set (nsw_sweep (collected_streams gone live streams))"
    "ss_name x \<notin> set (nsw_unattributed (collected_streams gone live streams))"
    unfolding collected_claimed [OF assms(1,3)] sweep_sets by fastforce+
  moreover have "dead_letter_stream a c d \<in> set (materialised_streams a js)"
    using js(2,3) by (auto simp: materialised_streams_def map_filter_mem)
  ultimately show ?thesis by blast
qed

theorem dead_letter_stream_outlives_claim_witness:
  "''orders_failed'' \<notin>
     set (nsw_sweep (collected_streams (shop_stream_claim ''orders'') [shop_stream_claim ''mail''] shop_streams))"
proof -
  let ?x = "\<lparr>ss_name = ''orders_failed'',
    ss_subjects = jss_subjects (dead_letter_stream ''orders'' shop_consume shop_dead_letter), ss_max_bytes = 600, ss_bytes = 10\<rparr>"
  have "namespace_claimed [shop_stream_claim ''mail''] (rc_namespace (shop_stream_claim ''orders''))"
    "shop_consume \<in> set (rcj_consume (shop_jetstream ''orders''))" "jsc_dead_letter shop_consume = Some shop_dead_letter"
    "jdl_stream shop_dead_letter \<notin> jss_name ` set (rcj_streams (shop_jetstream ''orders''))"
    "?x \<in> set shop_streams"
    "ss_name ?x = nats_stream_name ''orders'' (jss_name (dead_letter_stream ''orders'' shop_consume shop_dead_letter))"
    "distinct (map ss_name shop_streams)"
    by (simp_all add: shop_claims shop_jetstream_def shop_consume_def shop_dead_letter_def shop_stream_def shop_streams_def
        nats_stream_name_def dead_letter_stream_def)
  from dead_letter_stream_outlives_claim [OF shop_claims(1,5) this(1) shop_claims(3) this(2-6) _ this(7)] show ?thesis
    by simp
qed

end
