(* ===== verification/Backup_Prune.thy ===== *)
theory Backup_Prune
  imports Json "HOL-Library.Option_ord"
begin

text \<open>
  Retention of backups (\<open>backup-core/src/cluster.rs\<close>, \<open>prune.rs\<close>, \<open>restic.rs\<close>): which
  snapshots of a repository belong to this cluster, which runs they form, which runs the keep
  policy keeps, and the order in which the others are forgotten and the repository is pruned.
  The calendar and the RFC 3339 parser (\<open>chrono\<close>, \<open>chrono-tz\<close>) are parameters; an instant and a
  duration are integers, in nanoseconds.
\<close>

record naive_date =
  nd_year :: int
  nd_ordinal :: nat
  nd_iso_year :: int
  nd_iso_week :: nat
  nd_month :: nat

record chrono =
  ch_rfc3339 :: "string \<Rightarrow> int option"
  ch_known_zone :: "string \<Rightarrow> bool"
  ch_local_date :: "string \<Rightarrow> int \<Rightarrow> naive_date"
  ch_max_delta :: int

subsection \<open>Whose snapshot\<close>

definition UUID_LEN :: nat where "UUID_LEN = 36"
definition UUID_GROUPS :: "nat list" where "UUID_GROUPS = [8, 4, 4, 4, 12]"

definition is_ascii_hexdigit :: "char \<Rightarrow> bool" where
  "is_ascii_hexdigit c = (let n = of_char c :: nat in
     48 \<le> n \<and> n \<le> 57 \<or> 65 \<le> n \<and> n \<le> 70 \<or> 97 \<le> n \<and> n \<le> 102)"

definition is_uuid :: "string \<Rightarrow> bool" where
  "is_uuid s \<longleftrightarrow> length s = UUID_LEN \<and>
     list_all2 (\<lambda>g expected. length g = expected \<and> list_all is_ascii_hexdigit g) (split_on CHR ''-'' s) UUID_GROUPS"

definition tag_cluster_uid :: "string \<Rightarrow> string option" where
  "tag_cluster_uid tag =
     (if length tag \<le> UUID_LEN then None
      else if tag ! UUID_LEN \<noteq> CHR ''-'' then None
      else if is_uuid (take UUID_LEN tag) then Some (take UUID_LEN tag) else None)"

definition snapshot_cluster_uid :: "string list \<Rightarrow> string option" where
  "snapshot_cluster_uid tags = find_map tag_cluster_uid tags"

datatype snapshot_origin = ThisCluster | OtherCluster | Legacy

definition str_list_at :: "json \<Rightarrow> string \<Rightarrow> string list" where
  "str_list_at v k = (case Option.bind (json_get v k) as_array of None \<Rightarrow> [] | Some xs \<Rightarrow> List.map_filter as_str xs)"

definition snapshot_tags :: "json \<Rightarrow> string list" where
  "snapshot_tags snapshot = str_list_at snapshot ''tags''"

definition cluster_uids_in :: "json list \<Rightarrow> string list" where
  "cluster_uids_in snapshots = sort_dedup (List.map_filter (\<lambda>s. snapshot_cluster_uid (snapshot_tags s)) snapshots)"

definition classify_snapshot :: "string list \<Rightarrow> string \<Rightarrow> snapshot_origin" where
  "classify_snapshot tags this_cluster_uid = (case snapshot_cluster_uid tags of
       Some uid \<Rightarrow> if uid = this_cluster_uid then ThisCluster else OtherCluster
     | None \<Rightarrow> Legacy)"

definition owned_by_this_cluster :: "string list \<Rightarrow> string \<Rightarrow> bool" where
  "owned_by_this_cluster tags this_cluster_uid \<longleftrightarrow> classify_snapshot tags this_cluster_uid \<noteq> OtherCluster"

definition NAMESPACES_MARK :: string where "NAMESPACES_MARK = ''-ns-''"

definition run_tag :: "string \<Rightarrow> string \<Rightarrow> string list \<Rightarrow> string" where
  "run_tag cluster_uid created_at subset_namespaces =
     (let base = cluster_uid @ ''-'' @ created_at
      in if subset_namespaces = [] then base else base @ NAMESPACES_MARK @ join ''_'' subset_namespaces)"

text \<open>\<open>str::split_once\<close> at a string.\<close>

fun before_mark :: "string \<Rightarrow> string \<Rightarrow> string option" where
  "before_mark m [] = (if m = [] then Some [] else None)"
| "before_mark m (c # s) = (if prefix m (c # s) then Some [] else map_option ((#) c) (before_mark m s))"

definition snapshot_instant :: "chrono \<Rightarrow> string \<Rightarrow> int option" where
  "snapshot_instant ch time = ch_rfc3339 ch time"

definition tag_run_start :: "chrono \<Rightarrow> string \<Rightarrow> int option" where
  "tag_run_start ch tag = (case tag_cluster_uid tag of
       None \<Rightarrow> None
     | Some _ \<Rightarrow> (let rest = drop (UUID_LEN + 1) tag in snapshot_instant ch (unwrap_or (before_mark NAMESPACES_MARK rest) rest)))"

definition cluster_uid_of :: "json \<Rightarrow> string option" where
  "cluster_uid_of namespace_json = (case Option.bind (json_pointer namespace_json [''metadata'', ''uid'']) as_str of
     Some u \<Rightarrow> if u = [] then None else Some u | None \<Rightarrow> None)"

subsection \<open>The plan\<close>

definition SECOND :: int where "SECOND = 1000000000"
definition DURATION_MAX :: int where "DURATION_MAX = (2 ^ 64 - 1) * SECOND + (SECOND - 1)"
definition DEFAULT_RUN_DEADLINE :: int where "DEFAULT_RUN_DEADLINE = 21600 * SECOND"
definition UNFINISHED_RUN_MARGIN :: int where "UNFINISHED_RUN_MARGIN = 3600 * SECOND"

definition helper_keep_alive :: "int \<Rightarrow> int" where
  "helper_keep_alive run_deadline = max run_deadline DEFAULT_RUN_DEADLINE"

definition unfinished_run_window :: "int \<Rightarrow> int" where
  "unfinished_run_window run_deadline = min (helper_keep_alive run_deadline + UNFINISHED_RUN_MARGIN) DURATION_MAX"

record snapshot_meta =
  sm_id :: string
  sm_run_tag :: string
  sm_time :: string
  sm_ended :: "string option"
  sm_is_manifest :: bool
  sm_tags :: "string list"

record retention_policy =
  rp_keep_daily :: "32 word"
  rp_keep_weekly :: "32 word"
  rp_keep_monthly :: "32 word"
  rp_zone :: string

definition default_policy :: retention_policy where
  "default_policy = \<lparr>rp_keep_daily = 7, rp_keep_weekly = 4, rp_keep_monthly = 6, rp_zone = ''UTC''\<rparr>"

definition policy_zone :: "chrono \<Rightarrow> string \<Rightarrow> (string, string) result" where
  "policy_zone ch name0 =
     (let name = str_trim name0
      in if name = [] then Inr ''UTC''
         else if ch_known_zone ch name then Inr name
         else Inl (''spec.backup.timeZone '' @ debug_str name @ '' is not a zone this build knows, so the keep policy '' @
           ''counts its days, weeks and months in UTC''))"

record prune_plan =
  pp_forget_ids :: "string list"
  pp_forget_runs :: nat
  pp_kept_runs :: nat
  pp_unfinished_runs :: nat

record run_group =
  rg_representative :: "snapshot_meta option"
  rg_ids :: "string list"
  rg_newest :: "int option"

definition newest_first :: "chrono \<Rightarrow> snapshot_meta \<Rightarrow> snapshot_meta \<Rightarrow> bool" where
  "newest_first ch a b \<longleftrightarrow> (let ta = snapshot_instant ch (sm_time a); tb = snapshot_instant ch (sm_time b)
     in tb < ta \<or> tb = ta \<and> sm_id a \<le> sm_id b)"

definition run_instant :: "chrono \<Rightarrow> snapshot_meta \<Rightarrow> int option" where
  "run_instant ch rep = opt_or (tag_run_start ch (sm_run_tag rep)) (snapshot_instant ch (sm_time rep))"

definition newest_run_first :: "chrono \<Rightarrow> snapshot_meta \<Rightarrow> snapshot_meta \<Rightarrow> bool" where
  "newest_run_first ch a b \<longleftrightarrow> run_instant ch b < run_instant ch a \<or> run_instant ch b = run_instant ch a \<and> newest_first ch a b"

text \<open>Folding one snapshot into the runs; the comparisons above are the \<open>is_le\<close> of the source's orderings.\<close>

definition signs_of_life :: "chrono \<Rightarrow> snapshot_meta \<Rightarrow> int list" where
  "signs_of_life ch s = List.map_filter (snapshot_instant ch) (sm_time s # (case sm_ended s of None \<Rightarrow> [] | Some e \<Rightarrow> [e]))"

definition see_life :: "int option \<Rightarrow> int \<Rightarrow> int option" where
  "see_life newest t = Some (case newest of None \<Rightarrow> t | Some n \<Rightarrow> max n t)"

definition add_to_run :: "chrono \<Rightarrow> run_group \<Rightarrow> snapshot_meta \<Rightarrow> run_group" where
  "add_to_run ch run s =
     \<lparr>rg_representative =
        (if sm_is_manifest s then (case rg_representative run of
             Some cur \<Rightarrow> if newest_first ch cur s then Some cur else Some s
           | None \<Rightarrow> Some s)
         else rg_representative run),
      rg_ids = rg_ids run @ [sm_id s],
      rg_newest = foldl see_life (rg_newest run) (signs_of_life ch s)\<rparr>"

definition empty_run :: run_group where
  "empty_run = \<lparr>rg_representative = None, rg_ids = [], rg_newest = None\<rparr>"

definition group_runs :: "chrono \<Rightarrow> snapshot_meta list \<Rightarrow> run_group btreemap" where
  "group_runs ch snapshots =
     foldl (\<lambda>m s. bt_insert (sm_run_tag s) (add_to_run ch (unwrap_or (map_of m (sm_run_tag s)) empty_run) s) m) [] snapshots"

definition may_still_be_written :: "chrono \<Rightarrow> int option \<Rightarrow> int \<Rightarrow> int \<Rightarrow> bool" where
  "may_still_be_written ch newest now window = (case newest of
       None \<Rightarrow> True
     | Some n \<Rightarrow> if window \<le> ch_max_delta ch then now - n < window else True)"

definition day_of :: "naive_date \<Rightarrow> int \<times> nat" where "day_of d = (nd_year d, nd_ordinal d)"
definition iso_week_of :: "naive_date \<Rightarrow> int \<times> nat" where "iso_week_of d = (nd_iso_year d, nd_iso_week d)"
definition month_of :: "naive_date \<Rightarrow> int \<times> nat" where "month_of d = (nd_year d, nd_month d)"

fun keep_loop :: "32 word \<Rightarrow> (naive_date \<Rightarrow> int \<times> nat) \<Rightarrow> (int \<times> nat) list \<Rightarrow> (string \<times> naive_date) list \<Rightarrow> string list" where
  "keep_loop keep period_of seen [] = []"
| "keep_loop keep period_of seen ((i, date) # dated) =
     (let period = period_of date
      in if period \<in> set seen then keep_loop keep period_of seen dated
         else if of_nat (length seen) \<ge> keep then []
         else i # keep_loop keep period_of (seen @ [period]) dated)"

definition keep_by_period :: "(string \<times> naive_date) list \<Rightarrow> 32 word \<Rightarrow> (naive_date \<Rightarrow> int \<times> nat) \<Rightarrow> string list" where
  "keep_by_period dated keep period_of = (if keep = 0 then [] else keep_loop keep period_of [] dated)"

definition dated_reps :: "chrono \<Rightarrow> string \<Rightarrow> snapshot_meta list \<Rightarrow> (string \<times> naive_date) list" where
  "dated_reps ch zone reps = List.map_filter (\<lambda>r. map_option (\<lambda>at. (sm_id r, ch_local_date ch zone at)) (run_instant ch r)) reps"

definition select_kept :: "chrono \<Rightarrow> snapshot_meta list \<Rightarrow> retention_policy \<Rightarrow> string list" where
  "select_kept ch representatives policy =
     (let reps = sort_le (newest_run_first ch) representatives;
          dated = dated_reps ch (rp_zone policy) reps
      in map sm_id (filter (\<lambda>r. run_instant ch r = None) reps) @
         keep_by_period dated (rp_keep_daily policy) day_of @
         keep_by_period dated (rp_keep_weekly policy) iso_week_of @
         keep_by_period dated (rp_keep_monthly policy) month_of)"

definition complete_runs :: "run_group list \<Rightarrow> (snapshot_meta \<times> string list) list" where
  "complete_runs runs = List.map_filter (\<lambda>run. map_option (\<lambda>rep. (rep, rg_ids run)) (rg_representative run)) runs"

definition plan_prune :: "chrono \<Rightarrow> snapshot_meta list \<Rightarrow> retention_policy \<Rightarrow> string \<Rightarrow> int \<Rightarrow> int \<Rightarrow> prune_plan" where
  "plan_prune ch snapshots policy this_cluster_uid now run_deadline =
     (let owned = filter (\<lambda>s. owned_by_this_cluster (sm_tags s) this_cluster_uid) snapshots;
          runs = map snd (group_runs ch owned);
          window = unfinished_run_window run_deadline;
          without = filter (\<lambda>run. rg_representative run = None) runs;
          unfinished = filter (\<lambda>run. may_still_be_written ch (rg_newest run) now window) without;
          orphans = filter (\<lambda>run. \<not> may_still_be_written ch (rg_newest run) now window) without;
          representatives = complete_runs runs;
          kept = select_kept ch (map fst representatives) policy;
          rotated = filter (\<lambda>(rep, _). sm_id rep \<notin> set kept) representatives
      in \<lparr>pp_forget_ids = sort_dedup (concat (map rg_ids orphans) @ concat (map snd rotated)),
          pp_forget_runs = length orphans + length rotated,
          pp_kept_runs = length (filter (\<lambda>(rep, _). sm_id rep \<in> set kept) representatives),
          pp_unfinished_runs = length unfinished\<rparr>)"

subsection \<open>What a run is\<close>

definition run_of :: "chrono \<Rightarrow> snapshot_meta list \<Rightarrow> run_group" where
  "run_of ch members = foldl (add_to_run ch) empty_run members"

definition members :: "snapshot_meta list \<Rightarrow> string \<Rightarrow> snapshot_meta list" where
  "members ss tag = filter (\<lambda>s. sm_run_tag s = tag) ss"

lemma group_runs_get:
  "bt_wf (group_runs ch ss)"
  "map_of (group_runs ch ss) t = (if t \<in> sm_run_tag ` set ss then Some (run_of ch (members ss t)) else None)"
  unfolding group_runs_def run_of_def members_def by (rule bt_group)+

lemma group_runs_set: "set (map snd (group_runs ch ss)) = (\<lambda>t. run_of ch (members ss t)) ` sm_run_tag ` set ss"
proof -
  have "set (map snd (group_runs ch ss)) = ran (map_of (group_runs ch ss))"
    by (simp add: ran_distinct [OF bt_wf_distinct [OF group_runs_get(1)]])
  then show ?thesis by (auto simp: ran_def group_runs_get(2) split: if_splits)
qed

lemma add_to_run_fold:
  "rg_ids (foldl (add_to_run ch) run ys) = rg_ids run @ map sm_id ys"
  "rg_newest (foldl (add_to_run ch) run ys) = foldl see_life (rg_newest run) (concat (map (signs_of_life ch) ys))"
  by (induction ys arbitrary: run) (simp_all add: add_to_run_def)

lemma representative_fold:
  "rg_representative (foldl (add_to_run ch) run ys) = Some r \<Longrightarrow>
     rg_representative run = Some r \<or> r \<in> set ys \<and> sm_is_manifest r"
  "rg_representative (foldl (add_to_run ch) run ys) = None \<longleftrightarrow>
     rg_representative run = None \<and> (\<forall>s \<in> set ys. \<not> sm_is_manifest s)"
  by (induction ys arbitrary: run) (force simp: add_to_run_def split: option.splits if_splits)+

lemma run_of_simps:
  "rg_ids (run_of ch ys) = map sm_id ys"
  "rg_representative (run_of ch ys) = Some r \<Longrightarrow> r \<in> set ys \<and> sm_is_manifest r"
  "rg_representative (run_of ch ys) = None \<longleftrightarrow> (\<forall>s \<in> set ys. \<not> sm_is_manifest s)"
  using representative_fold(1) [of ch empty_run ys r] representative_fold(2) [of ch empty_run ys]
  by (simp_all add: run_of_def add_to_run_fold empty_run_def)

lemma see_life_fold: "foldl see_life newest ts =
    (case newest of None \<Rightarrow> if ts = [] then None else Some (Max (set ts)) | Some n \<Rightarrow> Some (Max (insert n (set ts))))"
proof (induction ts arbitrary: newest)
  case (Cons t ts)
  then show ?case by (cases "ts = []") (auto simp: see_life_def max.commute max.left_commute split: option.split)
qed (simp split: option.split)

lemma run_newest: "rg_newest (run_of ch ys) =
    (let ts = concat (map (signs_of_life ch) ys) in if ts = [] then None else Some (Max (set ts)))"
  by (simp add: run_of_def add_to_run_fold see_life_fold empty_run_def Let_def)

subsection \<open>The walk of the keep policy\<close>

lemma of_nat_length_less:
  fixes keep :: "32 word"
  assumes "length xs \<le> unat keep"
  shows "of_nat (length xs) \<ge> keep \<longleftrightarrow> length xs = unat keep"
proof -
  have "unat keep < 2 ^ 32" by (rule order.strict_trans2 [OF unsigned_less]) simp
  with assms have "unat (of_nat (length xs) :: 32 word) = length xs" by (simp add: unat_of_nat)
  with assms show ?thesis by (auto simp: word_le_nat_alt)
qed

lemma ex_split_Cons:
  "(\<exists>xs d ys. (j, e) # dated = xs @ (i, d) # ys \<and> Q xs d) \<longleftrightarrow>
     i = j \<and> Q [] e \<or> (\<exists>xs d ys. dated = xs @ (i, d) # ys \<and> Q ((j, e) # xs) d)" (is "?lhs \<longleftrightarrow> ?rhs")
proof
  assume ?lhs
  then obtain xs d ys where "(j, e) # dated = xs @ (i, d) # ys" "Q xs d" by blast
  then show ?rhs by (cases xs) auto
next
  assume ?rhs
  then show ?lhs
  proof (elim disjE exE conjE)
    assume "i = j" "Q [] e"
    then have "(j, e) # dated = [] @ (i, e) # dated \<and> Q [] e" by simp
    then show ?lhs by blast
  next
    fix xs d ys
    assume "dated = xs @ (i, d) # ys" "Q ((j, e) # xs) d"
    then have "(j, e) # dated = ((j, e) # xs) @ (i, d) # ys \<and> Q ((j, e) # xs) d" by simp
    then show ?lhs by blast
  qed
qed

lemma keep_loop_mem:
  assumes "distinct seen" "length seen \<le> unat keep" "distinct (map fst dated)"
  shows "i \<in> set (keep_loop keep p seen dated) \<longleftrightarrow> (\<exists>xs d ys. dated = xs @ (i, d) # ys \<and>
    p d \<notin> set seen \<union> (\<lambda>x. p (snd x)) ` set xs \<and> card (set seen \<union> (\<lambda>x. p (snd x)) ` set xs) < unat keep)"
  using assms
proof (induction keep p seen dated rule: keep_loop.induct)
  case (1 keep p seen)
  then show ?case by simp
next
  case (2 keep p seen j e dated)
  let ?Q = "\<lambda>seen xs d. p d \<notin> set seen \<union> (\<lambda>x. p (snd x)) ` set xs \<and> card (set seen \<union> (\<lambda>x. p (snd x)) ` set xs) < unat keep"
  note split = ex_split_Cons [of j e dated i "?Q seen"]
  consider (seen) "p e \<in> set seen" | (full) "p e \<notin> set seen" "of_nat (length seen) \<ge> keep"
    | (take) "p e \<notin> set seen" "\<not> of_nat (length seen) \<ge> keep" by blast
  then show ?case
  proof cases
    case seen
    then have "?Q seen ((j, e) # xs) d \<longleftrightarrow> ?Q seen xs d" for xs d by (simp add: insert_absorb)
    with "2.IH"(1) [OF refl seen "2.prems"(1,2)] "2.prems"(3) seen split show ?thesis by simp
  next
    case full
    then have "length seen = unat keep" using of_nat_length_less [OF "2.prems"(2)] by simp
    then have none: "\<not> ?Q seen xs d" for xs d
      using card_mono [of "set seen \<union> (\<lambda>x. p (snd x)) ` set xs" "set seen"] distinct_card [OF "2.prems"(1)] by auto
    moreover have "i \<notin> set (keep_loop keep p seen ((j, e) # dated))" using full by simp
    ultimately show ?thesis using none by blast
  next
    case take
    then have "length seen < unat keep" using of_nat_length_less [OF "2.prems"(2)] "2.prems"(2) by simp
    with take "2.prems" have "distinct (seen @ [p e])" "length (seen @ [p e]) \<le> unat keep" "distinct (map fst dated)"
      "?Q seen [] e" by (auto simp: distinct_card)
    with "2.IH"(2) [OF refl take] have "i \<in> set (keep_loop keep p seen ((j, e) # dated)) \<longleftrightarrow>
        i = j \<or> (\<exists>xs d ys. dated = xs @ (i, d) # ys \<and> ?Q (seen @ [p e]) xs d)" using take by simp
    moreover have "?Q (seen @ [p e]) xs d \<longleftrightarrow> ?Q seen ((j, e) # xs) d" for xs d by simp
    ultimately show ?thesis unfolding split using \<open>?Q seen [] e\<close> by blast
  qed
qed

lemma keep_loop_length:
  "length seen \<le> unat keep \<Longrightarrow> length (keep_loop keep p seen dated) \<le> unat keep - length seen"
proof (induction keep p seen dated rule: keep_loop.induct)
  case (2 keep p seen j e dated)
  then show ?case using of_nat_length_less [OF "2.prems"]
    by (auto simp: Let_def le_Suc_eq not_le)
qed simp

lemma keep_by_period_length: "length (keep_by_period dated keep p) \<le> unat keep"
  using keep_loop_length [of "[]" keep p dated] by (simp add: keep_by_period_def)

lemma newest_first_order:
  "newest_first ch a b \<or> newest_first ch b a"
  "newest_first ch a b \<Longrightarrow> newest_first ch b c \<Longrightarrow> newest_first ch a c"
  "newest_first ch a b \<Longrightarrow> newest_first ch b a \<Longrightarrow> sm_id a = sm_id b"
  by (auto simp: newest_first_def Let_def)

interpretation newest_runs: total_preorder "newest_run_first ch"
proof
  show "newest_run_first ch a b \<or> newest_run_first ch b a" for a b
    using newest_first_order(1) [of ch a b] by (auto simp: newest_run_first_def)
  show "newest_run_first ch a b \<Longrightarrow> newest_run_first ch b c \<Longrightarrow> newest_run_first ch a c" for a b c
    using newest_first_order(2) [of ch a b c] by (auto simp: newest_run_first_def)
qed

lemma newest_run_antisym: "newest_run_first ch a b \<Longrightarrow> newest_run_first ch b a \<Longrightarrow> sm_id a = sm_id b"
  using newest_first_order(3) [of ch a b] by (auto simp: newest_run_first_def)

text \<open>
  The reference for the keep policy: a run is kept for a kind of period when none of the runs
  that started after it (of those that started with it, none that was written later) falls into its period,
  and they fall into fewer periods than are to be kept.
\<close>

definition newer_runs :: "chrono \<Rightarrow> snapshot_meta list \<Rightarrow> snapshot_meta \<Rightarrow> snapshot_meta set" where
  "newer_runs ch reps r = {x \<in> set reps. x \<noteq> r \<and>
     (run_instant ch r < run_instant ch x \<or> run_instant ch r = run_instant ch x \<and> newest_first ch x r)}"

definition period_in :: "chrono \<Rightarrow> string \<Rightarrow> (naive_date \<Rightarrow> int \<times> nat) \<Rightarrow> snapshot_meta \<Rightarrow> int \<times> nat" where
  "period_in ch zone period r = period (ch_local_date ch zone (the (run_instant ch r)))"

definition kept_for :: "chrono \<Rightarrow> string \<Rightarrow> snapshot_meta list \<Rightarrow> 32 word \<Rightarrow> (naive_date \<Rightarrow> int \<times> nat) \<Rightarrow> snapshot_meta \<Rightarrow> bool" where
  "kept_for ch zone reps keep period r \<longleftrightarrow>
     period_in ch zone period r \<notin> period_in ch zone period ` newer_runs ch reps r \<and>
     card (period_in ch zone period ` newer_runs ch reps r) < unat keep"

lemma dated_reps_map:
  "dated_reps ch zone reps = map (\<lambda>r. (sm_id r, ch_local_date ch zone (the (run_instant ch r))))
     (filter (\<lambda>r. run_instant ch r \<noteq> None) reps)"
  by (induction reps) (auto simp: dated_reps_def map_filter_simps split: option.split)

lemma sorted_before_newer:
  assumes "distinct (map sm_id reps)" "filter (\<lambda>r. run_instant ch r \<noteq> None) (sort_le (newest_run_first ch) reps) = xs @ r # ys"
  shows "set xs = newer_runs ch reps r"
proof -
  let ?D = "filter (\<lambda>r. run_instant ch r \<noteq> None) (sort_le (newest_run_first ch) reps)"
  have d: "distinct ?D" using assms(1) by (metis distinct_filter distinct_map mset_eq_imp_distinct_iff mset_sort_le)
  have s: "sorted_wrt (newest_run_first ch) ?D" by (intro sorted_wrt_filter newest_runs.sorted_sort)
  have "a = b" if "a \<in> set ?D" "b \<in> set ?D" "newest_run_first ch a b" "newest_run_first ch b a" for a b
    using that assms(1) newest_run_antisym [OF that(3,4)] by (simp add: distinct_map inj_on_def)
  then have "set xs = {x \<in> set ?D. x \<noteq> r \<and> newest_run_first ch x r}"
    using sorted_wrt_before [OF s [unfolded assms(2)] d [unfolded assms(2)]] unfolding assms(2) by blast
  moreover have "r \<in> set ?D" unfolding assms(2) by simp
  ultimately show ?thesis by (auto simp: newer_runs_def newest_run_first_def)
qed

lemma distinct_split_unique:
  assumes "distinct zs" "zs = as @ r # bs" "zs = xs @ r # ys"
  shows "as = xs"
proof -
  have "r \<notin> set as" using assms(1) unfolding assms(2) by simp
  moreover have "r \<notin> set bs" using assms(1) unfolding assms(2) by simp
  moreover have "as @ r # bs = xs @ r # ys" using assms(2,3) by simp
  ultimately show ?thesis using append_Cons_eq_iff [of r as bs xs ys] by blast
qed

lemma map_split_at: "map g D = us @ y # vs \<Longrightarrow> \<exists>as b bs. D = as @ b # bs \<and> us = map g as \<and> y = g b"
  by (auto simp: map_eq_append_conv)

lemma kept_by_period_iff:
  assumes "distinct (map sm_id reps)" "r \<in> set reps" "run_instant ch r \<noteq> None"
  shows "sm_id r \<in> set (keep_by_period (dated_reps ch zone (sort_le (newest_run_first ch) reps)) keep p) \<longleftrightarrow>
    kept_for ch zone reps keep p r"
proof -
  let ?D = "filter (\<lambda>r. run_instant ch r \<noteq> None) (sort_le (newest_run_first ch) reps)"
  let ?g = "\<lambda>r. (sm_id r, ch_local_date ch zone (the (run_instant ch r)))"
  have "distinct (map sm_id (sort_le (newest_run_first ch) reps))"
    using assms(1) by (metis mset_eq_imp_distinct_iff mset_map mset_sort_le)
  then have ids: "distinct (map sm_id ?D)" by (rule distinct_map_filter)
  have "r \<in> set ?D" using assms(2,3) by simp
  then obtain xs ys where D: "?D = xs @ r # ys" by (meson split_list)
  have at: "us = map ?g xs \<and> (i, d) = ?g r" if h: "map ?g ?D = us @ (i, d) # vs" "i = sm_id r" for us i d vs
  proof -
    obtain as b bs where split: "?D = as @ b # bs" "us = map ?g as" "(i, d) = ?g b"
      using map_split_at [OF h(1)] by blast
    have "sm_id b = sm_id r" using split(3) h(2) by simp
    then have "b = r" using ids \<open>r \<in> set ?D\<close> split(1) by (metis distinct_map in_set_conv_decomp inj_onD)
    moreover have "distinct ?D" using ids unfolding distinct_map by blast
    then have "as = xs" by (rule distinct_split_unique [OF _ split(1) [unfolded \<open>b = r\<close>] D])
    ultimately show ?thesis using split by simp
  qed
  have newer: "period_in ch zone p ` newer_runs ch reps r = (\<lambda>x. p (snd x)) ` set (map ?g xs)"
    unfolding sorted_before_newer [OF assms(1) D, symmetric] by (force simp: period_in_def)
  have dist: "distinct (map fst (map ?g ?D))" using ids by (simp add: comp_def)
  show ?thesis
  proof (cases "keep = 0")
    case True
    then show ?thesis by (simp add: keep_by_period_def kept_for_def)
  next
    case False
    have "sm_id r \<in> set (keep_by_period (dated_reps ch zone (sort_le (newest_run_first ch) reps)) keep p) \<longleftrightarrow>
      (\<exists>us d vs. map ?g ?D = us @ (sm_id r, d) # vs \<and> p d \<notin> (\<lambda>x. p (snd x)) ` set us \<and>
         card ((\<lambda>x. p (snd x)) ` set us) < unat keep)"
      using False keep_loop_mem [of "[]" keep, OF _ _ dist, of "sm_id r" p] by (simp add: keep_by_period_def dated_reps_map)
    also have "\<dots> \<longleftrightarrow> kept_for ch zone reps keep p r"
    proof
      assume "\<exists>us d vs. map ?g ?D = us @ (sm_id r, d) # vs \<and> p d \<notin> (\<lambda>x. p (snd x)) ` set us \<and>
         card ((\<lambda>x. p (snd x)) ` set us) < unat keep"
      then obtain us d vs where *: "map ?g ?D = us @ (sm_id r, d) # vs" "p d \<notin> (\<lambda>x. p (snd x)) ` set us"
         "card ((\<lambda>x. p (snd x)) ` set us) < unat keep" by blast
      from at [OF *(1) refl] *(2,3) newer show "kept_for ch zone reps keep p r" by (simp add: kept_for_def period_in_def)
    next
      assume "kept_for ch zone reps keep p r"
      moreover have "map ?g ?D = map ?g xs @ ?g r # map ?g ys" unfolding D by simp
      ultimately show "\<exists>us d vs. map ?g ?D = us @ (sm_id r, d) # vs \<and> p d \<notin> (\<lambda>x. p (snd x)) ` set us \<and>
         card ((\<lambda>x. p (snd x)) ` set us) < unat keep"
        using newer unfolding kept_for_def period_in_def
        by (intro exI [of _ "map ?g xs"] exI [of _ "snd (?g r)"] exI [of _ "map ?g ys"]) simp
    qed
    finally show ?thesis .
  qed
qed

lemma select_kept_iff:
  assumes "distinct (map sm_id reps)" "r \<in> set reps"
  shows "sm_id r \<in> set (select_kept ch reps policy) \<longleftrightarrow> run_instant ch r = None \<or>
    kept_for ch (rp_zone policy) reps (rp_keep_daily policy) day_of r \<or>
    kept_for ch (rp_zone policy) reps (rp_keep_weekly policy) iso_week_of r \<or>
    kept_for ch (rp_zone policy) reps (rp_keep_monthly policy) month_of r"
proof (cases "run_instant ch r")
  case None
  then show ?thesis using assms(2) by (simp add: select_kept_def Let_def)
next
  case (Some t)
  have "sm_id r \<notin> sm_id ` {x \<in> set reps. run_instant ch x = None}"
  proof
    assume "sm_id r \<in> sm_id ` {x \<in> set reps. run_instant ch x = None}"
    then obtain x where "x \<in> set reps" "run_instant ch x = None" "sm_id r = sm_id x" by blast
    moreover have "inj_on sm_id (set reps)" using assms(1) by (simp add: distinct_map)
    ultimately show False using Some assms(2) inj_onD by fastforce
  qed
  moreover have "set (select_kept ch reps policy) = sm_id ` {x \<in> set reps. run_instant ch x = None} \<union>
      (let dated = dated_reps ch (rp_zone policy) (sort_le (newest_run_first ch) reps)
       in set (keep_by_period dated (rp_keep_daily policy) day_of) \<union>
          set (keep_by_period dated (rp_keep_weekly policy) iso_week_of) \<union>
          set (keep_by_period dated (rp_keep_monthly policy) month_of))"
    unfolding select_kept_def Let_def set_append set_map set_filter set_sort_le by blast
  ultimately show ?thesis using Some kept_by_period_iff [OF assms, of ch "rp_zone policy"] by (simp add: Let_def)
qed

subsection \<open>The plan\<close>

definition owned :: "snapshot_meta list \<Rightarrow> string \<Rightarrow> snapshot_meta list" where
  "owned snapshots uid = filter (\<lambda>s. owned_by_this_cluster (sm_tags s) uid) snapshots"

definition representatives :: "chrono \<Rightarrow> snapshot_meta list \<Rightarrow> string \<Rightarrow> snapshot_meta list" where
  "representatives ch snapshots uid = map fst (complete_runs (map snd (group_runs ch (owned snapshots uid))))"

lemma complete_runs_mem:
  "(rep, ids) \<in> set (complete_runs runs) \<longleftrightarrow> (\<exists>run \<in> set runs. rg_representative run = Some rep \<and> ids = rg_ids run)"
  by (auto simp: complete_runs_def map_filter_mem)

definition own_run :: "chrono \<Rightarrow> snapshot_meta list \<Rightarrow> string \<Rightarrow> string \<Rightarrow> run_group" where
  "own_run ch snapshots uid tag = run_of ch (members (owned snapshots uid) tag)"

lemma representatives_set:
  "set (representatives ch snapshots uid) =
     {rep. \<exists>tag \<in> sm_run_tag ` set (owned snapshots uid). rg_representative (own_run ch snapshots uid tag) = Some rep}"
proof -
  have "x \<in> set (representatives ch snapshots uid) \<longleftrightarrow>
      (\<exists>run \<in> set (map snd (group_runs ch (owned snapshots uid))). rg_representative run = Some x)" for x
    unfolding representatives_def using complete_runs_mem by force
  then show ?thesis unfolding group_runs_set own_run_def by blast
qed

lemma own_run_member:
  assumes "distinct (map sm_id snapshots)" "s \<in> set (owned snapshots uid)" "t \<in> set (owned snapshots uid)"
    and "sm_id s \<in> set (rg_ids (own_run ch snapshots uid (sm_run_tag t)))"
  shows "sm_run_tag s = sm_run_tag t"
  using assms by (auto simp: own_run_def run_of_simps members_def owned_def distinct_map dest: inj_onD)

text \<open>Which snapshots are forgotten, run by run.\<close>

definition run_forgotten :: "chrono \<Rightarrow> snapshot_meta list \<Rightarrow> retention_policy \<Rightarrow> string \<Rightarrow> int \<Rightarrow> int \<Rightarrow> run_group \<Rightarrow> bool" where
  "run_forgotten ch snapshots policy uid now run_deadline run = (case rg_representative run of
       None \<Rightarrow> \<not> may_still_be_written ch (rg_newest run) now (unfinished_run_window run_deadline)
     | Some rep \<Rightarrow> sm_id rep \<notin> set (select_kept ch (representatives ch snapshots uid) policy))"

lemma run_forgotten_cases:
  "run_forgotten ch snapshots policy uid now run_deadline run \<longleftrightarrow>
     rg_representative run = None \<and> \<not> may_still_be_written ch (rg_newest run) now (unfinished_run_window run_deadline) \<or>
     (\<exists>rep. rg_representative run = Some rep \<and> sm_id rep \<notin> set (select_kept ch (representatives ch snapshots uid) policy))"
  by (cases "rg_representative run") (simp_all add: run_forgotten_def)

lemma forget_ids_set:
  "set (pp_forget_ids (plan_prune ch snapshots policy uid now run_deadline)) =
     \<Union> (set ` rg_ids ` {run \<in> own_run ch snapshots uid ` sm_run_tag ` set (owned snapshots uid).
        run_forgotten ch snapshots policy uid now run_deadline run})"
proof -
  have runs: "set (map snd (group_runs ch (owned snapshots uid))) = own_run ch snapshots uid ` sm_run_tag ` set (owned snapshots uid)"
    unfolding group_runs_set own_run_def [abs_def] ..
  let ?R = "set (map snd (group_runs ch (owned snapshots uid)))"
  let ?kept = "set (select_kept ch (representatives ch snapshots uid) policy)"
  have "i \<in> set (pp_forget_ids (plan_prune ch snapshots policy uid now run_deadline)) \<longleftrightarrow>
     (\<exists>run \<in> ?R. rg_representative run = None \<and>
        \<not> may_still_be_written ch (rg_newest run) now (unfinished_run_window run_deadline) \<and> i \<in> set (rg_ids run)) \<or>
     (\<exists>rep ids. (rep, ids) \<in> set (complete_runs (map snd (group_runs ch (owned snapshots uid)))) \<and> sm_id rep \<notin> ?kept \<and> i \<in> set ids)" for i
    unfolding plan_prune_def Let_def owned_def [symmetric] representatives_def [symmetric] by auto
  then have mem: "i \<in> set (pp_forget_ids (plan_prune ch snapshots policy uid now run_deadline)) \<longleftrightarrow>
     (\<exists>run \<in> ?R. run_forgotten ch snapshots policy uid now run_deadline run \<and> i \<in> set (rg_ids run))" for i
    unfolding complete_runs_mem run_forgotten_cases by blast
  show ?thesis
  proof (rule set_eqI)
    fix i
    show "i \<in> set (pp_forget_ids (plan_prune ch snapshots policy uid now run_deadline)) \<longleftrightarrow>
       i \<in> \<Union> (set ` rg_ids ` {run \<in> own_run ch snapshots uid ` sm_run_tag ` set (owned snapshots uid).
        run_forgotten ch snapshots policy uid now run_deadline run})"
      unfolding mem runs by blast
  qed
qed

lemma forgotten_iff:
  assumes "distinct (map sm_id snapshots)" "s \<in> set (owned snapshots uid)"
  shows "sm_id s \<in> set (pp_forget_ids (plan_prune ch snapshots policy uid now run_deadline)) \<longleftrightarrow>
    run_forgotten ch snapshots policy uid now run_deadline (own_run ch snapshots uid (sm_run_tag s))"
proof
  assume "sm_id s \<in> set (pp_forget_ids (plan_prune ch snapshots policy uid now run_deadline))"
  then obtain t where t: "t \<in> set (owned snapshots uid)" "sm_id s \<in> set (rg_ids (own_run ch snapshots uid (sm_run_tag t)))"
    "run_forgotten ch snapshots policy uid now run_deadline (own_run ch snapshots uid (sm_run_tag t))"
    unfolding forget_ids_set by blast
  with own_run_member [OF assms t(1,2)] show "run_forgotten ch snapshots policy uid now run_deadline (own_run ch snapshots uid (sm_run_tag s))"
    by simp
next
  assume "run_forgotten ch snapshots policy uid now run_deadline (own_run ch snapshots uid (sm_run_tag s))"
  moreover have "sm_id s \<in> set (rg_ids (own_run ch snapshots uid (sm_run_tag s)))"
    using assms(2) by (simp add: own_run_def run_of_simps members_def)
  ultimately show "sm_id s \<in> set (pp_forget_ids (plan_prune ch snapshots policy uid now run_deadline))"
    unfolding forget_ids_set using assms(2) by blast
qed

lemma representatives_distinct:
  assumes "distinct (map sm_id snapshots)"
  shows "distinct (map sm_id (representatives ch snapshots uid))"
proof -
  let ?m = "group_runs ch (owned snapshots uid)"
  have "distinct (map sm_run_tag (map fst (complete_runs (map snd ms)))) \<and>
      set (map sm_run_tag (map fst (complete_runs (map snd ms)))) \<subseteq> set (map fst ms)"
    if "distinct (map fst ms)" "\<forall>(t, run) \<in> set ms. \<forall>rep. rg_representative run = Some rep \<longrightarrow> sm_run_tag rep = t" for ms
    using that by (induction ms) (auto simp: complete_runs_def map_filter_simps image_subset_iff split: option.splits, force)
  moreover have "\<forall>(t, run) \<in> set ?m. \<forall>rep. rg_representative run = Some rep \<longrightarrow> sm_run_tag rep = t"
    using group_runs_get(2) [of ch "owned snapshots uid"] map_of_is_SomeI [OF bt_wf_distinct [OF group_runs_get(1)]]
    by (fastforce simp: members_def dest!: run_of_simps(2) split: if_splits)
  ultimately have tags: "distinct (map sm_run_tag (representatives ch snapshots uid))"
    unfolding representatives_def using bt_wf_distinct [OF group_runs_get(1)] by blast
  have "set (representatives ch snapshots uid) \<subseteq> set snapshots"
    unfolding representatives_set by (auto simp: own_run_def members_def owned_def dest: run_of_simps(2))
  moreover have "distinct (representatives ch snapshots uid)" using tags by (simp add: distinct_map)
  ultimately show ?thesis using assms unfolding distinct_map by (blast intro: inj_on_subset)
qed

lemma kept_newest:
  assumes "newer_runs ch reps r = {}" "rp_keep_daily policy \<noteq> 0 \<or> rp_keep_weekly policy \<noteq> 0 \<or> rp_keep_monthly policy \<noteq> 0"
  shows "kept_for ch zone reps (rp_keep_daily policy) day_of r \<or> kept_for ch zone reps (rp_keep_weekly policy) iso_week_of r \<or>
    kept_for ch zone reps (rp_keep_monthly policy) month_of r"
  using assms by (auto simp: kept_for_def unat_gt_0)

lemma kept_runs_bounded:
  assumes "distinct (map sm_id snapshots)"
  shows "pp_kept_runs (plan_prune ch snapshots policy uid now run_deadline) \<le>
    length (filter (\<lambda>r. run_instant ch r = None) (representatives ch snapshots uid)) +
    unat (rp_keep_daily policy) + unat (rp_keep_weekly policy) + unat (rp_keep_monthly policy)"
proof -
  let ?reps = "representatives ch snapshots uid" and ?kept = "select_kept ch (representatives ch snapshots uid) policy"
  have "map sm_id (filter (\<lambda>r. sm_id r \<in> set ?kept) ?reps) = filter (\<lambda>i. i \<in> set ?kept) (map sm_id ?reps)"
    by (simp add: filter_map comp_def)
  then have "distinct (map sm_id (filter (\<lambda>r. sm_id r \<in> set ?kept) ?reps))"
    using representatives_distinct [OF assms, of ch uid] by simp
  then have "length (filter (\<lambda>r. sm_id r \<in> set ?kept) ?reps) \<le> card (set ?kept)"
    using card_mono [of "set ?kept" "set (map sm_id (filter (\<lambda>r. sm_id r \<in> set ?kept) ?reps))"] distinct_card by fastforce
  moreover have "pp_kept_runs (plan_prune ch snapshots policy uid now run_deadline) = length (filter (\<lambda>r. sm_id r \<in> set ?kept) ?reps)"
    by (simp add: plan_prune_def Let_def representatives_def owned_def filter_map comp_def case_prod_unfold)
  moreover have "length (filter P (sort_le le xs)) = length (filter P xs)" for P le and xs :: "snapshot_meta list"
    by (metis mset_filter mset_sort_le size_mset)
  then have "length ?kept \<le> length (filter (\<lambda>r. run_instant ch r = None) ?reps) +
    unat (rp_keep_daily policy) + unat (rp_keep_weekly policy) + unat (rp_keep_monthly policy)"
    using keep_by_period_length
    by (simp add: select_kept_def Let_def add.assoc add_mono)
  ultimately show ?thesis using card_length [of ?kept] by linarith
qed

text \<open>
  C19. The plan of a prune forgets only snapshots of this cluster or of none, and whole runs:
  of the snapshots of a run, all are forgotten or none. A run without a manifest of which some
  snapshot started or ended within the window, or of which no time can be read, is left alone, as
  a backup may still be writing it.
\<close>

theorem prune_forgets_whole_runs:
  assumes "distinct (map sm_id snapshots)"
    and "forget = set (pp_forget_ids (plan_prune ch snapshots policy uid now run_deadline))"
    and "window = unfinished_run_window run_deadline" "window \<le> ch_max_delta ch"
  shows "(\<forall>i \<in> forget. \<exists>s \<in> set snapshots. sm_id s = i \<and> owned_by_this_cluster (sm_tags s) uid) \<and>
    (\<forall>s \<in> set (owned snapshots uid). \<forall>t \<in> set (owned snapshots uid). sm_run_tag s = sm_run_tag t \<longrightarrow>
       (sm_id s \<in> forget \<longleftrightarrow> sm_id t \<in> forget)) \<and>
    (\<forall>s \<in> set (owned snapshots uid). let run = members (owned snapshots uid) (sm_run_tag s); life = concat (map (signs_of_life ch) run)
       in (\<forall>t \<in> set run. \<not> sm_is_manifest t) \<and> (life = [] \<or> (\<exists>t \<in> set life. now - t < window)) \<longrightarrow> sm_id s \<notin> forget)"
proof (intro conjI ballI)
  fix i
  assume "i \<in> forget"
  then show "\<exists>s \<in> set snapshots. sm_id s = i \<and> owned_by_this_cluster (sm_tags s) uid"
    unfolding assms(2) forget_ids_set by (auto simp: own_run_def run_of_simps members_def owned_def)
next
  fix s t
  assume "s \<in> set (owned snapshots uid)" "t \<in> set (owned snapshots uid)"
  then show "sm_run_tag s = sm_run_tag t \<longrightarrow> (sm_id s \<in> forget \<longleftrightarrow> sm_id t \<in> forget)"
    unfolding assms(2) using forgotten_iff [OF assms(1)] by simp
next
  fix s
  assume s: "s \<in> set (owned snapshots uid)"
  let ?run = "members (owned snapshots uid) (sm_run_tag s)"
  let ?life = "concat (map (signs_of_life ch) ?run)"
  have "sm_id s \<notin> forget" if none: "\<forall>t \<in> set ?run. \<not> sm_is_manifest t" and life: "?life = [] \<or> (\<exists>t \<in> set ?life. now - t < window)"
  proof -
    have "rg_representative (own_run ch snapshots uid (sm_run_tag s)) = None"
      using none unfolding own_run_def run_of_simps(3) .
    moreover have "may_still_be_written ch (rg_newest (run_of ch ?run)) now window"
    proof (cases "?life = []")
      case False
      with life obtain t where t: "t \<in> set ?life" "now - t < window" by blast
      have "t \<le> Max (set ?life)" by (rule Max_ge [OF finite_set t(1)])
      with t(2) have "now - Max (set ?life) < window" by linarith
      with False assms(4) show ?thesis unfolding run_newest Let_def may_still_be_written_def by simp
    qed (simp add: run_newest Let_def may_still_be_written_def)
    ultimately show ?thesis
      unfolding assms(2) forgotten_iff [OF assms(1) s] run_forgotten_def own_run_def assms(3) by simp
  qed
  then show "let run = ?run; life = concat (map (signs_of_life ch) run)
       in (\<forall>t \<in> set run. \<not> sm_is_manifest t) \<and> (life = [] \<or> (\<exists>t \<in> set life. now - t < window)) \<longrightarrow> sm_id s \<notin> forget"
    unfolding Let_def by blast
qed

lemma forgotten_representative:
  assumes "distinct (map sm_id snapshots)" "s \<in> set (owned snapshots uid)"
    and "rg_representative (own_run ch snapshots uid (sm_run_tag s)) = Some r"
  shows "sm_id s \<in> set (pp_forget_ids (plan_prune ch snapshots policy uid now run_deadline)) \<longleftrightarrow> run_instant ch r \<noteq> None \<and>
      \<not> kept_for ch (rp_zone policy) (representatives ch snapshots uid) (rp_keep_daily policy) day_of r \<and>
      \<not> kept_for ch (rp_zone policy) (representatives ch snapshots uid) (rp_keep_weekly policy) iso_week_of r \<and>
      \<not> kept_for ch (rp_zone policy) (representatives ch snapshots uid) (rp_keep_monthly policy) month_of r"
proof -
  have r: "r \<in> set (representatives ch snapshots uid)" unfolding representatives_set using assms(2,3) by blast
  have "sm_id s \<in> set (pp_forget_ids (plan_prune ch snapshots policy uid now run_deadline)) \<longleftrightarrow>
      sm_id r \<notin> set (select_kept ch (representatives ch snapshots uid) policy)"
    unfolding forgotten_iff [OF assms(1,2)] run_forgotten_def by (simp add: assms(3))
  then show ?thesis unfolding select_kept_iff [OF representatives_distinct [OF assms(1)] r] by simp
qed

lemma newest_run_not_forgotten:
  assumes "distinct (map sm_id snapshots)" "s \<in> set (owned snapshots uid)"
    and "rg_representative (own_run ch snapshots uid (sm_run_tag s)) = Some r"
    and "newer_runs ch (representatives ch snapshots uid) r = {}"
    and "rp_keep_daily policy \<noteq> 0 \<or> rp_keep_weekly policy \<noteq> 0 \<or> rp_keep_monthly policy \<noteq> 0"
  shows "sm_id s \<notin> set (pp_forget_ids (plan_prune ch snapshots policy uid now run_deadline))"
  using kept_newest [OF assms(4,5), of "rp_zone policy"] unfolding forgotten_representative [OF assms(1-3)] by metis

text \<open>
  C20. A complete run is forgotten exactly when it has a start and is kept neither for its day
  nor its week nor its month: some newer complete run falls into the same period of the policy's
  zone, or the newer ones already fill as many periods as are to be kept. So the newest complete
  run is never forgotten, unless the policy keeps nothing.
\<close>

theorem complete_run_forgotten_iff:
  assumes "distinct (map sm_id snapshots)" "s \<in> set (owned snapshots uid)"
    and "rg_representative (own_run ch snapshots uid (sm_run_tag s)) = Some r"
    and "reps = representatives ch snapshots uid"
    and "forget = set (pp_forget_ids (plan_prune ch snapshots policy uid now run_deadline))"
  shows "(sm_id s \<in> forget \<longleftrightarrow> run_instant ch r \<noteq> None \<and>
      \<not> kept_for ch (rp_zone policy) reps (rp_keep_daily policy) day_of r \<and>
      \<not> kept_for ch (rp_zone policy) reps (rp_keep_weekly policy) iso_week_of r \<and>
      \<not> kept_for ch (rp_zone policy) reps (rp_keep_monthly policy) month_of r) \<and>
    (newer_runs ch reps r = {} \<and> (rp_keep_daily policy \<noteq> 0 \<or> rp_keep_weekly policy \<noteq> 0 \<or> rp_keep_monthly policy \<noteq> 0) \<longrightarrow>
      sm_id s \<notin> forget)"
  unfolding assms(4,5) forgotten_representative [OF assms(1-3)] using newest_run_not_forgotten [OF assms(1-3), of policy]
  by (simp add: forgotten_representative [OF assms(1-3)])

subsection \<open>Reading the repository\<close>

datatype cli_error = Other string | ResticFailed string

record restic_output =
  ro_stdout :: string
  ro_stderr :: string

text \<open>
  A runner answers each command line; what it answers may depend on the commands before it, which
  is how a repository changes. \<open>serde_json\<close> is the parameter \<open>parse\<close>.
\<close>

type_synonym restic = "string list list \<Rightarrow> string list \<Rightarrow> (cli_error, restic_output) result"
type_synonym json_parser = "string \<Rightarrow> (string, json) result"

definition restic_snapshots_argv :: "string \<Rightarrow> string list" where
  "restic_snapshots_argv repo = [''snapshots'', ''--repo'', repo, ''--json'']"

definition restic_forget_argv :: "string \<Rightarrow> string list \<Rightarrow> string list" where
  "restic_forget_argv repo ids = [''forget'', ''--repo'', repo] @ ids"

definition restic_prune_argv :: "string \<Rightarrow> string list" where
  "restic_prune_argv repo = [''prune'', ''--repo'', repo]"

definition to_lower :: "char \<Rightarrow> char" where
  "to_lower c = (let n = of_char c :: nat in if 65 \<le> n \<and> n \<le> 90 then char_of (n + 32) else c)"

definition delete_was_denied :: "string \<Rightarrow> bool" where
  "delete_was_denied stderr = (let s = map to_lower stderr
     in sublist ''access denied'' s \<or> sublist ''accessdenied'' s \<or> sublist ''403 forbidden'' s)"

record raw_snapshot =
  rs_id :: string
  rs_run_tag :: string
  rs_time :: string
  rs_ended :: "string option"
  rs_paths :: "string list"
  rs_tags :: "string list"

definition is_claim_dir :: "string \<Rightarrow> bool" where
  "is_claim_dir base = (case strip_prefix ''claim-'' base of
     Some i \<Rightarrow> i \<noteq> [] \<and> list_all is_ascii_digit i | None \<Rightarrow> False)"

definition path_base :: "string \<Rightarrow> string" where
  "path_base p = last (split_on CHR ''/'' (rev (dropWhile (\<lambda>c. c = CHR ''/'') (rev p))))"

definition derive_manifest :: "string list \<Rightarrow> bool \<Rightarrow> bool" where
  "derive_manifest paths alone =
     (if list_ex (\<lambda>p. is_claim_dir (path_base p)) paths then False
      else alone \<or> list_ex (\<lambda>p. path_base p = ''commit'') paths)"

definition first_tag :: "string list \<Rightarrow> string" where
  "first_tag tags = (case tags of [] \<Rightarrow> [] | t # _ \<Rightarrow> t)"

definition raw_of :: "json \<Rightarrow> raw_snapshot option" where
  "raw_of s =
     (let i = unwrap_or (Option.bind (opt_or (json_get s ''id'') (json_get s ''short_id'')) as_str) [];
          tags = snapshot_tags s
      in if i = [] then None
         else Some \<lparr>rs_id = i, rs_run_tag = first_tag tags, rs_time = unwrap_or (Option.bind (json_get s ''time'') as_str) [],
           rs_ended = Option.bind (json_pointer s [''summary'', ''backup_end'']) as_str,
           rs_paths = str_list_at s ''paths'', rs_tags = tags\<rparr>)"

definition meta_of :: "raw_snapshot list \<Rightarrow> raw_snapshot \<Rightarrow> snapshot_meta" where
  "meta_of raws r = (let alone = (length (filter (\<lambda>x. rs_run_tag x = rs_run_tag r) raws) = 1)
     in \<lparr>sm_id = rs_id r, sm_run_tag = rs_run_tag r, sm_time = rs_time r, sm_ended = rs_ended r,
         sm_is_manifest = derive_manifest (rs_paths r) alone, sm_tags = rs_tags r\<rparr>)"

definition parse_snapshots :: "json_parser \<Rightarrow> string \<Rightarrow> (cli_error, snapshot_meta list) result" where
  "parse_snapshots parse text = (case parse text of
       Inl e \<Rightarrow> Inl (Other (''parse restic snapshots JSON: '' @ e))
     | Inr v \<Rightarrow> (let raws = List.map_filter raw_of (unwrap_or (as_array v) []) in Inr (map (meta_of raws) raws)))"

subsection \<open>Forget, look, then prune\<close>

datatype prune_outcome =
    NothingToPrune nat nat
  | Pruned nat nat nat nat
  | NotPermitted string string nat nat

text \<open>A computation reads the commands issued so far and returns its result with those after it.\<close>

type_synonym 'a session = "string list list \<Rightarrow> (cli_error, 'a) result \<times> string list list"

definition ask :: "restic \<Rightarrow> string list \<Rightarrow> restic_output session" where
  "ask r argv log = (r log argv, log @ [argv])"

definition and_then :: "'a session \<Rightarrow> ('a \<Rightarrow> 'b session) \<Rightarrow> 'b session" where
  "and_then m f log = (case m log of (Inl e, log') \<Rightarrow> (Inl e, log') | (Inr a, log') \<Rightarrow> f a log')"

definition return :: "(cli_error, 'a) result \<Rightarrow> 'a session" where
  "return res log = (res, log)"

definition list_snapshots :: "json_parser \<Rightarrow> restic \<Rightarrow> string \<Rightarrow> snapshot_meta list session" where
  "list_snapshots parse r repo = and_then (ask r (restic_snapshots_argv repo)) (\<lambda>out. return (parse_snapshots parse (ro_stdout out)))"

definition listed_ids :: "json_parser \<Rightarrow> restic \<Rightarrow> string \<Rightarrow> string list session" where
  "listed_ids parse r repo = and_then (list_snapshots parse r repo) (\<lambda>ss. return (Inr (map sm_id ss)))"

definition lines_of :: "string \<Rightarrow> string list" where
  "lines_of s = split_on (CHR 0x0A) s"

definition first_line :: "string \<Rightarrow> string" where
  "first_line stderr = (case List.find (\<lambda>l. l \<noteq> []) (map str_trim (lines_of stderr)) of
     Some l \<Rightarrow> l | None \<Rightarrow> ''restic gave no reason'')"

definition forget_rest :: "json_parser \<Rightarrow> restic \<Rightarrow> string \<Rightarrow> prune_plan \<Rightarrow> string list \<Rightarrow> unit session" where
  "forget_rest parse r repo plan rest =
     (if rest = [] then return (Inr ())
      else and_then (ask r (restic_forget_argv repo rest)) (\<lambda>said.
        and_then (listed_ids parse r repo) (\<lambda>listed.
          let left = filter (\<lambda>i. i \<in> set listed) rest
          in case left of
               [] \<Rightarrow> return (Inr ())
             | l # _ \<Rightarrow> return (Inl (Other (''restic forget removed '' @ show_nat (length (pp_forget_ids plan) - length left) @
                 '' of the '' @ show_nat (length (pp_forget_ids plan)) @ '' snapshot(s) past the keep policy, and '' @
                 show_nat (length left) @ '' (first '' @ l @ '') are still in the repository, so the repository was not pruned. '' @
                 ''restic said: '' @ first_line (str_trim (ro_stderr said))))))))"

definition run_prune ::
  "json_parser \<Rightarrow> restic \<Rightarrow> chrono \<Rightarrow> string \<Rightarrow> retention_policy \<Rightarrow> string \<Rightarrow> int \<Rightarrow> int \<Rightarrow> prune_outcome session" where
  "run_prune parse r ch repo policy uid now run_deadline =
     and_then (list_snapshots parse r repo) (\<lambda>snapshots.
       let plan = plan_prune ch snapshots policy uid now run_deadline
       in case pp_forget_ids plan of
            [] \<Rightarrow> return (Inr (NothingToPrune (pp_kept_runs plan) (pp_unfinished_runs plan)))
          | probe # rest \<Rightarrow>
              and_then (ask r (restic_forget_argv repo [probe])) (\<lambda>said.
                and_then (listed_ids parse r repo) (\<lambda>listed.
                  if probe \<in> set listed then
                    (let restic_said = str_trim (ro_stderr said)
                     in if delete_was_denied restic_said
                        then return (Inr (NotPermitted probe restic_said (length (pp_forget_ids plan)) (pp_forget_runs plan)))
                        else return (Inl (Other (''restic forget exited 0 but snapshot '' @ probe @ '' is still in the repository, so '' @
                          ''nothing was forgotten and the repository was not pruned. restic said: '' @ first_line restic_said))))
                  else and_then (forget_rest parse r repo plan rest) (\<lambda>_.
                    and_then (ask r (restic_prune_argv repo)) (\<lambda>_.
                      return (Inr (Pruned (length (pp_forget_ids plan)) (pp_forget_runs plan) (pp_kept_runs plan)
                        (pp_unfinished_runs plan))))))))"

lemma argv_distinct [simp]:
  "restic_snapshots_argv repo \<noteq> restic_prune_argv repo" "restic_forget_argv repo ids \<noteq> restic_prune_argv repo"
  "restic_forget_argv repo ids \<noteq> restic_snapshots_argv repo" "restic_prune_argv repo \<noteq> restic_snapshots_argv repo"
  "restic_prune_argv repo \<noteq> restic_forget_argv repo ids" "restic_snapshots_argv repo \<noteq> restic_forget_argv repo ids"
  by (simp_all add: restic_snapshots_argv_def restic_prune_argv_def restic_forget_argv_def)

lemmas session_defs = ask_def and_then_def return_def list_snapshots_def listed_ids_def

text \<open>What a listing at some point of a session showed.\<close>

definition shown :: "json_parser \<Rightarrow> restic \<Rightarrow> string \<Rightarrow> string list list \<Rightarrow> (cli_error, snapshot_meta list) result" where
  "shown parse r repo log = (case r log (restic_snapshots_argv repo) of
     Inl e \<Rightarrow> Inl e | Inr out \<Rightarrow> parse_snapshots parse (ro_stdout out))"

definition planned :: "json_parser \<Rightarrow> restic \<Rightarrow> chrono \<Rightarrow> string \<Rightarrow> retention_policy \<Rightarrow> string \<Rightarrow> int \<Rightarrow> int \<Rightarrow> string list" where
  "planned parse r ch repo policy uid now run_deadline = (case shown parse r repo [] of
     Inl _ \<Rightarrow> [] | Inr ss \<Rightarrow> pp_forget_ids (plan_prune ch ss policy uid now run_deadline))"

lemma list_snapshots_eq: "list_snapshots parse r repo log = (shown parse r repo log, log @ [restic_snapshots_argv repo])"
  by (simp add: session_defs shown_def split: sum.split)

lemma listed_ids_eq: "listed_ids parse r repo log =
    (map_sum id (map sm_id) (shown parse r repo log), log @ [restic_snapshots_argv repo])"
  unfolding listed_ids_def and_then_def list_snapshots_eq by (simp add: return_def split: sum.split)

lemma and_then_ask: "and_then (ask r argv) f log =
    (case r log argv of Inl e \<Rightarrow> (Inl e, log @ [argv]) | Inr a \<Rightarrow> f a (log @ [argv]))"
  by (simp add: and_then_def ask_def split: sum.split)

lemma and_then_listed: "and_then (listed_ids parse r repo) f log = (case shown parse r repo log of
    Inl e \<Rightarrow> (Inl e, log @ [restic_snapshots_argv repo])
  | Inr ss \<Rightarrow> f (map sm_id ss) (log @ [restic_snapshots_argv repo]))"
  by (simp add: and_then_def listed_ids_eq split: sum.split)

lemma forget_rest_shapes:
  assumes run: "forget_rest parse r repo plan rest log = (res, log')"
  obtains (none) "rest = []" "res = Inr ()" "log' = log"
  | (failed) e ls where "rest \<noteq> []" "res = Inl e" "log' = log @ [restic_forget_argv repo rest] @ ls" "set ls \<subseteq> {restic_snapshots_argv repo}"
  | (gone) ss where "rest \<noteq> []" "res = Inr ()" "shown parse r repo (log @ [restic_forget_argv repo rest]) = Inr ss"
      "\<forall>i \<in> set rest. i \<notin> sm_id ` set ss" "log' = log @ [restic_forget_argv repo rest, restic_snapshots_argv repo]"
proof (cases "rest = []")
  case True
  with run show thesis by (intro none) (simp_all add: forget_rest_def return_def)
next
  case False
  note run' = run [unfolded forget_rest_def if_not_P [OF False] and_then_ask]
  show thesis
  proof (cases "r log (restic_forget_argv repo rest)")
    case (Inl e)
    with run' False show thesis by (intro failed [of e "[]"]) simp_all
  next
    case said: (Inr said)
    note run2 = run' [unfolded said sum.case and_then_listed]
    show thesis
    proof (cases "shown parse r repo (log @ [restic_forget_argv repo rest])")
      case (Inl e)
      with run2 False show thesis by (intro failed [of e "[restic_snapshots_argv repo]"]) simp_all
    next
      case ss: (Inr ss)
      show thesis
      proof (cases "filter (\<lambda>i. i \<in> sm_id ` set ss) rest")
        case Nil
        with run2 ss False show thesis
          by (intro gone [of ss]) (simp_all add: filter_empty_conv Let_def return_def)
      next
        case (Cons l ls)
        with run2 ss False obtain e where "res = Inl e" "log' = log @ [restic_forget_argv repo rest] @ [restic_snapshots_argv repo]"
          by (simp add: Let_def return_def) blast
        with False show thesis by (intro failed [of e "[restic_snapshots_argv repo]"]) simp_all
      qed
    qed
  qed
qed

text \<open>The shapes a session of \<open>run_prune\<close> can have.\<close>

lemma run_prune_shapes:
  fixes parse r ch repo policy uid now run_deadline
  defines "S \<equiv> restic_snapshots_argv repo" and "F \<equiv> restic_forget_argv repo" and "P \<equiv> restic_prune_argv repo"
  assumes run: "run_prune parse r ch repo policy uid now run_deadline [] = (res, log)"
  obtains (stopped) "log = [S]" "\<forall>i said n m. res \<noteq> Inr (NotPermitted i said n m)" "\<forall>a b c d. res \<noteq> Inr (Pruned a b c d)"
  | (probed) probe rest where "planned parse r ch repo policy uid now run_deadline = probe # rest"
      "log = [S, F [probe]]" "\<exists>e. res = Inl e"
  | (refused) probe rest where "planned parse r ch repo policy uid now run_deadline = probe # rest"
      "log = [S, F [probe], S]" "\<forall>a b c d. res \<noteq> Inr (Pruned a b c d)"
  | (partly) probe rest ls where "planned parse r ch repo policy uid now run_deadline = probe # rest" "rest \<noteq> []"
      "log = [S, F [probe], S, F rest] @ ls" "set ls \<subseteq> {S}" "\<exists>e. res = Inl e"
  | (single) probe ss where "planned parse r ch repo policy uid now run_deadline = [probe]"
      "shown parse r repo [S, F [probe]] = Inr ss" "probe \<notin> sm_id ` set ss" "log = [S, F [probe], S, P]"
      "\<forall>i said n m. res \<noteq> Inr (NotPermitted i said n m)"
  | (all) probe rest ss ss' where "planned parse r ch repo policy uid now run_deadline = probe # rest" "rest \<noteq> []"
      "shown parse r repo [S, F [probe]] = Inr ss" "probe \<notin> sm_id ` set ss"
      "shown parse r repo [S, F [probe], S, F rest] = Inr ss'" "\<forall>i \<in> set rest. i \<notin> sm_id ` set ss'"
      "log = [S, F [probe], S, F rest, S, P]" "\<forall>i said n m. res \<noteq> Inr (NotPermitted i said n m)"
proof (cases "shown parse r repo []")
  case (Inl e)
  with run have "log = [S]" "res = Inl e" by (simp_all add: run_prune_def and_then_def list_snapshots_eq S_def)
  then show thesis by (intro stopped) simp_all
next
  case (Inr ss0)
  define plan where "plan = plan_prune ch ss0 policy uid now run_deadline"
  have planned: "planned parse r ch repo policy uid now run_deadline = pp_forget_ids plan"
    by (simp add: planned_def Inr plan_def)
  show thesis
  proof (cases "pp_forget_ids plan")
    case Nil
    with run Inr have "log = [S]" "\<exists>a b. res = Inr (NothingToPrune a b)"
      by (auto simp: run_prune_def and_then_def list_snapshots_eq S_def plan_def return_def Let_def)
    then show thesis by (intro stopped) auto
  next
    case (Cons probe rest)
    note run' = run [unfolded run_prune_def and_then_def [of "list_snapshots parse r repo"] list_snapshots_eq Inr, simplified,
        unfolded plan_def [symmetric] Let_def Cons, simplified]
    show thesis
    proof (cases "r [S] (F [probe])")
      case (Inl e)
      with run' have "log = [S, F [probe]]" "res = Inl e"
        by (simp_all add: and_then_def ask_def S_def F_def)
      then show thesis using planned Cons by (intro probed) simp_all
    next
      case said: (Inr said)
      note run2 = run' [unfolded and_then_ask, folded S_def F_def, simplified, unfolded said and_then_listed, folded S_def, simplified]
      show thesis
      proof (cases "shown parse r repo [S, F [probe]]")
        case (Inl e)
        with run2 have "log = [S, F [probe], S]" "res = Inl e" by simp_all
        then show thesis using planned Cons by (intro refused) simp_all
      next
        case ss: (Inr ss)
        show thesis
        proof (cases "probe \<in> sm_id ` set ss")
          case True
          with run2 ss have "log = [S, F [probe], S]" "\<forall>a b c d. res \<noteq> Inr (Pruned a b c d)"
            by (auto simp: Let_def return_def split: if_splits)
          then show thesis using planned Cons by (intro refused) simp_all
        next
          case False
          note run3 = run2 [unfolded ss sum.case set_map if_not_P [OF False] and_then_def [of "forget_rest _ _ _ _ _"], simplified]
          show thesis
          proof (cases "forget_rest parse r repo plan rest [S, F [probe], S]")
            case (Pair res1 log1)
            note run4 = run3 [unfolded Pair, simplified]
            from Pair show thesis
            proof (cases rule: forget_rest_shapes)
              case none
              with run4 show thesis using planned Cons ss False
                by (intro single [of probe ss]) (auto simp: and_then_def ask_def return_def P_def split: sum.splits)
            next
              case (failed e ls)
              with run4 show thesis using planned Cons
                by (intro partly [of probe rest ls]) (auto simp: F_def S_def)
            next
              case (gone ss')
              with run4 show thesis using planned Cons ss False
                by (intro all [of probe rest ss ss'])
                  (auto simp: and_then_def ask_def return_def P_def F_def S_def split: sum.splits)
            qed
          qed
        qed
      qed
    qed
  qed
qed

text \<open>
  C21. Whatever the store answers, a prune of the repository is asked for only after every
  snapshot of the plan was forgotten by name and then seen to be gone; every forget names
  only snapshots of the plan; and when the outcome is that deleting is not permitted, one snapshot was
  named and nothing else was asked of the store.
\<close>

theorem prune_only_after_forget_is_seen:
  assumes run: "run_prune parse r ch repo policy uid now run_deadline [] = (res, log)"
    and plan: "plan = planned parse r ch repo policy uid now run_deadline"
  shows "(\<forall>argv \<in> set log. argv \<in> {restic_snapshots_argv repo, restic_prune_argv repo} \<or>
      (\<exists>ids. argv = restic_forget_argv repo ids \<and> ids \<noteq> [] \<and> set ids \<subseteq> set plan)) \<and>
    (restic_prune_argv repo \<in> set log \<longrightarrow> (\<forall>i \<in> set plan. \<exists>h ids ss. prefix h log \<and>
       restic_forget_argv repo ids \<in> set h \<and> i \<in> set ids \<and> shown parse r repo h = Inr ss \<and> i \<notin> sm_id ` set ss)) \<and>
    (\<forall>i said n m. res = Inr (NotPermitted i said n m) \<longrightarrow>
       (\<exists>j \<in> set plan. log = [restic_snapshots_argv repo, restic_forget_argv repo [j], restic_snapshots_argv repo])) \<and>
    (\<forall>a b c d. res = Inr (Pruned a b c d) \<longrightarrow> last log = restic_prune_argv repo)"
proof -
  let ?S = "restic_snapshots_argv repo" and ?F = "restic_forget_argv repo" and ?P = "restic_prune_argv repo"
  from run show ?thesis
  proof (cases rule: run_prune_shapes)
    case stopped
    then show ?thesis by auto
  next
    case (probed probe rest)
    then show ?thesis unfolding plan by auto
  next
    case (refused probe rest)
    then show ?thesis unfolding plan by auto
  next
    case (partly probe rest ls)
    then show ?thesis unfolding plan by auto
  next
    case (single probe ss)
    have "prefix [?S, ?F [probe]] log" by (simp add: single)
    with single show ?thesis unfolding plan by (auto intro!: exI [of _ "[?S, ?F [probe]]"])
  next
    case (all probe rest ss ss')
    have "prefix [?S, ?F [probe]] log" "prefix [?S, ?F [probe], ?S, ?F rest] log" by (simp_all add: all)
    then have seen: "\<exists>h ids ss. prefix h log \<and> ?F ids \<in> set h \<and> i \<in> set ids \<and> shown parse r repo h = Inr ss \<and> i \<notin> sm_id ` set ss"
      if "i \<in> set plan" for i
    proof (cases "i = probe")
      case True
      with \<open>prefix [?S, ?F [probe]] log\<close> all(3,4) show ?thesis
        by (intro exI [of _ "[?S, ?F [probe]]"] exI [of _ "[probe]"] exI [of _ ss]) simp
    next
      case False
      with that have "i \<in> set rest" by (simp add: plan all(1))
      with \<open>prefix [?S, ?F [probe], ?S, ?F rest] log\<close> all(5,6) show ?thesis
        by (intro exI [of _ "[?S, ?F [probe], ?S, ?F rest]"] exI [of _ rest] exI [of _ ss']) simp
    qed
    have "\<forall>argv \<in> set log. argv \<in> {?S, ?P} \<or> (\<exists>ids. argv = ?F ids \<and> ids \<noteq> [] \<and> set ids \<subseteq> set plan)"
      using all(1,2,7) unfolding plan by auto
    with seen all(7,8) show ?thesis by simp
  qed
qed

subsection \<open>A small repository\<close>

text \<open>
  Times are hours written in decimal, days have 24 of them and weeks seven days; two runs of this
  cluster on one day, one of another cluster, and a claim snapshot of a run that has not finished.
\<close>

definition decimal :: "string \<Rightarrow> int option" where
  "decimal s = (if s \<noteq> [] \<and> list_all is_ascii_digit s then Some (int (foldl (\<lambda>n c. n * 10 + (of_char c - 48)) 0 s)) else None)"

definition hour_clock :: chrono where
  "hour_clock = \<lparr>ch_rfc3339 = decimal, ch_known_zone = (\<lambda>z. z = ''UTC''),
     ch_local_date = (\<lambda>_ t. \<lparr>nd_year = 2026, nd_ordinal = nat (t div 24), nd_iso_year = 2026,
       nd_iso_week = nat (t div 168), nd_month = nat (t div 720)\<rparr>), ch_max_delta = 2 ^ 62\<rparr>"

definition uid_a :: string where "uid_a = ''0000000a-0000-0000-0000-000000000000''"
definition uid_b :: string where "uid_b = ''0000000b-0000-0000-0000-000000000000''"

definition snap :: "string \<Rightarrow> string \<Rightarrow> string \<Rightarrow> bool \<Rightarrow> snapshot_meta" where
  "snap i uid hour manifest = \<lparr>sm_id = i, sm_run_tag = run_tag uid hour [], sm_time = hour, sm_ended = None,
     sm_is_manifest = manifest, sm_tags = [run_tag uid hour []]\<rparr>"

definition small_repo :: "snapshot_meta list" where
  "small_repo = [snap ''s1'' uid_a ''10'' True, snap ''s2'' uid_a ''12'' True, snap ''s3'' uid_b ''11'' True,
     snap ''s4'' uid_a ''30'' False]"

definition keep_one_day :: retention_policy where
  "keep_one_day = \<lparr>rp_keep_daily = 1, rp_keep_weekly = 0, rp_keep_monthly = 0, rp_zone = ''UTC''\<rparr>"

lemma small_repo_ids: "distinct (map sm_id small_repo)" by code_simp

lemma small_repo_plan:
  "pp_forget_ids (plan_prune hour_clock small_repo keep_one_day uid_a 31 0) = [''s1'']" by code_simp

theorem prune_forgets_whole_runs_witness:
  "''s4'' \<notin> set (pp_forget_ids (plan_prune hour_clock small_repo keep_one_day uid_a 31 0)) \<and>
   ''s3'' \<notin> set (pp_forget_ids (plan_prune hour_clock small_repo keep_one_day uid_a 31 0))"
proof -
  have w: "unfinished_run_window 0 \<le> ch_max_delta hour_clock"
    by (simp add: unfinished_run_window_def helper_keep_alive_def DEFAULT_RUN_DEADLINE_def UNFINISHED_RUN_MARGIN_def
        SECOND_def hour_clock_def DURATION_MAX_def)
  note safe = prune_forgets_whole_runs [OF small_repo_ids refl refl w, of keep_one_day uid_a 31]
  let ?s4 = "snap ''s4'' uid_a ''30'' False"
  have run: "?s4 \<in> set (owned small_repo uid_a)" "members (owned small_repo uid_a) (sm_run_tag ?s4) = [?s4]"
    "\<not> sm_is_manifest ?s4" "concat (map (signs_of_life hour_clock) [?s4]) = [30]" "31 - 30 < unfinished_run_window 0"
    by code_simp+
  have "sm_id ?s4 \<notin> set (pp_forget_ids (plan_prune hour_clock small_repo keep_one_day uid_a 31 0))"
    using bspec [OF conjunct2 [OF conjunct2 [OF safe]] run(1)] run(3,5) unfolding Let_def run(2,4) by simp
  moreover have "\<not> (\<exists>s \<in> set small_repo. sm_id s = ''s3'' \<and> owned_by_this_cluster (sm_tags s) uid_a)" by code_simp
  ultimately show ?thesis using conjunct1 [OF safe] by (auto simp: snap_def)
qed

theorem complete_run_forgotten_iff_witness:
  "''s2'' \<notin> set (pp_forget_ids (plan_prune hour_clock small_repo keep_one_day uid_a 31 0))"
proof -
  have "snap ''s2'' uid_a ''12'' True \<in> set (owned small_repo uid_a)" by code_simp
  moreover have "rg_representative (own_run hour_clock small_repo uid_a (sm_run_tag (snap ''s2'' uid_a ''12'' True))) =
      Some (snap ''s2'' uid_a ''12'' True)" by code_simp
  moreover have order: "run_instant hour_clock (snap ''s1'' uid_a ''10'' True) < run_instant hour_clock (snap ''s2'' uid_a ''12'' True)" by code_simp
  have "representatives hour_clock small_repo uid_a = [snap ''s1'' uid_a ''10'' True, snap ''s2'' uid_a ''12'' True]"
    by code_simp
  then have "newer_runs hour_clock (representatives hour_clock small_repo uid_a) (snap ''s2'' uid_a ''12'' True) = {}"
    using order by (auto simp: newer_runs_def)
  moreover have "rp_keep_daily keep_one_day \<noteq> 0" by (simp add: keep_one_day_def)
  ultimately show ?thesis
    using conjunct2 [OF complete_run_forgotten_iff [OF small_repo_ids _ _ refl refl, of "snap ''s2'' uid_a ''12'' True" uid_a hour_clock _ keep_one_day 31 0]]
    by (simp add: snap_def)
qed

definition silent_store :: restic where
  "silent_store log argv = Inr \<lparr>ro_stdout = (if argv = restic_snapshots_argv ''r'' then ''list'' else []), ro_stderr = ''Access Denied.''\<rparr>"

definition one_old_snapshot :: json_parser where
  "one_old_snapshot text = Inr (JArray [JObject [(''id'', JString ''s1''), (''paths'', JArray [JString ''/claim-1''])],
     JObject [(''id'', JString ''s2''), (''paths'', JArray [JString ''/claim-2'']), (''time'', JString ''1'')]])"

lemma refused_session: "run_prune one_old_snapshot silent_store hour_clock ''r'' keep_one_day uid_a 100000000000000 0 [] =
      (Inr (NotPermitted ''s1'' ''Access Denied.'' 2 1), [restic_snapshots_argv ''r'', restic_forget_argv ''r'' [''s1''], restic_snapshots_argv ''r''])"
proof -
  obtain ss where ss: "shown one_old_snapshot silent_store ''r'' [] = Inr ss" "''s1'' \<in> sm_id ` set ss"
     "pp_forget_ids (plan_prune hour_clock ss keep_one_day uid_a 100000000000000 0) = [''s1'', ''s2'']"
     "pp_forget_runs (plan_prune hour_clock ss keep_one_day uid_a 100000000000000 0) = 1"
    by (rule that [of "case shown one_old_snapshot silent_store ''r'' [] of Inr ss \<Rightarrow> ss"]) code_simp+
  have s: "shown one_old_snapshot silent_store ''r'' log = Inr ss" for log
    using ss(1) by (simp add: shown_def silent_store_def)
  have d: "delete_was_denied ''Access Denied.''" "str_trim ''Access Denied.'' = ''Access Denied.''" by code_simp+
  show ?thesis unfolding run_prune_def and_then_def [of "list_snapshots _ _ _"] list_snapshots_eq ss(1) Let_def
    using ss(2-) by (simp add: and_then_ask and_then_listed s d silent_store_def return_def)
qed

theorem prune_only_after_forget_is_seen_witness:
  "\<exists>j. snd (run_prune one_old_snapshot silent_store hour_clock ''r'' keep_one_day uid_a 100000000000000 0 []) =
     [restic_snapshots_argv ''r'', restic_forget_argv ''r'' [j], restic_snapshots_argv ''r'']"
  using prune_only_after_forget_is_seen [OF refused_session refl] by (auto simp: refused_session)

end
