(* ===== verification/Backup_Restore.thy ===== *)
theory Backup_Restore
  imports Backup_Prune
begin

text \<open>
  Which run of a repository a restore starts from (\<open>backup-core/src/restore.rs\<close>): what \<open>latest\<close>
  means in a repository that several clusters may share, what a snapshot named by id stands for,
  the steps of a restore, and the gating of an Application while its data is loaded. \<open>parse\<close> reads
  the listing of \<open>restic\<close> as a list of values. Dashes of the messages are written in ASCII.
\<close>

datatype restore_mode = IntoRunning | Reprovision

datatype restore_step =
    ReprovisionStep
  | RestoreArtifact
  | ApplyImportedCerts
  | ApplyPlatformStack
  | EnsureNamespaces
  | ApplySourceCredentials
  | ApplyAppsGated
  | WaitClaimsBound
  | LoadData
  | ReSealUserSecrets
  | ResumeWorkloads
  | SuspendWorkloads

record unfinished_run =
  ur_tag :: string
  ur_snapshots :: nat
  ur_newest :: string

record run_snapshots =
  rn_commit :: string
  rn_claims :: "string list"
  rn_passed_over :: "unfinished_run list"
  rn_resolved_from :: "string option"

record latest_snapshot =
  ls_id :: string
  ls_passed_over :: "unfinished_run list"

subsection \<open>Reading one snapshot\<close>

definition str_at :: "json \<Rightarrow> string \<Rightarrow> string" where
  "str_at s k = unwrap_or (Option.bind (json_get s k) as_str) []"

definition id_of :: "json \<Rightarrow> string" where "id_of s = str_at s ''id''"
definition time_of :: "json \<Rightarrow> string" where "time_of s = str_at s ''time''"

definition instant_of :: "chrono \<Rightarrow> json \<Rightarrow> int option" where
  "instant_of ch s = Option.bind (Option.bind (json_get s ''time'') as_str) (snapshot_instant ch)"

definition paths_of :: "json \<Rightarrow> string list" where "paths_of s = str_list_at s ''paths''"
definition run_tag_of :: "json \<Rightarrow> string" where "run_tag_of s = first_tag (snapshot_tags s)"

definition completes :: "json list \<Rightarrow> json \<Rightarrow> bool" where
  "completes snaps s = (let alone = length (filter (\<lambda>x. run_tag_of x = run_tag_of s) snaps) \<le> 1
     in derive_manifest (paths_of s) alone)"

text \<open>\<open>Iterator::max_by_key\<close> returns the last of several greatest elements.\<close>

definition max_by_key :: "('a \<Rightarrow> 'k::linorder) \<Rightarrow> 'a list \<Rightarrow> 'a option" where
  "max_by_key key xs = foldl (\<lambda>best x. case best of None \<Rightarrow> Some x | Some b \<Rightarrow> Some (if key b \<le> key x then x else b)) None xs"

subsection \<open>The latest run\<close>

datatype drawn_from = FromThisCluster | FromRepository

definition latest_pool :: "json list \<Rightarrow> string option \<Rightarrow> (string, json list \<times> drawn_from) result" where
  "latest_pool snaps this_cluster_uid =
     (let repository = (let others = cluster_uids_in snaps
        in if length others > 1
           then Inl (''this repository holds snapshots from '' @ show_nat (length others) @ '' different clusters ('' @
             join '', '' others @ ''), and none of them are this cluster's - so `latest` cannot say which one you meant. '' @
             ''`apprafter backup list --all-clusters` shows every snapshot with the cluster it belongs to; then name the '' @
             ''run explicitly - `--snapshot <id>` for a restore, `apprafter backup show <id>` to look inside one first.'')
           else Inr (snaps, FromRepository))
      in case this_cluster_uid of
           Some uid \<Rightarrow>
             (if list_ex (\<lambda>s. classify_snapshot (snapshot_tags s) uid = ThisCluster) snaps
              then Inr (filter (\<lambda>s. owned_by_this_cluster (snapshot_tags s) uid) snaps, FromThisCluster)
              else repository)
         | None \<Rightarrow> repository)"

definition no_complete_run :: "drawn_from \<Rightarrow> nat \<Rightarrow> string option \<Rightarrow> nat \<Rightarrow> string" where
  "no_complete_run drawn_from runs newest complete_elsewhere =
     (let (whose, listing) = (case drawn_from of
            FromThisCluster \<Rightarrow> (''this cluster's'', ''`apprafter backup list`'')
          | FromRepository \<Rightarrow> (''the repository's'', ''`apprafter backup list --all-clusters`''))
      in ''no complete backup run to choose: '' @ whose @ '' snapshots form '' @ show_nat runs @
         '' run(s), and none has the snapshot that completes it, the one carrying manifest.json'' @
         (case newest of Some t \<Rightarrow> '' (the newest written at '' @ t @ '')'' | None \<Rightarrow> []) @
         '' - each was interrupted before its last snapshot, or is still being written. A sequential backup '' @
         ''writes that snapshot last. Wait for a backup in progress to finish, or take one '' @
         ''(`apprafter backup run`); '' @ listing @ '' shows them.'' @
         (if complete_elsewhere > 0
          then '' The repository does hold '' @ show_nat complete_elsewhere @ '' complete run(s) of other clusters, '' @
            ''which `latest` never picks for this one: `apprafter backup list --all-clusters` shows every snapshot with '' @
            ''the cluster it belongs to; to use one of them on purpose, name it - `--snapshot <id>` for a restore, '' @
            ''`apprafter backup show <id>` to look inside it first.''
          else []))"

definition note_unfinished :: "chrono \<Rightarrow> (unfinished_run \<times> int option) btreemap \<Rightarrow> json \<Rightarrow> (unfinished_run \<times> int option) btreemap" where
  "note_unfinished ch m s =
     (let tag = run_tag_of s; at = instant_of ch s;
          (run, newest_at) = unwrap_or (map_of m tag) (\<lparr>ur_tag = tag, ur_snapshots = 0, ur_newest = time_of s\<rparr>, at);
          run = run\<lparr>ur_snapshots := ur_snapshots run + 1\<rparr>
      in bt_insert tag (if newest_at < at then (run\<lparr>ur_newest := time_of s\<rparr>, at) else (run, newest_at)) m)"

definition choose_latest :: "chrono \<Rightarrow> json list \<Rightarrow> string option \<Rightarrow> (string, json \<times> unfinished_run list) result" where
  "choose_latest ch snaps this_cluster_uid = result_bind (latest_pool snaps this_cluster_uid) (\<lambda>(pool, drawn_from).
     let complete = filter (completes snaps) pool;
         rest = filter (\<lambda>s. \<not> completes snaps s) pool;
         unfinished = map snd (foldl (note_unfinished ch) [] rest)
     in case max_by_key (instant_of ch) complete of
          None \<Rightarrow> Inl (no_complete_run drawn_from (length unfinished)
            (map_option (\<lambda>(r, _). ur_newest r) (max_by_key snd unfinished)) (length (filter (completes snaps) snaps)))
        | Some commit \<Rightarrow> Inr (commit, map fst (sort_le (\<lambda>a b. snd b \<le> snd a)
            (filter (\<lambda>(_, at). instant_of ch commit < at) unfinished))))"

subsection \<open>The run of a restore\<close>

definition commit_of_named_run :: "chrono \<Rightarrow> json list \<Rightarrow> json \<Rightarrow> string \<Rightarrow> (string, json) result" where
  "commit_of_named_run ch snaps named requested =
     (if completes snaps named then Inr named
      else let i = id_of named; tag = run_tag_of named
        in if tag = []
           then Inl (''snapshot `'' @ requested @ ''` ('' @ i @ '') carries no run tag, so no run can be put together '' @
             ''around it, and it does not complete one by itself - it is not a backup run a restore can replay, so nothing '' @
             ''was downloaded. `apprafter backup list` shows the complete runs; name one of those with `--snapshot <id>`, '' @
             ''or leave `--snapshot` out for the newest complete run.'')
           else let run = filter (\<lambda>s. run_tag_of s = tag) snaps
             in case max_by_key (instant_of ch) (filter (completes snaps) run) of
                  Some commit \<Rightarrow> Inr commit
                | None \<Rightarrow> Inl (''snapshot `'' @ requested @ ''` ('' @ i @ '') is one of the '' @ show_nat (length run) @
                    '' snapshot(s) of backup run '' @ tag @ '', and none of them carries manifest.json: the run was '' @
                    ''interrupted before its last snapshot, or is still being written. A restore replays a whole run, '' @
                    ''starting from the snapshot that carries its manifest, and restoring part of a run is not supported - '' @
                    ''so nothing was downloaded. `apprafter backup list` shows the complete runs; name one of those with '' @
                    ''`--snapshot <id>`, or leave `--snapshot` out for the newest complete run.''))"

definition parse_snapshot_list :: "(string \<Rightarrow> (string, json list) result) \<Rightarrow> string \<Rightarrow> (string, json list) result" where
  "parse_snapshot_list parse text = (case parse text of
       Inl e \<Rightarrow> Inl (''parsing `restic snapshots --json`: '' @ e)
     | Inr snaps \<Rightarrow> if snaps = [] then Inl ''the repository has no snapshots'' else Inr snaps)"

definition names :: "string \<Rightarrow> json \<Rightarrow> bool" where
  "names requested s \<longleftrightarrow> id_of s = requested \<or> prefix requested (id_of s) \<or>
     Option.bind (json_get s ''short_id'') as_str = Some requested"

definition chosen_commit :: "chrono \<Rightarrow> json list \<Rightarrow> string \<Rightarrow> string option \<Rightarrow>
    (string, json \<times> unfinished_run list \<times> string option) result" where
  "chosen_commit ch snaps requested this_cluster_uid =
     (if requested = ''latest''
      then result_bind (choose_latest ch snaps this_cluster_uid) (\<lambda>(commit, passed_over). Inr (commit, passed_over, None))
      else case List.find (names requested) snaps of
             None \<Rightarrow> Inl (''no snapshot matching `'' @ requested @ ''` in this repository'')
           | Some named \<Rightarrow> result_bind (commit_of_named_run ch snaps named requested) (\<lambda>commit.
               Inr (commit, [], if commit = named then None else Some (id_of named))))"

definition run_claims :: "chrono \<Rightarrow> json list \<Rightarrow> json \<Rightarrow> string list" where
  "run_claims ch snaps commit =
     (if run_tag_of commit = [] then []
      else map snd (sort_le (\<lambda>(a, i) (b, j). a < b \<or> a = b \<and> i \<le> j)
        (map (\<lambda>s. (instant_of ch s, id_of s))
          (filter (\<lambda>s. id_of s \<noteq> id_of commit \<and> run_tag_of s = run_tag_of commit) snaps))))"

definition resolve_run_snapshots :: "chrono \<Rightarrow> (string \<Rightarrow> (string, json list) result) \<Rightarrow> string \<Rightarrow> string \<Rightarrow> string option \<Rightarrow>
    (string, run_snapshots) result" where
  "resolve_run_snapshots ch parse text requested this_cluster_uid =
     result_bind (parse_snapshot_list parse text) (\<lambda>snaps.
       result_bind (chosen_commit ch snaps requested this_cluster_uid) (\<lambda>(commit, passed_over, resolved_from).
         Inr \<lparr>rn_commit = id_of commit, rn_claims = run_claims ch snaps commit, rn_passed_over = passed_over,
              rn_resolved_from = resolved_from\<rparr>))"

definition resolve_latest_snapshot :: "chrono \<Rightarrow> (string \<Rightarrow> (string, json list) result) \<Rightarrow> string \<Rightarrow> string option \<Rightarrow>
    (string, latest_snapshot) result" where
  "resolve_latest_snapshot ch parse text this_cluster_uid =
     result_bind (parse_snapshot_list parse text) (\<lambda>snaps.
       result_bind (choose_latest ch snaps this_cluster_uid) (\<lambda>(commit, passed_over).
         Inr \<lparr>ls_id = id_of commit, ls_passed_over = passed_over\<rparr>))"

subsection \<open>The steps of a restore\<close>

definition restore_steps :: "restore_mode \<Rightarrow> bool \<Rightarrow> restore_step list" where
  "restore_steps mode data_only =
     (if data_only then [RestoreArtifact, SuspendWorkloads, LoadData, ResumeWorkloads]
      else (if mode = Reprovision then [ReprovisionStep] else []) @
        [RestoreArtifact, ApplyImportedCerts, ApplyPlatformStack, EnsureNamespaces, ApplySourceCredentials, ApplyAppsGated,
         WaitClaimsBound, LoadData, ReSealUserSecrets, ResumeWorkloads])"

text \<open>A child that is not an object makes the source panic, which is \<open>None\<close> here.\<close>

definition child_object :: "json btreemap \<Rightarrow> string \<Rightarrow> json btreemap option" where
  "child_object m k = as_object (unwrap_or (map_of m k) (JObject []))"

definition zero_env :: "json \<Rightarrow> json" where
  "zero_env env = (case env of JObject e \<Rightarrow> JObject (bt_insert ''replicas'' (JNumber ''0'') e) | v \<Rightarrow> v)"

definition zero_replicas :: "json \<Rightarrow> json option" where
  "zero_replicas app_cr =
     (let m = unwrap_or (as_object app_cr) []
      in case child_object m ''spec'' of
           None \<Rightarrow> None
         | Some spec \<Rightarrow> (case child_object spec ''base'' of
             None \<Rightarrow> None
           | Some base \<Rightarrow>
               (let spec1 = bt_insert ''base'' (JObject (bt_insert ''replicas'' (JNumber ''0'') base)) spec;
                    spec2 = (case map_of spec1 ''environments'' of
                      Some (JObject envs) \<Rightarrow> bt_insert ''environments'' (JObject (map (\<lambda>(k, v). (k, zero_env v)) envs)) spec1
                    | _ \<Rightarrow> spec1)
                in Some (JObject (bt_insert ''spec'' (JObject spec2) m)))))"

subsection \<open>Which run is the latest\<close>

lemma max_by_key_snoc: "max_by_key key (xs @ [x]) = (case max_by_key key xs of
    None \<Rightarrow> Some x | Some b \<Rightarrow> Some (if key b \<le> key x then x else b))"
  by (simp add: max_by_key_def)

lemma max_by_key_None [simp]: "max_by_key key xs = None \<longleftrightarrow> xs = []"
  by (induction xs rule: rev_induct) (auto simp: max_by_key_snoc max_by_key_def split: option.splits)

lemma max_by_key_Some: "max_by_key key xs = Some b \<Longrightarrow> b \<in> set xs \<and> (\<forall>x \<in> set xs. key x \<le> key b)"
proof (induction xs arbitrary: b rule: rev_induct)
  case Nil
  then show ?case by (simp add: max_by_key_def)
next
  case (snoc x xs)
  then show ?case
    by (cases "max_by_key key xs") (auto simp: max_by_key_snoc split: if_splits dest!: snoc.IH intro: order_trans)
qed

definition note_run :: "chrono \<Rightarrow> (unfinished_run \<times> int option) option \<Rightarrow> json \<Rightarrow> unfinished_run \<times> int option" where
  "note_run ch entry s =
     (let at = instant_of ch s;
          (run, newest_at) = unwrap_or entry (\<lparr>ur_tag = run_tag_of s, ur_snapshots = 0, ur_newest = time_of s\<rparr>, at);
          run = run\<lparr>ur_snapshots := ur_snapshots run + 1\<rparr>
      in if newest_at < at then (run\<lparr>ur_newest := time_of s\<rparr>, at) else (run, newest_at))"

lemma note_unfinished_run: "note_unfinished ch = (\<lambda>m s. bt_insert (run_tag_of s) (note_run ch (map_of m (run_tag_of s)) s) m)"
  by (simp add: note_unfinished_def note_run_def Let_def fun_eq_iff case_prod_unfold)

lemma note_run_fold:
  assumes "\<forall>s \<in> set ss. run_tag_of s = tag" "ss \<noteq> []"
  shows "\<exists>run at. foldl (\<lambda>g s. Some (note_run ch g s)) None ss = Some (run, at) \<and> ur_tag run = tag \<and>
    ur_snapshots run = length ss \<and> (\<forall>s \<in> set ss. instant_of ch s \<le> at)"
  using assms
proof (induction ss rule: rev_induct)
  case (snoc s ss)
  show ?case
  proof (cases "ss = []")
    case True
    with snoc.prems show ?thesis by (simp add: note_run_def)
  next
    case False
    with snoc obtain run at where IH: "foldl (\<lambda>g s. Some (note_run ch g s)) None ss = Some (run, at)" "ur_tag run = tag"
        "ur_snapshots run = length ss" "\<forall>s \<in> set ss. instant_of ch s \<le> at" by auto
    then show ?thesis by (auto simp: note_run_def Let_def intro: order.trans order.strict_implies_order)
  qed
qed simp

lemma unfinished_noted:
  assumes "s \<in> set rest"
  obtains run at where "(run, at) \<in> set (map snd (foldl (note_unfinished ch) [] rest))" "ur_tag run = run_tag_of s"
    "instant_of ch s \<le> at"
proof -
  let ?same = "filter (\<lambda>x. run_tag_of x = run_tag_of s) rest"
  have "s \<in> set ?same" using assms by simp
  then obtain run at where "foldl (\<lambda>g s. Some (note_run ch g s)) None ?same = Some (run, at)" "ur_tag run = run_tag_of s"
      "instant_of ch s \<le> at"
    using note_run_fold [of ?same "run_tag_of s" ch] by fastforce
  moreover from this(1) have "map_of (foldl (note_unfinished ch) [] rest) (run_tag_of s) = Some (run, at)"
    unfolding note_unfinished_run by (simp add: bt_group_opt(2))
  from map_of_SomeD [OF this] have "(run, at) \<in> set (map snd (foldl (note_unfinished ch) [] rest))" by force
  ultimately show thesis using that by blast
qed

definition in_pool :: "json list \<Rightarrow> string option \<Rightarrow> json \<Rightarrow> bool" where
  "in_pool snaps this_cluster_uid s \<longleftrightarrow> (\<forall>uid. this_cluster_uid = Some uid \<and>
     (\<exists>s \<in> set snaps. classify_snapshot (snapshot_tags s) uid = ThisCluster) \<longrightarrow> owned_by_this_cluster (snapshot_tags s) uid)"

lemma latest_pool_Inr:
  assumes "latest_pool snaps this_cluster_uid = Inr (ps, d)"
  shows "ps = filter (in_pool snaps this_cluster_uid) snaps"
    and "(\<forall>uid. this_cluster_uid = Some uid \<longrightarrow> \<not> (\<exists>s \<in> set snaps. classify_snapshot (snapshot_tags s) uid = ThisCluster)) \<Longrightarrow>
      length (cluster_uids_in snaps) \<le> 1"
  using assms by (auto simp: latest_pool_def Let_def in_pool_def list_ex_iff filter_id_conv intro!: filter_cong
      split: option.splits if_splits)

lemma chosen_latest:
  assumes "choose_latest ch snaps this_cluster_uid = Inr (commit, passed_over)"
  obtains ps d where "latest_pool snaps this_cluster_uid = Inr (ps, d)"
    "max_by_key (instant_of ch) (filter (completes snaps) ps) = Some commit"
    "passed_over = map fst (sort_le (\<lambda>a b. snd b \<le> snd a) (filter (\<lambda>(_, at). instant_of ch commit < at)
      (map snd (foldl (note_unfinished ch) [] (filter (\<lambda>s. \<not> completes snaps s) ps)))))"
  using assms by (cases "latest_pool snaps this_cluster_uid") (auto simp: choose_latest_def Let_def split: option.splits)

lemma latest_pool_commit:
  assumes "choose_latest ch snaps this_cluster_uid = Inr (commit, passed_over)"
  shows "commit \<in> set snaps" "completes snaps commit" "in_pool snaps this_cluster_uid commit"
proof -
  from assms obtain ps d where "latest_pool snaps this_cluster_uid = Inr (ps, d)"
    "max_by_key (instant_of ch) (filter (completes snaps) ps) = Some commit" by (rule chosen_latest)
  with latest_pool_Inr(1) [OF this(1)] max_by_key_Some [OF this(2)]
  show "commit \<in> set snaps" "completes snaps commit" "in_pool snaps this_cluster_uid commit" by auto
qed

text \<open>
  C22. The run \<open>latest\<close> stands for is complete, no complete run of the pool is newer, and every
  snapshot of an unfinished run that is newer is reported. The pool is what this cluster owns when
  it has a history; otherwise the repository holds the snapshots of at most one cluster.
\<close>

theorem latest_is_newest_complete_run:
  assumes chosen: "choose_latest ch snaps this_cluster_uid = Inr (commit, passed_over)"
    and own: "own = (\<lambda>uid. \<exists>s \<in> set snaps. classify_snapshot (snapshot_tags s) uid = ThisCluster)"
    and pool: "pool = (\<lambda>s. \<forall>uid. this_cluster_uid = Some uid \<and> own uid \<longrightarrow> owned_by_this_cluster (snapshot_tags s) uid)"
  shows "commit \<in> set snaps \<and> completes snaps commit \<and> pool commit \<and>
    (\<forall>s \<in> set snaps. pool s \<and> completes snaps s \<longrightarrow> instant_of ch s \<le> instant_of ch commit) \<and>
    (\<forall>s \<in> set snaps. pool s \<and> \<not> completes snaps s \<and> instant_of ch commit < instant_of ch s \<longrightarrow>
       (\<exists>u \<in> set passed_over. ur_tag u = run_tag_of s)) \<and>
    ((\<forall>uid. this_cluster_uid = Some uid \<longrightarrow> \<not> own uid) \<longrightarrow> length (cluster_uids_in snaps) \<le> 1)"
proof -
  have pool': "pool = in_pool snaps this_cluster_uid" by (simp add: pool own in_pool_def fun_eq_iff)
  from chosen obtain ps d where ps: "latest_pool snaps this_cluster_uid = Inr (ps, d)"
    and latest: "max_by_key (instant_of ch) (filter (completes snaps) ps) = Some commit"
    and passed: "passed_over = map fst (sort_le (\<lambda>a b. snd b \<le> snd a) (filter (\<lambda>(_, at). instant_of ch commit < at)
      (map snd (foldl (note_unfinished ch) [] (filter (\<lambda>s. \<not> completes snaps s) ps)))))"
    by (rule chosen_latest)
  note ps_set = latest_pool_Inr(1) [OF ps, folded pool'] and single = latest_pool_Inr(2) [OF ps]
  let ?rest = "filter (\<lambda>s. \<not> completes snaps s) ps"
  have "\<exists>u \<in> set passed_over. ur_tag u = run_tag_of s"
    if s: "s \<in> set snaps" "pool s" "\<not> completes snaps s" "instant_of ch commit < instant_of ch s" for s
  proof -
    have "s \<in> set ?rest" using s by (simp add: ps_set)
    then obtain run at where r: "(run, at) \<in> set (map snd (foldl (note_unfinished ch) [] ?rest))" "ur_tag run = run_tag_of s"
      "instant_of ch s \<le> at" by (rule unfinished_noted)
    with s(4) have "run \<in> set passed_over" unfolding passed set_map set_sort_le set_filter
      by (intro image_eqI [of _ _ "(run, at)"]) auto
    with r(2) show ?thesis by blast
  qed
  with single max_by_key_Some [OF latest] show ?thesis unfolding own by (auto simp: ps_set)
qed

subsection \<open>The latest run and the prune\<close>

lemma raw_of_named:
  assumes "id_of s \<noteq> []"
  shows "raw_of s = Some \<lparr>rs_id = id_of s, rs_run_tag = run_tag_of s, rs_time = time_of s,
    rs_ended = Option.bind (json_pointer s [''summary'', ''backup_end'']) as_str, rs_paths = paths_of s, rs_tags = snapshot_tags s\<rparr>"
proof -
  obtain i where "json_get s ''id'' = Some (JString i)" "i \<noteq> []" "id_of s = i"
    using assms by (cases "json_get s ''id''") (auto simp: id_of_def str_at_def unwrap_or_eq_iff bind_eq_Some_conv split: option.splits)
  then show ?thesis
    by (simp add: raw_of_def Let_def opt_or_def run_tag_of_def time_of_def str_at_def paths_of_def split: option.split)
qed

lemma parsed_snapshots:
  assumes "\<forall>s \<in> set snaps. id_of s \<noteq> []" "parse text = Inr (JArray snaps)" "parse_snapshots parse text = Inr metas"
  shows "map sm_id metas = map id_of snaps"
    and "\<And>s. s \<in> set snaps \<Longrightarrow> \<exists>m \<in> set metas. sm_id m = id_of s \<and> sm_run_tag m = run_tag_of s \<and> sm_tags m = snapshot_tags s \<and>
      sm_is_manifest m = completes snaps s"
proof -
  let ?raws = "List.map_filter raw_of snaps"
  have raws: "?raws = map (\<lambda>s. the (raw_of s)) snaps"
    using assms(1) by (induction snaps) (simp_all add: map_filter_simps raw_of_named)
  have metas: "metas = map (\<lambda>s. meta_of ?raws (the (raw_of s))) snaps"
    using assms(2,3) by (auto simp: parse_snapshots_def Let_def raws)
  have field: "rs_run_tag (the (raw_of s)) = run_tag_of s" "rs_id (the (raw_of s)) = id_of s"
      "rs_paths (the (raw_of s)) = paths_of s" "rs_tags (the (raw_of s)) = snapshot_tags s" if "s \<in> set snaps" for s
    using raw_of_named assms(1) that by simp_all
  show "map sm_id metas = map id_of snaps" using field by (simp add: metas meta_of_def Let_def)
  fix s
  assume s: "s \<in> set snaps"
  have "length (filter (\<lambda>x. rs_run_tag x = run_tag_of s) ?raws) = length (filter (\<lambda>x. run_tag_of x = run_tag_of s) snaps)"
    unfolding raws filter_map length_map comp_def using field by (metis (mono_tags, lifting) filter_cong)
  moreover have "filter (\<lambda>x. run_tag_of x = run_tag_of s) snaps \<noteq> []" using s by (auto simp: filter_empty_conv)
  then have "length (filter (\<lambda>x. run_tag_of x = run_tag_of s) snaps) = 1 \<longleftrightarrow> length (filter (\<lambda>x. run_tag_of x = run_tag_of s) snaps) \<le> 1"
    by (cases "filter (\<lambda>x. run_tag_of x = run_tag_of s) snaps") auto
  ultimately have "sm_is_manifest (meta_of ?raws (the (raw_of s))) = completes snaps s"
    using field [OF s] by (simp add: meta_of_def Let_def completes_def)
  then show "\<exists>m \<in> set metas. sm_id m = id_of s \<and> sm_run_tag m = run_tag_of s \<and> sm_tags m = snapshot_tags s \<and>
      sm_is_manifest m = completes snaps s"
  proof (intro bexI [of _ "meta_of ?raws (the (raw_of s))"])
    show "meta_of ?raws (the (raw_of s)) \<in> set metas" unfolding metas using s by simp
  qed (use field [OF s] in \<open>simp add: meta_of_def Let_def\<close>)
qed

lemma representative_of_tag:
  assumes "x \<in> set (representatives ch metas uid)" "rg_representative (own_run ch metas uid (sm_run_tag x)) = Some r"
  shows "x = r"
proof -
  obtain tag where "rg_representative (own_run ch metas uid tag) = Some x" using assms(1) unfolding representatives_set by blast
  moreover from this have "sm_run_tag x = tag" using run_of_simps(2) by (fastforce simp: own_run_def members_def)
  ultimately show ?thesis using assms(2) by simp
qed

text \<open>
  C23. When \<open>latest\<close> stands for a run of this cluster (the repository has a snapshot of it, so
  unowned ones are not considered), the tag of that run carries its start, and no other complete
  run of this cluster started later, then a prune of the same repository does not forget it,
  whatever the policy keeps, as long as it keeps some period.
\<close>

theorem latest_run_survives_prune:
  assumes chosen: "choose_latest ch snaps (Some uid) = Inr (commit, passed_over)"
    and own: "\<exists>s \<in> set snaps. classify_snapshot (snapshot_tags s) uid = ThisCluster"
    and ids: "\<forall>s \<in> set snaps. id_of s \<noteq> []" "distinct (map id_of snaps)"
    and listing: "parse text = Inr (JArray snaps)" "parse_snapshots parse text = Inr metas"
    and start: "tag_run_start ch (run_tag_of commit) = Some t"
    and no_later: "\<forall>x \<in> set (representatives ch metas uid). sm_run_tag x \<noteq> run_tag_of commit \<longrightarrow> run_instant ch x < Some t"
    and keeps: "rp_keep_daily policy \<noteq> 0 \<or> rp_keep_weekly policy \<noteq> 0 \<or> rp_keep_monthly policy \<noteq> 0"
  shows "id_of commit \<notin> set (pp_forget_ids (plan_prune ch metas policy uid now run_deadline))"
proof -
  have c: "commit \<in> set snaps" "completes snaps commit" "owned_by_this_cluster (snapshot_tags commit) uid"
    using latest_pool_commit [OF chosen] own by (auto simp: in_pool_def)
  from parsed_snapshots(2) [OF ids(1) listing c(1)] obtain m where m: "m \<in> set metas" "sm_id m = id_of commit"
    "sm_run_tag m = run_tag_of commit" "sm_tags m = snapshot_tags commit" "sm_is_manifest m" using c(2) by blast
  have dist: "distinct (map sm_id metas)" using parsed_snapshots(1) [OF ids(1) listing] ids(2) by simp
  have mo: "m \<in> set (owned metas uid)" using m(1,4) c(3) by (simp add: owned_def)
  then have "m \<in> set (members (owned metas uid) (sm_run_tag m))" by (simp add: members_def)
  with m(5) obtain r where r: "rg_representative (own_run ch metas uid (sm_run_tag m)) = Some r"
    unfolding own_run_def using run_of_simps(3) [of ch "members (owned metas uid) (sm_run_tag m)"] by fastforce
  then have "sm_run_tag r = run_tag_of commit"
    using run_of_simps(2) [OF r [unfolded own_run_def]] m(3) by (simp add: members_def)
  then have start_r: "run_instant ch r = Some t" by (simp add: run_instant_def start)
  have "newer_runs ch (representatives ch metas uid) r = {}"
  proof (rule equals0I)
    fix x
    assume "x \<in> newer_runs ch (representatives ch metas uid) r"
    then have x: "x \<in> set (representatives ch metas uid)" "x \<noteq> r" "newest_run_first ch x r"
      by (auto simp: newer_runs_def newest_run_first_def)
    with r m(3) representative_of_tag [OF x(1)] no_later have "run_instant ch x < Some t" by metis
    with x(3) start_r show False by (auto simp: newest_run_first_def)
  qed
  with newest_run_not_forgotten [OF dist mo r] keeps m(2) show ?thesis by simp
qed

subsection \<open>The gate of a restore\<close>

lemma zero_env_object: "zero_env (JObject e) = JObject (bt_insert ''replicas'' (JNumber ''0'') e)"
  by (simp add: zero_env_def)

lemma zero_env_other: "as_object v = None \<Longrightarrow> zero_env v = v"
  by (cases v) (simp_all add: zero_env_def as_object_def)

lemma map_of_map_snd: "map_of (map (\<lambda>(k, v). (k, f v)) m) k = map_option f (map_of m k)"
  by (induction m) auto

text \<open>
  Gating an Application for a restore sets the replicas of the base and of every environment
  to zero, also where an environment inherits them, and changes nothing else: the other keys of
  the resource, of its spec, of the base and of each environment keep their values.
\<close>

lemma zero_replicas_stops_only_pods:
  assumes cr: "app_cr = JObject m" "map_of m ''spec'' = Some (JObject spec)" "map_of spec ''base'' = Some (JObject base)"
    and envs: "map_of spec ''environments'' = Some (JObject es)"
  shows "\<exists>m' spec' base' es'. zero_replicas app_cr = Some (JObject m') \<and>
    map_of m' = (map_of m)(''spec'' \<mapsto> JObject spec') \<and>
    map_of spec' = (map_of spec)(''base'' \<mapsto> JObject base', ''environments'' \<mapsto> JObject es') \<and>
    map_of base' = (map_of base)(''replicas'' \<mapsto> JNumber ''0'') \<and>
    dom (map_of es') = dom (map_of es) \<and>
    (\<forall>k e. map_of es k = Some (JObject e) \<longrightarrow>
      (\<exists>e'. map_of es' k = Some (JObject e') \<and> map_of e' = (map_of e)(''replicas'' \<mapsto> JNumber ''0''))) \<and>
    (\<forall>k v. map_of es k = Some v \<and> as_object v = None \<longrightarrow> map_of es' k = Some v)"
proof -
  let ?base = "bt_insert ''replicas'' (JNumber ''0'') base"
  let ?es = "map (\<lambda>(k, v). (k, zero_env v)) es"
  let ?spec1 = "bt_insert ''base'' (JObject ?base) spec"
  let ?spec = "bt_insert ''environments'' (JObject ?es) ?spec1"
  have "map_of ?spec1 ''environments'' = Some (JObject es)" using envs by (simp add: bt_get_insert)
  then have "zero_replicas app_cr = Some (JObject (bt_insert ''spec'' (JObject ?spec) m))"
    using cr by (simp add: zero_replicas_def child_object_def)
  moreover have get: "map_of ?es k = map_option zero_env (map_of es k)" for k by (rule map_of_map_snd)
  have "dom (map_of ?es) = dom (map_of es)" by (auto simp: dom_def get)
  moreover have "\<forall>k v. map_of es k = Some v \<and> as_object v = None \<longrightarrow> map_of ?es k = Some v"
    by (auto simp: get zero_env_other)
  moreover have "map_of ?spec = (map_of spec)(''base'' \<mapsto> JObject ?base, ''environments'' \<mapsto> JObject ?es)"
    by (simp add: bt_get_insert)
  ultimately show ?thesis
    by (intro exI [of _ "bt_insert ''spec'' (JObject ?spec) m"] exI [of _ ?spec] exI [of _ ?base] exI [of _ ?es])
      (simp add: bt_get_insert zero_env_object get)
qed

text \<open>A repository of two clusters: a complete run of this one, an unfinished one after it, and a later run of the other.\<close>

definition listed :: "string \<Rightarrow> string \<Rightarrow> string \<Rightarrow> string \<Rightarrow> json" where
  "listed i uid hour path = JObject [(''id'', JString i), (''time'', JString hour), (''paths'', JArray [JString path]),
     (''tags'', JArray [JString (run_tag uid hour [])])]"

definition shared_repo :: "json list" where
  "shared_repo = [listed ''a1'' uid_a ''10'' ''/data'', listed ''a2'' uid_a ''12'' ''/claim-1'', listed ''b1'' uid_b ''30'' ''/data'']"

lemma shared_repo_latest: "choose_latest hour_clock shared_repo (Some uid_a) = Inr (listed ''a1'' uid_a ''10'' ''/data'',
    [\<lparr>ur_tag = run_tag uid_a ''12'' [], ur_snapshots = 1, ur_newest = ''12''\<rparr>])"
  by code_simp

lemma shared_repo_own: "\<exists>s \<in> set shared_repo. classify_snapshot (snapshot_tags s) uid_a = ThisCluster"
  by code_simp

theorem latest_is_newest_complete_run_witness:
  "owned_by_this_cluster (snapshot_tags (listed ''a1'' uid_a ''10'' ''/data'')) uid_a \<and>
   \<not> owned_by_this_cluster (snapshot_tags (listed ''b1'' uid_b ''30'' ''/data'')) uid_a"
proof -
  have "owned_by_this_cluster (snapshot_tags (listed ''a1'' uid_a ''10'' ''/data'')) uid_a"
    using latest_is_newest_complete_run [OF shared_repo_latest refl refl] shared_repo_own by blast
  moreover have "\<not> owned_by_this_cluster (snapshot_tags (listed ''b1'' uid_b ''30'' ''/data'')) uid_a" by code_simp
  ultimately show ?thesis ..
qed

theorem latest_run_survives_prune_witness:
  "\<exists>metas. parse_snapshots (\<lambda>_. Inr (JArray shared_repo)) [] = Inr metas \<and>
     ''a1'' \<notin> set (pp_forget_ids (plan_prune hour_clock metas keep_one_day uid_a 100000000000000 0))"
proof -
  let ?metas = "case parse_snapshots (\<lambda>_. Inr (JArray shared_repo)) [] of Inr ms \<Rightarrow> ms"
  have "\<forall>s \<in> set shared_repo. id_of s \<noteq> []" "distinct (map id_of shared_repo)"
    "parse_snapshots (\<lambda>_. Inr (JArray shared_repo)) [] = Inr ?metas"
    "tag_run_start hour_clock (run_tag_of (listed ''a1'' uid_a ''10'' ''/data'')) = Some 10"
    "\<forall>x \<in> set (representatives hour_clock ?metas uid_a). sm_run_tag x \<noteq> run_tag_of (listed ''a1'' uid_a ''10'' ''/data'') \<longrightarrow>
       run_instant hour_clock x < Some 10"
    "rp_keep_daily keep_one_day \<noteq> 0 \<or> rp_keep_weekly keep_one_day \<noteq> 0 \<or> rp_keep_monthly keep_one_day \<noteq> 0"
    by code_simp+
  note survives = latest_run_survives_prune [OF shared_repo_latest shared_repo_own this(1,2) refl this(3-6)]
  moreover have "id_of (listed ''a1'' uid_a ''10'' ''/data'') = ''a1''" by code_simp
  ultimately show ?thesis using \<open>parse_snapshots (\<lambda>_. Inr (JArray shared_repo)) [] = Inr ?metas\<close> by metis
qed

end
