(* ===== verification/Platform_Version.thy ===== *)
theory Platform_Version
  imports Json
begin

text \<open>
  The published versions of the platform (\<open>operator-controllers/platform-stack/src/oci.rs\<close>,
  \<open>compatibility.rs\<close> and the resolvers of \<open>reconcile.rs\<close>): listing the tags of a repository
  page by page, the compatibility document of a chart, the newest version of a channel, and
  the class of an upgrade path. Parameters: the \<open>semver\<close> library (its versions are a linear
  order), the registry client with its grammar of references, the archive reader and the
  YAML parser.
\<close>

subsection \<open>Versions and channels\<close>

record 'v semver =
  sv_parse :: "string \<Rightarrow> 'v option"
  sv_show :: "'v \<Rightarrow> string"
  sv_pre :: "'v \<Rightarrow> string"

text \<open>What the \<open>semver\<close> library documents of its two directions.\<close>

definition semver_ok :: "'v semver \<Rightarrow> bool" where
  "semver_ok sv \<longleftrightarrow> (\<forall>v. sv_parse sv (sv_show sv v) = Some v)"

datatype channel = Stable | Beta | Edge

definition channel_parse :: "string \<Rightarrow> channel option" where
  "channel_parse s =
     (if s = ''stable'' then Some Stable
      else if s = ''beta'' then Some Beta
      else if s = ''edge'' then Some Edge
      else None)"

fun as_tag :: "channel \<Rightarrow> string" where
  "as_tag Stable = ''stable''"
| "as_tag Beta = ''beta''"
| "as_tag Edge = ''edge''"

datatype oci_error =
    OInvalidReference string string
  | ORegistry string
  | NoVersions string

definition strip_oci_scheme :: "string \<Rightarrow> string" where
  "strip_oci_scheme url = unwrap_or (strip_prefix ''oci://'' url) url"

fun channel_matches :: "'v semver \<Rightarrow> 'v \<Rightarrow> channel \<Rightarrow> bool" where
  "channel_matches sv v Stable \<longleftrightarrow> sv_pre sv v = []"
| "channel_matches sv v Beta \<longleftrightarrow>
     (let pre = sv_pre sv v
      in pre = [] \<or> prefix ''rc.'' pre \<or> prefix ''beta.'' pre \<or> pre = ''rc'' \<or> pre = ''beta'')"
| "channel_matches sv v Edge \<longleftrightarrow> True"

subsection \<open>The tags of a repository\<close>

definition PAGE_SIZE :: nat where
  "PAGE_SIZE = 100"

definition MAX_PAGES :: nat where
  "MAX_PAGES = 200"

definition is_tag_exhaustion_error :: "string \<Rightarrow> bool" where
  "is_tag_exhaustion_error msg \<longleftrightarrow> sublist ''invalid type: null'' msg"

text \<open>
  The loop of \<open>collect_all_tags\<close>: \<open>k\<close> pages may still be asked for, \<open>i\<close> have been, and the
  \<open>i\<close>-th request is \<open>fetch i last\<close> (a registry may answer the same cursor differently).
\<close>

fun tag_walk ::
  "nat \<Rightarrow> (nat \<Rightarrow> string option \<Rightarrow> (oci_error, string list) result) \<Rightarrow> nat \<Rightarrow> nat \<Rightarrow>
   string list \<Rightarrow> string option \<Rightarrow> (oci_error, string list) result" where
  "tag_walk page_size fetch 0 i acc cursor = Inr acc"
| "tag_walk page_size fetch (Suc k) i acc cursor =
     (case fetch i cursor of
        Inl e \<Rightarrow> Inl e
      | Inr page \<Rightarrow>
          if page = [] then Inr acc
          else let new_last = Some (last page); acc' = acc @ page
               in if length page < page_size then Inr acc'
                  else if new_last = cursor then Inr acc'
                  else tag_walk page_size fetch k (Suc i) acc' new_last)"

definition collect_all_tags ::
  "nat \<Rightarrow> (nat \<Rightarrow> string option \<Rightarrow> (oci_error, string list) result) \<Rightarrow> (oci_error, string list) result" where
  "collect_all_tags page_size fetch = tag_walk page_size fetch MAX_PAGES 0 [] None"

definition trim_v :: "string \<Rightarrow> string" where
  "trim_v t = dropWhile (\<lambda>c. c = CHR ''v'') t"

definition sort_tags_descending :: "('v :: linorder) semver \<Rightarrow> string list \<Rightarrow> channel \<Rightarrow> 'v list" where
  "sort_tags_descending sv tags ch =
     rev (sort (filter (\<lambda>v. channel_matches sv v ch)
       (List.map_filter (\<lambda>t. sv_parse sv (trim_v t)) tags)))"

subsection \<open>The compatibility document\<close>

datatype change_class = Safe | RequiresRestart | DataMigration | Breaking

datatype compat_error =
    InvalidReference string string
  | Registry string
  | ManifestNotFound string
  | MissingFile
  | CompatParse string
  | UnknownVersion string

datatype oci_code = ManifestUnknown | NameUnknown | OtherCode string

datatype oci_client_error =
    RegistryError "oci_code list"
  | ImageManifestNotFoundError
  | ServerError nat
  | OtherClientError

fun oci_err_is_manifest_not_found :: "oci_client_error \<Rightarrow> bool" where
  "oci_err_is_manifest_not_found (RegistryError codes) \<longleftrightarrow>
     (\<exists>c \<in> set codes. c = ManifestUnknown \<or> c = NameUnknown)"
| "oci_err_is_manifest_not_found ImageManifestNotFoundError \<longleftrightarrow> True"
| "oci_err_is_manifest_not_found (ServerError code) \<longleftrightarrow> code = 404"
| "oci_err_is_manifest_not_found OtherClientError \<longleftrightarrow> False"

record version_record =
  vr_change :: "string option"
  vr_yanked :: bool
  vr_yanked_reason :: "string option"

type_synonym compat_doc = "version_record btreemap"

datatype 'l oci_manifest =
    ManifestImage "string btreemap option" "'l list"
  | ManifestIndex

text \<open>
  The registry client: an error of a manifest pull carries its structure and its printed
  text. \<open>rc_untar\<close> is the archive of a blob, an entry its path and its content.
\<close>

record ('r, 'l) registry =
  rc_parse :: "string \<Rightarrow> (string, 'r) result"
  rc_list :: "'r \<Rightarrow> nat \<Rightarrow> string option \<Rightarrow> (string, string list) result"
  rc_manifest :: "'r \<Rightarrow> (oci_client_error \<times> string, 'l oci_manifest) result"
  rc_blob :: "'r \<Rightarrow> 'l \<Rightarrow> (string, string) result"
  rc_untar :: "string \<Rightarrow> (string, (string, string \<times> (string, string) result) result list) result"
  rc_yaml :: "string \<Rightarrow> (string, compat_doc) result"

definition tags_in_channel ::
  "('v :: linorder) semver \<Rightarrow> ('r, 'l) registry \<Rightarrow> string \<Rightarrow> channel \<Rightarrow> (oci_error, 'v list) result" where
  "tags_in_channel sv rc upstream_url ch =
     (let bare = strip_oci_scheme upstream_url
      in case rc_parse rc bare of
           Inl e \<Rightarrow> Inl (OInvalidReference bare e)
         | Inr reference \<Rightarrow>
             result_bind
               (collect_all_tags PAGE_SIZE (\<lambda>i cursor. case rc_list rc reference i cursor of
                    Inr tags \<Rightarrow> Inr tags
                  | Inl e \<Rightarrow> if is_tag_exhaustion_error e then Inr [] else Inl (ORegistry e)))
               (\<lambda>all_tags.
                  let versions = sort_tags_descending sv all_tags ch
                  in if versions = [] then Inl (NoVersions upstream_url) else Inr versions))"

definition latest_in_channel ::
  "('v :: linorder) semver \<Rightarrow> ('r, 'l) registry \<Rightarrow> string \<Rightarrow> channel \<Rightarrow> (oci_error, 'v) result" where
  "latest_in_channel sv rc upstream_url ch =
     result_bind (tags_in_channel sv rc upstream_url ch) (\<lambda>versions. Inr (hd versions))"

text \<open>\<open>Path::file_name\<close>: the last component, unless that is a parent reference.\<close>

definition file_name :: "string \<Rightarrow> string option" where
  "file_name p =
     (let cs = filter (\<lambda>c. c \<noteq> [] \<and> c \<noteq> ''.'') (split_on (CHR ''/'') p)
      in if cs = [] \<or> last cs = ''..'' then None else Some (last cs))"

fun first_compat_entry ::
  "(string, string \<times> (string, string) result) result list \<Rightarrow> (compat_error, string) result" where
  "first_compat_entry [] = Inl MissingFile"
| "first_compat_entry (Inl e # es) = Inl (CompatParse e)"
| "first_compat_entry (Inr (path, content) # es) =
     (if file_name path = Some ''compatibility.yaml''
      then (case content of Inl e \<Rightarrow> Inl (CompatParse e) | Inr buf \<Rightarrow> Inr buf)
      else first_compat_entry es)"

definition extract_compatibility_yaml :: "('r, 'l) registry \<Rightarrow> string \<Rightarrow> (compat_error, string) result" where
  "extract_compatibility_yaml rc gzipped =
     (case rc_untar rc gzipped of Inl e \<Rightarrow> Inl (CompatParse e) | Inr entries \<Rightarrow> first_compat_entry entries)"

text \<open>The loop over the layers: a blob that cannot be pulled ends it, one without the file does not.\<close>

fun compat_of_layers :: "('r, 'l) registry \<Rightarrow> 'r \<Rightarrow> 'l list \<Rightarrow> (compat_error, compat_doc) result" where
  "compat_of_layers rc reference [] = Inl MissingFile"
| "compat_of_layers rc reference (layer # layers) =
     (case rc_blob rc reference layer of
        Inl e \<Rightarrow> Inl (Registry e)
      | Inr blob \<Rightarrow>
          (case extract_compatibility_yaml rc blob of
             Inr yaml_bytes \<Rightarrow>
               (case rc_yaml rc yaml_bytes of Inl e \<Rightarrow> Inl (CompatParse e) | Inr doc \<Rightarrow> Inr doc)
           | Inl _ \<Rightarrow> compat_of_layers rc reference layers))"

definition fetch_compatibility_doc_with_self_version ::
  "'v semver \<Rightarrow> ('r, 'l) registry \<Rightarrow> string \<Rightarrow> string \<Rightarrow> (compat_error, compat_doc \<times> 'v option) result" where
  "fetch_compatibility_doc_with_self_version sv rc upstream_url version_tag =
     (let bare = unwrap_or (strip_prefix ''oci://'' upstream_url) upstream_url;
          with_tag = bare @ '':'' @ version_tag
      in case rc_parse rc with_tag of
           Inl e \<Rightarrow> Inl (InvalidReference with_tag e)
         | Inr reference \<Rightarrow>
             (case rc_manifest rc reference of
                Inl (e, text) \<Rightarrow>
                  Inl (if oci_err_is_manifest_not_found e then ManifestNotFound with_tag else Registry text)
              | Inr ManifestIndex \<Rightarrow> Inl (Registry ''expected image manifest, got image index'')
              | Inr (ManifestImage annotations layers) \<Rightarrow>
                  let self_version = Option.bind
                        (Option.bind annotations (\<lambda>a. map_of a ''org.opencontainers.image.version''))
                        (sv_parse sv)
                  in result_bind (compat_of_layers rc reference layers) (\<lambda>doc. Inr (doc, self_version))))"

definition fetch_compatibility_doc ::
  "'v semver \<Rightarrow> ('r, 'l) registry \<Rightarrow> string \<Rightarrow> string \<Rightarrow> (compat_error, compat_doc) result" where
  "fetch_compatibility_doc sv rc upstream_url version_tag =
     result_bind (fetch_compatibility_doc_with_self_version sv rc upstream_url version_tag) (\<lambda>r. Inr (fst r))"

subsection \<open>The class of an upgrade path\<close>

definition parse_change_class :: "string option \<Rightarrow> change_class" where
  "parse_change_class s =
     (if s = Some ''safe'' then Safe
      else if s = Some ''requires-restart'' then RequiresRestart
      else if s = Some ''data-migration'' then DataMigration
      else if s = Some ''breaking'' then Breaking
      else Breaking)"

fun class_order :: "change_class \<Rightarrow> u8" where
  "class_order Safe = 0"
| "class_order RequiresRestart = 1"
| "class_order DataMigration = 2"
| "class_order Breaking = 3"

definition fetch_change_class ::
  "'v semver \<Rightarrow> ('r, 'l) registry \<Rightarrow> string \<Rightarrow> string \<Rightarrow> (compat_error, change_class) result" where
  "fetch_change_class sv rc upstream_url version =
     result_bind (fetch_compatibility_doc sv rc upstream_url version) (\<lambda>doc.
       case map_of doc version of
         None \<Rightarrow> Inl (UnknownVersion version)
       | Some r \<Rightarrow> Inr (parse_change_class (vr_change r)))"

fun max_class :: "('v :: linorder) semver \<Rightarrow> 'v \<Rightarrow> 'v \<Rightarrow> change_class \<Rightarrow> compat_doc \<Rightarrow> change_class" where
  "max_class sv from to mx [] = mx"
| "max_class sv from to mx ((version_key, r) # doc) =
     (case sv_parse sv version_key of
        None \<Rightarrow> max_class sv from to mx doc
      | Some v \<Rightarrow>
          if from < v \<and> v \<le> to \<and> class_order mx < class_order (parse_change_class (vr_change r))
          then max_class sv from to (parse_change_class (vr_change r)) doc
          else max_class sv from to mx doc)"

definition path_max_change_class ::
  "('v :: linorder) semver \<Rightarrow> compat_doc \<Rightarrow> string \<Rightarrow> string \<Rightarrow> change_class" where
  "path_max_change_class sv doc from_version to_version =
     (case (sv_parse sv from_version, sv_parse sv to_version) of
        (Some from, Some to) \<Rightarrow> if to \<le> from then Safe else max_class sv from to Safe doc
      | _ \<Rightarrow> Breaking)"

definition fetch_path_max_change_class ::
  "('v :: linorder) semver \<Rightarrow> ('r, 'l) registry \<Rightarrow> string \<Rightarrow> string \<Rightarrow> string \<Rightarrow> (compat_error, change_class) result" where
  "fetch_path_max_change_class sv rc upstream_url from_version to_version =
     result_bind (fetch_compatibility_doc sv rc upstream_url to_version) (\<lambda>doc.
       Inr (path_max_change_class sv doc from_version to_version))"

subsection \<open>The newest version of a channel\<close>

definition semver_gt :: "('v :: linorder) semver \<Rightarrow> string \<Rightarrow> string \<Rightarrow> bool" where
  "semver_gt sv a b \<longleftrightarrow>
     (case (sv_parse sv a, sv_parse sv b) of (Some av, Some bv) \<Rightarrow> bv < av | _ \<Rightarrow> False)"

definition is_yanked :: "compat_doc \<Rightarrow> string \<Rightarrow> bool" where
  "is_yanked doc key \<longleftrightarrow> (case map_of doc key of None \<Rightarrow> False | Some r \<Rightarrow> vr_yanked r)"

definition resolve_non_yanked_latest :: "'v semver \<Rightarrow> 'v list \<Rightarrow> compat_doc \<Rightarrow> string" where
  "resolve_non_yanked_latest sv candidates_desc doc =
     unwrap_or (find (\<lambda>key. \<not> is_yanked doc key) (map (sv_show sv) candidates_desc))
       (sv_show sv (hd candidates_desc))"

fun iter_max :: "('v :: linorder) list \<Rightarrow> 'v option" where
  "iter_max [] = None"
| "iter_max (x # xs) = Some (foldl max x xs)"

definition latest_non_yanked_in_compat ::
  "('v :: linorder) semver \<Rightarrow> compat_doc \<Rightarrow> channel \<Rightarrow> 'v option \<Rightarrow> 'v option" where
  "latest_non_yanked_in_compat sv doc ch cap =
     iter_max (filter (\<lambda>v. case cap of None \<Rightarrow> True | Some c \<Rightarrow> v \<le> c)
       (filter (\<lambda>v. channel_matches sv v ch)
         (List.map_filter (\<lambda>(key, _). sv_parse sv key)
           (filter (\<lambda>(_, r). \<not> vr_yanked r) doc))))"

datatype resolve_error = ROci oci_error | RCompat compat_error

definition resolve_via_tag_listing ::
  "('v :: linorder) semver \<Rightarrow> ('r, 'l) registry \<Rightarrow> string \<Rightarrow> channel \<Rightarrow>
   (resolve_error, string \<times> bool \<times> compat_doc option) result" where
  "resolve_via_tag_listing sv rc upstream ch =
     (case tags_in_channel sv rc upstream ch of
        Inl e \<Rightarrow> Inl (ROci e)
      | Inr candidates \<Rightarrow>
          let top_tag = sv_show sv (hd candidates);
              doc = (case fetch_compatibility_doc sv rc upstream top_tag of Inr d \<Rightarrow> Some d | Inl _ \<Rightarrow> None);
              resolved = (case doc of Some d \<Rightarrow> resolve_non_yanked_latest sv candidates d | None \<Rightarrow> top_tag)
          in Inr (resolved, True, doc))"

definition resolve_channel_latest ::
  "('v :: linorder) semver \<Rightarrow> ('r, 'l) registry \<Rightarrow> string \<Rightarrow> channel \<Rightarrow>
   (resolve_error, string \<times> bool \<times> compat_doc option) result" where
  "resolve_channel_latest sv rc upstream ch =
     (case fetch_compatibility_doc_with_self_version sv rc upstream (as_tag ch) of
        Inr (doc, self_version) \<Rightarrow>
          (case latest_non_yanked_in_compat sv doc ch self_version of
             Some v \<Rightarrow> Inr (sv_show sv v, True, Some doc)
           | None \<Rightarrow> resolve_via_tag_listing sv rc upstream ch)
      | Inl (ManifestNotFound _) \<Rightarrow> resolve_via_tag_listing sv rc upstream ch
      | Inl e \<Rightarrow> Inl (RCompat e))"

subsection \<open>Walking the tags\<close>

text \<open>A registry that serves \<open>n\<close> tags of a fixed list after the cursor.\<close>

definition serve_page :: "nat \<Rightarrow> string list \<Rightarrow> string option \<Rightarrow> string list" where
  "serve_page n ts cursor =
     take n (case cursor of None \<Rightarrow> ts | Some l \<Rightarrow> tl (dropWhile (\<lambda>t. t \<noteq> l) ts))"

lemma serve_after:
  assumes "distinct (acc @ rest)"
  shows "serve_page n (acc @ rest) (if acc = [] then None else Some (last acc)) = take n rest"
proof (cases "acc = []")
  case False
  then have split: "acc @ rest = butlast acc @ last acc # rest" by simp
  with assms have "last acc \<notin> set (butlast acc)" by auto
  then have "dropWhile (\<lambda>t. t \<noteq> last acc) (acc @ rest) = last acc # rest"
    unfolding split by (subst dropWhile_append2) auto
  with False show ?thesis by (simp add: serve_page_def)
qed (simp add: serve_page_def)

lemma tag_walk_serve:
  assumes "0 < n" and "distinct (acc @ rest)"
  shows "tag_walk n (\<lambda>_ c. Inr (serve_page n (acc @ rest) c)) k i acc
           (if acc = [] then None else Some (last acc)) = Inr (acc @ take (n * k) rest)"
  using assms(2)
proof (induction k arbitrary: i acc rest)
  case 0
  then show ?case by simp
next
  case (Suc k)
  let ?cursor = "if acc = [] then None else Some (last acc)"
  let ?page = "take n rest"
  have page: "serve_page n (acc @ rest) ?cursor = ?page" by (rule serve_after [OF Suc.prems])
  show ?case
  proof (cases "length ?page < n")
    case True
    with assms(1) have "length rest < n" by auto
    then show ?thesis by (simp add: page)
  next
    case False
    with assms(1) have ne: "?page \<noteq> []" by auto
    then have "last ?page \<in> set rest" by (meson in_set_takeD last_in_set)
    with Suc.prems have fresh: "Some (last ?page) \<noteq> ?cursor"
      by (auto dest: last_in_set)
    have split: "acc @ rest = (acc @ ?page) @ drop n rest" by simp
    have cur: "Some (last ?page) = (if acc @ ?page = [] then None else Some (last (acc @ ?page)))"
      using ne by simp
    have "tag_walk n (\<lambda>_ c. Inr (serve_page n (acc @ rest) c)) (Suc k) i acc ?cursor =
        tag_walk n (\<lambda>_ c. Inr (serve_page n ((acc @ ?page) @ drop n rest) c)) k (Suc i) (acc @ ?page)
          (if acc @ ?page = [] then None else Some (last (acc @ ?page)))"
      unfolding tag_walk.simps page sum.case using ne False fresh cur
      by (simp only: Let_def if_False split [symmetric])
    also have "\<dots> = Inr ((acc @ ?page) @ take (n * k) (drop n rest))"
      by (rule Suc.IH) (use Suc.prems in \<open>simp only: split [symmetric]\<close>)
    also have "\<dots> = Inr (acc @ take (n * Suc k) rest)"
      by (simp add: take_add)
    finally show ?thesis .
  qed
qed

lemma tag_walk_calls:
  "(\<And>j c. i \<le> j \<Longrightarrow> j < i + k \<Longrightarrow> f j c = g j c) \<Longrightarrow> tag_walk n f k i acc cursor = tag_walk n g k i acc cursor"
proof (induction k arbitrary: i acc cursor)
  case (Suc k)
  have "f i cursor = g i cursor" using Suc.prems by simp
  moreover have "tag_walk n f k (Suc i) acc' c = tag_walk n g k (Suc i) acc' c" for acc' c
    by (rule Suc.IH) (use Suc.prems in simp)
  ultimately show ?case by (simp add: Let_def split: sum.split)
qed simp

text \<open>
  C30. Listing the tags of a repository ends after at most \<open>MAX_PAGES\<close> requests whatever the
  registry answers: no later request can influence the result. Against a registry that
  serves full pages of a list of distinct tags it returns exactly those tags, in order and
  each once, up to the ceiling of \<open>MAX_PAGES\<close> pages.
\<close>

theorem tag_walk_ends_with_every_tag:
  assumes "\<forall>i c. i < MAX_PAGES \<longrightarrow> fetch i c = fetch' i c"
  shows "collect_all_tags n fetch = collect_all_tags n fetch' \<and>
    (0 < n \<and> distinct ts \<and> fetch' = (\<lambda>i c. Inr (serve_page n ts c)) \<longrightarrow>
       collect_all_tags n fetch = Inr (take (n * MAX_PAGES) ts))"
proof -
  have same: "collect_all_tags n fetch = collect_all_tags n fetch'"
    unfolding collect_all_tags_def by (rule tag_walk_calls) (use assms in simp)
  have "collect_all_tags n (\<lambda>i c. Inr (serve_page n ts c)) = Inr (take (n * MAX_PAGES) ts)" if "0 < n" "distinct ts"
    using tag_walk_serve [of n "[]" ts MAX_PAGES 0] that by (simp add: collect_all_tags_def)
  with same show ?thesis by simp
qed

theorem tag_walk_witness:
  "collect_all_tags 2 (\<lambda>i c. if i < MAX_PAGES then Inr (serve_page 2 [''a'', ''b'', ''c''] c) else Inl (ORegistry ''late''))
     = Inr [''a'', ''b'', ''c'']"
  using tag_walk_ends_with_every_tag [of
    "\<lambda>i c. if i < MAX_PAGES then Inr (serve_page 2 [''a'', ''b'', ''c''] c) else Inl (ORegistry ''late'')"
    "\<lambda>i c. Inr (serve_page 2 [''a'', ''b'', ''c''] c)" 2 "[''a'', ''b'', ''c'']", THEN conjunct2]
  by (simp add: MAX_PAGES_def)

text \<open>
  A registry that caps its pages below the size asked for ends the walk at its first page:
  the tags after it are never seen.
\<close>

lemma capped_registry_hides_tags:
  assumes "0 < m" and "m < n" and "ts \<noteq> []" and "fetch 0 None = Inr (serve_page m ts None)"
  shows "collect_all_tags n fetch = Inr (take m ts)"
proof -
  obtain k where k: "MAX_PAGES = Suc k" by (cases MAX_PAGES) (simp_all add: MAX_PAGES_def)
  have "take m ts \<noteq> []" "length (take m ts) < n" using assms by auto
  then show ?thesis
    unfolding collect_all_tags_def k tag_walk.simps assms(4) serve_page_def option.case sum.case by (simp add: Let_def)
qed

subsection \<open>The strictest class of a path\<close>

lemma class_order_inj [simp]: "class_order a = class_order b \<longleftrightarrow> a = b"
  by (cases a; cases b) simp_all

instantiation change_class :: linorder
begin

definition less_eq_change_class :: "change_class \<Rightarrow> change_class \<Rightarrow> bool" where
  "less_eq_change_class a b \<longleftrightarrow> class_order a \<le> class_order b"

definition less_change_class :: "change_class \<Rightarrow> change_class \<Rightarrow> bool" where
  "less_change_class a b \<longleftrightarrow> class_order a < class_order b"

instance
  by standard (auto simp: less_eq_change_class_def less_change_class_def order.strict_iff_order)

end

lemma Safe_least [simp]: "Safe \<le> c"
  by (cases c) (simp_all add: less_eq_change_class_def)

text \<open>The classes of the records in the half-open range of a path.\<close>

definition path_classes :: "('v :: linorder) semver \<Rightarrow> compat_doc \<Rightarrow> 'v \<Rightarrow> 'v \<Rightarrow> change_class set" where
  "path_classes sv doc from to =
     (\<lambda>(key, r). parse_change_class (vr_change r)) `
       {(key, r) \<in> set doc. case sv_parse sv key of None \<Rightarrow> False | Some v \<Rightarrow> from < v \<and> v \<le> to}"

lemma finite_path_classes [simp]: "finite (path_classes sv doc from to)"
  unfolding path_classes_def by (rule finite_imageI, rule finite_subset [of _ "set doc"]) auto

lemma path_classes_Cons:
  "path_classes sv ((key, r) # doc) from to =
     (case sv_parse sv key of
        None \<Rightarrow> path_classes sv doc from to
      | Some v \<Rightarrow> if from < v \<and> v \<le> to then insert (parse_change_class (vr_change r)) (path_classes sv doc from to)
                  else path_classes sv doc from to)"
  unfolding path_classes_def by (auto split: option.split)

lemma max_class_Max: "max_class sv from to mx doc = Max (insert mx (path_classes sv doc from to))"
proof (induction sv "from" "to" mx doc rule: max_class.induct)
  case (1 sv a b mx)
  then show ?case by (simp add: path_classes_def)
next
  case (2 sv a b mx key r doc)
  have step: "Max (insert a (insert b S)) = Max (insert (max a b) S)" if "finite S" for a b :: change_class and S
    using that by (cases "S = {}") (simp_all add: max.assoc)
  show ?case
  proof (cases "sv_parse sv key")
    case None
    with 2 show ?thesis by (simp add: path_classes_Cons)
  next
    case (Some v)
    then show ?thesis
      using 2 step [of "path_classes sv doc a b" mx "parse_change_class (vr_change r)"]
      by (auto simp: path_classes_Cons less_change_class_def max_def less_eq_change_class_def)
  qed
qed

lemma path_classes_Un:
  assumes "a \<le> b" "b \<le> c"
  shows "path_classes sv doc a c = path_classes sv doc a b \<union> path_classes sv doc b c"
  using assms unfolding path_classes_def image_Un [symmetric]
  by (intro arg_cong2 [where f = image] refl) (auto split: option.splits)

lemma Max_Safe_Un: "finite S \<Longrightarrow> finite T \<Longrightarrow>
    Max (insert Safe (S \<union> T)) = max (Max (insert Safe S)) (Max (insert Safe T))"
  using Max_Un [of "insert Safe S" "insert Safe T"] by (simp add: insert_commute)

lemma path_max_Max:
  assumes "sv_parse sv a = Some va" and "sv_parse sv b = Some vb"
  shows "path_max_change_class sv doc a b = Max (insert Safe (path_classes sv doc va vb))"
proof (cases "vb \<le> va")
  case True
  then have "path_classes sv doc va vb = {}"
    unfolding path_classes_def by (auto split: option.splits)
  with True assms show ?thesis by (simp add: path_max_change_class_def)
qed (simp add: path_max_change_class_def assms max_class_Max)

text \<open>
  C29. Jumping over releases hides nothing: for versions \<open>a \<le> b \<le> c\<close>, the class of the path
  from \<open>a\<close> to \<open>c\<close> is the stricter of the classes of its two legs, and it is the strictest
  class of the records in the range (\<open>Breaking\<close> for a record without a known class).
\<close>

theorem path_class_is_strictest_leg:
  assumes "sv_parse sv a = Some va" and "sv_parse sv b = Some vb" and "sv_parse sv c = Some vc"
    and "va \<le> vb" and "vb \<le> vc"
  shows "path_max_change_class sv doc a c = Max (insert Safe (path_classes sv doc va vc)) \<and>
         path_max_change_class sv doc a c =
           max (path_max_change_class sv doc a b) (path_max_change_class sv doc b c)"
  using assms by (simp add: path_max_Max path_classes_Un [of va vb vc] Max_Safe_Un)

text \<open>Versions as their own text, in the order of strings: the instance the witnesses use.\<close>

definition text_semver :: "string semver" where
  "text_semver = \<lparr>sv_parse = Some, sv_show = (\<lambda>v. v), sv_pre = (\<lambda>v. tl (dropWhile (\<lambda>c. c \<noteq> CHR ''-'') v))\<rparr>"

lemma text_semver_ok: "semver_ok text_semver"
  by (simp add: semver_ok_def text_semver_def)

definition rel_record :: "string \<Rightarrow> bool \<Rightarrow> version_record" where
  "rel_record change yanked = \<lparr>vr_change = Some change, vr_yanked = yanked, vr_yanked_reason = None\<rparr>"

definition three_releases :: compat_doc where
  "three_releases = [(''0.1.0'', rel_record ''safe'' False), (''0.2.0'', rel_record ''breaking'' False),
     (''0.3.0'', rel_record ''safe'' False)]"

theorem path_class_witness:
  "path_max_change_class text_semver three_releases ''0.1.0'' ''0.3.0'' = Breaking \<and>
   path_max_change_class text_semver three_releases ''0.1.0'' ''0.3.0'' =
     max (path_max_change_class text_semver three_releases ''0.1.0'' ''0.2.0'')
         (path_max_change_class text_semver three_releases ''0.2.0'' ''0.3.0'')"
proof
  show "path_max_change_class text_semver three_releases ''0.1.0'' ''0.3.0'' = Breaking" by code_simp
  show "path_max_change_class text_semver three_releases ''0.1.0'' ''0.3.0'' =
     max (path_max_change_class text_semver three_releases ''0.1.0'' ''0.2.0'')
         (path_max_change_class text_semver three_releases ''0.2.0'' ''0.3.0'')"
    by (rule path_class_is_strictest_leg [THEN conjunct2]) (code_simp)+
qed

subsection \<open>What a channel resolves to\<close>

lemma foldl_max: "foldl max x xs = Max (insert x (set (xs :: ('v :: linorder) list)))"
proof (induction xs arbitrary: x)
  case (Cons y ys)
  have "Max (insert x (insert y (set ys))) = Max (insert (max x y) (set ys))"
    by (cases "set ys = {}") (simp_all add: max.assoc)
  with Cons show ?case by simp
qed simp

lemma iter_max_Some: "iter_max xs = Some m \<longleftrightarrow> m \<in> set xs \<and> (\<forall>x \<in> set xs. x \<le> m)"
proof (cases xs)
  case (Cons y ys)
  show ?thesis
    unfolding Cons iter_max.simps foldl_max option.inject
    using Max_eq_iff [of "insert y (set ys)" m] by auto
qed simp

lemma latest_non_yanked_Some:
  "latest_non_yanked_in_compat sv doc ch cap = Some v \<longleftrightarrow>
     (let usable = {w. \<exists>key r. (key, r) \<in> set doc \<and> \<not> vr_yanked r \<and> sv_parse sv key = Some w \<and>
                       channel_matches sv w ch \<and> (\<forall>c. cap = Some c \<longrightarrow> w \<le> c)}
      in v \<in> usable \<and> (\<forall>w \<in> usable. w \<le> v))"
proof -
  have "set (filter (\<lambda>v. case cap of None \<Rightarrow> True | Some c \<Rightarrow> v \<le> c)
      (filter (\<lambda>v. channel_matches sv v ch)
        (List.map_filter (\<lambda>(key, _). sv_parse sv key) (filter (\<lambda>(_, r). \<not> vr_yanked r) doc)))) =
    {w. \<exists>key r. (key, r) \<in> set doc \<and> \<not> vr_yanked r \<and> sv_parse sv key = Some w \<and>
          channel_matches sv w ch \<and> (\<forall>c. cap = Some c \<longrightarrow> w \<le> c)}"
    by (auto simp: map_filter_mem split: option.splits)
  then show ?thesis
    unfolding latest_non_yanked_in_compat_def iter_max_Some Let_def by simp
qed

lemma tags_in_channel_sorted:
  assumes "tags_in_channel sv rc url ch = Inr vs"
  shows "vs \<noteq> [] \<and> sorted_wrt (\<ge>) vs \<and> (\<forall>v \<in> set vs. channel_matches sv v ch)"
proof -
  from assms obtain tags where vs: "vs = sort_tags_descending sv tags ch" and ne: "vs \<noteq> []"
    by (auto simp: tags_in_channel_def Let_def result_bind_def split: sum.splits if_splits)
  have "sorted_wrt (\<ge>) vs"
    unfolding vs sort_tags_descending_def by (simp add: sorted_wrt_rev)
  with ne vs show ?thesis by (auto simp: sort_tags_descending_def)
qed

lemma listing_takes_newest_unyanked:
  assumes "sorted_wrt (\<ge>) (vs :: ('v :: linorder) list)" and "resolve_non_yanked_latest sv vs doc = key" and "v \<in> set vs"
    and "\<not> is_yanked doc (sv_show sv v)"
  shows "\<not> is_yanked doc key \<and> (\<exists>w \<in> set vs. key = sv_show sv w \<and> v \<le> w)"
  using assms
proof (induction vs)
  case (Cons x xs)
  show ?case
  proof (cases "is_yanked doc (sv_show sv x)")
    case False
    with Cons.prems show ?thesis by (auto simp: resolve_non_yanked_latest_def)
  next
    case True
    with Cons.prems have v: "v \<in> set xs" by auto
    then obtain k where "find (\<lambda>key. \<not> is_yanked doc key) (map (sv_show sv) xs) = Some k"
      using Cons.prems(4) by (cases "find (\<lambda>key. \<not> is_yanked doc key) (map (sv_show sv) xs)") (auto simp: find_None_iff)
    then have "resolve_non_yanked_latest sv xs doc = key"
      using True Cons.prems(2) by (simp add: resolve_non_yanked_latest_def)
    with Cons.IH Cons.prems v show ?thesis by auto
  qed
qed simp

end
