(* ===== verification/Platform_Types.thy ===== *)
theory Platform_Types
  imports Json
begin

text \<open>
  The \<open>PlatformStack\<close> resource (\<open>operator-core/src/platform_stack.rs\<close>), the builders of its
  status (\<open>platform-stack/src/status.rs\<close>), the payload for the parent Application
  (\<open>desired.rs\<close>), and the condition \<open>ReconcileStalled\<close> with its own field manager
  (\<open>stall.rs\<close>). Times are RFC 3339 text; the reading of the clock is an argument.
\<close>

subsection \<open>The resource\<close>

datatype egress_profile = Internet | Internal | Strict

record egress_config =
  eg_profile :: "egress_profile option"

record network_config =
  nw_egress :: "egress_config option"

record edge_firewall_config =
  fw_cloudflare_origin :: "bool option"

record retention_config =
  rt_keep_daily :: "int option"
  rt_keep_weekly :: "int option"
  rt_keep_monthly :: "int option"
  rt_enforce :: "string option"

record backup_config =
  bk_enabled :: bool
  bk_schedule :: string
  bk_active_deadline_seconds :: "int option"
  bk_bucket :: string
  bk_cluster_name :: "string option"
  bk_credential_ref :: string
  bk_staging_mode :: string
  bk_staging_size_limit :: "string option"
  bk_retention :: "retention_config option"
  bk_check_schedule :: string
  bk_check_active_deadline_seconds :: "int option"
  bk_time_zone :: "string option"
  bk_check_read_data :: bool
  bk_check_read_data_subset :: "string option"
  bk_failure_webhook :: "string option"

datatype autoscale_mode = Full | UpOnly | Off

record autoscale_config =
  au_mode :: autoscale_mode
  au_min_allowed :: "string btreemap option"
  au_max_allowed :: "string btreemap option"

record resource_governance_config =
  rg_autoscale :: "autoscale_config option"

record stack_source =
  src_upstream :: string
  src_repo_url :: string
  src_check_interval :: string

record stack_values =
  vl_tier :: int
  vl_domain :: "string option"
  vl_extras :: "json btreemap"

record component_override =
  co_pin :: "string option"
  co_values :: "json option"
  co_enabled :: "bool option"

record stack_spec =
  sp_channel :: string
  sp_pin :: "string option"
  sp_auto_upgrade :: bool
  sp_default_environment :: "string option"
  sp_network :: "network_config option"
  sp_firewall :: "edge_firewall_config option"
  sp_backup :: "backup_config option"
  sp_resources :: "resource_governance_config option"
  sp_source :: stack_source
  sp_values :: stack_values
  sp_overrides :: "component_override btreemap option"

record stack_component =
  sco_name :: string
  sco_version :: string
  sco_ready :: bool

record history_entry =
  he_version :: string
  he_applied_at :: string
  he_outcome :: string

record stack_condition =
  cn_type :: string
  cn_status :: string
  cn_reason :: "string option"
  cn_message :: "string option"
  cn_last_transition_time :: string

record stack_status =
  ss_current_version :: "string option"
  ss_target_version :: "string option"
  ss_available_version :: "string option"
  ss_last_upstream_check :: "string option"
  ss_components :: "stack_component list option"
  ss_version_history :: "history_entry list option"
  ss_conditions :: "stack_condition list option"

definition default_stack_status :: stack_status where
  "default_stack_status = \<lparr>ss_current_version = None, ss_target_version = None, ss_available_version = None,
     ss_last_upstream_check = None, ss_components = None, ss_version_history = None, ss_conditions = None\<rparr>"

record managed_field =
  mf_manager :: "string option"
  mf_subresource :: "string option"
  mf_fields :: "json option"

record platform_stack =
  pk_name :: string
  pk_annotations :: "string btreemap option"
  pk_managed_fields :: "managed_field list option"
  pk_spec :: stack_spec
  pk_status :: "stack_status option"

definition resolve_egress_profile :: "stack_spec \<Rightarrow> egress_profile" where
  "resolve_egress_profile spec =
     unwrap_or (Option.bind (Option.bind (sp_network spec) nw_egress) eg_profile) Internet"

definition DEFAULT_RETENTION_ENFORCE :: string where
  "DEFAULT_RETENTION_ENFORCE = ''check''"

definition resolve_retention_enforce :: "backup_config \<Rightarrow> string" where
  "resolve_retention_enforce backup =
     unwrap_or (Option.bind (bk_retention backup) rt_enforce) DEFAULT_RETENTION_ENFORCE"

definition resolve_backup_staging_mode :: "stack_spec \<Rightarrow> string" where
  "resolve_backup_staging_mode spec =
     (case sp_backup spec of None \<Rightarrow> ''monolithic'' | Some b \<Rightarrow> bk_staging_mode b)"

subsection \<open>The payload for the parent Application\<close>

record desired_source =
  ds_target_revision :: string
  ds_helm_values :: json

text \<open>\<open>serde\<close> leaves out a field that is \<open>None\<close>, and an object is sorted by key.\<close>

fun json_fields :: "(string \<times> json option) list \<Rightarrow> json btreemap" where
  "json_fields [] = []"
| "json_fields ((k, None) # fs) = json_fields fs"
| "json_fields ((k, Some v) # fs) = bt_insert k v (json_fields fs)"

abbreviation json_str_opt :: "string option \<Rightarrow> json option" where
  "json_str_opt v \<equiv> map_option JString v"

abbreviation json_int_opt :: "int option \<Rightarrow> json option" where
  "json_int_opt v \<equiv> map_option (\<lambda>i. JNumber (show_int i)) v"

definition retention_json :: "retention_config \<Rightarrow> json" where
  "retention_json r = JObject (json_fields
     [(''keepDaily'', json_int_opt (rt_keep_daily r)), (''keepWeekly'', json_int_opt (rt_keep_weekly r)),
      (''keepMonthly'', json_int_opt (rt_keep_monthly r)), (''enforce'', json_str_opt (rt_enforce r))])"

definition backup_json :: "backup_config \<Rightarrow> json" where
  "backup_json b = JObject (json_fields
     [(''enabled'', Some (JBool (bk_enabled b))), (''schedule'', Some (JString (bk_schedule b))),
      (''activeDeadlineSeconds'', json_int_opt (bk_active_deadline_seconds b)),
      (''bucket'', Some (JString (bk_bucket b))), (''clusterName'', json_str_opt (bk_cluster_name b)),
      (''credentialRef'', Some (JObject [(''name'', JString (bk_credential_ref b))])),
      (''stagingMode'', Some (JString (bk_staging_mode b))),
      (''stagingSizeLimit'', json_str_opt (bk_staging_size_limit b)),
      (''retention'', map_option retention_json (bk_retention b)),
      (''checkSchedule'', Some (JString (bk_check_schedule b))),
      (''checkActiveDeadlineSeconds'', json_int_opt (bk_check_active_deadline_seconds b)),
      (''timeZone'', json_str_opt (bk_time_zone b)),
      (''checkReadData'', Some (JBool (bk_check_read_data b))),
      (''checkReadDataSubset'', json_str_opt (bk_check_read_data_subset b)),
      (''failureWebhook'', json_str_opt (bk_failure_webhook b))])"

definition serialize_override :: "component_override \<Rightarrow> json" where
  "serialize_override ov = JObject (json_fields
     [(''pin'', json_str_opt (co_pin ov)), (''values'', co_values ov),
      (''enabled'', map_option JBool (co_enabled ov))])"

definition build_desired :: "stack_spec \<Rightarrow> string \<Rightarrow> desired_source" where
  "build_desired spec resolved_version =
     (let v0 = [(''tier'', JNumber (show_int (vl_tier (sp_values spec))))];
          v1 = (case vl_domain (sp_values spec) of None \<Rightarrow> v0 | Some d \<Rightarrow> bt_insert ''domain'' (JString d) v0);
          v2 = bt_extend v1 (vl_extras (sp_values spec));
          v3 = (case sp_overrides spec of
                  None \<Rightarrow> v2
                | Some ovs \<Rightarrow> bt_insert ''overrides''
                    (JObject (bt_extend [] (map (\<lambda>(name, payload). (name, serialize_override payload)) ovs))) v2);
          v4 = (case sp_backup spec of None \<Rightarrow> v3 | Some b \<Rightarrow> bt_insert ''backup'' (backup_json b) v3)
      in \<lparr>ds_target_revision = resolved_version, ds_helm_values = JObject v4\<rparr>)"

subsection \<open>Conditions and the version history\<close>

abbreviation "COND_RECONCILE_STALLED \<equiv> ''ReconcileStalled''"

definition VERSION_HISTORY_CAP :: nat where
  "VERSION_HISTORY_CAP = 10"

definition stack_condition_of ::
  "string \<Rightarrow> string \<Rightarrow> string \<Rightarrow> string \<Rightarrow> string \<Rightarrow> stack_condition list \<Rightarrow> stack_condition" where
  "stack_condition_of now ctype status reason message prior =
     (let last_time = (case find (\<lambda>c. cn_type c = ctype) prior of
            None \<Rightarrow> now
          | Some c \<Rightarrow> if cn_status c = status then cn_last_transition_time c else now)
      in \<lparr>cn_type = ctype, cn_status = status, cn_reason = Some reason, cn_message = Some message,
          cn_last_transition_time = last_time\<rparr>)"

fun replace_first :: "stack_condition \<Rightarrow> stack_condition list \<Rightarrow> stack_condition list" where
  "replace_first c [] = [c]"
| "replace_first c (x # xs) = (if cn_type x = cn_type c then c # xs else x # replace_first c xs)"

definition upsert_condition :: "stack_status \<Rightarrow> stack_condition \<Rightarrow> stack_status" where
  "upsert_condition status c =
     status\<lparr>ss_conditions := Some (replace_first c (unwrap_or (ss_conditions status) []))\<rparr>"

text \<open>\<open>retain\<close> with a set of the types seen: the first condition of each type stays.\<close>

fun first_of_type :: "string set \<Rightarrow> stack_condition list \<Rightarrow> stack_condition list" where
  "first_of_type seen [] = []"
| "first_of_type seen (c # cs) =
     (if cn_type c \<in> seen then first_of_type seen cs
      else c # first_of_type (insert (cn_type c) seen) cs)"

definition without_reconcile_stalled :: "stack_status \<Rightarrow> stack_status" where
  "without_reconcile_stalled status =
     status\<lparr>ss_conditions := map_option (filter (\<lambda>c. cn_type c \<noteq> COND_RECONCILE_STALLED)) (ss_conditions status)\<rparr>"

definition platform_controller_view :: "stack_status \<Rightarrow> stack_status" where
  "platform_controller_view status =
     (let view = without_reconcile_stalled status
      in view\<lparr>ss_conditions := map_option (first_of_type {}) (ss_conditions view)\<rparr>)"

text \<open>Dropping from the front down to the cap.\<close>

definition ring :: "'a list \<Rightarrow> 'a list" where
  "ring xs = (if length xs > VERSION_HISTORY_CAP then drop (length xs - VERSION_HISTORY_CAP) xs else xs)"

definition append_version_history :: "stack_status \<Rightarrow> history_entry \<Rightarrow> stack_status" where
  "append_version_history status entry =
     status\<lparr>ss_version_history := Some (ring (unwrap_or (ss_version_history status) [] @ [entry]))\<rparr>"

definition same_transition :: "history_entry \<Rightarrow> history_entry \<Rightarrow> bool" where
  "same_transition e f \<longleftrightarrow> he_version e = he_version f \<and> he_applied_at e = he_applied_at f"

definition merge_version_history :: "history_entry list \<Rightarrow> history_entry list \<Rightarrow> history_entry list" where
  "merge_version_history server local =
     ring (foldl (\<lambda>merged e. if \<exists>f \<in> set merged. same_transition f e then merged else merged @ [e]) server local)"

subsection \<open>The stall condition and who owns what\<close>

definition FIELD_MANAGER :: string where
  "FIELD_MANAGER = ''platform-controller''"

definition STALL_FIELD_MANAGER :: string where
  "STALL_FIELD_MANAGER = ''apprafter-reconcile-deadline''"

definition SINGLETON_NAME :: string where
  "SINGLETON_NAME = ''default''"

definition condition_key :: "string \<Rightarrow> string" where
  "condition_key t = ''k:{'' @ [char_of (34 :: nat)] @ ''type'' @ [char_of (34 :: nat)] @ '':'' @ [char_of (34 :: nat)]
     @ t @ [char_of (34 :: nat)] @ ''}''"

definition STALLED_KEY :: string where
  "STALLED_KEY = condition_key ''ReconcileStalled''"

definition status_owners :: "platform_stack \<Rightarrow> (string \<times> json btreemap) list" where
  "status_owners stack =
     List.map_filter (\<lambda>e.
         Option.bind (mf_fields e) (\<lambda>f.
         Option.bind (Option.bind (json_pointer f [''f:status'', ''f:conditions'']) as_object) (\<lambda>owned.
           map_option (\<lambda>m. (m, owned)) (mf_manager e))))
       (filter (\<lambda>e. mf_subresource e = Some ''status'') (unwrap_or (pk_managed_fields stack) []))"

definition owned_conditions :: "platform_stack \<Rightarrow> string \<Rightarrow> json btreemap option" where
  "owned_conditions stack manager =
     find_map (\<lambda>(m, owned). if m = manager then Some owned else None) (status_owners stack)"

definition owns_list_whole :: "platform_stack \<Rightarrow> string \<Rightarrow> bool" where
  "owns_list_whole stack manager \<longleftrightarrow>
     (case owned_conditions stack manager of None \<Rightarrow> False | Some owned \<Rightarrow> owned = [])"

definition controller_owns_list_whole :: "platform_stack \<Rightarrow> bool" where
  "controller_owns_list_whole stack \<longleftrightarrow> owns_list_whole stack FIELD_MANAGER"

definition condition_types :: "stack_status option \<Rightarrow> string list" where
  "condition_types st = map cn_type (unwrap_or (Option.bind st ss_conditions) [])"

definition controller_must_adopt_first :: "platform_stack \<Rightarrow> stack_status \<Rightarrow> bool" where
  "controller_must_adopt_first stack new \<longleftrightarrow>
     (if controller_owns_list_whole stack then True
      else if owned_conditions stack FIELD_MANAGER = None \<or>
              (\<exists>(_, owned) \<in> set (status_owners stack). owned = [])
      then False
      else \<exists>t \<in> set (condition_types (pk_status stack)).
             t \<noteq> COND_RECONCILE_STALLED \<and> t \<notin> set (condition_types (Some new)) \<and>
             \<not> (\<exists>(_, owned) \<in> set (status_owners stack). condition_key t \<in> fst ` set owned))"

definition controller_owns_conditions_by_key :: "platform_stack \<Rightarrow> bool" where
  "controller_owns_conditions_by_key stack \<longleftrightarrow>
     (case owned_conditions stack FIELD_MANAGER of
        None \<Rightarrow> False
      | Some owned \<Rightarrow> (\<exists>k \<in> fst ` set owned. prefix ''k:'' k) \<and> STALLED_KEY \<notin> fst ` set owned)"

definition mark_may_write :: "platform_stack \<Rightarrow> bool" where
  "mark_may_write stack \<longleftrightarrow>
     \<not> owns_list_whole stack STALL_FIELD_MANAGER \<or> controller_owns_conditions_by_key stack"

definition controller_must_reapply :: "platform_stack \<Rightarrow> bool" where
  "controller_must_reapply stack \<longleftrightarrow>
     (case owned_conditions stack FIELD_MANAGER of
        None \<Rightarrow> False
      | Some owned \<Rightarrow> owned = [] \<or> STALLED_KEY \<in> fst ` set owned)"

definition other_holders :: "platform_stack \<Rightarrow> string list" where
  "other_holders stack =
     map fst (filter (\<lambda>(m, owned). m \<noteq> STALL_FIELD_MANAGER \<and> (owned = [] \<or> STALLED_KEY \<in> fst ` set owned))
       (status_owners stack))"

definition stalled :: "platform_stack \<Rightarrow> stack_condition option" where
  "stalled stack =
     find (\<lambda>c. cn_type c = COND_RECONCILE_STALLED) (unwrap_or (Option.bind (pk_status stack) ss_conditions) [])"

text \<open>
  A served CRD is the part that is read: its versions, with the list type of
  \<open>status.conditions\<close> where the schema reaches that far.
\<close>

definition merges_conditions_by_type :: "(string \<times> string option option) list \<Rightarrow> bool" where
  "merges_conditions_by_type versions \<longleftrightarrow>
     (case find (\<lambda>(name, _). name = ''v1alpha1'') versions of
        None \<Rightarrow> False
      | Some (_, list_type) \<Rightarrow> list_type = Some (Some ''map''))"

text \<open>
  The writes under the stall manager: each is an apply of a list of conditions. \<open>crd\<close> is the
  answer to the read of the CRD, \<open>answer i\<close> the stack the \<open>i\<close>-th apply returns or its error;
  the writes are those sent. Running out of the write budget is the failure of the call it
  was waiting for.
\<close>

definition stall_mark ::
  "string \<Rightarrow> (string, (string \<times> string option option) list) result \<Rightarrow> (nat \<Rightarrow> (string, platform_stack) result) \<Rightarrow>
   platform_stack \<Rightarrow> nat \<Rightarrow> stack_condition list list" where
  "stall_mark now crd answer stack after =
     (if pk_name stack \<noteq> SINGLETON_NAME then []
      else if \<not> mark_may_write stack then []
      else
        let prior = unwrap_or (Option.bind (pk_status stack) ss_conditions) [];
            c = stack_condition_of now COND_RECONCILE_STALLED ''True'' ''ReconcileTimedOut''
                  (''the last reconcile did not finish within '' @ show_nat after @
                   ''s and was abandoned; the other conditions are from the last reconcile that finished'') prior
        in case crd of
             Inl _ \<Rightarrow> []
           | Inr versions \<Rightarrow>
               if \<not> merges_conditions_by_type versions then []
               else if owns_list_whole stack STALL_FIELD_MANAGER
               then (case answer 0 of Inl _ \<Rightarrow> [[]] | Inr _ \<Rightarrow> [[], [c]])
               else [[c]])"

datatype cleared = Removed | Held "string list" | AtomicCrd

definition stall_remove ::
  "(string, (string \<times> string option option) list) result \<Rightarrow> (nat \<Rightarrow> (string, platform_stack) result) \<Rightarrow>
   (string, cleared) result \<times> stack_condition list list" where
  "stall_remove crd answer =
     (case crd of
        Inl e \<Rightarrow> (Inl e, [])
      | Inr versions \<Rightarrow>
          if \<not> merges_conditions_by_type versions then (Inr AtomicCrd, [])
          else (case answer 0 of
                  Inl e \<Rightarrow> (Inl e, [[]])
                | Inr released \<Rightarrow>
                    (case stalled released of
                       None \<Rightarrow> (Inr Removed, [[]])
                     | Some left \<Rightarrow>
                         if other_holders released \<noteq> [] then (Inr (Held (other_holders released)), [[]])
                         else (case answer 1 of
                                 Inl e \<Rightarrow> (Inl e, [[], [left]])
                               | Inr _ \<Rightarrow>
                                   (case answer 2 of
                                      Inl e \<Rightarrow> (Inl e, [[], [left], []])
                                    | Inr released' \<Rightarrow>
                                        (Inr (if stalled released' = None then Removed
                                              else Held (other_holders released')), [[], [left], []]))))))"

definition stall_clear ::
  "(string, (string \<times> string option option) list) result \<Rightarrow> (nat \<Rightarrow> (string, platform_stack) result) \<Rightarrow>
   platform_stack \<Rightarrow> stack_condition list list" where
  "stall_clear crd answer stack =
     (if pk_name stack \<noteq> SINGLETON_NAME \<or> stalled stack = None then []
      else if \<not> controller_owns_conditions_by_key stack then []
      else snd (stall_remove crd answer))"

subsection \<open>What the controller's status keeps\<close>

lemma first_of_type_set: "set (first_of_type seen cs) \<subseteq> set cs"
  by (induction seen cs rule: first_of_type.induct) auto

lemma first_of_type_types: "cn_type ` set (first_of_type seen cs) = cn_type ` set cs - seen"
  by (induction seen cs rule: first_of_type.induct) auto

lemma first_of_type_distinct: "distinct (map cn_type (first_of_type seen cs))"
proof (induction seen cs rule: first_of_type.induct)
  case (2 seen c cs)
  then show ?case
    using first_of_type_types [of "insert (cn_type c) seen" cs] by auto
qed simp

lemma first_of_type_id: "distinct (map cn_type cs) \<Longrightarrow> cn_type ` set cs \<inter> seen = {} \<Longrightarrow> first_of_type seen cs = cs"
  by (induction seen cs rule: first_of_type.induct) auto

lemma replace_first_types:
  "map cn_type (replace_first c cs) = (if cn_type c \<in> cn_type ` set cs then map cn_type cs else map cn_type cs @ [cn_type c])"
  by (induction c cs rule: replace_first.induct) auto

lemma replace_first_find:
  "find (\<lambda>x. cn_type x = t) (replace_first c cs) = (if t = cn_type c then Some c else find (\<lambda>x. cn_type x = t) cs)"
  by (induction c cs rule: replace_first.induct) auto

text \<open>The condition of a type as a reader of the status finds it.\<close>

definition cond_of :: "string \<Rightarrow> stack_status \<Rightarrow> stack_condition option" where
  "cond_of t status = find (\<lambda>c. cn_type c = t) (unwrap_or (ss_conditions status) [])"

lemma cond_of_upsert [simp]:
  "cond_of t (upsert_condition status c) = (if t = cn_type c then Some c else cond_of t status)"
  by (simp add: cond_of_def upsert_condition_def replace_first_find)

lemma upsert_keeps [simp]:
  "ss_version_history (upsert_condition status c) = ss_version_history status"
  "ss_available_version (upsert_condition status c) = ss_available_version status"
  "ss_last_upstream_check (upsert_condition status c) = ss_last_upstream_check status"
  "ss_current_version (upsert_condition status c) = ss_current_version status"
  "ss_target_version (upsert_condition status c) = ss_target_version status"
  by (simp_all add: upsert_condition_def)

lemma find_condition_other: "t \<noteq> u \<Longrightarrow> find (\<lambda>c. cn_type c = t) (filter (\<lambda>c. cn_type c \<noteq> u) cs) = find (\<lambda>c. cn_type c = t) cs"
  by (induction cs) auto

lemma find_first_of_type: "t \<notin> seen \<Longrightarrow> find (\<lambda>c. cn_type c = t) (first_of_type seen cs) = find (\<lambda>c. cn_type c = t) cs"
  by (induction seen cs rule: first_of_type.induct) auto

text \<open>The view the controller applies has every condition a reader finds, except the stall manager's.\<close>

lemma cond_of_view: "cond_of t (platform_controller_view status) = (if t = COND_RECONCILE_STALLED then None else cond_of t status)"
proof (cases "ss_conditions status")
  case (Some cs)
  show ?thesis
  proof (cases "t = COND_RECONCILE_STALLED")
    case True
    then show ?thesis
      using first_of_type_set [of "{}" "filter (\<lambda>c. cn_type c \<noteq> COND_RECONCILE_STALLED) cs"]
      by (auto simp: cond_of_def platform_controller_view_def without_reconcile_stalled_def Let_def Some find_None_iff)
  next
    case False
    then show ?thesis
      by (simp add: cond_of_def platform_controller_view_def without_reconcile_stalled_def Let_def Some
          find_first_of_type find_condition_other)
  qed
qed (simp add: cond_of_def platform_controller_view_def without_reconcile_stalled_def Let_def)

lemma view_well_formed:
  "distinct (condition_types (Some (platform_controller_view status))) \<and>
   COND_RECONCILE_STALLED \<notin> set (condition_types (Some (platform_controller_view status)))"
proof (cases "ss_conditions status")
  case (Some cs)
  then show ?thesis
    using first_of_type_distinct [of "{}" "filter (\<lambda>c. cn_type c \<noteq> COND_RECONCILE_STALLED) cs"]
      first_of_type_set [of "{}" "filter (\<lambda>c. cn_type c \<noteq> COND_RECONCILE_STALLED) cs"]
    by (auto simp: condition_types_def platform_controller_view_def without_reconcile_stalled_def Let_def)
qed (simp add: condition_types_def platform_controller_view_def without_reconcile_stalled_def Let_def)

lemma ring_le: "length (ring xs) \<le> VERSION_HISTORY_CAP"
  by (simp add: ring_def)

lemma ring_suffix: "suffix (ring xs) xs"
  by (simp add: ring_def suffix_drop)

lemma ring_snoc: "ring (xs @ [x]) \<noteq> [] \<and> last (ring (xs @ [x])) = x"
  by (simp add: ring_def VERSION_HISTORY_CAP_def)

definition history_step :: "history_entry list \<Rightarrow> history_entry \<Rightarrow> history_entry list" where
  "history_step merged e = (if \<exists>f \<in> set merged. same_transition f e then merged else merged @ [e])"

lemma merge_steps: "merge_version_history server local = ring (foldl history_step server local)"
  by (simp add: merge_version_history_def history_step_def [abs_def])

lemma history_steps_prefix: "prefix server (foldl history_step server local)"
proof (induction local arbitrary: server)
  case (Cons e es)
  have "prefix server (history_step server e)" by (simp add: history_step_def)
  with Cons show ?case using prefix_order.trans by fastforce
qed simp

text \<open>A bump the server does not have yet ends up newest in what is written.\<close>

lemma new_bump_is_recorded:
  assumes "\<not> (\<exists>f \<in> set (foldl history_step server local). same_transition f e)"
  shows "merge_version_history server (local @ [e]) \<noteq> [] \<and> last (merge_version_history server (local @ [e])) = e"
  using assms ring_snoc [of "foldl history_step server local" e] by (simp add: merge_steps history_step_def)

text \<open>Merging what the server has, or a suffix of it, writes it back unchanged.\<close>

lemma history_steps_known: "set local \<subseteq> set server \<Longrightarrow> foldl history_step server local = server"
  by (induction local) (auto simp: history_step_def same_transition_def)

lemma merge_of_known: "set local \<subseteq> set server \<Longrightarrow> length server \<le> VERSION_HISTORY_CAP \<Longrightarrow>
    merge_version_history server local = server"
  by (simp add: merge_steps history_steps_known ring_def)

text \<open>
  A list read before the last bump was recorded and merged after it brings the dropped oldest
  entry back as the newest one, in place of the oldest kept.
\<close>

definition nth_bump :: "nat \<Rightarrow> history_entry" where
  "nth_bump n = \<lparr>he_version = show_nat n, he_applied_at = show_nat n, he_outcome = ''succeeded''\<rparr>"

lemma stale_read_revives_dropped_entry:
  "merge_version_history (map nth_bump [1..<11]) [nth_bump 11] = map nth_bump [2..<12] \<and>
   merge_version_history (map nth_bump [2..<12]) (map nth_bump [1..<11]) = map nth_bump [3..<12] @ [nth_bump 1]"
  by code_simp

text \<open>Under the stall manager only \<open>ReconcileStalled\<close> is ever applied, and nothing under an atomic list.\<close>

lemma stall_writes_only_its_condition:
  "cs \<in> set (stall_mark now crd answer stack after) \<union> set (stall_clear crd answer stack) \<Longrightarrow> c \<in> set cs \<Longrightarrow>
   cn_type c = COND_RECONCILE_STALLED"
  by (auto simp: stall_mark_def stall_clear_def stall_remove_def stalled_def Let_def stack_condition_of_def
      find_Some_iff split: if_splits sum.splits option.splits)

lemma stall_silent_under_atomic_list:
  "crd = Inr versions \<Longrightarrow> \<not> merges_conditions_by_type versions \<Longrightarrow>
   stall_mark now crd answer stack after = [] \<and> stall_clear crd answer stack = []"
  by (simp add: stall_mark_def stall_clear_def stall_remove_def Let_def)

end
