(* ===== verification/Backup_Health.thy ===== *)
theory Backup_Health
  imports Platform_Types
begin

text \<open>
  What the stack says of its backups: \<open>BackupHealthy\<close>
  (\<open>platform-stack/src/backup_health.rs\<close>), from the CronJobs, Jobs and runner pods as JSON,
  and \<open>BackupRetention\<close> (\<open>backup_retention.rs\<close>), from the runner's own record. An instant is
  an integer number of nanoseconds; reading RFC 3339 text is the parameter \<open>parse_time\<close>, and
  printing a size with one decimal the parameter \<open>show_f1\<close>. Counts of pods are natural
  numbers. The answers of the four reads are an argument of \<open>observe\<close>.
\<close>

subsection \<open>Reading JSON, text and time\<close>

definition json_bool :: "json \<Rightarrow> bool option" where
  "json_bool v = (case v of JBool b \<Rightarrow> Some b | _ \<Rightarrow> None)"

definition digits_value :: "string \<Rightarrow> nat" where
  "digits_value s = foldl (\<lambda>n c. 10 * n + (of_char c - 48)) 0 s"

definition parse_u64 :: "string \<Rightarrow> nat option" where
  "parse_u64 s =
     (let d = unwrap_or (strip_prefix ''+'' s) s
      in if d \<noteq> [] \<and> list_all is_ascii_digit d \<and> digits_value d < 2 ^ 64 then Some (digits_value d) else None)"

definition parse_i64 :: "string \<Rightarrow> int option" where
  "parse_i64 s =
     (case strip_prefix ''-'' s of
        Some d \<Rightarrow> if d \<noteq> [] \<and> list_all is_ascii_digit d \<and> digits_value d \<le> 2 ^ 63 then Some (- int (digits_value d)) else None
      | None \<Rightarrow> (case parse_u64 s of Some n \<Rightarrow> if n < 2 ^ 63 then Some (int n) else None | None \<Rightarrow> None))"

text \<open>\<open>Value::as_u64\<close> and \<open>as_i64\<close> on the printed text of a number.\<close>

definition json_u64 :: "json \<Rightarrow> nat option" where
  "json_u64 v = (case v of JNumber s \<Rightarrow> parse_u64 s | _ \<Rightarrow> None)"

definition json_i64 :: "json \<Rightarrow> int option" where
  "json_i64 v = (case v of JNumber s \<Rightarrow> parse_i64 s | _ \<Rightarrow> None)"

definition get_str :: "json \<Rightarrow> string \<Rightarrow> string option" where
  "get_str v k = Option.bind (json_get v k) as_str"

definition str_at :: "json \<Rightarrow> string list \<Rightarrow> string option" where
  "str_at v p = Option.bind (json_pointer v p) as_str"

definition array_at :: "json \<Rightarrow> string list \<Rightarrow> json list option" where
  "array_at v p = Option.bind (json_pointer v p) as_array"

definition obj_name :: "json \<Rightarrow> string" where
  "obj_name v = unwrap_or (str_at v [''metadata'', ''name'']) ''?''"

definition ne_str :: "string option \<Rightarrow> string option" where
  "ne_str s = (case s of Some m \<Rightarrow> if m = [] then None else Some m | None \<Rightarrow> None)"

definition trim_dots :: "string \<Rightarrow> string" where
  "trim_dots s = rev (dropWhile (\<lambda>c. c = CHR ''.'') (rev s))"

definition find_last :: "string \<Rightarrow> string \<Rightarrow> nat option" where
  "find_last pat s = find (\<lambda>i. prefix pat (drop i s)) (rev [0..<Suc (length s)])"

definition contains :: "string \<Rightarrow> string \<Rightarrow> bool" where
  "contains s pat \<longleftrightarrow> find_last pat s \<noteq> None"

definition strip_suffix :: "string \<Rightarrow> string \<Rightarrow> string option" where
  "strip_suffix p s = (if suffix p s then Some (take (length s - length p) s) else None)"

fun words_acc :: "string \<Rightarrow> string \<Rightarrow> string list" where
  "words_acc w [] = (if w = [] then [] else [w])"
| "words_acc w (c # cs) =
     (if is_ws c then (if w = [] then words_acc [] cs else w # words_acc [] cs) else words_acc (w @ [c]) cs)"

definition split_whitespace :: "string \<Rightarrow> string list" where
  "split_whitespace s = words_acc [] s"

definition ellipsis :: string where
  "ellipsis = [char_of (226 :: nat), char_of (128 :: nat), char_of (166 :: nat)]"

definition quote_at_most :: "nat \<Rightarrow> string \<Rightarrow> string" where
  "quote_at_most n s = (if length s > n then take n s @ ellipsis else s)"

definition dq :: "string \<Rightarrow> string" where
  "dq s = [char_of (34 :: nat)] @ s @ [char_of (34 :: nat)]"

definition seconds :: "int \<Rightarrow> int" where
  "seconds n = n * 1000000000"

definition num_seconds :: "int \<Rightarrow> int" where
  "num_seconds d = (if d < 0 then - ((- d) div 1000000000) else d div 1000000000)"

type_synonym parse_time = "string \<Rightarrow> int option"

definition time_at :: "parse_time \<Rightarrow> json \<Rightarrow> string list \<Rightarrow> int option" where
  "time_at parse_time v p = Option.bind (str_at v p) parse_time"

text \<open>The order of an optional instant: none is before any.\<close>

definition opt_le :: "int option \<Rightarrow> int option \<Rightarrow> bool" where
  "opt_le a b \<longleftrightarrow> (case (a, b) of (None, _) \<Rightarrow> True | (Some _, None) \<Rightarrow> False | (Some x, Some y) \<Rightarrow> x \<le> y)"

fun max_by_key :: "('a \<Rightarrow> int option) \<Rightarrow> 'a list \<Rightarrow> 'a option" where
  "max_by_key key [] = None"
| "max_by_key key (x # xs) = Some (foldl (\<lambda>m y. if opt_le (key m) (key y) then y else m) x xs)"

definition earliest :: "int option \<Rightarrow> int option \<Rightarrow> int option" where
  "earliest a b = (case (a, b) of (Some x, Some y) \<Rightarrow> Some (min x y) | _ \<Rightarrow> opt_or a b)"

definition human_secs :: "int \<Rightarrow> string" where
  "human_secs s =
     (if s > 0 \<and> s mod 3600 = 0 then show_int (s div 3600) @ ''h''
      else if s > 0 \<and> s mod 60 = 0 then show_int (s div 60) @ ''m''
      else show_int s @ ''s'')"

definition reason_with_message :: "string \<Rightarrow> string \<Rightarrow> string option" where
  "reason_with_message reason message =
     (let m = trim_dots (str_trim message)
      in if reason = [] \<and> m = [] then None
         else if m = [] then Some reason
         else if reason = [] then Some m
         else Some (reason @ '': '' @ m))"

subsection \<open>Verdicts\<close>

datatype verdict = Absent | Condition string string string

record assessment =
  as_verdict :: verdict
  as_recheck_after :: "nat option"

record observed =
  ob_cronjobs :: "json list"
  ob_jobs :: "json list"
  ob_pods :: "json list"
  ob_runner_status :: "json option"
  ob_runner_status_error :: "string option"

definition NOT_STARTED_GRACE_SECS :: int where
  "NOT_STARTED_GRACE_SECS = 600"

definition DEFAULT_BACKOFF_LIMIT :: nat where
  "DEFAULT_BACKOFF_LIMIT = 6"

definition RUNNER_ERROR_QUOTE_MAX :: nat where
  "RUNNER_ERROR_QUOTE_MAX = 300"

abbreviation "BACKUP_NAMESPACE \<equiv> ''apprafter-system''"
abbreviation "BACKUP_CRONJOB \<equiv> ''apprafter-backup''"
abbreviation "CHECK_CRONJOB \<equiv> ''apprafter-backup-check''"
abbreviation "MANUAL_JOB_PREFIX \<equiv> ''apprafter-backup-manual-''"
abbreviation "RUNNER_STATUS_CONFIGMAP \<equiv> ''apprafter-backup-status''"
abbreviation "COND_BACKUP_HEALTHY \<equiv> ''BackupHealthy''"
abbreviation "COND_BACKUP_RETENTION \<equiv> ''BackupRetention''"

definition verdict_unknown :: "string \<Rightarrow> string \<Rightarrow> verdict" where
  "verdict_unknown reason message = Condition ''Unknown'' reason message"

definition assessment_now :: "verdict \<Rightarrow> assessment" where
  "assessment_now v = \<lparr>as_verdict = v, as_recheck_after = None\<rparr>"

text \<open>The four reads of \<open>observe\<close>: the first failure of a list ends it, the record's does not.\<close>

definition observe ::
  "(string, json list) result \<Rightarrow> (string, json list) result \<Rightarrow> (string, json list) result \<Rightarrow>
   (string, json option) result \<Rightarrow> (string, observed) result" where
  "observe cronjobs jobs pods cm =
     (case cronjobs of
        Inl e \<Rightarrow> Inl (''listing CronJobs in '' @ BACKUP_NAMESPACE @ '': '' @ e)
      | Inr cs \<Rightarrow>
     (case jobs of
        Inl e \<Rightarrow> Inl (''listing Jobs in '' @ BACKUP_NAMESPACE @ '': '' @ e)
      | Inr js \<Rightarrow>
     (case pods of
        Inl e \<Rightarrow> Inl (''listing the runner pods in '' @ BACKUP_NAMESPACE @ '': '' @ e)
      | Inr ps \<Rightarrow>
          Inr \<lparr>ob_cronjobs = cs, ob_jobs = js, ob_pods = ps,
            ob_runner_status = (case cm of Inr d \<Rightarrow> d | Inl _ \<Rightarrow> None),
            ob_runner_status_error = (case cm of
                Inr _ \<Rightarrow> None
              | Inl e \<Rightarrow> Some (''reading ConfigMap '' @ BACKUP_NAMESPACE @ ''/'' @ RUNNER_STATUS_CONFIGMAP @ '': '' @ e))\<rparr>)))"

definition apply_verdict ::
  "string \<Rightarrow> stack_status \<Rightarrow> string \<Rightarrow> verdict \<Rightarrow> stack_condition list \<Rightarrow> stack_status" where
  "apply_verdict now status ctype v prior =
     (case v of
        Absent \<Rightarrow> status\<lparr>ss_conditions := map_option (filter (\<lambda>c. cn_type c \<noteq> ctype)) (ss_conditions status)\<rparr>
      | Condition s reason message \<Rightarrow> upsert_condition status (stack_condition_of now ctype s reason message prior))"

subsection \<open>Jobs, pods and why an attempt ended\<close>

datatype run = RunBackup | RunCheck

fun run_cronjob :: "run \<Rightarrow> string" where
  "run_cronjob RunBackup = BACKUP_CRONJOB"
| "run_cronjob RunCheck = CHECK_CRONJOB"

fun run_noun :: "run \<Rightarrow> string" where
  "run_noun RunBackup = ''backup''"
| "run_noun RunCheck = ''repository check''"

fun record_keys :: "run \<Rightarrow> string \<times> string" where
  "record_keys RunBackup = (''lastFailure'', ''lastError'')"
| "record_keys RunCheck = (''lastCheck'', ''lastCheckError'')"

definition cronjob_owner :: "json \<Rightarrow> string option" where
  "cronjob_owner job =
     Option.bind (array_at job [''metadata'', ''ownerReferences'']) (\<lambda>refs.
       Option.bind (find (\<lambda>r. get_str r ''kind'' = Some ''CronJob'') refs) (\<lambda>r. get_str r ''name''))"

definition run_owns :: "run \<Rightarrow> json \<Rightarrow> bool" where
  "run_owns r job \<longleftrightarrow>
     (case cronjob_owner job of
        Some owner \<Rightarrow> owner = run_cronjob r
      | None \<Rightarrow>
          r = RunBackup \<and>
          (case str_at job [''metadata'', ''name''] of None \<Rightarrow> False | Some n \<Rightarrow> prefix MANUAL_JOB_PREFIX n) \<and>
          str_at job [''metadata'', ''labels'', ''apprafter.io/manual''] = Some ''true'')"

datatype ending =
    EndSucceeded "string option"
  | EndFailed string string "string option"

definition true_condition :: "json list \<Rightarrow> string list \<Rightarrow> json option" where
  "true_condition conds types =
     find_map (\<lambda>t. find (\<lambda>c. get_str c ''type'' = Some t \<and> get_str c ''status'' = Some ''True'') conds) types"

definition job_ending :: "json \<Rightarrow> ending option" where
  "job_ending job =
     (case array_at job [''status'', ''conditions''] of
        None \<Rightarrow> None
      | Some conds \<Rightarrow>
          (case true_condition conds [''Failed'', ''FailureTarget''] of
             Some c \<Rightarrow> Some (EndFailed (unwrap_or (get_str c ''reason'') []) (unwrap_or (get_str c ''message'') [])
                         (get_str c ''lastTransitionTime''))
           | None \<Rightarrow> map_option (\<lambda>c. EndSucceeded (opt_or (str_at job [''status'', ''completionTime''])
                        (get_str c ''lastTransitionTime'')))
                      (true_condition conds [''Complete'', ''SuccessCriteriaMet''])))"

definition owned_by :: "json \<Rightarrow> json \<Rightarrow> bool" where
  "owned_by pod job \<longleftrightarrow>
     (case array_at pod [''metadata'', ''ownerReferences''] of
        None \<Rightarrow> False
      | Some refs \<Rightarrow>
          (\<exists>r \<in> set refs. get_str r ''kind'' = Some ''Job'' \<and>
             (case (str_at job [''metadata'', ''uid''], str_at job [''metadata'', ''name'']) of
                (Some u, _) \<Rightarrow> get_str r ''uid'' = Some u
              | (None, Some n) \<Rightarrow> get_str r ''name'' = Some n
              | (None, None) \<Rightarrow> False)))"

definition pod_condition :: "json \<Rightarrow> string \<Rightarrow> json option" where
  "pod_condition pod ctype =
     Option.bind (array_at pod [''status'', ''conditions'']) (find (\<lambda>c. get_str c ''type'' = Some ctype))"

definition pod_phase :: "json \<Rightarrow> string option" where
  "pod_phase pod = str_at pod [''status'', ''phase'']"

definition deleting :: "json \<Rightarrow> bool" where
  "deleting pod \<longleftrightarrow> json_pointer pod [''metadata'', ''deletionTimestamp''] \<noteq> None"

definition disrupted :: "json \<Rightarrow> json option" where
  "disrupted pod = (case pod_condition pod ''DisruptionTarget'' of
       Some c \<Rightarrow> if get_str c ''status'' = Some ''True'' then Some c else None
     | None \<Rightarrow> None)"

definition disruption_reason :: "json \<Rightarrow> string option" where
  "disruption_reason pod = Option.bind (disrupted pod) (\<lambda>c. get_str c ''reason'')"

definition terminated_state :: "json \<Rightarrow> json option" where
  "terminated_state pod =
     Option.bind (array_at pod [''status'', ''containerStatuses''])
       (find_map (\<lambda>c. json_pointer c [''state'', ''terminated'']))"

definition finished_at :: "parse_time \<Rightarrow> json \<Rightarrow> int option" where
  "finished_at parse_time pod =
     Option.bind (Option.bind (Option.bind (array_at pod [''status'', ''containerStatuses''])
       (find_map (\<lambda>c. json_pointer c [''state'', ''terminated'', ''finishedAt'']))) as_str) parse_time"

definition job_suspended :: "json \<Rightarrow> bool" where
  "job_suspended job \<longleftrightarrow> Option.bind (json_pointer job [''spec'', ''suspend'']) json_bool = Some True"

definition is_failed_attempt :: "json \<Rightarrow> json \<Rightarrow> bool \<Rightarrow> bool" where
  "is_failed_attempt pod job ended \<longleftrightarrow>
     (if pod_phase pod = Some ''Succeeded'' then False
      else if disrupted pod \<noteq> None \<and> (deleting pod \<or> pod_phase pod = Some ''Failed'') then True
      else if deleting pod then \<not> ended \<and> \<not> job_suspended job
      else pod_phase pod = Some ''Failed'')"

definition created_at :: "parse_time \<Rightarrow> json \<Rightarrow> int option" where
  "created_at parse_time v = time_at parse_time v [''metadata'', ''creationTimestamp'']"

definition last_failed_attempt :: "parse_time \<Rightarrow> json \<Rightarrow> json list \<Rightarrow> json option" where
  "last_failed_attempt parse_time job pods =
     max_by_key (created_at parse_time) (filter (\<lambda>p. is_failed_attempt p job True) (filter (\<lambda>p. owned_by p job) pods))"

definition counted_as_it_stops :: "json \<Rightarrow> bool" where
  "counted_as_it_stops pod \<longleftrightarrow> deleting pod \<and> pod_phase pod \<noteq> Some ''Succeeded''"

definition u64_at :: "json \<Rightarrow> string list \<Rightarrow> nat" where
  "u64_at v p = unwrap_or (Option.bind (json_pointer v p) json_u64) 0"

definition counted_failures :: "json \<Rightarrow> nat" where
  "counted_failures job =
     u64_at job [''status'', ''failed''] +
     (case array_at job [''status'', ''uncountedTerminatedPods'', ''failed''] of None \<Rightarrow> 0 | Some a \<Rightarrow> length a)"

definition failed_pods_left :: "json \<Rightarrow> json list \<Rightarrow> nat" where
  "failed_pods_left job pods =
     length (filter (\<lambda>p. pod_phase p = Some ''Failed'' \<or> counted_as_it_stops p) (filter (\<lambda>p. owned_by p job) pods))"

definition gone_attempts :: "json \<Rightarrow> json list \<Rightarrow> nat" where
  "gone_attempts job pods = counted_failures job - failed_pods_left job pods"

definition failed_attempts :: "json \<Rightarrow> json list \<Rightarrow> nat" where
  "failed_attempts job pods = max (counted_failures job) (failed_pods_left job pods)"

definition counts_no_pod :: "json \<Rightarrow> bool" where
  "counts_no_pod job \<longleftrightarrow>
     u64_at job [''status'', ''active''] = 0 \<and> u64_at job [''status'', ''failed''] = 0 \<and>
     u64_at job [''status'', ''succeeded''] = 0"

datatype cause =
    OomKilled string
  | Evicted string
  | Preempted string
  | Stopped string
  | Exited string
  | UnknownCause string

fun describe :: "cause \<Rightarrow> string" where
  "describe (OomKilled s) = s"
| "describe (Evicted s) = s"
| "describe (Preempted s) = s"
| "describe (Stopped s) = s"
| "describe (Exited s) = s"
| "describe (UnknownCause s) = s"

fun ran_and_failed :: "run \<Rightarrow> string" where
  "ran_and_failed RunBackup = ''RunnerFailed''"
| "ran_and_failed RunCheck = ''RepositoryCheckFailed''"

fun cause_reason :: "cause \<Rightarrow> run \<Rightarrow> string" where
  "cause_reason (OomKilled s) r = ''RunnerOOMKilled''"
| "cause_reason (Evicted s) r = ''RunnerEvicted''"
| "cause_reason (Preempted s) r = ''RunnerPreempted''"
| "cause_reason (Stopped s) r = ''RunnerStopped''"
| "cause_reason (Exited s) r = ran_and_failed r"
| "cause_reason (UnknownCause s) r = ran_and_failed r"

text \<open>The first container of a pod.\<close>

definition container0 :: "json \<Rightarrow> json option" where
  "container0 pod =
     (case array_at pod [''spec'', ''containers''] of Some (c # _) \<Rightarrow> Some c | _ \<Rightarrow> None)"

definition memory_limit :: "json \<Rightarrow> string option" where
  "memory_limit pod = Option.bind (container0 pod) (\<lambda>c. str_at c [''resources'', ''limits'', ''memory''])"

definition pod_requests :: "json \<Rightarrow> string option" where
  "pod_requests pod =
     Option.bind (Option.bind (container0 pod) (\<lambda>c. json_pointer c [''resources'', ''requests''])) (\<lambda>r.
       case (get_str r ''memory'', get_str r ''cpu'') of
         (Some m, Some c) \<Rightarrow> Some (m @ '' of memory and '' @ c @ '' of CPU'')
       | (Some m, None) \<Rightarrow> Some (m @ '' of memory'')
       | (None, Some c) \<Rightarrow> Some (c @ '' of CPU'')
       | (None, None) \<Rightarrow> None)"

definition waiting_reason :: "json \<Rightarrow> string option" where
  "waiting_reason pod =
     find_map (\<lambda>s. Option.bind (json_pointer s [''state'', ''waiting'']) (\<lambda>w.
         reason_with_message (unwrap_or (get_str w ''reason'') []) (unwrap_or (get_str w ''message'') [])))
       (concat (List.map_filter (array_at pod) [[''status'', ''initContainerStatuses''], [''status'', ''containerStatuses'']]))"

definition said_of :: "json \<Rightarrow> string option" where
  "said_of c = reason_with_message (unwrap_or (get_str c ''reason'') []) (unwrap_or (get_str c ''message'') [])"

definition after_colon :: "string option \<Rightarrow> string" where
  "after_colon w = (case w of None \<Rightarrow> [] | Some s \<Rightarrow> '': '' @ s)"

definition attempt_cause :: "json \<Rightarrow> cause" where
  "attempt_cause pod =
     (let pod_name = obj_name pod;
          disruption = disruption_reason pod;
          terminated = terminated_state pod;
          pod_said = after_colon (reason_with_message
            (unwrap_or (str_at pod [''status'', ''reason'']) []) (unwrap_or (str_at pod [''status'', ''message'']) []));
          finished = (case Option.bind terminated (\<lambda>t. get_str t ''finishedAt'') of
              None \<Rightarrow> [] | Some f \<Rightarrow> '', at '' @ f);
          unknown = UnknownCause (''failed (pod '' @ pod_name @ '')'' @ pod_said)
      in if disruption = Some ''PreemptionByScheduler''
         then Preempted (''was preempted (pod '' @ pod_name @ ''): '' @
                unwrap_or (ne_str (map_option (\<lambda>m. trim_dots (str_trim m))
                    (Option.bind (disrupted pod) (\<lambda>c. get_str c ''message''))))
                  ''the scheduler gave no reason'')
         else if str_at pod [''status'', ''reason''] = Some ''Evicted'' \<or> disruption = Some ''TerminationByKubelet''
         then Evicted (''was evicted (pod '' @ pod_name @ ''): '' @
                trim_dots (str_trim (unwrap_or
                  (opt_or (ne_str (str_at pod [''status'', ''message'']))
                     (Option.bind (disrupted pod) (\<lambda>c. get_str c ''message'')))
                  ''the kubelet gave no reason'')))
         else if Option.bind terminated (\<lambda>t. get_str t ''reason'') = Some ''OOMKilled''
         then OomKilled (''was OOMKilled'' @
                (case memory_limit pod of None \<Rightarrow> [] | Some l \<Rightarrow> '' at its '' @ l @ '' memory limit'') @
                '' (pod '' @ pod_name @ finished @ '')'')
         else if deleting pod \<or> disruption \<noteq> None
         then Stopped (''was stopped from outside (pod '' @ pod_name @ ''): '' @
                unwrap_or (Option.bind (disrupted pod) said_of) ''its pod was deleted'')
         else (case terminated of
                 None \<Rightarrow> unknown
               | Some t \<Rightarrow>
                   let reason = unwrap_or (get_str t ''reason'') []
                   in case Option.bind (json_get t ''exitCode'') json_i64 of
                        Some code \<Rightarrow>
                          Exited (''exited with code '' @ show_int code @
                            (if reason = [] \<or> reason = ''Error'' then [] else '', '' @ reason) @
                            '' (pod '' @ pod_name @ finished @ '')'')
                      | None \<Rightarrow> unknown))"

subsection \<open>What the record and the condition itself still say\<close>

abbreviation "ALSO_FAILING \<equiv> '' Also failing: ''"
abbreviation "GONE_PREEMPTED \<equiv> ''was preempted, and its pod is gone''"
abbreviation "GONE_STOPPED \<equiv> ''was stopped from outside before it finished, and its pod is gone: the scheduler preempted it, a node drain evicted it, or it was deleted''"

definition own_part :: "string \<Rightarrow> string" where
  "own_part message = (case find_last ALSO_FAILING message of None \<Rightarrow> message | Some i \<Rightarrow> take i message)"

datatype stop = StopPreempted | StopOutside

fun stop_cause :: "stop \<Rightarrow> cause" where
  "stop_cause StopPreempted = Preempted GONE_PREEMPTED"
| "stop_cause StopOutside = Stopped GONE_STOPPED"

definition job_prefix :: "run \<Rightarrow> json \<Rightarrow> string" where
  "job_prefix r job = run_noun r @ '' Job '' @ obj_name job @ '':''"

definition seen_stopped :: "run \<Rightarrow> json \<Rightarrow> stack_condition option \<Rightarrow> stop option" where
  "seen_stopped r job prior =
     (case prior of
        None \<Rightarrow> None
      | Some p \<Rightarrow>
          if cn_status p \<noteq> ''False'' then None
          else Option.bind (cn_message p) (\<lambda>m.
                 Option.bind (strip_prefix (job_prefix r job) (own_part m)) (\<lambda>about.
                   if contains about ('' was preempted (pod '' @ obj_name job) \<or> contains about GONE_PREEMPTED
                   then Some StopPreempted
                   else if contains about ('' was stopped from outside (pod '' @ obj_name job) \<or> contains about GONE_STOPPED
                   then Some StopOutside
                   else None)))"

definition recorded_failure ::
  "parse_time \<Rightarrow> json \<Rightarrow> int option \<Rightarrow> json option \<Rightarrow> string \<times> string \<Rightarrow> (int \<times> string) option" where
  "recorded_failure parse_time job failed_at0 record0 keys =
     Option.bind record0 (\<lambda>rec.
     Option.bind (opt_or (time_at parse_time job [''status'', ''startTime'']) (created_at parse_time job)) (\<lambda>started.
     Option.bind failed_at0 (\<lambda>failed_at.
     Option.bind (Option.bind (get_str rec (fst keys)) parse_time) (\<lambda>last_failure.
       if last_failure < started \<or> last_failure > failed_at + seconds 180 then None
       else Option.bind (ne_str (map_option (\<lambda>e. join '' '' (split_whitespace e)) (get_str rec (snd keys)))) (\<lambda>err.
              Some (last_failure, quote_at_most RUNNER_ERROR_QUOTE_MAX err))))))"

definition runner_record ::
  "parse_time \<Rightarrow> json \<Rightarrow> int option \<Rightarrow> json option \<Rightarrow> string \<times> string \<Rightarrow> string option" where
  "runner_record parse_time job failed_at rec keys = map_option snd (recorded_failure parse_time job failed_at rec keys)"

definition recorded_words :: "string option \<Rightarrow> string" where
  "recorded_words e = (case e of None \<Rightarrow> [] | Some q \<Rightarrow> '' The runner recorded: '' @ q)"

subsection \<open>An unfinished run\<close>

datatype newest = NewestPod json | NewestGone stop

definition newest_failed_attempt ::
  "parse_time \<Rightarrow> run \<Rightarrow> json \<Rightarrow> observed \<Rightarrow> stack_condition option \<Rightarrow> int \<Rightarrow> newest option" where
  "newest_failed_attempt parse_time r job ob prior now =
     (let pod = max_by_key (created_at parse_time)
            (filter (\<lambda>p. is_failed_attempt p job False) (filter (\<lambda>p. owned_by p job) (ob_pods ob)))
      in if gone_attempts job (ob_pods ob) = 0 then map_option NewestPod pod
         else
           let recorded_at = map_option fst (recorded_failure parse_time job (Some now) (ob_runner_status ob) (record_keys r));
               seen = seen_stopped r job prior
           in if recorded_at = None \<and> seen = None then map_option NewestPod pod
              else
                let gone = NewestGone (unwrap_or seen StopOutside)
                in case pod of
                     None \<Rightarrow> Some gone
                   | Some p \<Rightarrow>
                       (case (finished_at parse_time p, recorded_at) of
                          (Some fin, Some at) \<Rightarrow> if at > fin then Some gone else Some (NewestPod p)
                        | _ \<Rightarrow> Some (NewestPod p)))"

fun what_a_failure_means :: "run \<Rightarrow> string" where
  "what_a_failure_means RunBackup = []"
| "what_a_failure_means RunCheck = '' restic check exits non-zero when it finds the repository damaged, and when it cannot read the repository at all; its output is in that pod's log.''"

datatype outcome =
    Trouble string string
  | OutSucceeded string
  | NoRun string

record failed_attempt_record =
  fa_reason :: string
  fa_alone :: string
  fa_beside :: string

definition alone :: "failed_attempt_record \<Rightarrow> outcome" where
  "alone fa = Trouble (fa_reason fa) (fa_alone fa)"

definition failed_attempt ::
  "parse_time \<Rightarrow> run \<Rightarrow> json \<Rightarrow> observed \<Rightarrow> stack_condition option \<Rightarrow> int \<Rightarrow> failed_attempt_record option" where
  "failed_attempt parse_time r job ob prior now =
     map_option (\<lambda>newest.
       let failed = max (failed_attempts job (ob_pods ob)) 1;
           attempts = unwrap_or (Option.bind (json_pointer job [''spec'', ''backoffLimit'']) json_u64) DEFAULT_BACKOFF_LIMIT + 1;
           attempt = ''attempt '' @ show_nat failed @ '' of at most '' @ show_nat attempts;
           nxt = (if failed < attempts then '' The Job retries until its backoff limit.''
                  else '' It was the last attempt the Job makes.'');
           pre = job_prefix r job @ '' its '' @ attempt;
           until = (case newest of NewestPod pod \<Rightarrow> unwrap_or (finished_at parse_time pod) now | NewestGone _ \<Rightarrow> now);
           recorded = recorded_words (runner_record parse_time job (Some until) (ob_runner_status ob) (record_keys r));
           cause = (case newest of NewestPod pod \<Rightarrow> attempt_cause pod | NewestGone s \<Rightarrow> stop_cause s);
           what = describe cause;
           alone_text = (case cause of
               OomKilled _ \<Rightarrow> pre @ '' '' @ what @ ''; a killed runner records nothing itself.'' @ nxt
             | Evicted _ \<Rightarrow> pre @ '' '' @ what @ ''; an evicted runner records nothing itself.'' @ nxt
             | Preempted _ \<Rightarrow> pre @ '' '' @ what @ ''.'' @ nxt @ recorded
             | Stopped _ \<Rightarrow> pre @ '' '' @ what @ ''.'' @ nxt @ recorded
             | _ \<Rightarrow> pre @ '' '' @ what @ ''.'' @ what_a_failure_means r @ nxt @ recorded)
       in \<lparr>fa_reason = cause_reason cause r, fa_alone = alone_text,
           fa_beside = '' Its '' @ attempt @ '' '' @ what @ ''.''\<rparr>)
     (newest_failed_attempt parse_time r job ob prior now)"

definition not_yet :: "int option \<Rightarrow> int \<Rightarrow> int option" where
  "not_yet since now =
     (let due = unwrap_or since now + seconds NOT_STARTED_GRACE_SECS in if now < due then Some due else None)"

datatype live_pod_state = Fine | Waiting int | LiveTrouble string string

definition live_pod :: "parse_time \<Rightarrow> run \<Rightarrow> json \<Rightarrow> json \<Rightarrow> int \<Rightarrow> live_pod_state" where
  "live_pod parse_time r job pod now =
     (let pre = job_prefix r job @ '' its pod '' @ obj_name pod;
          created_raw = str_at pod [''metadata'', ''creationTimestamp''];
          created = created_at parse_time pod;
          scheduled = pod_condition pod ''PodScheduled''
      in if ne_str (str_at pod [''spec'', ''nodeName'']) = None
         then
           (case scheduled of
              Some cond \<Rightarrow>
                if get_str cond ''status'' = Some ''False'' \<and> get_str cond ''reason'' = Some ''Unschedulable''
                then
                  if ne_str (str_at pod [''status'', ''nominatedNodeName'']) \<noteq> None then Fine
                  else
                    let since_raw = opt_or (get_str cond ''lastTransitionTime'') created_raw;
                        since = opt_or (Option.bind since_raw parse_time) created
                    in case not_yet since now of
                         Some due \<Rightarrow> Waiting due
                       | None \<Rightarrow>
                           LiveTrouble ''RunnerUnschedulable''
                             (pre @ '' has not been scheduled since '' @ unwrap_or since_raw ''its creation'' @ '': '' @
                              trim_dots (unwrap_or (ne_str (get_str cond ''message'')) ''the scheduler gave no reason'') @ ''.'' @
                              (case pod_requests pod of None \<Rightarrow> [] | Some q \<Rightarrow> '' It asks for '' @ q @ ''.''))
                else
                  (case not_yet created now of
                     Some due \<Rightarrow> Waiting due
                   | None \<Rightarrow> LiveTrouble ''RunnerNotStarted''
                       (pre @ '' has not been scheduled since '' @ unwrap_or created_raw ''its creation'' @
                        after_colon (said_of cond) @ ''.''))
            | None \<Rightarrow>
                (case not_yet created now of
                   Some due \<Rightarrow> Waiting due
                 | None \<Rightarrow> LiveTrouble ''RunnerNotStarted''
                     (pre @ '' has not been scheduled since '' @ unwrap_or created_raw ''its creation'' @ ''.'')))
         else if pod_phase pod \<noteq> Some ''Pending'' then Fine
         else
           let placed_at = Option.bind scheduled (\<lambda>c.
                 if get_str c ''status'' = Some ''True'' then get_str c ''lastTransitionTime'' else None);
               since = opt_or (Option.bind placed_at parse_time) created
           in case not_yet since now of
                Some due \<Rightarrow> Waiting due
              | None \<Rightarrow>
                  LiveTrouble ''RunnerNotStarted''
                    (pre @ '' was placed on '' @ unwrap_or (str_at pod [''spec'', ''nodeName'']) ''?'' @ '' at '' @
                     unwrap_or (opt_or placed_at created_raw) ''an unrecorded time'' @
                     '' and its container has not started'' @ after_colon (waiting_reason pod) @ ''.''))"

definition holds_the_schedule :: "string \<Rightarrow> string" where
  "holds_the_schedule noun = '' Until it runs or its deadline stops it, no later scheduled '' @ noun @ '' starts.''"

text \<open>No pod at all, past or inside the grace, and none the Job controller counts.\<close>

definition no_pod_trouble :: "parse_time \<Rightarrow> run \<Rightarrow> json \<Rightarrow> string \<Rightarrow> int \<Rightarrow> outcome option \<times> int option" where
  "no_pod_trouble parse_time r job holds now =
     (let created_raw = str_at job [''metadata'', ''creationTimestamp'']
      in case not_yet (Option.bind created_raw parse_time) now of
           Some due \<Rightarrow> (None, Some due)
         | None \<Rightarrow>
             (Some (Trouble ''RunnerNotStarted''
                (job_prefix r job @ '' it has had no pod since it was created at '' @
                 unwrap_or created_raw ''an unrecorded time'' @ '': '' @
                 (if job_suspended job then ''the Job is suspended (its spec.suspend is true)''
                  else ''the Job controller has not created one. The Job's FailedCreate events say why: a quota or LimitRange the pod breaks, an admission webhook that refuses it, or a missing ServiceAccount'') @
                 ''.'' @ holds)), None))"

definition unfinished_trouble ::
  "parse_time \<Rightarrow> run \<Rightarrow> json \<Rightarrow> observed \<Rightarrow> stack_condition option \<Rightarrow> int \<Rightarrow> outcome option \<times> int option" where
  "unfinished_trouble parse_time r job ob prior now =
     (let owned = filter (\<lambda>p. owned_by p job) (ob_pods ob);
          holds = (if cronjob_owner job \<noteq> None then holds_the_schedule (run_noun r) else []);
          earlier = failed_attempt parse_time r job ob prior now;
          live = max_by_key (created_at parse_time)
            (filter (\<lambda>p. \<not> deleting p)
              (filter (\<lambda>p. pod_phase p \<noteq> Some ''Succeeded'' \<and> pod_phase p \<noteq> Some ''Failed'') owned));
          settled = (case earlier of
              Some fa \<Rightarrow> (Some (alone fa), None)
            | None \<Rightarrow> if owned = [] \<and> counts_no_pod job then no_pod_trouble parse_time r job holds now else (None, None))
      in case live of
           None \<Rightarrow> settled
         | Some pod \<Rightarrow>
             (case live_pod parse_time r job pod now of
                LiveTrouble reason message \<Rightarrow>
                  (Some (Trouble reason (message @ (case earlier of None \<Rightarrow> [] | Some fa \<Rightarrow> fa_beside fa) @ holds)), None)
              | Waiting due \<Rightarrow> (map_option alone earlier, Some due)
              | Fine \<Rightarrow> settled))"

subsection \<open>A finished run\<close>

definition deadline_before :: "run \<Rightarrow> json \<Rightarrow> stack_condition option \<Rightarrow> string option" where
  "deadline_before r job prior =
     Option.bind prior (\<lambda>p.
       if cn_reason p = Some ''RunnerUnschedulable'' \<or> cn_reason p = Some ''RunnerNotStarted''
       then Option.bind (cn_message p) (\<lambda>m.
              map_option (\<lambda>rest. str_trim (unwrap_or (strip_suffix (holds_the_schedule (run_noun r)) rest) rest))
                (strip_prefix (job_prefix r job) (own_part m)))
       else None)"

definition deadline_evidence :: "run \<Rightarrow> cause option \<Rightarrow> string option \<Rightarrow> string \<Rightarrow> string \<times> string" where
  "deadline_evidence r cause before recorded_text =
     (case cause of
        Some c \<Rightarrow>
          (let stopped = (case c of Preempted _ \<Rightarrow> True | Stopped _ \<Rightarrow> True | _ \<Rightarrow> False);
               means = (case c of Exited _ \<Rightarrow> what_a_failure_means r | UnknownCause _ \<Rightarrow> what_a_failure_means r | _ \<Rightarrow> [])
           in (cause_reason c r,
               if stopped \<and> before \<noteq> None
               then '' Its last pod never started: '' @ unwrap_or before [] @ recorded_text
               else '' Its last failed attempt '' @ describe c @ ''.'' @ means @ recorded_text))
      | None \<Rightarrow>
          (''DeadlineExceeded'',
           if recorded_text \<noteq> [] then recorded_text
           else (case before of
                   Some b \<Rightarrow> '' Its runner never started: '' @ b
                 | None \<Rightarrow>
                     if r = RunBackup
                     then '' The runner recorded nothing for this run: its pod never started, or it was killed before it could.''
                     else '' No pod of it is left to say how far it got.'')))"

definition backoff_evidence :: "run \<Rightarrow> cause option \<Rightarrow> string \<times> string" where
  "backoff_evidence r cause =
     (let ran = (case r of RunBackup \<Rightarrow> ''BackoffLimitExceeded'' | RunCheck \<Rightarrow> ''RepositoryCheckFailed'');
          means = (case r of RunBackup \<Rightarrow> [] | RunCheck \<Rightarrow> what_a_failure_means r)
      in case cause of
           Some c \<Rightarrow>
             (case c of
                Exited _ \<Rightarrow> (ran, '' The last one '' @ describe c @ ''.'' @ means)
              | UnknownCause _ \<Rightarrow> (ran, '' The last one '' @ describe c @ ''.'' @ means)
              | _ \<Rightarrow> (cause_reason c r, '' The last one '' @ describe c @ ''.''))
         | None \<Rightarrow> (ran, []))"

definition attempts_text :: "nat \<Rightarrow> string" where
  "attempts_text n =
     (if n = 0 then [] else if n = 1 then '' after 1 failed attempt'' else '' after '' @ show_nat n @ '' failed attempts'')"

definition failed_job_fresh ::
  "parse_time \<Rightarrow> run \<Rightarrow> json \<Rightarrow> string \<Rightarrow> string \<Rightarrow> string option \<Rightarrow> observed \<Rightarrow> stack_condition option \<Rightarrow> string \<times> string" where
  "failed_job_fresh parse_time r job job_reason job_message at ob prior =
     (let pre = job_prefix r job;
          whn = unwrap_or at ''an unrecorded time'';
          recorded = runner_record parse_time job (Option.bind at parse_time) (ob_runner_status ob) (record_keys r);
          recorded_text = recorded_words recorded;
          cause = opt_or (map_option attempt_cause (last_failed_attempt parse_time job (ob_pods ob)))
            (map_option stop_cause (seen_stopped r job prior))
      in if job_reason = ''DeadlineExceeded''
         then
           let limit = (case Option.bind (json_pointer job [''spec'', ''activeDeadlineSeconds'']) json_i64 of
                  Some s \<Rightarrow> ''its '' @ human_secs s @ '' deadline'' | None \<Rightarrow> ''its deadline'');
               (reason, evidence) = deadline_evidence r cause (deadline_before r job prior) recorded_text
           in (reason, pre @ '' failed at '' @ whn @ '': DeadlineExceeded, active longer than '' @ limit @ ''.'' @ evidence)
         else if job_reason = ''BackoffLimitExceeded''
         then
           let cause' = opt_or cause (if gone_attempts job (ob_pods ob) > 0 \<and> recorded \<noteq> None
                  then Some (stop_cause StopOutside) else None);
               (reason, lst) = backoff_evidence r cause'
           in (reason, pre @ '' failed at '' @ whn @ attempts_text (failed_attempts job (ob_pods ob)) @
                 '' (BackoffLimitExceeded).'' @ lst @ recorded_text)
         else (''Failed'', pre @ '' failed at '' @ whn @ '': '' @
                 unwrap_or (reason_with_message job_reason job_message) ''no reason given'' @ ''.'' @ recorded_text))"

definition failed_job ::
  "parse_time \<Rightarrow> run \<Rightarrow> json \<Rightarrow> string \<Rightarrow> string \<Rightarrow> string option \<Rightarrow> observed \<Rightarrow> stack_condition option \<Rightarrow> outcome" where
  "failed_job parse_time r job job_reason job_message at ob prior =
     (let (reason, message) = failed_job_fresh parse_time r job job_reason job_message at ob prior;
          ended = job_prefix r job @ '' failed at ''
      in case prior of
           Some p \<Rightarrow>
             (case cn_message p of
                Some m \<Rightarrow> if cn_status p = ''False'' \<and> cn_reason p = Some reason \<and> prefix ended m
                  then Trouble reason (own_part m) else Trouble reason message
              | None \<Rightarrow> Trouble reason message)
         | None \<Rightarrow> Trouble reason message)"

definition no_finished_run :: "run \<Rightarrow> json \<Rightarrow> json list \<Rightarrow> outcome" where
  "no_finished_run r cronjob jobs =
     (let noun = run_noun r
      in case str_at cronjob [''status'', ''lastSuccessfulTime''] of
           Some at \<Rightarrow> OutSucceeded (''the last scheduled '' @ noun @ '' succeeded at '' @ at @ ''; its Job is no longer kept'')
         | None \<Rightarrow>
             (case jobs of
                job # _ \<Rightarrow> NoRun (''no '' @ noun @ '' has finished yet: Job '' @ obj_name job @ '' has not finished'')
              | [] \<Rightarrow>
                  (case str_at cronjob [''status'', ''lastScheduleTime''] of
                     Some at \<Rightarrow> NoRun (''no '' @ noun @ '' Job is left to read, and none has succeeded: CronJob '' @
                        run_cronjob r @ '' last started one at '' @ at)
                   | None \<Rightarrow> NoRun (''no '' @ noun @ '' has run yet: CronJob '' @ run_cronjob r @ '' (schedule '' @
                        dq (unwrap_or (str_at cronjob [''spec'', ''schedule'']) ''?'') @ '') has not started one''))))"

subsection \<open>The verdict of a run and of the stack\<close>

record run_assessment =
  ra_outcome :: outcome
  ra_recheck_at :: "int option"
  ra_subject :: string

text \<open>Newest first: by creation, then by name.\<close>

definition newer_eq :: "parse_time \<Rightarrow> json \<Rightarrow> json \<Rightarrow> bool" where
  "newer_eq parse_time a b \<longleftrightarrow>
     (let ka = created_at parse_time a; kb = created_at parse_time b
      in if ka = kb then obj_name b \<le> obj_name a else opt_le kb ka)"

definition run_jobs :: "parse_time \<Rightarrow> run \<Rightarrow> observed \<Rightarrow> json list" where
  "run_jobs parse_time r ob =
     sort_le (newer_eq parse_time) (filter (\<lambda>j. \<not> deleting j) (filter (run_owns r) (ob_jobs ob)))"

fun scan_unfinished ::
  "parse_time \<Rightarrow> run \<Rightarrow> observed \<Rightarrow> stack_condition option \<Rightarrow> int \<Rightarrow> json list \<Rightarrow>
   int option \<Rightarrow> (outcome \<times> json) option \<Rightarrow> int option \<times> (outcome \<times> json) option" where
  "scan_unfinished parse_time r ob prior now [] recheck_at trouble = (recheck_at, trouble)"
| "scan_unfinished parse_time r ob prior now (job # jobs) recheck_at trouble =
     (let (found, at) = unfinished_trouble parse_time r job ob prior now
      in scan_unfinished parse_time r ob prior now jobs (earliest recheck_at at)
           (if trouble = None then map_option (\<lambda>x. (x, job)) found else trouble))"

definition assess_run ::
  "parse_time \<Rightarrow> run \<Rightarrow> json \<Rightarrow> observed \<Rightarrow> stack_condition option \<Rightarrow> int \<Rightarrow> run_assessment" where
  "assess_run parse_time r cronjob ob prior now =
     (let noun = run_noun r; cron = run_cronjob r
      in if job_suspended cronjob
         then \<lparr>ra_outcome = Trouble ''ScheduleSuspended''
                 (''CronJob '' @ BACKUP_NAMESPACE @ ''/'' @ cron @ '' is suspended: no scheduled '' @ noun @
                  '' runs until its spec.suspend is cleared''),
               ra_recheck_at = None, ra_subject = ''CronJob '' @ BACKUP_NAMESPACE @ ''/'' @ cron\<rparr>
         else
           let jobs = run_jobs parse_time r ob;
               (recheck_at, trouble) = scan_unfinished parse_time r ob prior now
                 (filter (\<lambda>j. job_ending j = None) jobs) None None
           in case trouble of
                Some (oc, job) \<Rightarrow>
                  \<lparr>ra_outcome = oc, ra_recheck_at = recheck_at, ra_subject = noun @ '' Job '' @ obj_name job\<rparr>
              | None \<Rightarrow>
                  (case find_map (\<lambda>j. map_option (\<lambda>e. (j, e)) (job_ending j)) jobs of
                     Some (job, EndFailed reason message at) \<Rightarrow>
                       \<lparr>ra_outcome = failed_job parse_time r job reason message at ob prior,
                        ra_recheck_at = recheck_at, ra_subject = noun @ '' Job '' @ obj_name job\<rparr>
                   | Some (job, EndSucceeded at) \<Rightarrow>
                       \<lparr>ra_outcome = OutSucceeded (''the last '' @ noun @ '', Job '' @ obj_name job @ '', succeeded at '' @
                          unwrap_or at ''an unrecorded time''),
                        ra_recheck_at = recheck_at, ra_subject = noun @ '' Job '' @ obj_name job\<rparr>
                   | None \<Rightarrow> \<lparr>ra_outcome = no_finished_run r cronjob jobs, ra_recheck_at = recheck_at, ra_subject = []\<rparr>))"

definition verdict_of :: "outcome \<Rightarrow> outcome option \<Rightarrow> string \<Rightarrow> verdict" where
  "verdict_of backup check check_subject =
     (case backup of
        Trouble reason message \<Rightarrow>
          Condition ''False'' reason (message @ (case check of
              Some (Trouble cr _) \<Rightarrow> ALSO_FAILING @ check_subject @ '' ('' @ cr @ '').''
            | _ \<Rightarrow> []))
      | OutSucceeded message \<Rightarrow>
          (case check of
             Some (Trouble reason cm) \<Rightarrow> Condition ''False'' reason cm
           | Some (OutSucceeded cm) \<Rightarrow> Condition ''True'' ''Succeeded'' (message @ ''; '' @ cm)
           | _ \<Rightarrow> Condition ''True'' ''Succeeded'' message)
      | NoRun message \<Rightarrow>
          (case check of
             Some (Trouble reason cm) \<Rightarrow> Condition ''False'' reason cm
           | _ \<Rightarrow> verdict_unknown ''NoRunYet'' message))"

definition find_cronjob :: "observed \<Rightarrow> string \<Rightarrow> json option" where
  "find_cronjob ob n = find (\<lambda>c. str_at c [''metadata'', ''name''] = Some n) (ob_cronjobs ob)"

definition assess_health ::
  "parse_time \<Rightarrow> bool \<Rightarrow> (string, observed) result \<Rightarrow> stack_condition list \<Rightarrow> int \<Rightarrow> assessment" where
  "assess_health parse_time enabled observed prior_conds now =
     (if \<not> enabled then assessment_now Absent
      else case observed of
        Inl e \<Rightarrow> assessment_now (verdict_unknown ''StateUnreadable'' (''could not read the backup Jobs: '' @ e))
      | Inr ob \<Rightarrow>
          let prior = find (\<lambda>c. cn_type c = COND_BACKUP_HEALTHY) prior_conds
          in case find_cronjob ob BACKUP_CRONJOB of
               None \<Rightarrow> assessment_now (verdict_unknown ''ScheduleNotDeployed''
                 (''spec.backup.enabled is true, but CronJob '' @ BACKUP_NAMESPACE @ ''/'' @ BACKUP_CRONJOB @
                  '' does not exist: the platform chart has not deployed the schedule''))
             | Some cj \<Rightarrow>
                 let backup = assess_run parse_time RunBackup cj ob prior now;
                     check = map_option (\<lambda>c. assess_run parse_time RunCheck c ob prior now) (find_cronjob ob CHECK_CRONJOB);
                     recheck_at = earliest (ra_recheck_at backup) (Option.bind check ra_recheck_at)
                 in \<lparr>as_verdict = verdict_of (ra_outcome backup) (map_option ra_outcome check)
                       (case check of None \<Rightarrow> [] | Some c \<Rightarrow> ra_subject c),
                     as_recheck_after = map_option (\<lambda>at. nat (max (num_seconds (at - now)) 0 + 1)) recheck_at\<rparr>)"

subsection \<open>Retention\<close>

record check_record =
  ck_at :: string
  ck_passed :: bool

record prune_record =
  pn_at :: string
  pn_result :: string
  pn_detail :: string
  pn_after :: string

definition rec_field :: "json option \<Rightarrow> string \<Rightarrow> string option" where
  "rec_field rec key = ne_str (map_option str_trim (Option.bind rec (\<lambda>r. get_str r key)))"

definition rec_check :: "json option \<Rightarrow> check_record option" where
  "rec_check rec = map_option (\<lambda>at. \<lparr>ck_at = at, ck_passed = (rec_field rec ''lastCheckResult'' = Some ''passed'')\<rparr>)
     (rec_field rec ''lastCheck'')"

definition rec_prune :: "json option \<Rightarrow> prune_record option" where
  "rec_prune rec =
     Option.bind (rec_field rec ''lastPrune'') (\<lambda>at.
       map_option (\<lambda>res. \<lparr>pn_at = at, pn_result = res,
           pn_detail = quote_at_most 300 (unwrap_or (rec_field rec ''lastPruneDetail'') []),
           pn_after = (if rec_field rec ''lastPruneBy'' = Some ''backup'' then ''the backup'' else ''the weekly check'')\<rparr>)
         (rec_field rec ''lastPruneResult''))"

definition human_bytes :: "(int \<Rightarrow> int \<Rightarrow> string) \<Rightarrow> int \<Rightarrow> string" where
  "human_bytes show_f1 bytes =
     (case find (\<lambda>(u, scale). \<bar>bytes\<bar> \<ge> scale) [(''TiB'', 2 ^ 40), (''GiB'', 2 ^ 30), (''MiB'', 2 ^ 20), (''KiB'', 2 ^ 10)] of
        Some (u, scale) \<Rightarrow> show_f1 bytes scale @ '' '' @ u
      | None \<Rightarrow> show_int bytes @ '' B'')"

definition signed_bytes :: "(int \<Rightarrow> int \<Rightarrow> string) \<Rightarrow> int \<Rightarrow> string" where
  "signed_bytes show_f1 delta =
     (if delta < 0 then ''-'' @ human_bytes show_f1 \<bar>delta\<bar> else ''+'' @ human_bytes show_f1 \<bar>delta\<bar>)"

definition signed_int :: "int \<Rightarrow> string" where
  "signed_int i = (if i < 0 then show_int i else ''+'' @ show_int i)"

definition rec_repository :: "(int \<Rightarrow> int \<Rightarrow> string) \<Rightarrow> json option \<Rightarrow> string" where
  "rec_repository show_f1 rec =
     (let num = (\<lambda>key. Option.bind (rec_field rec key) parse_i64)
      in case (rec_field rec ''repoStatsAt'', num ''repoBytes'') of
           (Some at, Some bytes) \<Rightarrow>
             (let counts = (case num ''repoSnapshots'' of None \<Rightarrow> [] | Some n \<Rightarrow> [show_int n @ '' snapshot(s)'']) @
                    (case num ''repoBlobs'' of None \<Rightarrow> [] | Some n \<Rightarrow> [show_int n @ '' blob(s)'']);
                  moved = (case (rec_field rec ''repoPrevStatsAt'', num ''repoPrevBytes'') of
                      (Some prev_at, Some prev_bytes) \<Rightarrow>
                        ''; '' @ join '', '' (signed_bytes show_f1 (bytes - prev_bytes) #
                          (case (num ''repoSnapshots'', num ''repoPrevSnapshots'') of
                             (Some n, Some p) \<Rightarrow> [signed_int (n - p) @ '' snapshot(s)''] | _ \<Rightarrow> []) @
                          (case (num ''repoBlobs'', num ''repoPrevBlobs'') of
                             (Some n, Some p) \<Rightarrow> [signed_int (n - p) @ '' blob(s)''] | _ \<Rightarrow> [])) @
                        '' since '' @ prev_at
                    | _ \<Rightarrow> [])
              in '' The repository held '' @ human_bytes show_f1 bytes @
                 (if counts = [] then [] else '' in '' @ join '' and '' counts) @ '' at '' @ at @ moved @ ''.'')
         | _ \<Rightarrow> [])"

definition prune_verdict :: "prune_record \<Rightarrow> string \<Rightarrow> string \<Rightarrow> verdict" where
  "prune_verdict p outside repo =
     (let after_at = ''the prune after '' @ pn_after p @ '' at '' @ pn_at p
      in if pn_result p = ''pruned''
         then Condition ''True'' ''Pruned'' (after_at @ '': '' @ pn_detail p @ ''.'' @ repo)
         else if pn_result p = ''nothing-to-prune''
         then Condition ''True'' ''NothingToPrune'' (after_at @ '': '' @ pn_detail p @ ''.'' @ repo)
         else if pn_result p = ''not-permitted''
         then Condition ''False'' ''PruneNotPermitted''
                (''retention is not enforced: the cluster's S3 key may not delete, and '' @ after_at @ '' was '' @ pn_detail p @
                 ''. Run `apprafter backup prune` with full credentials.'' @ outside @ repo)
         else if pn_result p = ''failed''
         then Condition ''False'' ''PruneFailed'' (after_at @ '' failed: '' @ pn_detail p @ ''.'' @ repo)
         else verdict_unknown ''RecordUnreadable''
                (''the backup runner recorded a prune result this operator does not know, '' @ dq (pn_result p) @
                 '', at '' @ pn_at p @ ''.'' @ repo))"

definition not_before :: "parse_time \<Rightarrow> string \<Rightarrow> string \<Rightarrow> bool" where
  "not_before parse_time a b \<longleftrightarrow>
     (case (parse_time a, parse_time b) of (Some x, Some y) \<Rightarrow> y \<le> x | _ \<Rightarrow> b \<le> a)"

definition retention_of_check ::
  "parse_time \<Rightarrow> backup_config \<Rightarrow> json option \<Rightarrow> string \<Rightarrow> string \<Rightarrow> verdict" where
  "retention_of_check parse_time backup rec outside repo =
     (if str_trim (bk_check_schedule backup) = []
      then Condition ''False'' ''CheckOff''
             (''spec.backup.retention.enforce is check, which prunes after the weekly check, and the weekly check is off (spec.backup.checkSchedule is empty): nothing in the cluster prunes the repository.'' @ outside @ repo)
      else case rec_check rec of
        None \<Rightarrow> verdict_unknown ''NoCheckYet''
          (''the weekly check prunes after a check that passes, and no check has recorded a result yet (schedule '' @
           dq (bk_check_schedule backup) @ '').'' @ repo)
      | Some check \<Rightarrow>
          let prune = (case rec_prune rec of
                Some p \<Rightarrow> if not_before parse_time (pn_at p) (ck_at check) then Some p else None
              | None \<Rightarrow> None)
          in if \<not> ck_passed check \<and> prune = None
             then Condition ''False'' ''CheckFailed''
                    (''the weekly check at '' @ ck_at check @ '' did not pass, and a check that does not pass never prunes: retention waits for one that passes.'' @ repo)
             else (case prune of
                     Some p \<Rightarrow> prune_verdict p outside repo
                   | None \<Rightarrow> verdict_unknown ''NoPruneYet''
                       (''the weekly check at '' @ ck_at check @ '' passed, and no prune after it is recorded.'' @ repo)))"

definition assess_retention ::
  "parse_time \<Rightarrow> (int \<Rightarrow> int \<Rightarrow> string) \<Rightarrow> backup_config option \<Rightarrow> string option \<Rightarrow> (string, observed) result \<Rightarrow> verdict" where
  "assess_retention parse_time show_f1 backup0 last_prune_annotation observed =
     (case backup0 of
        None \<Rightarrow> Absent
      | Some backup \<Rightarrow>
          if \<not> bk_enabled backup then Absent
          else case observed of
            Inl e \<Rightarrow> verdict_unknown ''RecordUnreadable'' (''could not read the backup objects: '' @ e)
          | Inr ob \<Rightarrow>
              (case ob_runner_status_error ob of
                 Some e \<Rightarrow> verdict_unknown ''RecordUnreadable'' (''could not read the backup runner's record: '' @ e)
               | None \<Rightarrow>
                   let rec = ob_runner_status ob;
                       repo = rec_repository show_f1 rec;
                       outside = (case last_prune_annotation of
                           Some t \<Rightarrow> '' `apprafter backup prune` last ran against this cluster at '' @ t @ ''.''
                         | None \<Rightarrow> '' `apprafter backup prune` has not been run against this cluster.'');
                       enforce = resolve_retention_enforce backup
                   in if enforce = ''operator''
                      then Condition ''False'' ''EnforcedOutsideCluster''
                             (''spec.backup.retention.enforce is operator: nothing in the cluster deletes a snapshot, and the repository grows until `apprafter backup prune` runs with full credentials.'' @ outside @ repo)
                      else if enforce = ''cluster''
                      then (case rec_prune rec of
                              Some p \<Rightarrow> prune_verdict p outside repo
                            | None \<Rightarrow> verdict_unknown ''NoPruneYet''
                                (''spec.backup.retention.enforce is cluster: the backup Job prunes after each backup, and none has recorded a prune yet.'' @ repo))
                      else retention_of_check parse_time backup rec outside repo))"

subsection \<open>The order of Jobs\<close>

lemma opt_le_simps [simp]: "opt_le None b" "opt_le (Some x) None = False" "opt_le (Some x) (Some y) = (x \<le> y)"
  by (simp_all add: opt_le_def)

lemma opt_le_linear: "opt_le a b \<or> opt_le b a" "opt_le a b \<Longrightarrow> opt_le b c \<Longrightarrow> opt_le a c" "opt_le a b \<Longrightarrow> opt_le b a \<Longrightarrow> a = b"
  by (cases a; cases b; cases c; auto)+

interpretation newest_jobs: total_preorder "newer_eq parse_time" for parse_time
proof
  show "newer_eq parse_time a b \<or> newer_eq parse_time b a" for a b
    using opt_le_linear(1) by (auto simp: newer_eq_def Let_def)
  show "newer_eq parse_time a c" if "newer_eq parse_time a b" "newer_eq parse_time b c" for a b c
    using that opt_le_linear(2) [of "created_at parse_time c" "created_at parse_time b" "created_at parse_time a"]
      opt_le_linear(3) [of "created_at parse_time b" "created_at parse_time a"]
    by (cases "created_at parse_time a = created_at parse_time b"; cases "created_at parse_time b = created_at parse_time c")
      (auto simp: newer_eq_def Let_def)
qed

lemma max_by_key_mem: "max_by_key key xs = Some m \<Longrightarrow> m \<in> set xs"
proof (cases xs)
  case (Cons x ys)
  have "foldl (\<lambda>m y. if opt_le (key m) (key y) then y else m) x ys \<in> insert x (set ys)"
  proof (induction ys arbitrary: x)
    case (Cons a ys)
    from Cons [of a] Cons [of x] show ?case by auto
  qed simp
  then show "max_by_key key xs = Some m \<Longrightarrow> m \<in> set xs" by (simp add: Cons)
qed simp

lemma max_by_key_empty [simp]: "max_by_key key xs = None \<longleftrightarrow> xs = []"
  by (cases xs) simp_all

lemma find_map_Some_split:
  "find_map f xs = Some y \<Longrightarrow> \<exists>ys x zs. xs = ys @ x # zs \<and> f x = Some y \<and> (\<forall>z \<in> set ys. f z = None)"
proof (induction xs)
  case (Cons x xs)
  show ?case
  proof (cases "f x")
    case None
    with Cons obtain ys x' zs where "xs = ys @ x' # zs" "f x' = Some y" "\<forall>z \<in> set ys. f z = None"
      by auto
    with None show ?thesis by (intro exI [of _ "x # ys"]) auto
  next
    case (Some y')
    with Cons.prems show ?thesis by (intro exI [of _ "[]"]) auto
  qed
qed simp

lemma find_map_None [simp]: "find_map f xs = None \<longleftrightarrow> (\<forall>x \<in> set xs. f x = None)"
  by (induction xs) (auto split: option.splits)

subsection \<open>A healthy verdict is earned\<close>

text \<open>The grace of a wait has run out; a wait with no readable start never does.\<close>

definition overdue :: "int option \<Rightarrow> int \<Rightarrow> bool" where
  "overdue since now \<longleftrightarrow> (case since of None \<Rightarrow> False | Some t \<Rightarrow> t + seconds NOT_STARTED_GRACE_SECS \<le> now)"

text \<open>
  A pod that has not been placed, or not started where it was placed, past the grace. A pod
  that preemption is making room for is not stuck.
\<close>

definition pod_stuck :: "parse_time \<Rightarrow> json \<Rightarrow> int \<Rightarrow> bool" where
  "pod_stuck parse_time pod now \<longleftrightarrow>
     (let created = created_at parse_time pod
      in if ne_str (str_at pod [''spec'', ''nodeName'']) = None
         then (case pod_condition pod ''PodScheduled'' of
             Some cond \<Rightarrow>
               if get_str cond ''status'' = Some ''False'' \<and> get_str cond ''reason'' = Some ''Unschedulable''
               then ne_str (str_at pod [''status'', ''nominatedNodeName'']) = None \<and>
                 overdue (opt_or (Option.bind (opt_or (get_str cond ''lastTransitionTime'')
                   (str_at pod [''metadata'', ''creationTimestamp''])) parse_time) created) now
               else overdue created now
           | None \<Rightarrow> overdue created now)
         else pod_phase pod = Some ''Pending'' \<and>
           overdue (opt_or (Option.bind (Option.bind (pod_condition pod ''PodScheduled'') (\<lambda>c.
             if get_str c ''status'' = Some ''True'' then get_str c ''lastTransitionTime'' else None)) parse_time) created) now)"

text \<open>
  What counts as a failed attempt of an unfinished Job: a pod of it that failed or was
  stopped, or an attempt that only the Job still counts, when the runner recorded a failure
  in the life of the Job or the condition said before that an attempt was stopped.
\<close>

definition attempt_failed ::
  "parse_time \<Rightarrow> run \<Rightarrow> json \<Rightarrow> observed \<Rightarrow> stack_condition option \<Rightarrow> int \<Rightarrow> bool" where
  "attempt_failed parse_time r job ob prior now \<longleftrightarrow>
     (\<exists>p \<in> set (ob_pods ob). owned_by p job \<and> is_failed_attempt p job False) \<or>
     gone_attempts job (ob_pods ob) > 0 \<and>
       (recorded_failure parse_time job (Some now) (ob_runner_status ob) (record_keys r) \<noteq> None \<or>
        seen_stopped r job prior \<noteq> None)"

definition newest_live_pod :: "parse_time \<Rightarrow> json \<Rightarrow> observed \<Rightarrow> json option" where
  "newest_live_pod parse_time job ob = max_by_key (created_at parse_time)
     (filter (\<lambda>p. \<not> deleting p)
       (filter (\<lambda>p. pod_phase p \<noteq> Some ''Succeeded'' \<and> pod_phase p \<noteq> Some ''Failed'')
         (filter (\<lambda>p. owned_by p job) (ob_pods ob))))"

definition job_calm ::
  "parse_time \<Rightarrow> run \<Rightarrow> json \<Rightarrow> observed \<Rightarrow> stack_condition option \<Rightarrow> int \<Rightarrow> bool" where
  "job_calm parse_time r job ob prior now \<longleftrightarrow>
     \<not> attempt_failed parse_time r job ob prior now \<and>
     (case newest_live_pod parse_time job ob of None \<Rightarrow> True | Some pod \<Rightarrow> \<not> pod_stuck parse_time pod now) \<and>
     \<not> ((\<forall>p \<in> set (ob_pods ob). \<not> owned_by p job) \<and> counts_no_pod job \<and> overdue (created_at parse_time job) now)"

text \<open>What a run that is in no trouble looks like.\<close>

definition first_finished :: "parse_time \<Rightarrow> run \<Rightarrow> observed \<Rightarrow> json option" where
  "first_finished parse_time r ob = find (\<lambda>j. job_ending j \<noteq> None) (run_jobs parse_time r ob)"

definition run_quiet ::
  "parse_time \<Rightarrow> run \<Rightarrow> json \<Rightarrow> observed \<Rightarrow> stack_condition option \<Rightarrow> int \<Rightarrow> bool" where
  "run_quiet parse_time r cronjob ob prior now \<longleftrightarrow>
     \<not> job_suspended cronjob \<and>
     (\<forall>job \<in> set (run_jobs parse_time r ob). job_ending job = None \<longrightarrow> job_calm parse_time r job ob prior now) \<and>
     (case Option.bind (first_finished parse_time r ob) job_ending of Some (EndFailed _ _ _) \<Rightarrow> False | _ \<Rightarrow> True)"

lemma not_yet_None: "not_yet since now = None \<longleftrightarrow> overdue since now"
  by (auto simp: not_yet_def overdue_def seconds_def NOT_STARTED_GRACE_SECS_def Let_def split: option.splits)

lemma live_pod_stuck:
  "(\<exists>reason m. live_pod parse_time r job pod now = LiveTrouble reason m) \<longleftrightarrow> pod_stuck parse_time pod now"
proof -
  have graced: "(\<exists>reason m. (case not_yet since now of Some due \<Rightarrow> Waiting due | None \<Rightarrow> LiveTrouble a b) = LiveTrouble reason m)
      \<longleftrightarrow> overdue since now" for since a b
    by (auto simp flip: not_yet_None split: option.splits)
  show ?thesis
    unfolding live_pod_def pod_stuck_def Let_def
    by (cases "pod_condition pod ''PodScheduled''") (simp_all add: graced)
qed

lemma failed_attempt_iff:
  "failed_attempt parse_time r job ob prior now \<noteq> None \<longleftrightarrow> attempt_failed parse_time r job ob prior now"
proof -
  let ?pods = "filter (\<lambda>p. is_failed_attempt p job False) (filter (\<lambda>p. owned_by p job) (ob_pods ob))"
  have "?pods = [] \<longleftrightarrow> \<not> (\<exists>p \<in> set (ob_pods ob). owned_by p job \<and> is_failed_attempt p job False)"
    by (auto simp: filter_empty_conv)
  moreover have "newest_failed_attempt parse_time r job ob prior now \<noteq> None \<longleftrightarrow>
      ?pods \<noteq> [] \<or> gone_attempts job (ob_pods ob) > 0 \<and>
        (recorded_failure parse_time job (Some now) (ob_runner_status ob) (record_keys r) \<noteq> None \<or>
         seen_stopped r job prior \<noteq> None)"
    unfolding newest_failed_attempt_def Let_def
    by (cases "max_by_key (created_at parse_time) ?pods")
      (auto split: option.splits dest!: max_by_key_mem)
  ultimately show ?thesis by (simp add: failed_attempt_def attempt_failed_def)
qed

lemma no_pod_trouble_iff: "fst (no_pod_trouble parse_time r job holds now) = None \<longleftrightarrow> \<not> overdue (created_at parse_time job) now"
  by (auto simp: no_pod_trouble_def created_at_def time_at_def Let_def simp flip: not_yet_None split: option.splits)

lemma unfinished_trouble_iff:
  "fst (unfinished_trouble parse_time r job ob prior now) = None \<longleftrightarrow> job_calm parse_time r job ob prior now"
proof -
  let ?owned = "filter (\<lambda>p. owned_by p job) (ob_pods ob)" and ?holds = "if cronjob_owner job \<noteq> None then holds_the_schedule (run_noun r) else []"
  let ?earlier = "failed_attempt parse_time r job ob prior now"
  let ?settled = "case ?earlier of Some fa \<Rightarrow> (Some (alone fa), None)
    | None \<Rightarrow> if ?owned = [] \<and> counts_no_pod job then no_pod_trouble parse_time r job ?holds now else (None, None)"
  have none: "?owned = [] \<longleftrightarrow> (\<forall>p \<in> set (ob_pods ob). \<not> owned_by p job)" by (auto simp: filter_empty_conv)
  have settled: "fst ?settled = None \<longleftrightarrow> \<not> attempt_failed parse_time r job ob prior now \<and>
      \<not> (?owned = [] \<and> counts_no_pod job \<and> overdue (created_at parse_time job) now)"
    unfolding failed_attempt_iff [symmetric] by (auto simp: no_pod_trouble_iff split: option.splits)
  have fld: "unfinished_trouble parse_time r job ob prior now = (case newest_live_pod parse_time job ob of
       None \<Rightarrow> ?settled
     | Some pod \<Rightarrow>
         (case live_pod parse_time r job pod now of
            LiveTrouble reason message \<Rightarrow>
              (Some (Trouble reason (message @ (case ?earlier of None \<Rightarrow> [] | Some fa \<Rightarrow> fa_beside fa) @ ?holds)), None)
          | Waiting due \<Rightarrow> (map_option alone ?earlier, Some due)
          | Fine \<Rightarrow> ?settled))"
    by (simp only: unfinished_trouble_def newest_live_pod_def Let_def)
  show ?thesis
  proof (cases "newest_live_pod parse_time job ob")
    case None
    then show ?thesis unfolding fld job_calm_def option.case none [symmetric] by (simp only: option.case settled) simp
  next
    case (Some pod)
    then have owned: "?owned \<noteq> []" unfolding newest_live_pod_def by (auto dest!: max_by_key_mem simp: filter_empty_conv)
    then have some: "\<not> (\<forall>p \<in> set (ob_pods ob). \<not> owned_by p job)" unfolding none [symmetric] .
    note stuck = live_pod_stuck [of parse_time r job pod now]
    show ?thesis
    proof (cases "live_pod parse_time r job pod now")
      case Fine
      with stuck have "\<not> pod_stuck parse_time pod now" by simp
      moreover have "fst (unfinished_trouble parse_time r job ob prior now) = None \<longleftrightarrow> fst ?settled = None"
        unfolding fld by (simp only: Some Fine option.case live_pod_state.case)
      ultimately show ?thesis unfolding job_calm_def settled using Some owned some by simp
    next
      case (Waiting due)
      with stuck have "\<not> pod_stuck parse_time pod now" by simp
      with Some Waiting some show ?thesis unfolding fld job_calm_def failed_attempt_iff [symmetric] by simp
    next
      case (LiveTrouble reason m)
      with stuck have "pod_stuck parse_time pod now" by blast
      with Some LiveTrouble show ?thesis unfolding fld job_calm_def by simp
    qed
  qed
qed

lemma scan_unfinished_None:
  "snd (scan_unfinished parse_time r ob prior now jobs ra tr) = None \<longleftrightarrow>
   tr = None \<and> (\<forall>job \<in> set jobs. job_calm parse_time r job ob prior now)"
proof (induction jobs arbitrary: ra tr)
  case (Cons job jobs)
  obtain found at where u: "unfinished_trouble parse_time r job ob prior now = (found, at)"
    by (metis surj_pair)
  then show ?case
    using unfinished_trouble_iff [of parse_time r job ob prior now] by (auto simp: Cons.IH split: if_splits)
qed simp

lemma unfinished_trouble_is_Trouble:
  "fst (unfinished_trouble parse_time r job ob prior now) = Some oc \<Longrightarrow> \<exists>reason m. oc = Trouble reason m"
  by (auto simp: unfinished_trouble_def no_pod_trouble_def alone_def Let_def
      split: option.splits live_pod_state.splits if_splits)

lemma scan_unfinished_is_Trouble:
  "snd (scan_unfinished parse_time r ob prior now jobs ra tr) = Some (oc, job) \<Longrightarrow>
   (\<And>oc' job'. tr = Some (oc', job') \<Longrightarrow> \<exists>reason m. oc' = Trouble reason m) \<Longrightarrow> \<exists>reason m. oc = Trouble reason m"
proof (induction jobs arbitrary: ra tr)
  case (Cons j jobs)
  obtain found at where u: "unfinished_trouble parse_time r j ob prior now = (found, at)"
    by (metis surj_pair)
  let ?tr = "if tr = None then map_option (\<lambda>x. (x, j)) found else tr"
  have "snd (scan_unfinished parse_time r ob prior now jobs (earliest ra at) ?tr) = Some (oc, job)"
    using Cons.prems(1) by (simp add: u)
  moreover have "\<exists>reason m. oc' = Trouble reason m" if "?tr = Some (oc', job')" for oc' job'
    using that Cons.prems(2) unfinished_trouble_is_Trouble [of parse_time r j ob prior now oc'] u
    by (auto split: if_splits)
  ultimately show ?case by (rule Cons.IH)
qed auto

lemma failed_job_is_Trouble: "\<exists>reason m. failed_job parse_time r job jr jm at ob prior = Trouble reason m"
  by (auto simp: failed_job_def Let_def split: option.splits prod.splits)

lemma find_map_ending:
  "find_map (\<lambda>j. map_option (\<lambda>e. (j, e)) (job_ending j)) jobs =
   map_option (\<lambda>k. (k, the (job_ending k))) (find (\<lambda>j. job_ending j \<noteq> None) jobs)"
  by (induction jobs) auto

text \<open>The three outcomes of a run, by what was observed.\<close>

lemma assess_run_outcome:
  "if \<not> run_quiet parse_time r cronjob ob prior now
   then \<exists>reason m. ra_outcome (assess_run parse_time r cronjob ob prior now) = Trouble reason m
   else if first_finished parse_time r ob \<noteq> None \<or> str_at cronjob [''status'', ''lastSuccessfulTime''] \<noteq> None
   then \<exists>m. ra_outcome (assess_run parse_time r cronjob ob prior now) = OutSucceeded m
   else \<exists>m. ra_outcome (assess_run parse_time r cronjob ob prior now) = NoRun m"
proof (cases "job_suspended cronjob")
  case True
  then show ?thesis by (auto simp: run_quiet_def assess_run_def Let_def)
next
  case ns: False
  let ?jobs = "run_jobs parse_time r ob"
  let ?scan = "scan_unfinished parse_time r ob prior now (filter (\<lambda>j. job_ending j = None) ?jobs) None None"
  let ?run = "assess_run parse_time r cronjob ob prior now"
  obtain at tr where scan: "?scan = (at, tr)" by (metis surj_pair)
  have calm: "tr = None \<longleftrightarrow> (\<forall>job \<in> set ?jobs. job_ending job = None \<longrightarrow> job_calm parse_time r job ob prior now)"
    using scan_unfinished_None [of parse_time r ob prior now "filter (\<lambda>j. job_ending j = None) ?jobs" None None] scan by auto
  show ?thesis
  proof (cases tr)
    case (Some ocj)
    obtain oc job where ocj: "ocj = (oc, job)" by (metis surj_pair)
    then have "snd ?scan = Some (oc, job)" using Some scan by simp
    from scan_unfinished_is_Trouble [OF this] obtain reason t where "oc = Trouble reason t" by auto
    with ns scan Some ocj have "ra_outcome ?run = Trouble reason t"
      by (simp only: assess_run_def Let_def if_False prod.case option.case) simp
    moreover have "\<not> run_quiet parse_time r cronjob ob prior now" using calm Some by (auto simp: run_quiet_def)
    ultimately show ?thesis by simp
  next
    case None
    have outcome: "ra_outcome ?run = (case first_finished parse_time r ob of
        Some k \<Rightarrow> (case the (job_ending k) of
            EndFailed reason message at \<Rightarrow> failed_job parse_time r k reason message at ob prior
          | EndSucceeded at \<Rightarrow> OutSucceeded (''the last '' @ run_noun r @ '', Job '' @ obj_name k @ '', succeeded at '' @
              unwrap_or at ''an unrecorded time''))
      | None \<Rightarrow> no_finished_run r cronjob ?jobs)"
      using ns scan None
      by (simp add: assess_run_def find_map_ending first_finished_def Let_def split: option.splits ending.splits)
    have quiet: "run_quiet parse_time r cronjob ob prior now \<longleftrightarrow>
        (case Option.bind (first_finished parse_time r ob) job_ending of Some (EndFailed _ _ _) \<Rightarrow> False | _ \<Rightarrow> True)"
      using calm ns None by (simp add: run_quiet_def)
    show ?thesis
    proof (cases "first_finished parse_time r ob")
      case None
      then show ?thesis
        unfolding quiet outcome by (auto simp: no_finished_run_def Let_def split: option.splits list.splits)
    next
      case (Some k)
      then have "job_ending k \<noteq> None" unfolding first_finished_def by (auto simp: find_Some_iff)
      with Some failed_job_is_Trouble show ?thesis unfolding quiet outcome by (auto split: ending.splits)
    qed
  qed
qed

text \<open>The first finished Job of the list is the newest one.\<close>

lemma first_finished_newest:
  assumes "first_finished parse_time r ob = Some k" "job \<in> set (run_jobs parse_time r ob)" "job_ending job \<noteq> None"
  shows "newer_eq parse_time k job"
proof -
  let ?jobs = "run_jobs parse_time r ob"
  obtain i where i: "i < length ?jobs" "k = ?jobs ! i" "\<And>j. j < i \<Longrightarrow> job_ending (?jobs ! j) = None"
    using assms(1) unfolding first_finished_def by (auto simp: find_Some_iff)
  obtain j where j: "j < length ?jobs" "job = ?jobs ! j" using assms(2) by (metis in_set_conv_nth)
  have "sorted_wrt (newer_eq parse_time) ?jobs" unfolding run_jobs_def by (rule newest_jobs.sorted_sort)
  moreover have "i \<le> j" using i(3) [of j] assms(3) j(2) by (meson not_le)
  ultimately show ?thesis
    using i(1,2) j newest_jobs.le_total [of parse_time k k] by (cases "i = j") (auto simp: sorted_wrt_iff_nth_less)
qed

text \<open>
  C31. \<open>BackupHealthy=True\<close> is said exactly when it is earned: backups are on, the objects were
  read, the backup schedule is deployed; its run is quiet, and so is the run of a deployed
  check; and a backup has finished, by a Job that is still there or by the success the CronJob
  records. A run is quiet when its schedule is not suspended, its newest finished Job
  succeeded, and no unfinished Job of it has a failed attempt, a newest pod that is stuck, or
  no pod at all past the grace. An attempt that only the Job still counts, with neither a
  record of the runner nor earlier words of the condition, is not taken as failed: the code
  says \<open>True\<close> there on purpose, since a pod it does not select is counted too.
\<close>

theorem healthy_verdict_is_earned:
  "((\<exists>reason message. as_verdict (assess_health parse_time enabled observed conds now) = Condition ''True'' reason message) \<longleftrightarrow>
     enabled \<and> (\<exists>ob cj. observed = Inr ob \<and> find_cronjob ob BACKUP_CRONJOB = Some cj \<and>
       (let prior = find (\<lambda>c. cn_type c = COND_BACKUP_HEALTHY) conds
        in run_quiet parse_time RunBackup cj ob prior now \<and>
           (first_finished parse_time RunBackup ob \<noteq> None \<or> str_at cj [''status'', ''lastSuccessfulTime''] \<noteq> None) \<and>
           (\<forall>ck. find_cronjob ob CHECK_CRONJOB = Some ck \<longrightarrow> run_quiet parse_time RunCheck ck ob prior now)))) \<and>
   (\<forall>r ob k. first_finished parse_time r ob = Some k \<longrightarrow>
      (\<forall>job \<in> set (run_jobs parse_time r ob). job_ending job \<noteq> None \<longrightarrow> newer_eq parse_time k job))"
proof (rule conjI)
  show "\<forall>r ob k. first_finished parse_time r ob = Some k \<longrightarrow>
      (\<forall>job \<in> set (run_jobs parse_time r ob). job_ending job \<noteq> None \<longrightarrow> newer_eq parse_time k job)"
    using first_finished_newest by blast
next
  let ?v = "as_verdict (assess_health parse_time enabled observed conds now)"
  let ?prior = "find (\<lambda>c. cn_type c = COND_BACKUP_HEALTHY) conds"
  consider "\<not> enabled" | e where "enabled" "observed = Inl e"
    | ob where "enabled" "observed = Inr ob" "find_cronjob ob BACKUP_CRONJOB = None"
    | ob cj where "enabled" "observed = Inr ob" "find_cronjob ob BACKUP_CRONJOB = Some cj"
    by (metis old.sum.exhaust option.exhaust)
  then show "(\<exists>reason message. ?v = Condition ''True'' reason message) \<longleftrightarrow>
     enabled \<and> (\<exists>ob cj. observed = Inr ob \<and> find_cronjob ob BACKUP_CRONJOB = Some cj \<and>
       (let prior = ?prior
        in run_quiet parse_time RunBackup cj ob prior now \<and>
           (first_finished parse_time RunBackup ob \<noteq> None \<or> str_at cj [''status'', ''lastSuccessfulTime''] \<noteq> None) \<and>
           (\<forall>ck. find_cronjob ob CHECK_CRONJOB = Some ck \<longrightarrow> run_quiet parse_time RunCheck ck ob prior now)))"
  proof cases
    case (4 ob cj)
    note b = assess_run_outcome [of parse_time RunBackup cj ob ?prior now]
    show ?thesis
    proof (cases "find_cronjob ob CHECK_CRONJOB")
      case None
      with b 4 show ?thesis
        by (auto simp: assess_health_def verdict_of_def verdict_unknown_def Let_def split: if_splits)
    next
      case (Some ck)
      with b 4 assess_run_outcome [of parse_time RunCheck ck ob ?prior now] show ?thesis
        by (auto simp: assess_health_def verdict_of_def verdict_unknown_def Let_def split: if_splits)
    qed
  qed (auto simp: assess_health_def assessment_now_def verdict_unknown_def Let_def)
qed

definition sample_meta :: "string \<Rightarrow> json" where
  "sample_meta n = JObject [(''creationTimestamp'', JString ''t1''), (''name'', JString n),
     (''ownerReferences'', JArray [JObject [(''kind'', JString ''CronJob''), (''name'', JString BACKUP_CRONJOB)]])]"

definition sample_cronjob :: json where
  "sample_cronjob = JObject [(''metadata'', JObject [(''name'', JString BACKUP_CRONJOB)])]"

definition sample_job :: json where
  "sample_job = JObject [(''metadata'', sample_meta ''apprafter-backup-1''),
     (''status'', JObject [(''conditions'',
       JArray [JObject [(''status'', JString ''True''), (''type'', JString ''Complete'')]])])]"

definition sample_observed :: observed where
  "sample_observed = \<lparr>ob_cronjobs = [sample_cronjob], ob_jobs = [sample_job], ob_pods = [],
     ob_runner_status = None, ob_runner_status_error = None\<rparr>"

definition length_time :: parse_time where
  "length_time s = Some (int (length s))"

text \<open>The same backup, with a Job beside it whose one attempt the Job counts and whose pod is gone.\<close>

definition sample_retry :: json where
  "sample_retry = JObject [(''metadata'', sample_meta ''apprafter-backup-2''),
     (''status'', JObject [(''uncountedTerminatedPods'', JObject [(''failed'', JArray [JString ''u2''])])])]"

definition sample_record :: json where
  "sample_record = JObject [(''lastError'', JString ''no space''), (''lastFailure'', JString ''t1x'')]"

theorem healthy_verdict_witness:
  "as_verdict (assess_health length_time True (Inr sample_observed) [] 5) =
     Condition ''True'' ''Succeeded'' ''the last backup, Job apprafter-backup-1, succeeded at an unrecorded time'' \<and>
   run_quiet length_time RunBackup sample_cronjob sample_observed None 5 \<and>
   \<not> job_calm length_time RunBackup sample_retry (sample_observed\<lparr>ob_runner_status := Some sample_record\<rparr>) None 5"
proof -
  have v: "as_verdict (assess_health length_time True (Inr sample_observed) [] 5) =
     Condition ''True'' ''Succeeded'' ''the last backup, Job apprafter-backup-1, succeeded at an unrecorded time''"
    by code_simp
  have "find_cronjob sample_observed BACKUP_CRONJOB = Some sample_cronjob" by code_simp
  with healthy_verdict_is_earned [of length_time True "Inr sample_observed" "[]" 5] v
  have "run_quiet length_time RunBackup sample_cronjob sample_observed None 5" by (auto simp: Let_def)
  moreover have "\<not> job_calm length_time RunBackup sample_retry (sample_observed\<lparr>ob_runner_status := Some sample_record\<rparr>) None 5"
  proof -
    have "gone_attempts sample_retry [] = 1" by code_simp
    moreover have "recorded_failure length_time sample_retry (Some 5) (Some sample_record) (record_keys RunBackup) \<noteq> None"
      by code_simp
    ultimately show ?thesis by (simp add: job_calm_def attempt_failed_def sample_observed_def)
  qed
  ultimately show ?thesis using v by blast
qed

text \<open>
  \<open>BackupRetention=True\<close> rests on a recorded prune that did its job; under \<open>check\<close> that prune
  is not before the latest recorded check.
\<close>

lemma retention_verdict_is_earned:
  assumes "assess_retention parse_time show_f1 backup ann observed = Condition ''True'' reason message"
  shows "\<exists>b ob p. backup = Some b \<and> bk_enabled b \<and> observed = Inr ob \<and> ob_runner_status_error ob = None \<and>
           rec_prune (ob_runner_status ob) = Some p \<and> pn_result p \<in> {''pruned'', ''nothing-to-prune''} \<and>
           resolve_retention_enforce b \<noteq> ''operator'' \<and>
           (resolve_retention_enforce b \<noteq> ''cluster'' \<longrightarrow>
              (\<exists>ck. rec_check (ob_runner_status ob) = Some ck \<and> not_before parse_time (pn_at p) (ck_at ck)))"
proof -
  have earned: "pn_result p \<in> {''pruned'', ''nothing-to-prune''}"
    if "prune_verdict p outside repo = Condition ''True'' reason message" for p outside repo
    using that by (auto simp: prune_verdict_def verdict_unknown_def Let_def split: if_splits)
  from assms obtain b ob where b: "backup = Some b" "bk_enabled b" and ob: "observed = Inr ob"
    and e: "ob_runner_status_error ob = None"
    by (auto simp: assess_retention_def verdict_unknown_def split: option.splits if_splits sum.splits)
  from assms have op: "resolve_retention_enforce b \<noteq> ''operator''"
    by (auto simp: assess_retention_def b ob e Let_def)
  show ?thesis
  proof (cases "resolve_retention_enforce b = ''cluster''")
    case True
    with assms b ob e op earned show ?thesis
      by (auto simp: assess_retention_def verdict_unknown_def Let_def split: option.splits)
  next
    case False
    from assms obtain outside repo where
      "retention_of_check parse_time b (ob_runner_status ob) outside repo = Condition ''True'' reason message"
      by (auto simp: assess_retention_def b ob e op False Let_def)
    with b ob e op False earned show ?thesis
      by (auto simp: retention_of_check_def verdict_unknown_def Let_def split: if_splits option.splits)
  qed
qed

text \<open>
  Under \<open>cluster\<close> only the prune's own fields and the size are read: how old the prune is
  beside the latest backup changes nothing.
\<close>

lemma cluster_retention_ignores_backups:
  assumes "resolve_retention_enforce b = ''cluster''"
    and "rec_prune (ob_runner_status ob) = rec_prune (ob_runner_status ob')"
    and "rec_repository show_f1 (ob_runner_status ob) = rec_repository show_f1 (ob_runner_status ob')"
    and "ob_runner_status_error ob = ob_runner_status_error ob'"
  shows "assess_retention parse_time show_f1 (Some b) ann (Inr ob) = assess_retention parse_time show_f1 (Some b) ann (Inr ob')"
  unfolding assess_retention_def option.case sum.case Let_def using assms
  by (cases "ob_runner_status_error ob'"; cases "rec_prune (ob_runner_status ob')"; cases ann) simp_all

end
