(* ===== verification/Platform_Stack.thy ===== *)
theory Platform_Stack
  imports Platform_Version Backup_Health Migration_Types
begin

text \<open>
  The controller of the platform itself (\<open>platform-stack/src/reconcile.rs\<close>): one pass over
  \<open>PlatformStack/default\<close>. It resolves the newest version of the channel, reads the parent
  Application, decides which version the parent may run (a destructive step waits for a
  completed MigrationPlan), collects plans that are over, writes the parent and then the
  status. A pass is a function of the answers to its reads and writes; it returns the writes
  it sends, in order, with its result and the bumps it has not recorded yet. A call that runs
  out of its budget answers \<open>None\<close>. Events, logs and metrics are left out; \<open>clock i\<close> is the
  clock when the \<open>i\<close>-th condition is built, and the \<open>f64\<close> arithmetic on the disk sample is an
  argument (the rounded percentage free, and whether it is below the threshold).
\<close>

subsection \<open>Errors and answers\<close>

datatype stack_error =
    SErrKube string
  | SErrOci oci_error
  | SErrCompat compat_error
  | SErrUpstreamTimedOut string
  | SErrTimedOut

fun show_oci_error :: "oci_error \<Rightarrow> string" where
  "show_oci_error (OInvalidReference r e) = ''invalid reference '' @ debug_str r @ '': '' @ e"
| "show_oci_error (ORegistry e) = ''registry IO: '' @ e"
| "show_oci_error (NoVersions u) = ''no channel-matching versions found at '' @ debug_str u"

fun show_compat_error :: "compat_error \<Rightarrow> string" where
  "show_compat_error (InvalidReference r e) = ''invalid reference '' @ debug_str r @ '': '' @ e"
| "show_compat_error (Registry e) = ''registry IO: '' @ e"
| "show_compat_error (ManifestNotFound r) = ''manifest not found: '' @ r"
| "show_compat_error MissingFile = ''chart tarball missing compatibility.yaml''"
| "show_compat_error (CompatParse e) = ''parse compatibility.yaml: '' @ e"
| "show_compat_error (UnknownVersion v) = ''version '' @ debug_str v @ '' not declared in compatibility.yaml''"

definition upstream_timed_out :: "string \<Rightarrow> string" where
  "upstream_timed_out operation = ''the OCI upstream did not finish '' @ operation @ '' within 20s''"

fun show_stack_error :: "stack_error \<Rightarrow> string" where
  "show_stack_error (SErrKube e) = ''kube-rs error: '' @ e"
| "show_stack_error (SErrOci e) = ''oci poll error: '' @ show_oci_error e"
| "show_stack_error (SErrCompat e) = ''compatibility fetch error: '' @ show_compat_error e"
| "show_stack_error (SErrUpstreamTimedOut operation) = upstream_timed_out operation"
| "show_stack_error SErrTimedOut = ''the reconcile did not finish''"

type_synonym latest_answer = "string \<times> bool \<times> compat_doc option"

record upstream =
  up_latest :: "string \<Rightarrow> channel \<Rightarrow> (stack_error, latest_answer) result option"
  up_class :: "string \<Rightarrow> string \<Rightarrow> string \<Rightarrow> (compat_error, change_class) result option"

fun stack_error_of :: "resolve_error \<Rightarrow> stack_error" where
  "stack_error_of (ROci e) = SErrOci e"
| "stack_error_of (RCompat e) = SErrCompat e"

text \<open>The one implementation: the registry, answering within its budget.\<close>

definition oci_registry :: "('v :: linorder) semver \<Rightarrow> ('r, 'l) registry \<Rightarrow> upstream" where
  "oci_registry sv rc =
     \<lparr>up_latest = (\<lambda>url ch. Some (case resolve_channel_latest sv rc url ch of
          Inl e \<Rightarrow> Inl (stack_error_of e) | Inr r \<Rightarrow> Inr r)),
      up_class = (\<lambda>url a b. Some (fetch_path_max_change_class sv rc url a b))\<rparr>"

datatype stack_write =
    CreatePlan migration_plan
  | DeletePlan string
  | PatchAnchor json
  | PatchParent json
  | ApplyStatus stack_status

text \<open>
  The answers of the apiserver. An error of a plan read carries its HTTP code. The anchor is
  read twice: its uid for a new plan, and whether it is there before its annotations are
  written.
\<close>

record answers =
  an_parent :: "(string, json) result"
  an_plan :: "string \<Rightarrow> (nat \<times> string, migration_plan) result"
  an_anchor :: "(string, string option option) result option"
  an_create :: "(string, unit) result"
  an_plans :: "(string, migration_plan list) result"
  an_anchor_exists :: "(string, bool) result option"
  an_patch_parent :: "(string, unit) result"
  an_server_status :: "nat \<Rightarrow> (string, stack_status option) result"
  an_apply_status :: "nat \<Rightarrow> (string, unit) result"
  an_observed :: "(string, observed) result option"
  an_disk :: "(int \<times> bool) option"

record 'v env =
  ev_semver :: "'v semver"
  ev_upstream :: upstream
  ev_parse_time :: parse_time
  ev_show_f1 :: "int \<Rightarrow> int \<Rightarrow> string"
  ev_now :: int
  ev_now_text :: string
  ev_clock :: "nat \<Rightarrow> string"

subsection \<open>Detection\<close>

definition MIN_OCI_POLL_INTERVAL_SECS :: int where
  "MIN_OCI_POLL_INTERVAL_SECS = 60"

definition should_poll_oci :: "int option \<Rightarrow> string option \<Rightarrow> int option \<Rightarrow> int \<Rightarrow> bool" where
  "should_poll_oci prior_last_check prior_available recheck_requested now \<longleftrightarrow>
     (let force_recheck = (case recheck_requested of
          Some req \<Rightarrow> (case prior_last_check of None \<Rightarrow> True | Some checked \<Rightarrow> checked < req)
        | None \<Rightarrow> False)
      in if force_recheck then True
         else case (prior_last_check, prior_available) of
           (Some t, Some _) \<Rightarrow> num_seconds (now - t) \<ge> MIN_OCI_POLL_INTERVAL_SECS
         | _ \<Rightarrow> True)"

definition degrade_on_resolution_failure :: "bool \<Rightarrow> string option \<Rightarrow> latest_answer option" where
  "degrade_on_resolution_failure pinned prior_available =
     (case (pinned, prior_available) of
        (True, prior) \<Rightarrow> Some (unwrap_or prior [], False, None)
      | (False, Some prior) \<Rightarrow> Some (prior, False, None)
      | (False, None) \<Rightarrow> None)"

text \<open>Step 1: the answer used for this pass, and the error of the poll if it failed.\<close>

definition detect ::
  "upstream \<Rightarrow> stack_spec \<Rightarrow> bool \<Rightarrow> string option \<Rightarrow> (stack_error, latest_answer \<times> string option) result" where
  "detect up spec poll prior_available =
     (if poll
      then
        let ch = unwrap_or (channel_parse (sp_channel spec)) Stable;
            resolved = (case up_latest up (src_upstream (sp_source spec)) ch of
                Some answer \<Rightarrow> answer
              | None \<Rightarrow> Inl (SErrUpstreamTimedOut ''resolving the channel-latest''))
        in case resolved of
             Inr r \<Rightarrow> Inr (r, None)
           | Inl e \<Rightarrow>
               (case degrade_on_resolution_failure (sp_pin spec \<noteq> None) prior_available of
                  Some r \<Rightarrow> Inr (r, Some (show_stack_error e))
                | None \<Rightarrow> Inl e)
      else Inr ((unwrap_or prior_available [], False, None), None))"

definition set_upstream_reachable ::
  "string \<Rightarrow> stack_status \<Rightarrow> bool \<Rightarrow> string option \<Rightarrow> stack_condition list \<Rightarrow> stack_status" where
  "set_upstream_reachable now status should_poll poll_error prior =
     (if \<not> (should_poll \<or> poll_error \<noteq> None) then status
      else upsert_condition status (case poll_error of
          Some err \<Rightarrow> stack_condition_of now ''UpstreamReachable'' ''False'' ''PollFailed''
            (''could not resolve channel-latest from upstream ('' @ err @
             ''); availableVersion is stale - pinned / last-known target still enforced'') prior
        | None \<Rightarrow> stack_condition_of now ''UpstreamReachable'' ''True'' ''Reachable''
            ''channel-latest resolved from the OCI upstream'' prior))"

subsection \<open>Reading the parent Application\<close>

definition platform_controller_owns_source :: "json \<Rightarrow> bool" where
  "platform_controller_owns_source parent \<longleftrightarrow>
     (case array_at parent [''metadata'', ''managedFields''] of
        None \<Rightarrow> False
      | Some entries \<Rightarrow>
          (\<exists>e \<in> set entries. get_str e ''manager'' = Some FIELD_MANAGER \<and>
             json_pointer e [''fieldsV1'', ''f:spec'', ''f:source''] \<noteq> None))"

definition is_in_flight :: "json \<Rightarrow> bool" where
  "is_in_flight parent \<longleftrightarrow>
     str_at parent [''status'', ''sync'', ''status''] = Some ''OutOfSync'' \<or>
     str_at parent [''status'', ''operationState'', ''phase''] = Some ''Running''"

definition values_differ :: "json \<Rightarrow> json \<Rightarrow> bool" where
  "values_differ parent desired \<longleftrightarrow>
     unwrap_or (json_pointer parent [''spec'', ''source'', ''helm'', ''valuesObject'']) JNull \<noteq> desired"

definition WHITELISTED_FIELD_MANAGERS :: "string list" where
  "WHITELISTED_FIELD_MANAGERS = [FIELD_MANAGER, ''argocd-application-controller'', ''apprafter-cli'']"

text \<open>An entry without a manager ends the search: \<open>?\<close> returns from the function.\<close>

fun outside_writer :: "json list \<Rightarrow> string option" where
  "outside_writer [] = None"
| "outside_writer (e # es) =
     (case get_str e ''manager'' of
        None \<Rightarrow> None
      | Some manager \<Rightarrow>
          if manager \<in> set WHITELISTED_FIELD_MANAGERS then outside_writer es
          else (case json_pointer e [''fieldsV1'', ''f:spec'', ''f:source''] of
                  Some s \<Rightarrow> if json_get s ''f:targetRevision'' \<noteq> None \<or> json_get s ''f:helm'' \<noteq> None
                    then Some manager else outside_writer es
                | None \<Rightarrow> outside_writer es))"

definition detect_outside_writer :: "json \<Rightarrow> string option" where
  "detect_outside_writer parent =
     Option.bind (array_at parent [''metadata'', ''managedFields'']) outside_writer"

record pending_upgrade =
  pu_from :: string
  pu_to :: string
  pu_class :: string
  pu_plan :: string

definition upgrade_annotations :: "pending_upgrade \<Rightarrow> json" where
  "upgrade_annotations up = JObject
     [(''apprafter.io/upgrade-class'', JString (pu_class up)), (''apprafter.io/upgrade-from'', JString (pu_from up)),
      (''apprafter.io/upgrade-pending'', JString ''true''), (''apprafter.io/upgrade-plan'', JString (pu_plan up)),
      (''apprafter.io/upgrade-to'', JString (pu_to up))]"

definition pending_upgrade_annotations_differ :: "json \<Rightarrow> pending_upgrade option \<Rightarrow> bool" where
  "pending_upgrade_annotations_differ parent pending \<longleftrightarrow>
     (let get = (\<lambda>k. str_at parent [''metadata'', ''annotations'', k])
      in case pending of
           Some up \<Rightarrow> get ''apprafter.io/upgrade-pending'' \<noteq> Some ''true'' \<or>
             get ''apprafter.io/upgrade-from'' \<noteq> Some (pu_from up) \<or>
             get ''apprafter.io/upgrade-to'' \<noteq> Some (pu_to up) \<or>
             get ''apprafter.io/upgrade-class'' \<noteq> Some (pu_class up) \<or>
             get ''apprafter.io/upgrade-plan'' \<noteq> Some (pu_plan up)
         | None \<Rightarrow> get ''apprafter.io/upgrade-pending'' \<noteq> None)"

definition patch_metadata :: "string \<Rightarrow> pending_upgrade option \<Rightarrow> json" where
  "patch_metadata name pending = JObject
     ((case pending of Some up \<Rightarrow> [(''annotations'', upgrade_annotations up)] | None \<Rightarrow> []) @ [(''name'', JString name)])"

definition build_application_patch :: "desired_source \<Rightarrow> pending_upgrade option \<Rightarrow> json" where
  "build_application_patch desired pending = JObject
     [(''apiVersion'', JString ''argoproj.io/v1alpha1''), (''kind'', JString ''Application''),
      (''metadata'', patch_metadata ''platform'' pending),
      (''spec'', JObject [(''source'', JObject
         [(''helm'', JObject [(''valuesObject'', ds_helm_values desired)]),
          (''targetRevision'', JString (ds_target_revision desired))])])]"

abbreviation "PLATFORM_MIGRATION_ANCHOR \<equiv> ''platform-migration-anchor''"

definition build_anchor_health_patch :: "pending_upgrade option \<Rightarrow> json" where
  "build_anchor_health_patch pending = JObject
     [(''apiVersion'', JString ''v1''), (''kind'', JString ''ConfigMap''),
      (''metadata'', patch_metadata PLATFORM_MIGRATION_ANCHOR pending)]"

subsection \<open>Plans\<close>

definition dashed :: "string \<Rightarrow> string" where
  "dashed v = map (\<lambda>c. if c = CHR ''.'' then CHR ''-'' else c) v"

definition synthesize_platform_plan_name :: "string \<Rightarrow> string \<Rightarrow> string" where
  "synthesize_platform_plan_name from_version to_version =
     ''platform-'' @ dashed from_version @ ''-to-'' @ dashed to_version"

fun change_class_to_string :: "change_class \<Rightarrow> string" where
  "change_class_to_string Safe = ''safe''"
| "change_class_to_string RequiresRestart = ''requires-restart''"
| "change_class_to_string DataMigration = ''data-migration''"
| "change_class_to_string Breaking = ''breaking''"

definition plan_classification :: "migration_plan \<Rightarrow> string option" where
  "plan_classification plan = map_option risk_classification (mp_risks (mp_spec plan))"

definition anchor_uid_from_get :: "(string, string option option) result \<Rightarrow> string option" where
  "anchor_uid_from_get get = (case get of Inr (Some uid) \<Rightarrow> uid | _ \<Rightarrow> None)"

definition build_platform_migration_plan_cr ::
  "string \<Rightarrow> string \<Rightarrow> string \<Rightarrow> change_class \<Rightarrow> string option \<Rightarrow> string option \<Rightarrow> migration_plan" where
  "build_platform_migration_plan_cr plan_name from_version to_version class current_pin anchor_uid =
     \<lparr>mp_meta = \<lparr>om_name = Some plan_name, om_namespace = Some ''apprafter-system'',
        om_owner_references = (case anchor_uid of
            Some uid \<Rightarrow> [(''v1'', ''ConfigMap'', PLATFORM_MIGRATION_ANCHOR, uid, False, False)] | None \<Rightarrow> []),
        om_labels = [], om_creation_timestamp = None\<rparr>,
      mp_spec =
        \<lparr>mp_scope = \<lparr>sc_type = ''platform'', sc_application = None,
           sc_platform = Some \<lparr>ps_components = [''platform-stack'']\<rparr>, sc_sourcecredential = None\<rparr>,
         mp_trigger = \<lparr>trig_type = ''platform-classification'', trig_field = ''spec.pin'',
           trig_from = Some (JString from_version), trig_to = Some (JString to_version), trig_hash = None\<rparr>,
         mp_risks = Some \<lparr>risk_classification = change_class_to_string class, risk_classifications = None,
           risk_estimated_downtime = None, risk_data_volume = None, risk_reversible = None,
           risk_requires_full_backup = None\<rparr>,
         mp_changes = None, mp_plan = None, mp_approvers = None,
         mp_snapshot = Some (JObject [(''pin'', case current_pin of Some v \<Rightarrow> JString v | None \<Rightarrow> JNull)])\<rparr>,
      mp_status = None\<rparr>"

definition superseded_platform_plan_names :: "migration_plan list \<Rightarrow> string \<Rightarrow> string list" where
  "superseded_platform_plan_names plans keep =
     List.map_filter (\<lambda>p. Option.bind (om_name (mp_meta p)) (\<lambda>name.
         if name = keep then None
         else if plan_phase p = ''approved'' \<or> plan_phase p = ''executing'' then None
         else Some name))
       (filter (\<lambda>p. sc_type (mp_scope (mp_spec p)) = ''platform'') plans)"

subsection \<open>The version the parent may run\<close>

record pending_state =
  pd_classification :: string
  pd_plan_name :: "string option"

record target_decision =
  td_target :: string
  td_pending :: "pending_state option"
  td_authorising :: "string option"
  td_poll_error :: "string option"

definition held :: "string \<Rightarrow> pending_state option \<Rightarrow> string option \<Rightarrow> target_decision" where
  "held current pending poll_error =
     \<lparr>td_target = current, td_pending = pending, td_authorising = None, td_poll_error = poll_error\<rparr>"

text \<open>A plan for this very step exists: only a completed one lets the bump through.\<close>

definition decide_with_plan ::
  "string \<Rightarrow> string \<Rightarrow> string \<Rightarrow> migration_plan \<Rightarrow> string option \<Rightarrow> target_decision" where
  "decide_with_plan current desired plan_name plan poll_error =
     (if plan_phase plan = ''completed''
      then \<lparr>td_target = desired, td_pending = None, td_authorising = Some plan_name, td_poll_error = poll_error\<rparr>
      else held current (Some \<lparr>pd_classification = unwrap_or (plan_classification plan) ''unknown'',
             pd_plan_name = Some plan_name\<rparr>) poll_error)"

text \<open>No plan: a safe step goes through, any other creates the plan, and an unknown one is held.\<close>

definition decide_unplanned ::
  "upstream \<Rightarrow> answers \<Rightarrow> stack_spec \<Rightarrow> string \<Rightarrow> string \<Rightarrow> string \<Rightarrow> string option \<Rightarrow>
   (stack_error, target_decision) result \<times> stack_write list" where
  "decide_unplanned up ans spec current desired plan_name poll_error =
     (let classified = (case up_class up (src_upstream (sp_source spec)) current desired of
          Some (Inr class) \<Rightarrow> Inr class
        | Some (Inl e) \<Rightarrow> Inl (show_compat_error e)
        | None \<Rightarrow> Inl (upstream_timed_out ''classifying the transition''))
      in case classified of
           Inl e \<Rightarrow> (Inr (held current None (opt_or poll_error (Some e))), [])
         | Inr Safe \<Rightarrow>
             (Inr \<lparr>td_target = desired, td_pending = None, td_authorising = None, td_poll_error = poll_error\<rparr>, [])
         | Inr class \<Rightarrow>
             (let anchor_uid = Option.bind (an_anchor ans) anchor_uid_from_get;
                  plan = build_platform_migration_plan_cr plan_name current desired class (sp_pin spec) anchor_uid
              in case an_create ans of
                   Inl e \<Rightarrow> (Inl (SErrKube e), [CreatePlan plan])
                 | Inr _ \<Rightarrow>
                     (Inr (held current (Some \<lparr>pd_classification = change_class_to_string class,
                         pd_plan_name = Some plan_name\<rparr>) poll_error), [CreatePlan plan])))"

definition decide_target ::
  "upstream \<Rightarrow> answers \<Rightarrow> stack_spec \<Rightarrow> string \<Rightarrow> string \<Rightarrow> string option \<Rightarrow>
   (stack_error, target_decision) result \<times> stack_write list" where
  "decide_target up ans spec current desired poll_error =
     (let allow_target_bump = (sp_pin spec \<noteq> None \<or> sp_auto_upgrade spec)
      in if current \<noteq> desired \<and> allow_target_bump
         then
           let plan_name = synthesize_platform_plan_name current desired
           in case an_plan ans plan_name of
                Inr plan \<Rightarrow> (Inr (decide_with_plan current desired plan_name plan poll_error), [])
              | Inl (code, e) \<Rightarrow>
                  if code = 404 then decide_unplanned up ans spec current desired plan_name poll_error
                  else (Inl (SErrKube e), [])
         else (Inr (held current None poll_error), []))"

definition gc_writes :: "answers \<Rightarrow> target_decision \<Rightarrow> stack_write list" where
  "gc_writes ans td =
     (let keep = unwrap_or (opt_or (Option.bind (td_pending td) pd_plan_name) (td_authorising td)) []
      in case an_plans ans of
           Inr plans \<Rightarrow> map DeletePlan (superseded_platform_plan_names plans keep)
         | Inl _ \<Rightarrow> [])"

definition anchor_writes :: "answers \<Rightarrow> pending_upgrade option \<Rightarrow> stack_write list" where
  "anchor_writes ans pending =
     (case an_anchor_exists ans of Some (Inr True) \<Rightarrow> [PatchAnchor (build_anchor_health_patch pending)] | _ \<Rightarrow> [])"

subsection \<open>Conditions\<close>

definition node_disk_pressure_verdict :: "int \<Rightarrow> bool \<Rightarrow> string \<times> string \<times> string" where
  "node_disk_pressure_verdict pct_free warning =
     (if warning
      then (''True'', ''NodeFilesystemNearlyFull'',
            ''the node's filesystem is '' @ show_int (100 - pct_free) @ ''% full ('' @ show_int pct_free @
            ''% free). Every workload on this node shares it - local-path volumes, database storage, snapshots, container images and logs.'')
      else (''False'', ''SufficientSpace'', ''the node's filesystem has '' @ show_int pct_free @ ''% free''))"

definition show_bool :: "bool \<Rightarrow> string" where
  "show_bool b = (if b then ''true'' else ''false'')"

definition cond_upgrade ::
  "('v :: linorder) env \<Rightarrow> stack_spec \<Rightarrow> string \<Rightarrow> target_decision \<Rightarrow> stack_condition list \<Rightarrow> stack_condition" where
  "cond_upgrade env spec channel_latest td prior =
     (let at = ev_clock env 3;
          head = ''channel '' @ sp_channel spec @ '' latest is '' @ channel_latest @ ''; deployed target is '' @ td_target td
      in if semver_gt (ev_semver env) channel_latest (td_target td)
         then (case Option.bind (td_pending td) pd_plan_name of
                 Some plan \<Rightarrow> stack_condition_of at ''UpgradeAvailable'' ''True'' ''BlockedByMigrationPlan''
                   (head @ ''; blocked by MigrationPlan apprafter-system/'' @ plan @ '' awaiting approval'') prior
               | None \<Rightarrow> stack_condition_of at ''UpgradeAvailable'' ''True'' ''ManualApprovalRequired''
                   (head @ ''; set spec.autoUpgrade=true or spec.pin to advance'') prior)
         else stack_condition_of at ''UpgradeAvailable'' ''False'' ''UpToDate''
                (''deployed target '' @ td_target td @ '' is the latest in channel '' @ sp_channel spec) prior)"

definition cond_migration ::
  "'v env \<Rightarrow> string \<Rightarrow> string \<Rightarrow> target_decision \<Rightarrow> stack_condition list \<Rightarrow> stack_condition" where
  "cond_migration env current desired td prior =
     (case td_pending td of
        Some st \<Rightarrow> stack_condition_of (ev_clock env 5) ''MigrationPending'' ''True'' (pd_classification st)
          (''change from '' @ current @ '' -> '' @ desired @ '' classified as '' @ pd_classification st @
           ''; manual approval required'' @
           (case pd_plan_name st of Some n \<Rightarrow> '' - see MigrationPlan apprafter-system/'' @ n | None \<Rightarrow> [])) prior
      | None \<Rightarrow> stack_condition_of (ev_clock env 5) ''MigrationPending'' ''False'' ''Clean'' ''no destructive diff pending'' prior)"

definition cond_synced ::
  "'v env \<Rightarrow> bool \<Rightarrow> string \<Rightarrow> bool \<Rightarrow> bool \<Rightarrow> stack_condition list \<Rightarrow> stack_condition" where
  "cond_synced env patched target values_changed target_changed prior =
     (if patched
      then stack_condition_of (ev_clock env 6) ''Synced'' ''True'' ''Patched''
             (''PlatformController patched parent Application (target='' @ target @ ''); values_changed='' @
              show_bool values_changed @ '', target_changed='' @ show_bool target_changed) prior
      else stack_condition_of (ev_clock env 6) ''Synced'' ''True'' ''Reconciled''
             ''parent Application matches PlatformStack desired state'' prior)"

definition cond_unauthorized :: "'v env \<Rightarrow> string option \<Rightarrow> stack_condition list \<Rightarrow> stack_condition" where
  "cond_unauthorized env foreign prior =
     (case foreign of
        Some f \<Rightarrow> stack_condition_of (ev_clock env 7) ''UnauthorizedSourceModification'' ''True'' ''ForeignFieldManager''
          (''detected external write to spec.source by field manager '' @ debug_str f @ ''; PlatformController force-reverted'') prior
      | None \<Rightarrow> stack_condition_of (ev_clock env 7) ''UnauthorizedSourceModification'' ''False'' ''Clean''
          ''no foreign writer detected on spec.source'' prior)"

definition cond_ready :: "'v env \<Rightarrow> json \<Rightarrow> string \<Rightarrow> stack_condition list \<Rightarrow> stack_condition" where
  "cond_ready env parent target prior =
     (let health = unwrap_or (str_at parent [''status'', ''health'', ''status'']) []
      in if health = ''Healthy''
         then stack_condition_of (ev_clock env 8) ''Ready'' ''True'' ''Healthy''
                ''parent platform Application reports Healthy'' prior
         else stack_condition_of (ev_clock env 8) ''Ready'' ''False'' ''ParentNotHealthy''
                (''parent platform Application health is '' @ debug_str health @ '' (target '' @ target @
                 ''); platform reconciling or degraded'') prior)"

definition set_disk_pressure ::
  "'v env \<Rightarrow> (int \<times> bool) option \<Rightarrow> stack_condition list \<Rightarrow> stack_status \<Rightarrow> stack_status" where
  "set_disk_pressure env disk prior status =
     (case disk of
        Some (pct, warning) \<Rightarrow>
          (let (st, reason, message) = node_disk_pressure_verdict pct warning
           in upsert_condition status (stack_condition_of (ev_clock env 9) ''NodeDiskPressure'' st reason message prior))
      | None \<Rightarrow> status)"

definition set_yanked ::
  "'v env \<Rightarrow> compat_doc option \<Rightarrow> string \<Rightarrow> stack_condition list \<Rightarrow> stack_status \<Rightarrow> stack_status" where
  "set_yanked env doc target prior status =
     (case doc of
        None \<Rightarrow> status
      | Some d \<Rightarrow> upsert_condition status
          (case map_of d target of
             Some r \<Rightarrow>
               if vr_yanked r
               then stack_condition_of (ev_clock env 10) ''YankedVersion'' ''True'' ''Yanked''
                      (''currentVersion '' @ target @ '' is yanked: '' @
                       unwrap_or (vr_yanked_reason r) ''(no reason supplied - see compatibility.yaml)'') prior
               else stack_condition_of (ev_clock env 10) ''YankedVersion'' ''False'' ''NotYanked''
                      ''currentVersion is not marked yanked in compatibility metadata'' prior
           | None \<Rightarrow> stack_condition_of (ev_clock env 10) ''YankedVersion'' ''False'' ''NotYanked''
               ''currentVersion is not marked yanked in compatibility metadata'' prior))"

subsection \<open>The status write\<close>

definition write_stack_status ::
  "answers \<Rightarrow> nat \<Rightarrow> stack_status \<Rightarrow> (stack_error, unit) result \<times> stack_write list" where
  "write_stack_status ans i new_status =
     (case an_server_status ans i of
        Inl e \<Rightarrow> (Inl (SErrKube e), [])
      | Inr server \<Rightarrow>
          (let merged = merge_version_history (unwrap_or (Option.bind server ss_version_history) [])
                 (unwrap_or (ss_version_history new_status) []);
               w = ApplyStatus (platform_controller_view (new_status\<lparr>ss_version_history := Some merged\<rparr>))
           in case an_apply_status ans i of Inl e \<Rightarrow> (Inl (SErrKube e), [w]) | Inr _ \<Rightarrow> (Inr (), [w])))"

definition write_status_if_changed ::
  "answers \<Rightarrow> platform_stack \<Rightarrow> stack_status \<Rightarrow> (stack_error, unit) result \<times> stack_write list" where
  "write_status_if_changed ans stack new_status =
     (let prior = unwrap_or (pk_status stack) default_stack_status;
          prior_view = without_reconcile_stalled prior;
          unchanged = (prior_view = platform_controller_view new_status)
      in if unchanged \<and> \<not> controller_must_reapply stack then (Inr (), [])
         else if controller_must_adopt_first stack new_status
         then (case write_stack_status ans 0 prior_view of
                 (Inl e, ws) \<Rightarrow> (Inl e, ws)
               | (Inr _, ws) \<Rightarrow>
                   if unchanged then (Inr (), ws)
                   else (case write_stack_status ans 1 new_status of (r, ws') \<Rightarrow> (r, ws @ ws')))
         else write_stack_status ans 1 new_status)"

definition parse_check_interval :: "string \<Rightarrow> nat" where
  "parse_check_interval s =
     (if s = [] then 3600
      else case parse_u64 (butlast s) of
        None \<Rightarrow> 3600
      | Some value \<Rightarrow>
          (let sat = (\<lambda>n. min n (2 ^ 64 - 1))
           in if last s = CHR ''s'' then min value 86400
              else if last s = CHR ''m'' then min (sat (value * 60)) 86400
              else if last s = CHR ''h'' then min (sat (value * 3600)) 86400
              else 3600))"

definition sooner :: "nat \<Rightarrow> nat option \<Rightarrow> nat" where
  "sooner requeue recheck = (case recheck of None \<Rightarrow> requeue | Some r \<Rightarrow> min requeue r)"

definition note_bump :: "history_entry list \<Rightarrow> history_entry \<Rightarrow> history_entry list" where
  "note_bump bumps entry = ring (bumps @ [entry])"

definition forget_bumps :: "history_entry list \<Rightarrow> history_entry list \<Rightarrow> history_entry list" where
  "forget_bumps bumps recorded = filter (\<lambda>e. e \<notin> set recorded) bumps"

definition record_bumps :: "history_entry list \<Rightarrow> stack_status \<Rightarrow> stack_status" where
  "record_bumps unrecorded status =
     foldl (\<lambda>st e. if e \<in> set (unwrap_or (ss_version_history st) []) then st else append_version_history st e)
       status unrecorded"

definition assess_backup ::
  "'v env \<Rightarrow> answers \<Rightarrow> stack_spec \<Rightarrow> string option \<Rightarrow> stack_condition list \<Rightarrow> stack_status \<Rightarrow> stack_status \<times> nat option" where
  "assess_backup env ans spec last_prune prior status =
     (let enabled = (case sp_backup spec of None \<Rightarrow> False | Some b \<Rightarrow> bk_enabled b);
          observed = (if enabled
            then unwrap_or (an_observed ans) (Inl ''the apiserver did not answer within 10s'')
            else Inr \<lparr>ob_cronjobs = [], ob_jobs = [], ob_pods = [], ob_runner_status = None, ob_runner_status_error = None\<rparr>);
          health = assess_health (ev_parse_time env) enabled observed prior (ev_now env);
          st1 = apply_verdict (ev_clock env 1) status COND_BACKUP_HEALTHY (as_verdict health) prior;
          retention = assess_retention (ev_parse_time env) (ev_show_f1 env) (sp_backup spec) last_prune observed;
          st2 = apply_verdict (ev_clock env 2) st1 COND_BACKUP_RETENTION retention prior
      in (st2, as_recheck_after health))"

subsection \<open>One pass\<close>

datatype stack_action = StackAwaitChange | StackRequeue nat

record stack_pass =
  pa_writes :: "stack_write list"
  pa_result :: "(stack_error, stack_action) result"
  pa_bumps :: "history_entry list"

text \<open>The part after the version is decided: collection, the parent, the status.\<close>

definition finish_pass ::
  "('v :: linorder) env \<Rightarrow> answers \<Rightarrow> history_entry list \<Rightarrow> platform_stack \<Rightarrow> json \<Rightarrow> string \<Rightarrow> desired_source \<Rightarrow>
   bool \<Rightarrow> latest_answer \<Rightarrow> stack_status \<Rightarrow> nat option \<Rightarrow> target_decision \<Rightarrow> stack_pass" where
  "finish_pass env ans bumps stack parent current desired poll latest status0 recheck td =
     (let spec = pk_spec stack;
          prior = unwrap_or (Option.bind (pk_status stack) ss_conditions) [];
          target = td_target td;
          pending = map_option (\<lambda>m. \<lparr>pu_from = current, pu_to = ds_target_revision desired, pu_class = pd_classification m,
              pu_plan = unwrap_or (pd_plan_name m) (synthesize_platform_plan_name current (ds_target_revision desired))\<rparr>)
            (td_pending td);
          early = gc_writes ans td @ anchor_writes ans pending;
          foreign = detect_outside_writer parent;
          target_changed = (current \<noteq> ds_target_revision desired);
          values_changed = values_differ parent (ds_helm_values desired);
          patched = (target_changed \<or> values_changed \<or> \<not> platform_controller_owns_source parent \<or>
            pending_upgrade_annotations_differ parent pending);
          payload = PatchParent (build_application_patch (desired\<lparr>ds_target_revision := target\<rparr>) pending);
          patches = (if patched \<or> foreign \<noteq> None then [payload] else [])
      in case (if patches = [] then Inr () else an_patch_parent ans) of
           Inl e \<Rightarrow> \<lparr>pa_writes = early @ patches, pa_result = Inl (SErrKube e), pa_bumps = bumps\<rparr>
         | Inr _ \<Rightarrow>
           let noted = (if patches \<noteq> [] \<and> target \<noteq> current
                 then note_bump bumps \<lparr>he_version = target, he_applied_at = ev_now_text env, he_outcome = ''succeeded''\<rparr>
                 else bumps);
               st1 = upsert_condition status0 (cond_upgrade env spec (fst latest) td prior);
               st2 = set_upstream_reachable (ev_clock env 4) st1 poll (td_poll_error td) prior;
               st3 = upsert_condition st2 (cond_migration env current (ds_target_revision desired) td prior);
               st4 = upsert_condition st3 (cond_synced env patched target values_changed target_changed prior);
               st5 = upsert_condition st4 (cond_unauthorized env foreign prior);
               st6 = upsert_condition st5 (cond_ready env parent target prior);
               st7 = set_disk_pressure env (an_disk ans) prior st6;
               st8 = set_yanked env (snd (snd latest)) target prior st7;
               st9 = (record_bumps noted st8)\<lparr>ss_current_version := Some target, ss_target_version := Some target\<rparr>;
               (written, ws) = write_status_if_changed ans stack st9
           in case written of
                Inl e \<Rightarrow> \<lparr>pa_writes = early @ patches @ ws, pa_result = Inl e, pa_bumps = noted\<rparr>
              | Inr _ \<Rightarrow>
                  \<lparr>pa_writes = early @ patches @ ws,
                   pa_result = Inr (StackRequeue (sooner (parse_check_interval (src_check_interval (sp_source spec))) recheck)),
                   pa_bumps = forget_bumps noted noted\<rparr>)"

definition IN_FLIGHT_REQUEUE :: nat where
  "IN_FLIGHT_REQUEUE = 30"

text \<open>After the parent is read: leave a sync in flight alone, or decide and finish.\<close>

definition act_on_parent ::
  "('v :: linorder) env \<Rightarrow> answers \<Rightarrow> history_entry list \<Rightarrow> platform_stack \<Rightarrow> json \<Rightarrow> string \<Rightarrow> desired_source \<Rightarrow>
   bool \<Rightarrow> latest_answer \<Rightarrow> string option \<Rightarrow> stack_status \<Rightarrow> nat option \<Rightarrow> stack_pass" where
  "act_on_parent env ans bumps stack parent current desired poll latest poll_error status0 recheck =
     (if (current \<noteq> ds_target_revision desired \<or> values_differ parent (ds_helm_values desired)) \<and> is_in_flight parent
      then
        (case write_status_if_changed ans stack
             (status0\<lparr>ss_target_version := Some current, ss_current_version := Some current\<rparr>) of
           (Inl e, ws) \<Rightarrow> \<lparr>pa_writes = ws, pa_result = Inl e, pa_bumps = bumps\<rparr>
         | (Inr _, ws) \<Rightarrow>
             \<lparr>pa_writes = ws, pa_result = Inr (StackRequeue (sooner IN_FLIGHT_REQUEUE recheck)), pa_bumps = bumps\<rparr>)
      else
        (case decide_target (ev_upstream env) ans (pk_spec stack) current (ds_target_revision desired) poll_error of
           (Inl e, ws) \<Rightarrow> \<lparr>pa_writes = ws, pa_result = Inl e, pa_bumps = bumps\<rparr>
         | (Inr td, ws) \<Rightarrow>
             let fin = finish_pass env ans bumps stack parent current desired poll latest status0 recheck td
             in fin\<lparr>pa_writes := ws @ pa_writes fin\<rparr>))"

definition stack_reconcile ::
  "('v :: linorder) env \<Rightarrow> answers \<Rightarrow> history_entry list \<Rightarrow> platform_stack \<Rightarrow> stack_pass" where
  "stack_reconcile env ans bumps stack =
     (let stop = (\<lambda>r. \<lparr>pa_writes = [], pa_result = r, pa_bumps = bumps\<rparr>);
          spec = pk_spec stack;
          status = pk_status stack;
          annotation = (\<lambda>k. Option.bind (pk_annotations stack) (\<lambda>a. map_of a k));
          prior = unwrap_or (Option.bind status ss_conditions) [];
          prior_available = Option.bind status ss_available_version;
          poll = should_poll_oci
            (Option.bind (Option.bind status ss_last_upstream_check) (ev_parse_time env)) prior_available
            (Option.bind (annotation ''apprafter.io/recheck-requested'') (ev_parse_time env)) (ev_now env)
      in if pk_name stack \<noteq> SINGLETON_NAME then stop (Inr StackAwaitChange)
         else case detect (ev_upstream env) spec poll prior_available of
           Inl e \<Rightarrow> stop (Inl e)
         | Inr (latest, poll_error) \<Rightarrow>
             (case an_parent ans of
                Inl e \<Rightarrow> stop (Inl (SErrKube e))
              | Inr parent \<Rightarrow>
                  let policy_target = unwrap_or (sp_pin spec) (fst latest);
                      current = unwrap_or (str_at parent [''spec'', ''source'', ''targetRevision'']) [];
                      base = unwrap_or status default_stack_status;
                      stamped = (if fst (snd latest)
                        then base\<lparr>ss_last_upstream_check := Some (ev_now_text env), ss_available_version := Some (fst latest)\<rparr>
                        else base);
                      reachable = set_upstream_reachable (ev_clock env 0) stamped poll poll_error prior;
                      backup = assess_backup env ans spec (annotation ''apprafter.io/last-prune'') prior reachable
                  in act_on_parent env ans bumps stack parent current (build_desired spec policy_target) poll latest
                       poll_error (fst backup) (snd backup)))"

definition stack_error_policy :: "stack_error \<Rightarrow> stack_action" where
  "stack_error_policy err = StackRequeue 60"

text \<open>A pass with the report of its deadline: cut at it, or finished.\<close>

definition reconcile_with_deadline ::
  "string \<Rightarrow> (string, (string \<times> string option option) list) result \<Rightarrow> (nat \<Rightarrow> (string, platform_stack) result) \<Rightarrow>
   platform_stack \<Rightarrow> (stack_error, stack_action) result \<Rightarrow> stack_condition list list" where
  "reconcile_with_deadline now crd answer stack outcome =
     (case outcome of
        Inl SErrTimedOut \<Rightarrow> stall_mark now crd answer stack 120
      | Inr _ \<Rightarrow> stall_clear crd answer stack
      | Inl _ \<Rightarrow> [])"

subsection \<open>What a pass writes\<close>

text \<open>The version a write puts on the parent.\<close>

definition patch_target :: "stack_write \<Rightarrow> string option" where
  "patch_target w = (case w of PatchParent j \<Rightarrow> str_at j [''spec'', ''source'', ''targetRevision''] | _ \<Rightarrow> None)"

lemma patch_target_simps [simp]:
  "patch_target (CreatePlan p) = None" "patch_target (DeletePlan n) = None" "patch_target (PatchAnchor j) = None"
  "patch_target (ApplyStatus st) = None"
  "patch_target (PatchParent (build_application_patch d pending)) = Some (ds_target_revision d)"
  by (simp_all add: patch_target_def build_application_patch_def str_at_def)

lemma build_desired_target [simp]: "ds_target_revision (build_desired spec v) = v"
  by (simp add: build_desired_def Let_def)

lemma decide_with_plan_cases:
  "td_target (decide_with_plan current desired n plan pe) =
     (if plan_phase plan = ''completed'' then desired else current)"
  "td_authorising (decide_with_plan current desired n plan pe) =
     (if plan_phase plan = ''completed'' then Some n else None)"
  "Option.bind (td_pending (decide_with_plan current desired n plan pe)) pd_plan_name =
     (if plan_phase plan = ''completed'' then None else Some n)"
  by (simp_all add: decide_with_plan_def held_def)

text \<open>The parent moves only for a completed plan of this very step, or for a step the upstream calls safe.\<close>

lemma decide_target_bump:
  assumes "decide_target up ans spec current desired pe = (Inr td, ws)" and "td_target td \<noteq> current"
  shows "td_target td = desired \<and> (sp_pin spec \<noteq> None \<or> sp_auto_upgrade spec) \<and>
    ((\<exists>plan. an_plan ans (synthesize_platform_plan_name current desired) = Inr plan \<and> plan_phase plan = ''completed'') \<or>
     up_class up (src_upstream (sp_source spec)) current desired = Some (Inr Safe))"
  using assms
  by (auto simp: decide_target_def decide_unplanned_def decide_with_plan_def held_def Let_def
      split: if_splits sum.splits option.splits change_class.splits)

text \<open>The plan a pass creates is the one for the step it holds back, pending from the start.\<close>

lemma decide_target_creates:
  assumes "decide_target up ans spec current desired pe = (r, ws)" and "w \<in> set ws"
  shows "\<exists>class uid. class \<noteq> Safe \<and> w = CreatePlan (build_platform_migration_plan_cr
    (synthesize_platform_plan_name current desired) current desired class (sp_pin spec) uid)"
  using assms
  by (auto simp: decide_target_def decide_unplanned_def Let_def
      split: if_splits sum.splits option.splits change_class.splits)
    (metis change_class.distinct)+

lemma decide_target_keeps_approval:
  assumes "decide_target up ans spec current desired pe = (Inr td, ws)" and "current \<noteq> desired"
    and "sp_pin spec \<noteq> None \<or> sp_auto_upgrade spec"
    and "an_plan ans (synthesize_platform_plan_name current desired) = Inr plan" and "plan_phase plan = ''completed''"
  shows "td_target td = desired \<and> td_authorising td = Some (synthesize_platform_plan_name current desired) \<and>
         td_pending td = None \<and> ws = []"
  using assms by (auto simp: decide_target_def decide_with_plan_def)

definition is_status :: "stack_write \<Rightarrow> bool" where
  "is_status w \<longleftrightarrow> (\<exists>st. w = ApplyStatus st)"

lemma write_stack_status_writes:
  assumes "w \<in> set (snd (write_stack_status ans i st))"
  shows "\<exists>server. an_server_status ans i = Inr server \<and>
    w = ApplyStatus (platform_controller_view (st\<lparr>ss_version_history := Some (merge_version_history
      (unwrap_or (Option.bind server ss_version_history) []) (unwrap_or (ss_version_history st) []))\<rparr>))"
  using assms by (auto simp: write_stack_status_def Let_def split: sum.splits)

lemma write_status_if_changed_writes:
  assumes "w \<in> set (snd (write_status_if_changed ans stack st))"
  shows "\<exists>i st'. w \<in> set (snd (write_stack_status ans i st'))"
proof -
  have "set (snd (write_status_if_changed ans stack st)) \<subseteq>
      set (snd (write_stack_status ans 0 (without_reconcile_stalled (unwrap_or (pk_status stack) default_stack_status)))) \<union>
      set (snd (write_stack_status ans 1 st))"
    by (auto simp: write_status_if_changed_def Let_def split: if_splits prod.splits sum.splits)
  with assms show ?thesis by blast
qed

lemma status_writes_are_status: "w \<in> set (snd (write_status_if_changed ans stack st)) \<Longrightarrow> is_status w"
  unfolding is_status_def by (meson write_status_if_changed_writes write_stack_status_writes)

text \<open>The shape of the writes after the decision: collection, anchor, at most one write of the parent, the status.\<close>

lemma finish_pass_writes:
  "\<exists>pending patches statuses.
     pa_writes (finish_pass env ans bumps stack parent current desired poll latest st0 recheck td) =
       gc_writes ans td @ anchor_writes ans pending @ patches @ statuses \<and>
     patches \<in> {[], [PatchParent (build_application_patch (desired\<lparr>ds_target_revision := td_target td\<rparr>) pending)]} \<and>
     (current \<noteq> ds_target_revision desired \<longrightarrow> patches \<noteq> []) \<and>
     (\<forall>w \<in> set statuses. is_status w)"
proof -
  define pending where "pending = map_option (\<lambda>m. \<lparr>pu_from = current, pu_to = ds_target_revision desired,
      pu_class = pd_classification m,
      pu_plan = unwrap_or (pd_plan_name m) (synthesize_platform_plan_name current (ds_target_revision desired))\<rparr>) (td_pending td)"
  define patched where "patched = (current \<noteq> ds_target_revision desired \<or> values_differ parent (ds_helm_values desired) \<or>
      \<not> platform_controller_owns_source parent \<or> pending_upgrade_annotations_differ parent pending)"
  define patches where "patches = (if patched \<or> detect_outside_writer parent \<noteq> None
      then [PatchParent (build_application_patch (desired\<lparr>ds_target_revision := td_target td\<rparr>) pending)] else [])"
  have "\<exists>statuses. pa_writes (finish_pass env ans bumps stack parent current desired poll latest st0 recheck td) =
       gc_writes ans td @ anchor_writes ans pending @ patches @ statuses \<and> (\<forall>w \<in> set statuses. is_status w)"
  proof (cases "if patches = [] then Inr () else an_patch_parent ans")
    case (Inl e)
    then show ?thesis
      unfolding finish_pass_def Let_def pending_def [symmetric] patched_def [symmetric] patches_def [symmetric]
      by (intro exI [of _ "[]"]) simp
  next
    case (Inr u)
    show ?thesis
      unfolding finish_pass_def Let_def pending_def [symmetric] patched_def [symmetric] patches_def [symmetric] Inr sum.case
      by (auto split: prod.split sum.split) (metis snd_conv status_writes_are_status)+
  qed
  moreover have "patches \<in> {[], [PatchParent (build_application_patch (desired\<lparr>ds_target_revision := td_target td\<rparr>) pending)]} \<and>
      (current \<noteq> ds_target_revision desired \<longrightarrow> patches \<noteq> [])"
    by (simp add: patches_def patched_def)
  ultimately show ?thesis by blast
qed

text \<open>The parent's version as a pass reads it, and the version the policy asks for.\<close>

definition read_target :: "json \<Rightarrow> string" where
  "read_target parent = unwrap_or (str_at parent [''spec'', ''source'', ''targetRevision'']) []"

definition polls :: "'v env \<Rightarrow> platform_stack \<Rightarrow> bool" where
  "polls env stack =
     should_poll_oci (Option.bind (Option.bind (pk_status stack) ss_last_upstream_check) (ev_parse_time env))
       (Option.bind (pk_status stack) ss_available_version)
       (Option.bind (Option.bind (pk_annotations stack) (\<lambda>a. map_of a ''apprafter.io/recheck-requested'')) (ev_parse_time env))
       (ev_now env)"

definition detected :: "'v env \<Rightarrow> platform_stack \<Rightarrow> (stack_error, latest_answer \<times> string option) result" where
  "detected env stack = detect (ev_upstream env) (pk_spec stack) (polls env stack) (Option.bind (pk_status stack) ss_available_version)"

definition policy_target :: "platform_stack \<Rightarrow> latest_answer \<Rightarrow> string" where
  "policy_target stack latest = unwrap_or (sp_pin (pk_spec stack)) (fst latest)"

lemma reconcile_acts:
  assumes "an_parent ans = Inr parent" and "pk_name stack = SINGLETON_NAME" and "detected env stack = Inr (latest, pe)"
  shows "\<exists>st0 recheck. stack_reconcile env ans bumps stack =
    act_on_parent env ans bumps stack parent (read_target parent)
      (build_desired (pk_spec stack) (policy_target stack latest)) (polls env stack) latest pe st0 recheck"
  using assms
  unfolding stack_reconcile_def Let_def detected_def polls_def [symmetric] read_target_def policy_target_def
  by (simp only: not_True_eq_False if_False sum.case prod.case simp_thms) blast

text \<open>What the gate decides for a parent that is not syncing reaches it: after the decision's own writes, the patch.\<close>

lemma decision_reaches_parent:
  assumes "an_parent ans = Inr parent" and "pk_name stack = SINGLETON_NAME" and "detected env stack = Inr (latest, pe)"
    and "\<not> is_in_flight parent" and "read_target parent \<noteq> policy_target stack latest"
    and dec: "decide_target (ev_upstream env) ans (pk_spec stack) (read_target parent) (policy_target stack latest) pe = (Inr td, ws)"
  shows "\<exists>pending w statuses. pa_writes (stack_reconcile env ans bumps stack) =
      ws @ gc_writes ans td @ anchor_writes ans pending @ [w] @ statuses \<and>
      patch_target w = Some (td_target td) \<and> (\<forall>w \<in> set statuses. is_status w)"
proof -
  let ?des = "build_desired (pk_spec stack) (policy_target stack latest)" and ?cur = "read_target parent"
  obtain st0 recheck where acts: "stack_reconcile env ans bumps stack =
      act_on_parent env ans bumps stack parent ?cur ?des (polls env stack) latest pe st0 recheck"
    using reconcile_acts [OF assms(1-3)] by blast
  have settled: "\<not> ((?cur \<noteq> ds_target_revision ?des \<or> values_differ parent (ds_helm_values ?des)) \<and> is_in_flight parent)"
    using assms(4) by blast
  have "pa_writes (stack_reconcile env ans bumps stack) =
      ws @ pa_writes (finish_pass env ans bumps stack parent ?cur ?des (polls env stack) latest st0 recheck td)"
    unfolding acts act_on_parent_def if_not_P [OF settled] using dec by (simp add: Let_def)
  with finish_pass_writes [of env ans bumps stack parent ?cur ?des "polls env stack" latest st0 recheck td] assms(5)
  show ?thesis by fastforce
qed

text \<open>
  A pass writes only statuses, or it asked the gate: then its writes are those of the
  decision, alone when the decision failed, and followed by the rest otherwise.
\<close>

lemma reconcile_writes:
  assumes "an_parent ans = Inr parent" and "pa_writes (stack_reconcile env ans bumps stack) = writes"
  shows "(\<forall>w \<in> set writes. is_status w) \<or>
    (\<exists>latest pe r ws. detected env stack = Inr (latest, pe) \<and>
       decide_target (ev_upstream env) ans (pk_spec stack) (read_target parent) (policy_target stack latest) pe = (r, ws) \<and>
       (case r of
          Inl e \<Rightarrow> writes = ws
        | Inr td \<Rightarrow> \<exists>pending patches statuses.
            writes = ws @ gc_writes ans td @ anchor_writes ans pending @ patches @ statuses \<and>
            (\<exists>d. patches \<in> {[], [PatchParent (build_application_patch (d\<lparr>ds_target_revision := td_target td\<rparr>) pending)]}) \<and>
            (read_target parent \<noteq> policy_target stack latest \<longrightarrow> patches \<noteq> []) \<and>
            (\<forall>w \<in> set statuses. is_status w)))"
proof (cases "pk_name stack = SINGLETON_NAME")
  case False
  with assms(2) show ?thesis by (auto simp: stack_reconcile_def Let_def)
next
  case True
  show ?thesis
  proof (cases "detected env stack")
    case (Inl e)
    with True assms(2) show ?thesis
      by (auto simp: stack_reconcile_def Let_def detected_def polls_def)
  next
    case (Inr a)
    obtain latest pe where det: "detected env stack = Inr (latest, pe)" using Inr by (cases a) simp
    let ?spec = "pk_spec stack" and ?cur = "read_target parent"
    let ?des = "build_desired ?spec (policy_target stack latest)"
    let ?dec = "decide_target (ev_upstream env) ans ?spec ?cur (policy_target stack latest) pe"
    obtain st0 recheck where
      writes: "writes = pa_writes (act_on_parent env ans bumps stack parent ?cur ?des (polls env stack) latest pe st0 recheck)"
      using assms(2) reconcile_acts [OF assms(1) True det, of bumps] by fastforce
    show ?thesis
    proof (cases "(?cur \<noteq> ds_target_revision ?des \<or> values_differ parent (ds_helm_values ?des)) \<and> is_in_flight parent")
      case True
      then have "writes = snd (write_status_if_changed ans stack (st0\<lparr>ss_target_version := Some ?cur, ss_current_version := Some ?cur\<rparr>))"
        unfolding writes act_on_parent_def by (simp split: prod.split sum.split)
      then show ?thesis using status_writes_are_status by blast
    next
      case False
      obtain r ws where dec: "?dec = (r, ws)" by (metis surj_pair)
      show ?thesis
      proof (cases r)
        case (Inl e)
        with dec have "writes = ws" unfolding writes act_on_parent_def if_not_P [OF False] by simp
        with det dec Inl show ?thesis by auto
      next
        case (Inr td)
        with dec have "writes = ws @ pa_writes (finish_pass env ans bumps stack parent ?cur ?des (polls env stack) latest st0 recheck td)"
          unfolding writes act_on_parent_def if_not_P [OF False] by (simp add: Let_def)
        with finish_pass_writes [of env ans bumps stack parent ?cur ?des "polls env stack" latest st0 recheck td]
        obtain pending patches statuses where shape:
          "writes = ws @ gc_writes ans td @ anchor_writes ans pending @ patches @ statuses"
          "patches \<in> {[], [PatchParent (build_application_patch (?des\<lparr>ds_target_revision := td_target td\<rparr>) pending)]}"
          "?cur \<noteq> policy_target stack latest \<longrightarrow> patches \<noteq> []" "\<forall>w \<in> set statuses. is_status w"
          by auto
        then have "case r of Inl e \<Rightarrow> writes = ws
          | Inr td \<Rightarrow> \<exists>pending patches statuses.
              writes = ws @ gc_writes ans td @ anchor_writes ans pending @ patches @ statuses \<and>
              (\<exists>d. patches \<in> {[], [PatchParent (build_application_patch (d\<lparr>ds_target_revision := td_target td\<rparr>) pending)]}) \<and>
              (?cur \<noteq> policy_target stack latest \<longrightarrow> patches \<noteq> []) \<and> (\<forall>w \<in> set statuses. is_status w)"
          unfolding Inr sum.case by blast
        with det dec show ?thesis by blast
      qed
    qed
  qed
qed

text \<open>Every status a pass applies has one condition per type, not the stall manager's, and at most ten bumps.\<close>

lemma apply_status_well_formed:
  assumes "ApplyStatus st \<in> set (snd (write_status_if_changed ans stack st0))"
  shows "distinct (condition_types (Some st)) \<and> COND_RECONCILE_STALLED \<notin> set (condition_types (Some st)) \<and>
         (\<exists>h. ss_version_history st = Some h \<and> length h \<le> VERSION_HISTORY_CAP)"
proof -
  obtain i st' where "ApplyStatus st \<in> set (snd (write_stack_status ans i st'))"
    using write_status_if_changed_writes [OF assms] by blast
  from write_stack_status_writes [OF this] obtain server :: "stack_status option" where
    "ApplyStatus st = ApplyStatus (platform_controller_view (st'\<lparr>ss_version_history := Some (merge_version_history
      (unwrap_or (Option.bind server ss_version_history) []) (unwrap_or (ss_version_history st') []))\<rparr>))" by blast
  then have st: "st = platform_controller_view (st'\<lparr>ss_version_history := Some (merge_version_history
      (unwrap_or (Option.bind server ss_version_history) []) (unwrap_or (ss_version_history st') []))\<rparr>)" by simp
  have "ss_version_history (platform_controller_view s) = ss_version_history s" for s
    by (simp add: platform_controller_view_def without_reconcile_stalled_def Let_def)
  then show ?thesis
    using view_well_formed ring_le by (auto simp: st merge_version_history_def)
qed

subsection \<open>Plan names\<close>

text \<open>
  Releases of digits and dots have distinct plan names; a dash in a version is read as a dot.
\<close>

definition plain_version :: "string \<Rightarrow> bool" where
  "plain_version v \<longleftrightarrow> list_all (\<lambda>c. is_ascii_digit c \<or> c = CHR ''.'') v"

lemma dashed_inj_plain:
  "plain_version v \<Longrightarrow> plain_version w \<Longrightarrow> dashed v = dashed w \<Longrightarrow> v = w"
proof (induction v arbitrary: w)
  case Nil
  then show ?case by (simp add: dashed_def)
next
  case (Cons c v)
  then obtain d w' where w: "w = d # w'" by (cases w) (simp_all add: dashed_def)
  have "\<not> is_ascii_digit (CHR ''-'')" by code_simp
  then have "c = d" using Cons.prems by (auto simp: w dashed_def plain_version_def split: if_splits)
  with Cons show ?case by (simp add: w dashed_def plain_version_def)
qed

lemma dashed_no_t: "plain_version v \<Longrightarrow> CHR ''t'' \<notin> set (dashed v)"
proof -
  have "\<not> is_ascii_digit (CHR ''t'')" by code_simp
  then show "plain_version v \<Longrightarrow> CHR ''t'' \<notin> set (dashed v)"
    by (auto simp: dashed_def plain_version_def list_all_iff)
qed

lemma platform_plan_name_inj:
  assumes "plain_version a" "plain_version b" "plain_version c" "plain_version d"
    and "synthesize_platform_plan_name a b = synthesize_platform_plan_name c d"
  shows "a = c \<and> b = d"
proof -
  have eq: "(dashed a @ ''-'') @ CHR ''t'' # (''o-'' @ dashed b) = (dashed c @ ''-'') @ CHR ''t'' # (''o-'' @ dashed d)"
    using assms(5) by (simp add: synthesize_platform_plan_name_def)
  have "takeWhile (\<lambda>x. x \<noteq> CHR ''t'') ((dashed v @ ''-'') @ CHR ''t'' # r) = dashed v @ ''-''"
    if "plain_version v" for v r
    using dashed_no_t [OF that] by (intro takeWhile_sep) auto
  with assms(1,3) eq have "dashed a @ ''-'' = dashed c @ ''-''" by metis
  with eq assms show ?thesis by (auto dest: dashed_inj_plain)
qed

lemma prerelease_plan_names_collide:
  "''1.0.0-rc.1'' \<noteq> ''1.0.0-rc-1'' \<and>
   synthesize_platform_plan_name ''0.9.0'' ''1.0.0-rc.1'' = synthesize_platform_plan_name ''0.9.0'' ''1.0.0-rc-1''"
  by code_simp

subsection \<open>Polling\<close>

text \<open>
  A recheck stamped ahead of the operator's clock is not serviced by a poll: until the clock
  passes it every pass polls, however recently the last one did.
\<close>

lemma future_recheck_defeats_throttle:
  "\<lbrakk>checked \<le> now; now < requested\<rbrakk> \<Longrightarrow> should_poll_oci (Some checked) available (Some requested) now"
  by (simp add: should_poll_oci_def)

lemma serviced_recheck_is_throttled:
  "\<lbrakk>requested \<le> checked; checked \<le> now; now < checked + seconds 60\<rbrakk> \<Longrightarrow>
   \<not> should_poll_oci (Some checked) (Some v) (Some requested) now"
  by (simp add: should_poll_oci_def num_seconds_def seconds_def MIN_OCI_POLL_INTERVAL_SECS_def not_le div_less_iff_less_mult)

lemma check_interval_bounded: "parse_check_interval s \<le> 86400"
  by (auto simp: parse_check_interval_def Let_def split: option.split)

subsection \<open>Yanked versions\<close>

text \<open>
  A yank moves an auto-upgrading stack without a plan: when the newest usable version of
  the channel is older than the one that runs (the running one was yanked), the pass puts the
  older version on the parent at once, whatever classes the releases in between carry, and no
  plan is created.
\<close>

lemma yank_rolls_back_ungated:
  assumes "semver_ok sv" and "sv_parse sv current = Some c" and "v < c" and "current \<noteq> sv_show sv v"
    and "resolve_channel_latest sv rc (src_upstream (sp_source spec)) ch = Inr (sv_show sv v, True, d)"
    and "channel_parse (sp_channel spec) = Some ch" and "sp_pin spec = None" and "sp_auto_upgrade spec"
    and "fetch_compatibility_doc sv rc (src_upstream (sp_source spec)) (sv_show sv v) = Inr doc"
    and "an_plan ans (synthesize_platform_plan_name current (sv_show sv v)) = Inl (404, e)"
  shows "detect (oci_registry sv rc) spec True available = Inr ((sv_show sv v, True, d), None) \<and>
    decide_target (oci_registry sv rc) ans spec current (sv_show sv v) None =
      (Inr \<lparr>td_target = sv_show sv v, td_pending = None, td_authorising = None, td_poll_error = None\<rparr>, [])"
proof
  show "detect (oci_registry sv rc) spec True available = Inr ((sv_show sv v, True, d), None)"
    using assms(5,6) by (simp add: detect_def oci_registry_def)
  have "path_max_change_class sv doc current (sv_show sv v) = Safe"
    using assms(1,2,3) by (simp add: path_max_change_class_def semver_ok_def less_imp_le)
  then show "decide_target (oci_registry sv rc) ans spec current (sv_show sv v) None =
      (Inr \<lparr>td_target = sv_show sv v, td_pending = None, td_authorising = None, td_poll_error = None\<rparr>, [])"
    using assms(4,7-10)
    by (simp add: decide_target_def decide_unplanned_def oci_registry_def fetch_path_max_change_class_def)
qed

definition sample_spec :: "string option \<Rightarrow> stack_spec" where
  "sample_spec pin = \<lparr>sp_channel = ''stable'', sp_pin = pin, sp_auto_upgrade = True, sp_default_environment = None,
     sp_network = None, sp_firewall = None, sp_backup = None, sp_resources = None,
     sp_source = \<lparr>src_upstream = ''oci://r/p'', src_repo_url = ''oci://r/p'', src_check_interval = ''6h''\<rparr>,
     sp_values = \<lparr>vl_tier = 1, vl_domain = None, vl_extras = []\<rparr>, sp_overrides = None\<rparr>"

definition sample_registry :: "compat_doc \<Rightarrow> (string, unit) registry" where
  "sample_registry doc = \<lparr>rc_parse = Inr, rc_list = (\<lambda>r i c. Inr []), rc_manifest = (\<lambda>r. Inr (ManifestImage None [()])),
     rc_blob = (\<lambda>r l. Inr r), rc_untar = (\<lambda>b. Inr [Inr (''platform-stack/compatibility.yaml'', Inr b)]),
     rc_yaml = (\<lambda>b. Inr doc)\<rparr>"

definition sample_answers :: "(string \<Rightarrow> (nat \<times> string, migration_plan) result) \<Rightarrow> (string, migration_plan list) result \<Rightarrow> json \<Rightarrow> answers" where
  "sample_answers plan plans parent = \<lparr>an_parent = Inr parent, an_plan = plan, an_anchor = None, an_create = Inr (),
     an_plans = plans, an_anchor_exists = None, an_patch_parent = Inr (), an_server_status = (\<lambda>i. Inr None),
     an_apply_status = (\<lambda>i. Inr ()), an_observed = None, an_disk = None\<rparr>"

definition yanked_release :: compat_doc where
  "yanked_release = [(''0.1.0'', rel_record ''safe'' False), (''0.2.0'', rel_record ''breaking'' True)]"

lemma yank_rolls_back_witness:
  "path_max_change_class text_semver yanked_release ''0.1.0'' ''0.2.0'' = Breaking \<and>
   detect (oci_registry text_semver (sample_registry yanked_release)) (sample_spec None) True None =
     Inr ((''0.1.0'', True, Some yanked_release), None) \<and>
   decide_target (oci_registry text_semver (sample_registry yanked_release))
       (sample_answers (\<lambda>n. Inl (404, ''not found'')) (Inr []) JNull) (sample_spec None) ''0.2.0'' ''0.1.0'' None =
     (Inr \<lparr>td_target = ''0.1.0'', td_pending = None, td_authorising = None, td_poll_error = None\<rparr>, [])"
proof
  show "path_max_change_class text_semver yanked_release ''0.1.0'' ''0.2.0'' = Breaking" by code_simp
  have show_id: "sv_show text_semver ''0.1.0'' = ''0.1.0''" by (simp add: text_semver_def)
  have resolves: "resolve_channel_latest text_semver (sample_registry yanked_release) (src_upstream (sp_source (sample_spec None))) Stable =
      Inr (''0.1.0'', True, Some yanked_release)" by code_simp
  have fetches: "fetch_compatibility_doc text_semver (sample_registry yanked_release) (src_upstream (sp_source (sample_spec None))) ''0.1.0'' =
      Inr yanked_release" by code_simp
  have "''0.1.0'' < ''0.2.0''" by code_simp
  then show "detect (oci_registry text_semver (sample_registry yanked_release)) (sample_spec None) True None =
     Inr ((''0.1.0'', True, Some yanked_release), None) \<and>
   decide_target (oci_registry text_semver (sample_registry yanked_release))
       (sample_answers (\<lambda>n. Inl (404, ''not found'')) (Inr []) JNull) (sample_spec None) ''0.2.0'' ''0.1.0'' None =
     (Inr \<lparr>td_target = ''0.1.0'', td_pending = None, td_authorising = None, td_poll_error = None\<rparr>, [])"
    using yank_rolls_back_ungated [where v = "''0.1.0''" and current = "''0.2.0''" and c = "''0.2.0''" and ch = Stable
        and spec = "sample_spec None" and rc = "sample_registry yanked_release" and sv = text_semver and e = "''not found''"
        and ans = "sample_answers (\<lambda>n. Inl (404, ''not found'')) (Inr []) JNull", unfolded show_id,
        OF text_semver_ok _ _ _ resolves _ _ _ fetches]
    by (simp add: text_semver_def sample_spec_def sample_answers_def channel_parse_def)
qed

end
