(* ===== verification/Platform_Upgrade.thy ===== *)
theory Platform_Upgrade
  imports Platform_Stack Migration_Webhook
begin

text \<open>
  Upgrades of the platform end to end: passes of the controller whose writes land one by one
  or are lost, people and the plan controller moving the phases of plans, and other writers
  creating and deleting plans in between. One pass runs at a time (the stack is a singleton and
  the operator is elected). A log records what happened, newest first. Nobody else writes the
  parent's version: a pass that finds such a write reverts it.
\<close>

subsection \<open>The system\<close>

datatype upgrade_event =
    Started string "string set"
  | Created string
  | Approved string
  | Bumped string string

record upgrade_sys =
  us_target :: string
  us_plans :: "migration_plan list"
  us_queue :: "stack_write list"
  us_log :: "upgrade_event list"

definition named :: "string \<Rightarrow> migration_plan \<Rightarrow> bool" where
  "named n p \<longleftrightarrow> om_name (mp_meta p) = Some n"

text \<open>A write at the apiserver: a second plan of a name is refused, a deletion removes all of it.\<close>

fun land :: "stack_write \<Rightarrow> upgrade_sys \<Rightarrow> upgrade_sys" where
  "land (CreatePlan p) s =
     (case om_name (mp_meta p) of
        None \<Rightarrow> s
      | Some n \<Rightarrow> if \<exists>q \<in> set (us_plans s). named n q then s
          else s\<lparr>us_plans := us_plans s @ [p], us_log := Created n # us_log s\<rparr>)"
| "land (DeletePlan n) s = s\<lparr>us_plans := filter (\<lambda>p. \<not> named n p) (us_plans s)\<rparr>"
| "land (PatchAnchor j) s = s"
| "land (PatchParent j) s =
     (case patch_target (PatchParent j) of
        None \<Rightarrow> s
      | Some t \<Rightarrow> if t = us_target s then s else s\<lparr>us_target := t, us_log := Bumped (us_target s) t # us_log s\<rparr>)"
| "land (ApplyStatus st) s = s"

text \<open>A request whose failure the pass survives.\<close>

fun best_effort :: "stack_write \<Rightarrow> bool" where
  "best_effort (DeletePlan n) = True"
| "best_effort (PatchAnchor j) = True"
| "best_effort _ = False"

text \<open>The answers of a pass are those of the stored objects; what it does not read is arbitrary.\<close>

definition answers_from :: "upgrade_sys \<Rightarrow> answers \<Rightarrow> bool" where
  "answers_from s ans \<longleftrightarrow>
     (\<exists>parent. an_parent ans = Inr parent \<and> read_target parent = us_target s) \<and>
     (\<forall>n p. an_plan ans n = Inr p \<longrightarrow> p \<in> set (us_plans s) \<and> named n p) \<and>
     (\<forall>n e. an_plan ans n = Inl (404, e) \<longrightarrow> \<not> (\<exists>p \<in> set (us_plans s). named n p)) \<and>
     (\<forall>ps. an_plans ans = Inr ps \<longrightarrow> set ps = set (us_plans s))"

definition with_plan_phase :: "string \<Rightarrow> migration_plan \<Rightarrow> migration_plan" where
  "with_plan_phase ph p = p\<lparr>mp_status := Some ((unwrap_or (mp_status p) default_status)\<lparr>st_phase := Some ph\<rparr>)\<rparr>"

definition granted :: "string \<Rightarrow> bool" where
  "granted ph \<longleftrightarrow> ph \<in> {''approved'', ''executing'', ''completed''}"

text \<open>
  The phase of a plan moves as the webhook allows, which lets a plan without a status enter any
  phase. Moving one that had none of the granted phases into one of them is somebody's approval.
\<close>

definition move_phase :: "string \<Rightarrow> string \<Rightarrow> upgrade_sys \<Rightarrow> upgrade_sys" where
  "move_phase n ph s =
     s\<lparr>us_plans := map (\<lambda>p. if named n p then with_plan_phase ph p else p) (us_plans s),
       us_log := (if granted ph \<and> (\<exists>p \<in> set (us_plans s). named n p \<and> \<not> granted (plan_phase p))
                  then Approved n # us_log s else us_log s)\<rparr>"

definition phase_move_ok :: "string \<Rightarrow> string \<Rightarrow> upgrade_sys \<Rightarrow> bool" where
  "phase_move_ok n ph s \<longleftrightarrow>
     (\<exists>p \<in> set (us_plans s). named n p \<and>
        is_allowed_phase_transition (unwrap_or (plan_phase_opt p) []) ph (sc_type (mp_scope (mp_spec p))))"

inductive upgrade_step :: "('v :: linorder) semver \<Rightarrow> upgrade_sys \<Rightarrow> upgrade_sys \<Rightarrow> bool" for sv where
  start: "\<lbrakk>us_queue s = []; answers_from s ans; ev_semver env = sv\<rbrakk> \<Longrightarrow>
     upgrade_step sv s (s\<lparr>us_queue := pa_writes (stack_reconcile env ans bumps stack),
       us_log := Started (us_target s)
         {t. up_class (ev_upstream env) (src_upstream (sp_source (pk_spec stack))) (us_target s) t = Some (Inr Safe)}
         # us_log s\<rparr>)"
| lands: "us_queue s = w # ws \<Longrightarrow> upgrade_step sv s ((land w s)\<lparr>us_queue := ws\<rparr>)"
| lost: "\<lbrakk>us_queue s = w # ws; best_effort w\<rbrakk> \<Longrightarrow> upgrade_step sv s (s\<lparr>us_queue := ws\<rparr>)"
| cut: "upgrade_step sv s (s\<lparr>us_queue := []\<rparr>)"
| phase: "phase_move_ok n ph s \<Longrightarrow> upgrade_step sv s (move_phase n ph s)"
| other_create: "\<lbrakk>mp_status p = None; om_name (mp_meta p) = Some n\<rbrakk> \<Longrightarrow> upgrade_step sv s (land (CreatePlan p) s)"
| other_delete: "upgrade_step sv s (land (DeletePlan n) s)"

definition upgrade_init :: "upgrade_sys \<Rightarrow> bool" where
  "upgrade_init s \<longleftrightarrow> us_plans s = [] \<and> us_queue s = [] \<and> us_log s = []"

definition upgrade_reachable :: "('v :: linorder) semver \<Rightarrow> upgrade_sys \<Rightarrow> bool" where
  "upgrade_reachable sv s \<longleftrightarrow> (\<exists>s0. upgrade_init s0 \<and> (upgrade_step sv)\<^sup>*\<^sup>* s0 s)"

text \<open>Approved, and not created anew since.\<close>

fun approved_since :: "string \<Rightarrow> upgrade_event list \<Rightarrow> bool" where
  "approved_since n [] = False"
| "approved_since n (e # es) = (e = Approved n \<or> e \<noteq> Created n \<and> approved_since n es)"

text \<open>
  A step of versions is authorised by a log when the pass that is running, or ran last, started
  at the first version and was told that the step is safe, or found it approved.
\<close>

fun step_authorised :: "string \<Rightarrow> string \<Rightarrow> upgrade_event list \<Rightarrow> bool" where
  "step_authorised a b [] = False"
| "step_authorised a b (Started c safe # es) = (c = a \<and> (b \<in> safe \<or> approved_since (synthesize_platform_plan_name a b) es))"
| "step_authorised a b (e # es) = step_authorised a b es"

fun all_authorised :: "upgrade_event list \<Rightarrow> bool" where
  "all_authorised [] = True"
| "all_authorised (Bumped a b # es) = (step_authorised a b es \<and> all_authorised es)"
| "all_authorised (e # es) = all_authorised es"

subsection \<open>What a pass can put into the queue\<close>

lemma status_no_patch: "is_status w \<Longrightarrow> patch_target w = None"
  by (auto simp: is_status_def)

lemma gc_no_patch: "w \<in> set (gc_writes ans td) \<Longrightarrow> \<exists>n. w = DeletePlan n"
  by (auto simp: gc_writes_def Let_def split: sum.splits)

lemma anchor_no_patch: "w \<in> set (anchor_writes ans pending) \<Longrightarrow> \<exists>j. w = PatchAnchor j"
  by (auto simp: anchor_writes_def split: option.splits sum.splits bool.splits)

lemma decision_no_patch:
  "decide_target up ans spec current desired pe = (r, ws) \<Longrightarrow> w \<in> set ws \<Longrightarrow>
   \<exists>p. w = CreatePlan p \<and> mp_status p = None"
  using decide_target_creates [of up ans spec current desired pe r ws w]
  by (auto simp: build_platform_migration_plan_cr_def)

lemma pass_patch_shape:
  assumes "an_parent ans = Inr parent"
  shows "\<exists>pre patch post. pa_writes (stack_reconcile env ans bumps stack) = pre @ patch @ post \<and>
    (\<forall>w \<in> set pre \<union> set post. patch_target w = None) \<and>
    (\<forall>p. CreatePlan p \<in> set (pre @ patch @ post) \<longrightarrow> mp_status p = None) \<and> length patch \<le> 1 \<and>
    (patch = [] \<or> (\<exists>w latest pe td ws. patch = [w] \<and> detected env stack = Inr (latest, pe) \<and>
       decide_target (ev_upstream env) ans (pk_spec stack) (read_target parent) (policy_target stack latest) pe = (Inr td, ws) \<and>
       patch_target w = Some (td_target td)))"
  using reconcile_writes [OF assms refl, of env bumps stack]
proof (elim disjE exE conjE)
  assume st: "\<forall>w \<in> set (pa_writes (stack_reconcile env ans bumps stack)). is_status w"
  then have "\<forall>p. CreatePlan p \<notin> set (pa_writes (stack_reconcile env ans bumps stack))"
    by (auto simp: is_status_def)
  with st show ?thesis
    by (intro exI [of _ "pa_writes (stack_reconcile env ans bumps stack)"] exI [of _ "[]"])
      (simp add: status_no_patch)
next
  fix latest pe r ws
  let ?writes = "pa_writes (stack_reconcile env ans bumps stack)"
  assume det: "detected env stack = Inr (latest, pe)"
    and dec: "decide_target (ev_upstream env) ans (pk_spec stack) (read_target parent) (policy_target stack latest) pe = (r, ws)"
    and rest: "case r of Inl e \<Rightarrow> ?writes = ws
      | Inr td \<Rightarrow> \<exists>pending patches statuses.
          ?writes = ws @ gc_writes ans td @ anchor_writes ans pending @ patches @ statuses \<and>
          (\<exists>d. patches \<in> {[], [PatchParent (build_application_patch (d\<lparr>ds_target_revision := td_target td\<rparr>) pending)]}) \<and>
          (read_target parent \<noteq> policy_target stack latest \<longrightarrow> patches \<noteq> []) \<and> (\<forall>w \<in> set statuses. is_status w)"
  have ws: "\<forall>w \<in> set ws. \<exists>p. w = CreatePlan p \<and> mp_status p = None" using decision_no_patch [OF dec] by blast
  show ?thesis
  proof (cases r)
    case (Inl e)
    with rest ws show ?thesis
      by (intro exI [of _ ws] exI [of _ "[]"]) auto
  next
    case (Inr td)
    with rest obtain pending patches statuses d where
      w: "?writes = (ws @ gc_writes ans td @ anchor_writes ans pending) @ patches @ statuses"
      and p: "patches \<in> {[], [PatchParent (build_application_patch (d\<lparr>ds_target_revision := td_target td\<rparr>) pending)]}"
      and st: "\<forall>w \<in> set statuses. is_status w"
      by auto
    have "\<forall>w \<in> set (ws @ gc_writes ans td @ anchor_writes ans pending) \<union> set statuses. patch_target w = None"
      using ws st status_no_patch gc_no_patch anchor_no_patch by fastforce
    moreover have "\<forall>q. CreatePlan q \<in> set ((ws @ gc_writes ans td @ anchor_writes ans pending) @ patches @ statuses) \<longrightarrow>
        mp_status q = None"
      using ws st p gc_no_patch anchor_no_patch by (fastforce simp: is_status_def)
    moreover have "length patches \<le> 1" "patches = [] \<or> (\<exists>w. patches = [w] \<and> patch_target w = Some (td_target td))"
      using p by (auto simp: desired_source.defs)
    ultimately show ?thesis
      using w det dec Inr by blast
  qed
qed

lemma pass_patch:
  assumes "answers_from s ans" and "w \<in> set (pa_writes (stack_reconcile env ans bumps stack))" and "patch_target w = Some t"
  shows "t = us_target s \<or>
    up_class (ev_upstream env) (src_upstream (sp_source (pk_spec stack))) (us_target s) t = Some (Inr Safe) \<or>
    (\<exists>p \<in> set (us_plans s). named (synthesize_platform_plan_name (us_target s) t) p \<and> plan_phase p = ''completed'')"
proof -
  from assms(1) obtain parent where par: "an_parent ans = Inr parent" and cur: "read_target parent = us_target s"
    by (auto simp: answers_from_def)
  from pass_patch_shape [OF par, of env bumps stack] assms(2,3)
  obtain latest pe td ws where
    dec: "decide_target (ev_upstream env) ans (pk_spec stack) (us_target s) (policy_target stack latest) pe = (Inr td, ws)"
    and t: "t = td_target td"
    unfolding cur by fastforce
  show ?thesis
  proof (cases "t = us_target s")
    case False
    with decide_target_bump [OF dec] t assms(1) show ?thesis
      by (auto simp: answers_from_def)
  qed simp
qed

subsection \<open>The invariant\<close>

definition phases_ok :: "upgrade_sys \<Rightarrow> bool" where
  "phases_ok s \<longleftrightarrow> (\<forall>p \<in> set (us_plans s). \<exists>n. named n p \<and> (granted (plan_phase p) \<longrightarrow> approved_since n (us_log s)))"

definition queue_ok :: "upgrade_sys \<Rightarrow> bool" where
  "queue_ok s \<longleftrightarrow>
     (\<forall>w \<in> set (us_queue s). \<forall>t. patch_target w = Some t \<longrightarrow> t = us_target s \<or> step_authorised (us_target s) t (us_log s)) \<and>
     (\<forall>p. CreatePlan p \<in> set (us_queue s) \<longrightarrow> mp_status p = None) \<and>
     length (filter (\<lambda>w. patch_target w \<noteq> None) (us_queue s)) \<le> 1"

definition upgrade_inv :: "upgrade_sys \<Rightarrow> bool" where
  "upgrade_inv s \<longleftrightarrow> phases_ok s \<and> queue_ok s \<and> all_authorised (us_log s)"

lemma new_plan_phase: "mp_status p = None \<Longrightarrow> plan_phase p = ''pending-approval''"
  by (simp add: plan_phase_def)

lemma with_plan_phase_simps [simp]:
  "named n (with_plan_phase ph p) = named n p" "plan_phase (with_plan_phase ph p) = ph"
  by (simp_all add: named_def with_plan_phase_def plan_phase_def)

lemma named_unique: "named n p \<Longrightarrow> named m p \<Longrightarrow> m = n"
  by (simp add: named_def)

lemma phases_ok_log:
  assumes "phases_ok s" and "us_plans s' = us_plans s" and "\<And>n. approved_since n (us_log s) \<Longrightarrow> approved_since n (us_log s')"
  shows "phases_ok s'"
  using assms unfolding phases_ok_def by metis

lemma create_inv:
  assumes "upgrade_inv s" and "mp_status p = None"
  shows "upgrade_inv (land (CreatePlan p) s)"
proof (cases "om_name (mp_meta p)")
  case (Some n)
  show ?thesis
  proof (cases "\<exists>q \<in> set (us_plans s). named n q")
    case False
    have "phases_ok (land (CreatePlan p) s)"
    proof -
      have "named n p" "\<not> granted (plan_phase p)"
        using Some new_plan_phase [OF assms(2)] by (auto simp: named_def granted_def)
      moreover have "\<exists>m. named m q \<and> (granted (plan_phase q) \<longrightarrow> approved_since m (Created n # us_log s))"
        if "q \<in> set (us_plans s)" for q
        using assms(1) that False unfolding upgrade_inv_def phases_ok_def by fastforce
      ultimately show ?thesis using Some False by (auto simp: phases_ok_def)
    qed
    with assms(1) Some False show ?thesis
      by (auto simp: upgrade_inv_def queue_ok_def)
  qed (use assms(1) Some in simp)
qed (use assms(1) in simp)

lemma delete_inv: "upgrade_inv s \<Longrightarrow> upgrade_inv (land (DeletePlan n) s)"
  by (auto simp: upgrade_inv_def phases_ok_def queue_ok_def)

lemma shrink_queue_inv:
  assumes "upgrade_inv s" and "set ws \<subseteq> set (us_queue s)"
    and "length (filter (\<lambda>w. patch_target w \<noteq> None) ws) \<le> 1"
  shows "upgrade_inv (s\<lparr>us_queue := ws\<rparr>)"
  using assms by (auto simp: upgrade_inv_def phases_ok_def queue_ok_def)

lemma patch_inv:
  assumes "upgrade_inv s" and "us_queue s = PatchParent j # ws"
  shows "upgrade_inv ((land (PatchParent j) s)\<lparr>us_queue := ws\<rparr>)"
proof (cases "patch_target (PatchParent j) = None \<or> patch_target (PatchParent j) = Some (us_target s)")
  case True
  then have "land (PatchParent j) s = s" by auto
  with shrink_queue_inv [OF assms(1), of ws] assms show ?thesis
    by (auto simp: upgrade_inv_def queue_ok_def split: if_splits)
next
  case False
  then obtain t where t: "patch_target (PatchParent j) = Some t" and ne: "t \<noteq> us_target s" by auto
  from assms have q: "queue_ok s" by (simp add: upgrade_inv_def)
  with assms(2) t ne have auth: "step_authorised (us_target s) t (us_log s)" by (auto simp: queue_ok_def)
  from q assms(2) t have "filter (\<lambda>w. patch_target w \<noteq> None) ws = []" by (simp add: queue_ok_def)
  then have none: "\<forall>w \<in> set ws. patch_target w = None" by (simp add: filter_empty_conv)
  have "phases_ok ((land (PatchParent j) s)\<lparr>us_queue := ws\<rparr>)"
    by (rule phases_ok_log [of s]) (use assms(1) t ne in \<open>simp_all add: upgrade_inv_def\<close>)
  moreover have "queue_ok ((land (PatchParent j) s)\<lparr>us_queue := ws\<rparr>)"
    using q assms(2) t ne none by (auto simp: queue_ok_def)
  ultimately show ?thesis using assms(1) t ne auth by (simp add: upgrade_inv_def)
qed

lemma inv_queue_cons:
  assumes "upgrade_inv s" and "us_queue s = w # ws"
  shows "upgrade_inv (s\<lparr>us_queue := ws\<rparr>)" and "w = CreatePlan p \<Longrightarrow> mp_status p = None"
proof -
  have q: "queue_ok s" using assms(1) by (simp only: upgrade_inv_def)
  then have one: "length (filter (\<lambda>w. patch_target w \<noteq> None) (us_queue s)) \<le> 1"
    unfolding queue_ok_def by (elim conjE)
  from q have fresh: "\<forall>p. CreatePlan p \<in> set (us_queue s) \<longrightarrow> mp_status p = None"
    unfolding queue_ok_def by (elim conjE)
  have "length (filter (\<lambda>w. patch_target w \<noteq> None) ws) \<le> length (filter (\<lambda>w. patch_target w \<noteq> None) (w # ws))"
    by simp
  also have "\<dots> \<le> 1" using one unfolding assms(2) .
  finally show "upgrade_inv (s\<lparr>us_queue := ws\<rparr>)"
    by (rule shrink_queue_inv [OF assms(1), rotated]) (simp add: assms(2) subset_insertI)
  assume w: "w = CreatePlan p"
  have "w \<in> set (us_queue s)" unfolding assms(2) by (rule list.set_intros(1))
  then show "mp_status p = None" unfolding w by (rule fresh [rule_format])
qed

lemma land_keeps_queue: "us_queue (land w s) = us_queue s"
  by (induction w s rule: land.induct) (simp_all split: option.split)

lemma lands_inv:
  assumes "upgrade_inv s" and "us_queue s = w # ws"
  shows "upgrade_inv ((land w s)\<lparr>us_queue := ws\<rparr>)"
proof (cases w)
  case (CreatePlan p)
  have "upgrade_inv (land w s)"
    unfolding CreatePlan by (rule create_inv [OF assms(1) inv_queue_cons(2) [OF assms CreatePlan]])
  moreover have "us_queue (land w s) = w # ws" by (simp only: land_keeps_queue assms(2))
  ultimately show ?thesis by (rule inv_queue_cons(1))
next
  case (DeletePlan n)
  have "upgrade_inv (land w s)" unfolding DeletePlan by (rule delete_inv [OF assms(1)])
  moreover have "us_queue (land w s) = w # ws" by (simp only: land_keeps_queue assms(2))
  ultimately show ?thesis by (rule inv_queue_cons(1))
next
  case (PatchParent j)
  show ?thesis unfolding PatchParent by (rule patch_inv [OF assms(1)]) (simp only: assms(2) PatchParent)
qed (use inv_queue_cons(1) [OF assms] in simp_all)

lemma start_inv:
  assumes "upgrade_inv s" and "answers_from s ans"
  shows "upgrade_inv (s\<lparr>us_queue := pa_writes (stack_reconcile env ans bumps stack),
     us_log := Started (us_target s)
       {t. up_class (ev_upstream env) (src_upstream (sp_source (pk_spec stack))) (us_target s) t = Some (Inr Safe)} # us_log s\<rparr>)"
    (is "upgrade_inv ?s")
proof -
  obtain parent where par: "an_parent ans = Inr parent" using assms(2) by (auto simp: answers_from_def)
  have "phases_ok ?s" by (rule phases_ok_log [of s]) (use assms(1) in \<open>simp_all add: upgrade_inv_def\<close>)
  moreover have "queue_ok ?s"
  proof -
    have auth: "t = us_target ?s \<or> step_authorised (us_target ?s) t (us_log ?s)"
      if w: "w \<in> set (us_queue ?s)" "patch_target w = Some t" for w t
    proof (rule ccontr)
      assume not: "\<not> ?thesis"
      with pass_patch [OF assms(2), of w env bumps stack t] w obtain p where
        p: "p \<in> set (us_plans s)" "named (synthesize_platform_plan_name (us_target s) t) p" "plan_phase p = ''completed''"
        by auto
      then have "approved_since (synthesize_platform_plan_name (us_target s) t) (us_log s)"
        using assms(1) named_unique by (fastforce simp: upgrade_inv_def phases_ok_def granted_def)
      with not show False by simp
    qed
    obtain pre patch post where
      writes: "pa_writes (stack_reconcile env ans bumps stack) = pre @ patch @ post"
      and none: "\<forall>w \<in> set pre \<union> set post. patch_target w = None"
      and fresh: "\<forall>p. CreatePlan p \<in> set (pre @ patch @ post) \<longrightarrow> mp_status p = None"
      and one: "length patch \<le> 1"
      using pass_patch_shape [OF par, of env bumps stack]
      by (elim exE conjE) (rule that; assumption)
    have queue: "us_queue ?s = pre @ patch @ post" using writes by simp
    have small: "length (filter (\<lambda>w. patch_target w \<noteq> None) (us_queue ?s)) \<le> 1"
    proof -
      have "filter (\<lambda>w. patch_target w \<noteq> None) pre = []" "filter (\<lambda>w. patch_target w \<noteq> None) post = []"
        using none by (auto simp: filter_empty_conv)
      then have "filter (\<lambda>w. patch_target w \<noteq> None) (us_queue ?s) = filter (\<lambda>w. patch_target w \<noteq> None) patch"
        unfolding queue by simp
      with one show ?thesis using length_filter_le order_trans by metis
    qed
    have "\<forall>p. CreatePlan p \<in> set (us_queue ?s) \<longrightarrow> mp_status p = None"
      unfolding queue by (rule fresh)
    with auth small show ?thesis unfolding queue_ok_def by (intro conjI ballI allI impI) (assumption | blast)+
  qed
  ultimately show ?thesis using assms(1) by (simp add: upgrade_inv_def)
qed

lemma move_phase_inv:
  assumes "upgrade_inv s"
  shows "upgrade_inv (move_phase n ph s)"
proof -
  have "\<exists>m. named m p \<and> (granted (plan_phase p) \<longrightarrow> approved_since m (us_log (move_phase n ph s)))"
    if p: "p \<in> set (us_plans (move_phase n ph s))" for p
  proof -
    from p obtain q where q: "q \<in> set (us_plans s)" "p = (if named n q then with_plan_phase ph q else q)"
      by (auto simp: move_phase_def)
    from assms q(1) obtain m where m: "named m q" "granted (plan_phase q) \<longrightarrow> approved_since m (us_log s)"
      by (auto simp: upgrade_inv_def phases_ok_def)
    show ?thesis
    proof (cases "named n q")
      case True
      with m have "m = n" by (simp add: named_def)
      with True q m show ?thesis by (auto simp: move_phase_def)
    next
      case False
      with q m show ?thesis by (auto simp: move_phase_def)
    qed
  qed
  then have "phases_ok (move_phase n ph s)" by (auto simp: phases_ok_def)
  moreover have "queue_ok (move_phase n ph s) \<and> all_authorised (us_log (move_phase n ph s))"
    using assms by (auto simp: upgrade_inv_def queue_ok_def move_phase_def)
  ultimately show ?thesis by (simp add: upgrade_inv_def)
qed

lemma upgrade_step_inv: "upgrade_step sv s s' \<Longrightarrow> upgrade_inv s \<Longrightarrow> upgrade_inv s'"
proof (induction rule: upgrade_step.induct)
  case (start s ans env bumps stack)
  then show ?case using start_inv by blast
next
  case (lands s w ws)
  then show ?case using lands_inv by blast
next
  case (lost s w ws)
  then show ?case using inv_queue_cons(1) by blast
next
  case (cut s)
  then show ?case using shrink_queue_inv [of s "[]"] by simp
next
  case (phase n ph s)
  then show ?case using move_phase_inv by blast
next
  case (other_create p n s)
  then show ?case using create_inv by blast
next
  case (other_delete s n)
  then show ?case using delete_inv by blast
qed

lemma upgrade_reachable_inv: "upgrade_reachable sv s \<Longrightarrow> upgrade_inv s"
proof -
  assume "upgrade_reachable sv s"
  then obtain s0 where "upgrade_init s0" and "(upgrade_step sv)\<^sup>*\<^sup>* s0 s" by (auto simp: upgrade_reachable_def)
  from this(2,1) show ?thesis
  proof (induction rule: rtranclp_induct)
    case base
    then show ?case by (simp add: upgrade_init_def upgrade_inv_def phases_ok_def queue_ok_def)
  next
    case (step s' s'')
    then show ?case using upgrade_step_inv by blast
  qed
qed

lemma all_authorised_split: "all_authorised (post @ Bumped a b # pre) \<Longrightarrow> step_authorised a b pre"
proof (induction post)
  case (Cons e post)
  then show ?case by (cases e) simp_all
qed simp

lemma step_authorised_split:
  "step_authorised a b log \<Longrightarrow> \<exists>mid safe rest. log = mid @ Started a safe # rest \<and>
     (\<forall>e \<in> set mid. \<nexists>c S. e = Started c S) \<and>
     (b \<in> safe \<or> approved_since (synthesize_platform_plan_name a b) rest)"
proof (induction log)
  case (Cons e log)
  show ?case
  proof (cases "\<exists>c S. e = Started c S")
    case True
    with Cons.prems show ?thesis by (intro exI [of _ "[]"]) auto
  next
    case False
    with Cons.prems have "step_authorised a b log" by (cases e) auto
    with Cons.IH obtain mid safe rest where "log = mid @ Started a safe # rest"
      "\<forall>e \<in> set mid. \<nexists>c S. e = Started c S" "b \<in> safe \<or> approved_since (synthesize_platform_plan_name a b) rest"
      by blast
    with False show ?thesis by (intro exI [of _ "e # mid"] exI [of _ safe] exI [of _ rest]) auto
  qed
qed simp

text \<open>
  C7. The platform never moves past the gate: however passes are cut or their writes lost, and
  whatever others do to plans meanwhile, every move of the parent from one version to another
  was made by a pass that started at the first version, and when that pass started either the
  upstream called the whole step safe, or the plan bearing the name of this step had been
  approved since it was last created.
\<close>

theorem upgrade_is_safe_or_approved:
  assumes "upgrade_reachable sv s" and "us_log s = post @ Bumped a b # pre"
  shows "\<exists>mid safe rest. pre = mid @ Started a safe # rest \<and> (\<forall>e \<in> set mid. \<nexists>c S. e = Started c S) \<and>
           (b \<in> safe \<or> approved_since (synthesize_platform_plan_name a b) rest)"
  using upgrade_reachable_inv [OF assms(1)] assms(2)
  by (intro step_authorised_split all_authorised_split [of post]) (simp add: upgrade_inv_def)

text \<open>A run with one safe step: the pass pins the next release, and its patch lands.\<close>

definition sample_parent :: "string \<Rightarrow> json" where
  "sample_parent v = JObject [(''spec'', JObject [(''source'', JObject [(''targetRevision'', JString v)])])]"

definition safe_release :: compat_doc where
  "safe_release = [(''0.1.0'', rel_record ''safe'' False), (''0.2.0'', rel_record ''safe'' False)]"

definition sample_env :: "compat_doc \<Rightarrow> string env" where
  "sample_env doc = \<lparr>ev_semver = text_semver, ev_upstream = oci_registry text_semver (sample_registry doc),
     ev_parse_time = (\<lambda>s. None), ev_show_f1 = (\<lambda>a b. []), ev_now = 0, ev_now_text = ''now'', ev_clock = (\<lambda>i. ''now'')\<rparr>"

definition sample_stack :: "string option \<Rightarrow> platform_stack" where
  "sample_stack pin = \<lparr>pk_name = SINGLETON_NAME, pk_annotations = None, pk_managed_fields = None,
     pk_spec = sample_spec pin, pk_status = None\<rparr>"

definition empty_answers :: "string \<Rightarrow> answers" where
  "empty_answers v = sample_answers (\<lambda>n. Inl (404, ''not found'')) (Inr []) (sample_parent v)"

definition sample_pass :: "stack_write list" where
  "sample_pass = pa_writes (stack_reconcile (sample_env safe_release) (empty_answers ''0.1.0'') [] (sample_stack (Some ''0.2.0'')))"

lemma sample_decision:
  "decide_target (oci_registry text_semver (sample_registry safe_release)) (empty_answers ''0.1.0'')
     (sample_spec (Some ''0.2.0'')) ''0.1.0'' ''0.2.0'' None =
   (Inr \<lparr>td_target = ''0.2.0'', td_pending = None, td_authorising = None, td_poll_error = None\<rparr>, [])"
  by code_simp

lemma sample_detected:
  "detected (sample_env safe_release) (sample_stack (Some ''0.2.0'')) = Inr ((''0.2.0'', True, Some safe_release), None)"
  by code_simp

lemma sample_pass_first: "\<exists>w ws. sample_pass = w # ws \<and> patch_target w = Some ''0.2.0''"
proof -
  have cur: "read_target (sample_parent ''0.1.0'') = ''0.1.0''" and settled: "\<not> is_in_flight (sample_parent ''0.1.0'')"
    by (simp_all add: read_target_def sample_parent_def str_at_def is_in_flight_def)
  have par: "an_parent (empty_answers ''0.1.0'') = Inr (sample_parent ''0.1.0'')"
    and quiet: "gc_writes (empty_answers ''0.1.0'') td = []" "anchor_writes (empty_answers ''0.1.0'') pending = []" for td pending
    by (simp_all add: empty_answers_def sample_answers_def gc_writes_def anchor_writes_def superseded_platform_plan_names_def
        split: option.split)
  have sample: "ev_upstream (sample_env safe_release) = oci_registry text_semver (sample_registry safe_release)"
    "pk_spec (sample_stack pin) = sample_spec pin" "pk_name (sample_stack pin) = SINGLETON_NAME"
    "policy_target (sample_stack (Some ''0.2.0'')) latest = ''0.2.0''" for pin latest
    by (simp_all add: sample_env_def sample_stack_def policy_target_def sample_spec_def)
  show ?thesis
    using decision_reaches_parent [OF par sample(3) sample_detected settled, of "\<lparr>td_target = ''0.2.0'', td_pending = None,
        td_authorising = None, td_poll_error = None\<rparr>" "[]" "[]"] sample_decision
    by (auto simp: sample cur quiet sample_pass_def)
qed

lemma one_safe_step_reachable:
  "\<exists>s safe. upgrade_reachable text_semver s \<and> us_log s = [Bumped ''0.1.0'' ''0.2.0'', Started ''0.1.0'' safe]"
proof -
  let ?s0 = "\<lparr>us_target = ''0.1.0'', us_plans = [], us_queue = [], us_log = []\<rparr>"
  obtain w ws where first: "sample_pass = w # ws" "patch_target w = Some ''0.2.0''"
    using sample_pass_first by blast
  then obtain j where j: "w = PatchParent j" by (cases w) auto
  have "answers_from ?s0 (empty_answers ''0.1.0'')"
    by (simp add: answers_from_def empty_answers_def sample_answers_def sample_parent_def read_target_def str_at_def)
  then obtain safe where "upgrade_step text_semver ?s0 (?s0\<lparr>us_queue := sample_pass, us_log := [Started ''0.1.0'' safe]\<rparr>)"
    using upgrade_step.start [of ?s0 "empty_answers ''0.1.0''" "sample_env safe_release" text_semver "sample_stack (Some ''0.2.0'')" "[]"]
    by (auto simp: sample_pass_def sample_env_def)
  moreover have "upgrade_step text_semver (?s0\<lparr>us_queue := sample_pass, us_log := [Started ''0.1.0'' safe]\<rparr>)
      ((land w (?s0\<lparr>us_queue := sample_pass, us_log := [Started ''0.1.0'' safe]\<rparr>))\<lparr>us_queue := ws\<rparr>)"
    by (rule upgrade_step.lands) (simp add: first)
  ultimately have "(upgrade_step text_semver)\<^sup>*\<^sup>* ?s0
      ((land w (?s0\<lparr>us_queue := sample_pass, us_log := [Started ''0.1.0'' safe]\<rparr>))\<lparr>us_queue := ws\<rparr>)" by simp
  moreover have "us_log ((land w (?s0\<lparr>us_queue := sample_pass, us_log := [Started ''0.1.0'' safe]\<rparr>))\<lparr>us_queue := ws\<rparr>)
      = [Bumped ''0.1.0'' ''0.2.0'', Started ''0.1.0'' safe]"
    using first(2) j by simp
  moreover have "upgrade_init ?s0" by (simp add: upgrade_init_def)
  ultimately show ?thesis unfolding upgrade_reachable_def by blast
qed

theorem upgrade_is_safe_or_approved_witness:
  "\<exists>s pre mid safe rest. upgrade_reachable text_semver s \<and> us_log s = [] @ Bumped ''0.1.0'' ''0.2.0'' # pre \<and>
     pre = mid @ Started ''0.1.0'' safe # rest \<and>
     (''0.2.0'' \<in> safe \<or> approved_since (synthesize_platform_plan_name ''0.1.0'' ''0.2.0'') rest)"
proof -
  obtain s safe where r: "upgrade_reachable text_semver s"
    and l: "us_log s = [] @ Bumped ''0.1.0'' ''0.2.0'' # [Started ''0.1.0'' safe]"
    using one_safe_step_reachable by auto
  from upgrade_is_safe_or_approved [OF r l] r l show ?thesis by blast
qed

subsection \<open>An approved upgrade happens\<close>

lemma gc_keeps_authorising:
  "td_pending td = None \<Longrightarrow> td_authorising td = Some n \<Longrightarrow> DeletePlan n \<notin> set (gc_writes ans td)"
  by (auto simp: gc_writes_def Let_def superseded_platform_plan_names_def List.map_filter_def
      split: sum.splits bind_splits if_splits)

text \<open>
  C8. An approved upgrade happens: a pass that finds the plan of the wanted step completed and
  the parent settled writes the wanted version to the parent. All it writes before are
  deletions of other plans and the annotations of the anchor, whose failures it survives; the
  plan that authorises the step is not among the deletions.
\<close>

theorem completed_plan_moves_parent:
  assumes "pk_name stack = SINGLETON_NAME" and "detected env stack = Inr (latest, pe)"
    and "an_parent ans = Inr parent" and "\<not> is_in_flight parent" and "read_target parent \<noteq> policy_target stack latest"
    and "sp_pin (pk_spec stack) \<noteq> None \<or> sp_auto_upgrade (pk_spec stack)"
    and "an_plan ans (synthesize_platform_plan_name (read_target parent) (policy_target stack latest)) = Inr plan"
    and "plan_phase plan = ''completed''"
  shows "\<exists>pre w post. pa_writes (stack_reconcile env ans bumps stack) = pre @ w # post \<and>
    patch_target w = Some (policy_target stack latest) \<and> (\<forall>v \<in> set post. is_status v) \<and>
    (\<forall>v \<in> set pre. best_effort v \<and>
       v \<noteq> DeletePlan (synthesize_platform_plan_name (read_target parent) (policy_target stack latest)))"
proof -
  obtain r ws where dec: "decide_target (ev_upstream env) ans (pk_spec stack) (read_target parent) (policy_target stack latest) pe = (r, ws)"
    by (metis surj_pair)
  with assms(5-7) obtain td where td: "r = Inr td"
    by (auto simp: decide_target_def)
  note kept = decide_target_keeps_approval [OF dec [unfolded td] assms(5-8)]
  from decision_reaches_parent [OF assms(3,1,2,4,5) dec [unfolded td], of bumps] kept
  obtain pending w statuses where
    writes: "pa_writes (stack_reconcile env ans bumps stack) = (gc_writes ans td @ anchor_writes ans pending) @ w # statuses"
    and w: "patch_target w = Some (policy_target stack latest)" "\<forall>v \<in> set statuses. is_status v"
    by auto
  have "best_effort v \<and> v \<noteq> DeletePlan (synthesize_platform_plan_name (read_target parent) (policy_target stack latest))"
    if "v \<in> set (gc_writes ans td @ anchor_writes ans pending)" for v
    using that gc_no_patch [of v ans td] anchor_no_patch [of v ans pending] gc_keeps_authorising kept by fastforce
  with writes w show ?thesis by blast
qed

definition breaking_release :: compat_doc where
  "breaking_release = [(''0.1.0'', rel_record ''safe'' False), (''0.2.0'', rel_record ''breaking'' False)]"

definition completed_plan :: migration_plan where
  "completed_plan = with_plan_phase ''completed''
     (build_platform_migration_plan_cr (synthesize_platform_plan_name ''0.1.0'' ''0.2.0'') ''0.1.0'' ''0.2.0'' Breaking None None)"

definition planned_answers :: answers where
  "planned_answers = sample_answers (\<lambda>n. Inr completed_plan) (Inr [completed_plan]) (sample_parent ''0.1.0'')"

theorem completed_plan_moves_parent_witness:
  "path_max_change_class text_semver breaking_release ''0.1.0'' ''0.2.0'' = Breaking \<and>
   (\<exists>pre w post. pa_writes (stack_reconcile (sample_env breaking_release) planned_answers [] (sample_stack (Some ''0.2.0''))) =
      pre @ w # post \<and> patch_target w = Some ''0.2.0'')"
proof
  show "path_max_change_class text_semver breaking_release ''0.1.0'' ''0.2.0'' = Breaking" by code_simp
  have det: "detected (sample_env breaking_release) (sample_stack (Some ''0.2.0'')) =
      Inr ((''0.2.0'', True, Some breaking_release), None)" by code_simp
  have cur: "read_target (sample_parent ''0.1.0'') = ''0.1.0''" and settled: "\<not> is_in_flight (sample_parent ''0.1.0'')"
    by (simp_all add: read_target_def sample_parent_def str_at_def is_in_flight_def)
  have want: "policy_target (sample_stack (Some ''0.2.0'')) l = ''0.2.0''" for l
    by (simp add: policy_target_def sample_stack_def sample_spec_def)
  show "\<exists>pre w post. pa_writes (stack_reconcile (sample_env breaking_release) planned_answers [] (sample_stack (Some ''0.2.0''))) =
      pre @ w # post \<and> patch_target w = Some ''0.2.0''"
    using completed_plan_moves_parent [OF _ det, of planned_answers "sample_parent ''0.1.0''" completed_plan "[]"]
    unfolding cur want
    by (simp add: settled planned_answers_def sample_answers_def sample_stack_def sample_spec_def completed_plan_def) blast
qed

end
