(* ===== verification/Spec2Isabelle.thy ===== *)
theory Spec2Isabelle
  imports Gate_System Image_Resolve Leader Scheduler App_Claims Pg_Collect Nats_Streams Backup_Restore Platform_Upgrade
begin

text \<open>
  A verification development of the AppRafter operator.

  AppRafter runs applications on Kubernetes from one resource, the Application. The operator
  (\<open>src/operator\<close>) is a set of controllers that share the apiserver as their state, and an
  admission webhook that guards what others may write. The parts modelled here:

  \<^item> The \<^emph>\<open>migration gate\<close>. A change of an Application that can lose data or widen what it
    reaches is written to a MigrationPlan, and the children are not written until that plan
    is approved and executed. \<open>Migration_Types\<close> (\<open>operator-core/src/migration_plan.rs\<close>,
    \<open>migration.rs\<close>) has the resource and the approval hash, \<open>Migration_State\<close>
    (\<open>migration_state.rs\<close>) the pure decision, \<open>Migration_Detect\<close> and \<open>Migration_Strategy\<close>
    (\<open>operator-controllers/migration/src/strategy.rs\<close>) the classifier, one definition per
    trigger of \<open>detect_all\<close>, the plans and the three strategies, \<open>Migration_Controller\<close>
    (\<open>migration/src/reconcile.rs\<close>) the controller of the plans, \<open>Migration_Webhook\<close>
    (\<open>admission-webhook/src/validator_migrationplan.rs\<close>) who may write them, \<open>App_Gate\<close>
    (\<open>operator-controllers/application/src/lib.rs\<close>, \<open>reconcile\<close>) the gate in the Application
    controller, and \<open>Gate_System\<close> all of them interleaved: edits, passes that stop after any
    request, approvals and controller runs.
  \<^item> The \<^emph>\<open>Application resource\<close>: \<open>App_Types\<close> (\<open>operator-core/src/application.rs\<close>) and
    \<open>Effective_Spec\<close> (\<open>operator-rendering/src/lib.rs\<close>), the spec of one environment.
  \<^item> \<^emph>\<open>Image resolution\<close>: \<open>Image_Resolve\<close> (\<open>application/src/oci_resolve.rs\<close> and the image
    part of \<open>reconcile\<close>), tags to digests, pins and the rollback target.
  \<^item> \<^emph>\<open>Needs and claims\<close>: \<open>Needs_Admission\<close> (\<open>admission-webhook/src/validator.rs\<close>) the rules
    on names and disks, \<open>App_Claims\<close> (\<open>application/src/lib.rs\<close>) the claims an Application
    creates, prunes and waits for, \<open>Scheduler\<close> (\<open>operator-core/src/matching.rs\<close>,
    \<open>resourceclaim-scheduler/src/reconcile.rs\<close>) their provider; \<open>Claim_Types\<close> has the
    resources and \<open>Names\<close> the folding of names that all of them share.
  \<^item> \<^emph>\<open>Numbered databases\<close>: \<open>Dragonfly\<close> (\<open>resourceclaim-provisioner/src/dragonfly.rs\<close>,
    \<open>cnpg.rs\<close>) allocation, the holder check, ACL users and the ACL file; \<open>Keyspace\<close>
    (\<open>reconcile.rs\<close>, \<open>gc.rs\<close>, \<open>shared_database.rs\<close>) provisioning, retention and collection
    of all owners as one system.
  \<^item> \<^emph>\<open>Shared backends\<close> (\<open>resourceclaim-provisioner/src\<close>): \<open>Reaper\<close> (\<open>reaper.rs\<close>) the sweep
    that deletes instances nobody uses; \<open>Api_Server\<close> the requests of the provisioner and the
    collector with their conflicts and lost replies; \<open>Pg_Roles\<close> (\<open>cnpg.rs\<close>, the loops of
    \<open>reconcile.rs\<close> and \<open>gc.rs\<close>) the role list all claims of a Postgres cluster share;
    \<open>Pg_Collect\<close> (\<open>reconcile.rs\<close>, \<open>gc.rs\<close>, \<open>grace.rs\<close>) a Postgres claim from provisioning to
    the phased drop; \<open>Nats_Accounts\<close> (\<open>nats_accounts.rs\<close>, \<open>nats.rs\<close>) permissions, quotas and
    the accounts file; \<open>Nats_Streams\<close> (\<open>nats.rs\<close>, \<open>gc.rs\<close>) what is concluded from the streams
    observed and what is deleted for an application that is gone.
  \<^item> The \<^emph>\<open>platform itself\<close> (\<open>operator-controllers/platform-stack/src\<close>): \<open>Platform_Version\<close>
    (\<open>oci.rs\<close>, \<open>compatibility.rs\<close> and the resolvers of \<open>reconcile.rs\<close>) channels, tags and the
    class of a step of versions; \<open>Platform_Types\<close> (\<open>operator-core/src/platform_stack.rs\<close>,
    \<open>status.rs\<close>, \<open>desired.rs\<close>, \<open>stall.rs\<close>) the PlatformStack, its status and who owns its
    conditions; \<open>Backup_Health\<close> (\<open>backup_health.rs\<close>, \<open>backup_retention.rs\<close>) the two conditions
    on backups; \<open>Platform_Stack\<close> (\<open>reconcile.rs\<close>) one pass of the controller; and
    \<open>Platform_Upgrade\<close> passes, lost writes, approvals and other writers interleaved.
  \<^item> \<^emph>\<open>Backups\<close> (\<open>src/cli/backup-core/src\<close>): \<open>Backup_Prune\<close> (\<open>cluster.rs\<close>, \<open>prune.rs\<close>,
    \<open>restic.rs\<close>) which runs the keep policy keeps and the session that forgets the others;
    \<open>Backup_Restore\<close> (\<open>restore.rs\<close>) the run a restore starts from.
  \<^item> \<^emph>\<open>Leader election\<close>: \<open>Leader\<close> (\<open>operator-core/src/leader.rs\<close>) and \<open>K8s_Time\<close>
    (\<open>k8s_time.rs\<close>).

  \<^bold>\<open>The library.\<close> \<open>Prelude\<close> and \<open>Json\<close> have what the source takes from Rust: ordered maps as
  sorted association lists (locale \<open>ordered_map\<close>, interpreted on them), stable sorting by a
  total preorder (locales \<open>total_preorder\<close>, \<open>total_order_on_keys\<close>, interpreted on the orders of
  candidates, severities, claims, backup runs and Jobs), splitting of strings, results, JSON
  values. The contract of a migration strategy is the locale \<open>migration_strategy\<close>, interpreted
  on the strategies whose execution and rejection succeed at once. Every writer of a role list
  is an interpretation of \<open>role_transform\<close> or \<open>role_upsert\<close>, and what the theorems on
  permissions need of the NATS matcher is the locale \<open>nats_server\<close>, interpreted on the matcher
  of \<open>nats.rs\<close>.

  \<^bold>\<open>How the model corresponds to the code.\<close> A struct is a record and an enum a datatype with
  the fields and constructors of the source. A pass of a controller is a function from what
  it reads to the writes it makes, or to the stored objects after it, with each early return
  and each failing request as a branch. Where passes of several controllers meet, a step
  relation interleaves them. An apply (server-side apply under one field manager) removes the
  fields it leaves out. A \<open>u8\<close>, \<open>u16\<close> or \<open>u64\<close> whose wrap-around matters is a word of that
  width; times are integers, in nanoseconds unless a theory says otherwise.

  \<^bold>\<open>What is shown.\<close>

  \<^item> The gate of Applications: end to end safety and liveness; exact characterisations of what
    the classifier and the webhook let through; that no status write loses the record of what
    runs, that a plan is executed in order to its end, that the effective spec is the overlay
    of its override, and that a rollback target survives.
  \<^item> The platform: every change of its version was classified safe as a whole or approved, for
    any interleaving, and an approved one is carried out; the class of a step is the strictest
    of its legs; listing tags ends and is complete; healthy backups are reported exactly when
    the observed runs are quiet and one has succeeded.
  \<^item> Leader election: mutual exclusion.
  \<^item> Claims: claims of others are spared, a provider is chosen independently of order,
    scheduling settles; no owner of a numbered database destroys or shares the data of another,
    the ACL file reads back; an instance is reaped only after a full dwell without use; writers
    of a role list keep the entries of the others, a role is dropped in order and the
    collection ends; streams of neighbours are out of reach and no sweep asks to delete them,
    whatever fails in it; quotas hold.
  \<^item> Backups: a prune forgets whole runs that the policy keeps for no period, only after it saw
    them go, and the latest run a restore takes is complete and survives a prune.

  Some theorems state what the code does where this is not what its comments say: the claim
  that is lost to a finalizing collection, the dead-letter stream that outlives its claim, and
  lemmas beside them such as \<open>yank_rolls_back_ungated\<close>, \<open>prerelease_plan_names_collide\<close>,
  \<open>stale_read_revives_dropped_entry\<close> and \<open>unnamed_disks_share_one_volume\<close>.

  \<^bold>\<open>Parameters and assumptions.\<close> The JSON printer and SHA-256 are parameters of the approval
  hash (injective where a theorem needs it); so are the HTTP and registry clients, the readers
  of archives and YAML, the version parser (a parsed version prints back), the grammar of image
  references (with the law that a parsed reference prints back), base64 and RFC 3339 parsers,
  the calendar, the arithmetic of \<open>f64\<close>, the range of the Kubernetes time library, and
  \<open>restic\<close>, a function of the commands sent so far. Strings are ASCII: trimming and folding
  act on bytes, and dashes and arrows in messages are written in ASCII. JSON numbers are their
  text. A pass reads the object as it is stored when the pass starts. Leader election assumes
  punctual timers, bounded clock skew and that only electors write the Lease. The numbered
  databases assume that the names of snapshots of different claims differ, that the status
  writes of one object take effect in the order they were sent, that a shared cache goes on with
  a number it already has only when no write of its own is outstanding and turns ready only
  after a check, and that an object is not removed while the write that makes it ready is
  outstanding; the flushes that nothing orders against the other owners, of abandoned passes
  and of collections whose snapshot was deleted meanwhile, are in the runs and are named in the
  theorem. Upgrades of the platform
  assume one pass at a time and no other writer of the parent's version. Loops of the source
  are structural recursion here, with the page ceiling and the retries of the source as their
  bounds, so no fuel is used; the runs of step relations are unbounded.

  \<^bold>\<open>Not modelled.\<close> The rendering of Deployments, Services, routes and policies, which builds
  objects as JSON; events, metrics, logging and watches, which no decision reads; the deadline
  around a pass, except for the condition the platform controller reports it with; the raw JSON
  fallbacks of \<open>validator.rs\<close> and its remaining rules, stateless checks of single fields; the
  objects of volumes and the SharedVolume, binding to shared databases, pull secrets and the
  SourceCredential controller apart from its classifier; the extraction of data by a backup;
  and the command line tools under \<open>src/cli\<close> other than the backup core.
\<close>

end
